(* ===== verification/GoText.thy ===== *)
theory GoText
  imports Prelude
begin

text \<open>
  The part of Go's string, \<open>unicode/utf8\<close>, \<open>strings\<close>, \<open>strconv\<close> and
  \<open>path\<close> packages the program uses.  A Go string is its bytes: the type
  \<open>string\<close> (a list of \<open>char\<close>, each a byte).  Runes are decoded as Go
  decodes them: an invalid byte is one rune U+FFFD of width one.  The Unicode case and
  script tables are data outside the repository and are the record \<open>unicode_tables\<close>,
  an argument of the definitions that read them.
\<close>

section \<open>Runes\<close>

abbreviation byte :: "char \<Rightarrow> nat" where
  "byte c \<equiv> of_char c"

definition rune_error :: nat where
  "rune_error = 65533"

definition is_cont :: "char \<Rightarrow> bool" where
  "is_cont c = (128 \<le> byte c \<and> byte c \<le> 191)"

text \<open>The accept range of the second byte, as in Go's \<open>acceptRanges\<close>.\<close>

definition second_ok :: "nat \<Rightarrow> char \<Rightarrow> bool" where
  "second_ok x b =
     ((if x = 224 then 160 else if x = 240 then 144 else 128) \<le> byte b \<and>
      byte b \<le> (if x = 237 then 159 else if x = 244 then 143 else 191))"

text \<open>\<open>utf8.DecodeRune\<close>: the rune at the front and its width.\<close>

definition decode_rune :: "string \<Rightarrow> nat \<times> nat" where
  "decode_rune s =
     (case s of
        [] \<Rightarrow> (rune_error, 0)
      | a # r \<Rightarrow>
         (let x = byte a in
          if x < 128 then (x, 1)
          else if x < 194 \<or> 244 < x then (rune_error, 1)
          else (case r of
             [] \<Rightarrow> (rune_error, 1)
           | b # r2 \<Rightarrow>
              (if \<not> second_ok x b then (rune_error, 1)
               else if x < 224 then ((x - 192) * 64 + (byte b - 128), 2)
               else (case r2 of
                  [] \<Rightarrow> (rune_error, 1)
                | c # r3 \<Rightarrow>
                   (if \<not> is_cont c then (rune_error, 1)
                    else if x < 240
                    then ((x - 224) * 4096 + (byte b - 128) * 64 + (byte c - 128), 3)
                    else (case r3 of
                       [] \<Rightarrow> (rune_error, 1)
                     | d # _ \<Rightarrow>
                        (if \<not> is_cont d then (rune_error, 1)
                         else ((x - 240) * 262144 + (byte b - 128) * 4096
                               + (byte c - 128) * 64 + (byte d - 128), 4)))))))))"

lemma decode_rune_width: "s \<noteq> [] \<Longrightarrow> 1 \<le> snd (decode_rune s) \<and> snd (decode_rune s) \<le> length s"
  by (auto simp: decode_rune_def Let_def split: list.splits)

text \<open>A string as its runes, each with the bytes it was read from.\<close>

function chunks :: "string \<Rightarrow> (nat \<times> string) list" where
  "chunks [] = []"
| "chunks (a # s) =
     (let (r, n) = decode_rune (a # s) in (r, take n (a # s)) # chunks (drop (n - 1) s))"
  by pat_completeness auto
termination
  by (relation "measure length") auto

lemma chunks_Nil_iff [simp]: "chunks s = [] \<longleftrightarrow> s = []"
  by (cases s) (auto simp: Let_def split: prod.splits)

lemma concat_chunks: "concat (map snd (chunks s)) = s"
proof (induction s rule: chunks.induct)
  case 1
  then show ?case by simp
next
  case (2 a s)
  obtain r n where d: "decode_rune (a # s) = (r, n)" by fastforce
  have "1 \<le> n" using decode_rune_width[of "a # s"] d by simp
  then obtain k where "n = Suc k" by (cases n) auto
  with d 2[OF d[symmetric]] show ?case by (simp add: Let_def)
qed

definition runes :: "string \<Rightarrow> nat list" where
  "runes s = map fst (chunks s)"

definition rune_count :: "string \<Rightarrow> nat" where
  "rune_count s = length (chunks s)"

text \<open>\<open>utf8.ValidString\<close>: no rune was read from an invalid byte.\<close>

definition utf8_valid :: "string \<Rightarrow> bool" where
  "utf8_valid s = list_all (\<lambda>(r, bs). \<not> (r = rune_error \<and> length bs = 1)) (chunks s)"

text \<open>\<open>utf8.AppendRune\<close>, and \<open>string([]rune)\<close>.\<close>

definition encode_rune :: "nat \<Rightarrow> string" where
  "encode_rune n =
     (let r = (if 1114111 < n \<or> (55296 \<le> n \<and> n \<le> 57343) then rune_error else n) in
      if r < 128 then [char_of r]
      else if r < 2048 then [char_of (192 + r div 64), char_of (128 + r mod 64)]
      else if r < 65536
      then [char_of (224 + r div 4096), char_of (128 + r div 64 mod 64), char_of (128 + r mod 64)]
      else [char_of (240 + r div 262144), char_of (128 + r div 4096 mod 64),
            char_of (128 + r div 64 mod 64), char_of (128 + r mod 64)])"

definition string_of_runes :: "nat list \<Rightarrow> string" where
  "string_of_runes rs = concat (map encode_rune rs)"

definition valid_rune :: "nat \<Rightarrow> bool" where
  "valid_rune n = (n \<le> 1114111 \<and> \<not> (55296 \<le> n \<and> n \<le> 57343))"

lemma rune_count_Nil [simp]: "rune_count [] = 0"
  by (simp add: rune_count_def)

lemma length_runes [simp]: "length (runes s) = rune_count s"
  by (simp add: runes_def rune_count_def)

lemma chunk_nonempty: "(r, bs) \<in> set (chunks s) \<Longrightarrow> bs \<noteq> []"
proof (induction s rule: chunks.induct)
  case 1
  then show ?case by simp
next
  case (2 a s)
  obtain r' n where d: "decode_rune (a # s) = (r', n)" by fastforce
  have "1 \<le> n" using decode_rune_width[of "a # s"] d by simp
  with d 2 show ?case by (auto simp: Let_def)
qed

lemma rune_count_le: "rune_count s \<le> length s"
proof (induction s rule: chunks.induct)
  case 1
  then show ?case by simp
next
  case (2 a s)
  obtain r n where d: "decode_rune (a # s) = (r, n)" by fastforce
  have "1 \<le> n" using decode_rune_width[of "a # s"] d by simp
  with d 2[OF d[symmetric]] show ?case by (auto simp: Let_def rune_count_def)
qed


section \<open>Package strings\<close>

text \<open>\<open>unicode.IsSpace\<close>.\<close>

definition is_space :: "nat \<Rightarrow> bool" where
  "is_space r = ((9 \<le> r \<and> r \<le> 13) \<or> r = 32 \<or> r = 133 \<or> r = 160 \<or> r = 5760 \<or>
     (8192 \<le> r \<and> r \<le> 8202) \<or> r = 8232 \<or> r = 8233 \<or> r = 8239 \<or> r = 8287 \<or> r = 12288)"

text \<open>\<open>strings.TrimSpace\<close>: runes of white space go from both ends.\<close>

definition trim_space :: "string \<Rightarrow> string" where
  "trim_space s =
     (let sp = (\<lambda>c. is_space (fst c));
          front = dropWhile sp (chunks s)
      in concat (map snd (rev (dropWhile sp (rev front)))))"

definition has_prefix :: "string \<Rightarrow> string \<Rightarrow> bool" where
  "has_prefix s p = (take (length p) s = p)"

definition has_suffix :: "string \<Rightarrow> string \<Rightarrow> bool" where
  "has_suffix s p = (length p \<le> length s \<and> drop (length s - length p) s = p)"

fun contains :: "string \<Rightarrow> string \<Rightarrow> bool" where
  "contains [] p = (p = [])"
| "contains (c # s) p = (has_prefix (c # s) p \<or> contains s p)"

text \<open>\<open>strings.Split\<close> at a separator of one byte; never empty.\<close>

fun split_char :: "char \<Rightarrow> string \<Rightarrow> string list" where
  "split_char d [] = [[]]"
| "split_char d (c # s) =
     (if c = d then [] # split_char d s
      else (case split_char d s of [] \<Rightarrow> [[c]] | w # ws \<Rightarrow> (c # w) # ws))"

fun join :: "string \<Rightarrow> string list \<Rightarrow> string" where
  "join sep [] = []"
| "join sep [w] = w"
| "join sep (w # ws) = w @ sep @ join sep ws"

text \<open>\<open>strings.Cut\<close> at a separator of one byte: what is before and after it, if it occurs.\<close>

fun cut_char :: "char \<Rightarrow> string \<Rightarrow> (string \<times> string) option" where
  "cut_char d [] = None"
| "cut_char d (c # s) =
     (if c = d then Some ([], s)
      else (case cut_char d s of None \<Rightarrow> None | Some (a, b) \<Rightarrow> Some (c # a, b)))"

definition replace_char :: "char \<Rightarrow> char \<Rightarrow> string \<Rightarrow> string" where
  "replace_char a b s = map (\<lambda>c. if c = a then b else c) s"

text \<open>
  \<open>strings.Replace(s, old, new, 1)\<close> and \<open>strings.Replace(s, old, new, -1)\<close>.  An empty
  \<open>old\<close> matches before every rune and at the end, as in Go.
\<close>

fun replace_first :: "string \<Rightarrow> string \<Rightarrow> string \<Rightarrow> string" where
  "replace_first old new [] = (if old = [] then new else [])"
| "replace_first old new (c # s) =
     (if has_prefix (c # s) old then new @ drop (length old) (c # s)
      else c # replace_first old new s)"

function replace_nonempty :: "string \<Rightarrow> string \<Rightarrow> string \<Rightarrow> string" where
  "replace_nonempty old new [] = []"
| "replace_nonempty old new (c # s) =
     (if old \<noteq> [] \<and> has_prefix (c # s) old
      then new @ replace_nonempty old new (drop (length old) (c # s))
      else c # replace_nonempty old new s)"
  by pat_completeness auto
termination
  by (relation "measure (\<lambda>(old, new, s). length s)") auto

definition replace_all :: "string \<Rightarrow> string \<Rightarrow> string \<Rightarrow> string" where
  "replace_all old new s =
     (if old = [] then new @ concat (map (\<lambda>(r, bs). bs @ new) (chunks s))
      else replace_nonempty old new s)"

text \<open>\<open>strings.ContainsRune(s, 0)\<close> for the NUL rune.\<close>

definition contains_nul :: "string \<Rightarrow> bool" where
  "contains_nul s = (0 \<in> set (runes s))"

section \<open>Unicode tables\<close>

text \<open>
  \<open>lower\<close> is \<open>unicode.ToLower\<close> on one rune, \<open>east_asian\<close> the union of the
  Han, Hangul, Hiragana and Katakana range tables.
\<close>

record unicode_tables =
  lower :: "nat \<Rightarrow> nat"
  east_asian :: "nat \<Rightarrow> bool"

text \<open>\<open>strings.ToLower\<close>.\<close>

definition to_lower :: "unicode_tables \<Rightarrow> string \<Rightarrow> string" where
  "to_lower u s = string_of_runes (map (lower u) (runes s))"

text \<open>The ASCII part of the tables, for witnesses: no rune above 127 has a lower case.\<close>

definition ascii_tables :: unicode_tables where
  "ascii_tables = \<lparr>lower = (\<lambda>r. if 65 \<le> r \<and> r \<le> 90 then r + 32 else r),
                   east_asian = (\<lambda>r. False)\<rparr>"

section \<open>Numbers as text\<close>

function show_nat :: "nat \<Rightarrow> string" where
  "show_nat n = (if n < 10 then [char_of (48 + n)] else show_nat (n div 10) @ [char_of (48 + n mod 10)])"
  by pat_completeness auto
termination
  by (relation "measure id") auto

declare show_nat.simps [simp del]

lemma show_nat_inj: "show_nat m = show_nat n \<Longrightarrow> m = n"
proof (induction m arbitrary: n rule: show_nat.induct)
  case (1 m)
  have d: "char_of (48 + a) = (char_of (48 + b) :: char) \<Longrightarrow> a = b" if "a < 10" "b < 10" for a b :: nat
  proof -
    assume "char_of (48 + a) = (char_of (48 + b) :: char)"
    then have "of_char (char_of (48 + a) :: char) = (of_char (char_of (48 + b) :: char) :: nat)" by simp
    with that show "a = b" by simp
  qed
  have ne: "show_nat k \<noteq> []" for k by (subst show_nat.simps) auto
  show ?case
  proof (cases "m < 10"; cases "n < 10")
    assume a: "m < 10" "n < 10"
    with 1(2) show ?thesis by (simp add: show_nat.simps[of m] show_nat.simps[of n] d)
  next
    assume "m < 10" "\<not> n < 10"
    with 1(2) ne[of "n div 10"] show ?thesis by (simp add: show_nat.simps[of m] show_nat.simps[of n])
  next
    assume "\<not> m < 10" "n < 10"
    with 1(2) ne[of "m div 10"] show ?thesis by (simp add: show_nat.simps[of m] show_nat.simps[of n])
  next
    assume a: "\<not> m < 10" "\<not> n < 10"
    with 1(2) have e: "show_nat (m div 10) = show_nat (n div 10)"
      and f: "char_of (48 + m mod 10) = (char_of (48 + n mod 10) :: char)"
      by (auto simp: show_nat.simps[of m] show_nat.simps[of n])
    from 1(1)[OF a(1) e] d[OF _ _ f] show ?thesis using mod_less_divisor[of 10] by (metis div_mult_mod_eq zero_less_numeral)
  qed
qed

definition show_int :: "int \<Rightarrow> string" where
  "show_int i = (if i < 0 then CHR ''-'' # show_nat (nat (- i)) else show_nat (nat i))"

definition is_digit :: "char \<Rightarrow> bool" where
  "is_digit c = (48 \<le> byte c \<and> byte c \<le> 57)"

definition nat_of_digits :: "string \<Rightarrow> nat" where
  "nat_of_digits s = foldl (\<lambda>n c. 10 * n + (byte c - 48)) 0 s"

text \<open>\<open>strconv.Atoi\<close>: an optional sign, digits only, within 64 bits.\<close>

definition atoi :: "string \<Rightarrow> int option" where
  "atoi s =
     (let (neg, ds) = (case s of
             [] \<Rightarrow> (False, [])
           | c # r \<Rightarrow> if c = CHR ''-'' then (True, r) else if c = CHR ''+'' then (False, r)
                      else (False, c # r));
          v = int (nat_of_digits ds); i = (if neg then - v else v)
      in if ds = [] \<or> \<not> list_all is_digit ds \<or> i < - (2 ^ 63) \<or> 2 ^ 63 \<le> i then None
         else Some i)"

text \<open>\<open>fmt\<close>'s \<open>%6d\<close>: at least six bytes, padded with blanks on the left.\<close>

definition pad_left :: "nat \<Rightarrow> string \<Rightarrow> string" where
  "pad_left w s = replicate (w - length s) (CHR '' '') @ s"

section \<open>Package path\<close>

text \<open>
  \<open>path.Clean\<close>: the elements between slashes are taken from the left; \<open>.\<close> and empty
  elements are dropped, \<open>..\<close> removes the element before it, is kept at the front of a
  relative path and dropped at the front of a rooted one.
\<close>

fun clean_elems :: "bool \<Rightarrow> string list \<Rightarrow> string list \<Rightarrow> string list" where
  "clean_elems rooted acc [] = rev acc"
| "clean_elems rooted acc (e # es) =
     (if e = [] \<or> e = ''.'' then clean_elems rooted acc es
      else if e = ''..'' then
        (case acc of
           [] \<Rightarrow> clean_elems rooted (if rooted then [] else [''..'']) es
         | a # acc' \<Rightarrow> if a = ''..'' then clean_elems rooted (''..'' # acc) es
                       else clean_elems rooted acc' es)
      else clean_elems rooted (e # acc) es)"

definition path_clean :: "string \<Rightarrow> string" where
  "path_clean p =
     (let rooted = has_prefix p ''/'';
          body = join ''/'' (clean_elems rooted [] (split_char (CHR ''/'') p))
      in if rooted then ''/'' @ body else if body = [] then ''.'' else body)"

text \<open>\<open>path.Join\<close>: empty elements are ignored, the rest is joined and cleaned.\<close>

definition path_join :: "string list \<Rightarrow> string" where
  "path_join es =
     (let ne = filter (\<lambda>e. e \<noteq> []) es in if ne = [] then [] else path_clean (join ''/'' ne))"

definition is_abs :: "string \<Rightarrow> bool" where
  "is_abs p = has_prefix p ''/''"

section \<open>Facts used by the components\<close>

lemma has_prefix_iff: "has_prefix s p \<longleftrightarrow> (\<exists>t. s = p @ t)"
proof
  assume "has_prefix s p"
  then have "s = p @ drop (length p) s"
    by (metis append_take_drop_id has_prefix_def)
  then show "\<exists>t. s = p @ t" by blast
next
  assume "\<exists>t. s = p @ t"
  then show "has_prefix s p" by (auto simp: has_prefix_def)
qed

lemma has_prefix_append [simp]: "has_prefix (p @ t) p"
  by (simp add: has_prefix_def)

lemma contains_iff: "contains s p \<longleftrightarrow> (\<exists>a b. s = a @ p @ b)"
proof (induction s)
  case Nil
  then show ?case by auto
next
  case (Cons c s)
  show ?case
  proof
    assume "contains (c # s) p"
    then consider "has_prefix (c # s) p" | "contains s p" by auto
    then show "\<exists>a b. c # s = a @ p @ b"
    proof cases
      case 1
      then obtain t where "c # s = [] @ p @ t" unfolding has_prefix_iff by auto
      then show ?thesis by blast
    next
      case 2
      with Cons.IH obtain a b where "s = a @ p @ b" by auto
      then have "c # s = (c # a) @ p @ b" by simp
      then show ?thesis by blast
    qed
  next
    assume "\<exists>a b. c # s = a @ p @ b"
    then obtain a b where ab: "c # s = a @ p @ b" by blast
    show "contains (c # s) p"
    proof (cases a)
      case Nil
      with ab have "has_prefix (c # s) p" by (auto simp: has_prefix_iff)
      then show ?thesis by simp
    next
      case (Cons x a')
      with ab have "s = a' @ p @ b" by simp
      with Cons.IH show ?thesis by auto
    qed
  qed
qed

lemma split_char_nonempty [simp]: "split_char d s \<noteq> []"
  by (induction s) (auto split: list.splits)

lemma split_char_no_sep: "w \<in> set (split_char d s) \<Longrightarrow> d \<notin> set w"
proof (induction s arbitrary: w)
  case Nil
  then show ?case by simp
next
  case (Cons c s)
  then show ?case by (cases "split_char d s") (auto split: if_splits)
qed

lemma join_Cons: "ws \<noteq> [] \<Longrightarrow> join sep (w # ws) = w @ sep @ join sep ws"
  by (cases ws) auto

lemma join_split_char: "join [d] (split_char d s) = s"
proof (induction s)
  case Nil
  then show ?case by simp
next
  case (Cons c s)
  then show ?case
    by (cases "split_char d s"; cases "tl (split_char d s)") (auto simp: join_Cons)
qed

lemma split_char_plain: "d \<notin> set s \<Longrightarrow> split_char d s = [s]"
  by (induction s) auto

lemma split_char_append_sep: "d \<notin> set a \<Longrightarrow> split_char d (a @ d # s) = a # split_char d s"
  by (induction a) auto

lemma length_string_ge_rune: "rune_count (s) = 0 \<longleftrightarrow> s = []"
  by (simp add: rune_count_def)

text \<open>Text of bytes below 128: each byte is a rune.\<close>

definition ascii :: "string \<Rightarrow> bool" where
  "ascii s = list_all (\<lambda>c. byte c < 128) s"

lemma chunks_ascii: "ascii s \<Longrightarrow> chunks s = map (\<lambda>c. (byte c, [c])) s"
proof (induction s)
  case (Cons c s)
  then have "decode_rune (c # s) = (byte c, 1)" by (simp add: ascii_def decode_rune_def)
  with Cons show ?case by (simp add: ascii_def)
qed simp

lemma runes_ascii: "ascii s \<Longrightarrow> runes s = map byte s"
  by (simp add: runes_def chunks_ascii comp_def)

lemmas go_text_defs [go_text] = rune_error_def is_cont_def second_ok_def decode_rune_def
  runes_def rune_count_def utf8_valid_def encode_rune_def string_of_runes_def is_space_def
  trim_space_def has_prefix_def has_suffix_def replace_char_def replace_all_def contains_nul_def
  to_lower_def show_int_def is_digit_def nat_of_digits_def atoi_def pad_left_def path_clean_def
  path_join_def is_abs_def

end
