(* ===== verification/GoJson.thy ===== *)
theory GoJson
  imports GoText
begin

text \<open>
  The part of \<open>encoding/json\<close> the program uses.  Text is lexed and parsed by the
  push-down automaton \<open>jrun\<close> (one token at a time, as Go's scanner does, with no nesting
  limit), which yields the first value and the text behind it; \<open>json_decode\<close> is
  \<open>Decoder.Decode\<close>, \<open>json_unmarshal\<close> is \<open>json.Unmarshal\<close>'s syntax check
  and \<open>render\<close> is \<open>json.Marshal\<close>.  Objects keep their pairs in the order of the
  text; a Go map reads the last pair of a key (\<open>jget\<close>).  A number keeps its literal (what
  \<open>UseNumber\<close> keeps); read as a \<open>float64\<close> it is its exact decimal value
  (rounding to 53 bits and overflow of the literal are not modelled).
\<close>

section \<open>Values\<close>

datatype json =
    JNull
  | JBool bool
  | JNum string \<comment> \<open>the literal\<close>
  | JStr string
  | JArr "json list"
  | JObj "(string \<times> json) list"
  | JRaw string \<comment> \<open>a \<open>json.RawMessage\<close>, only for encoding\<close>

type_synonym gomap = "(string \<times> json) list"

text \<open>\<open>m[k]\<close> of a Go map built from the pairs in order: the last pair wins.\<close>

definition mget :: "gomap \<Rightarrow> string \<Rightarrow> json option" where
  "mget m k = map_of (rev m) k"

section \<open>Lexing\<close>

datatype token = TLBrace | TRBrace | TLBrack | TRBrack | TColon | TComma
  | TStr string | TNum string | TTrue | TFalse | TNull

definition json_ws :: "char \<Rightarrow> bool" where
  "json_ws c = (byte c = 32 \<or> byte c = 9 \<or> byte c = 10 \<or> byte c = 13)"

definition hex_val :: "char \<Rightarrow> nat option" where
  "hex_val c = (let b = byte c in
     if 48 \<le> b \<and> b \<le> 57 then Some (b - 48)
     else if 97 \<le> b \<and> b \<le> 102 then Some (b - 87)
     else if 65 \<le> b \<and> b \<le> 70 then Some (b - 55) else None)"

definition hex4 :: "string \<Rightarrow> nat option" where
  "hex4 s = (case s of
      a # b # c # d # _ \<Rightarrow>
        (case (hex_val a, hex_val b, hex_val c, hex_val d) of
           (Some w, Some x, Some y, Some z) \<Rightarrow> Some (w * 4096 + x * 256 + y * 16 + z)
         | _ \<Rightarrow> None)
    | _ \<Rightarrow> None)"

definition esc_ok :: "char \<Rightarrow> bool" where
  "esc_ok c = (c \<in> set [CHR 0x22, CHR 0x5C, CHR ''/'', CHR ''b'', CHR ''f'', CHR ''n'', CHR ''r'', CHR ''t''])"

text \<open>The body of a string literal up to its closing quote, and the text behind it.\<close>

function scan_str :: "string \<Rightarrow> (string \<times> string) option" where
  "scan_str [] = None"
| "scan_str (c # s) =
     (if c = CHR 0x22 then Some ([], s)
      else if byte c < 32 then None
      else if c = CHR 0x5C then
        (case s of
           [] \<Rightarrow> None
         | e # s' \<Rightarrow>
            (if esc_ok e \<or> (e = CHR ''u'' \<and> hex4 s' \<noteq> None)
             then map_option (\<lambda>(b, r). (c # e # b, r)) (scan_str s')
             else None))
      else map_option (\<lambda>(b, r). (c # b, r)) (scan_str s))"
  by pat_completeness auto
termination
  by (relation "measure length") auto

definition simple_escape :: "char \<Rightarrow> char" where
  "simple_escape e =
     (if e = CHR ''b'' then CHR 0x08 else if e = CHR ''f'' then CHR 0x0C
      else if e = CHR ''n'' then CHR 0x0A else if e = CHR ''r'' then CHR 0x0D
      else if e = CHR ''t'' then CHR 0x09 else e)"

text \<open>
  The value of a literal's body.  A surrogate that is not followed by its partner, and every
  invalid byte, becomes U+FFFD.
\<close>

function unquote :: "string \<Rightarrow> string" where
  "unquote [] = []"
| "unquote (c # s) =
     (if c = CHR 0x5C then
        (case s of
           [] \<Rightarrow> []
         | e # s' \<Rightarrow>
            (if e = CHR ''u'' then
               (case hex4 s' of
                  None \<Rightarrow> []
                | Some r \<Rightarrow>
                   (if 55296 \<le> r \<and> r \<le> 57343 then
                      (case (take 2 (drop 4 s'), hex4 (drop 6 s')) of
                         ([b, u], Some r2) \<Rightarrow>
                           (if b = CHR 0x5C \<and> u = CHR ''u'' \<and> r \<le> 56319 \<and> 56320 \<le> r2 \<and> r2 \<le> 57343
                            then encode_rune (65536 + (r - 55296) * 1024 + (r2 - 56320))
                                 @ unquote (drop 10 s')
                            else encode_rune rune_error @ unquote (drop 4 s'))
                       | _ \<Rightarrow> encode_rune rune_error @ unquote (drop 4 s'))
                    else encode_rune r @ unquote (drop 4 s')))
             else simple_escape e # unquote s'))
      else (let (r, n) = decode_rune (c # s) in encode_rune r @ unquote (drop (n - 1) s)))"
  by pat_completeness auto
termination
  by (relation "measure length") auto

text \<open>The longest number literal at the front, if there is one.\<close>

definition lex_digits :: "string \<Rightarrow> (string \<times> string) option" where
  "lex_digits s = (let d = takeWhile is_digit s in
     if d = [] then None else Some (d, drop (length d) s))"

definition lex_int :: "string \<Rightarrow> (string \<times> string) option" where
  "lex_int s = (case s of [] \<Rightarrow> None
     | c # r \<Rightarrow> if c = CHR ''0'' then Some ([c], r) else lex_digits s)"

definition lex_frac :: "string \<Rightarrow> (string \<times> string) option" where
  "lex_frac s = (case s of [] \<Rightarrow> Some ([], [])
     | c # r \<Rightarrow> if c = CHR ''.'' then map_option (\<lambda>(d, r'). (c # d, r')) (lex_digits r)
                else Some ([], s))"

definition lex_exp :: "string \<Rightarrow> (string \<times> string) option" where
  "lex_exp s = (case s of [] \<Rightarrow> Some ([], [])
     | c # r \<Rightarrow>
        if c = CHR ''e'' \<or> c = CHR ''E'' then
          (case r of [] \<Rightarrow> None
           | g # r' \<Rightarrow> if g = CHR ''+'' \<or> g = CHR ''-''
                       then map_option (\<lambda>(d, t). (c # g # d, t)) (lex_digits r')
                       else map_option (\<lambda>(d, t). (c # d, t)) (lex_digits r))
        else Some ([], s))"

definition lex_num :: "string \<Rightarrow> (string \<times> string) option" where
  "lex_num s =
     (let (sg, s1) = (case s of [] \<Rightarrow> ([], []) | c # r \<Rightarrow> if c = CHR ''-'' then ([c], r) else ([], s)) in
      case lex_int s1 of None \<Rightarrow> None
      | Some (i, s2) \<Rightarrow> (case lex_frac s2 of None \<Rightarrow> None
        | Some (f, s3) \<Rightarrow> (case lex_exp s3 of None \<Rightarrow> None
          | Some (x, s4) \<Rightarrow> Some (sg @ i @ f @ x, s4))))"

definition lex1 :: "string \<Rightarrow> (token \<times> string) option" where
  "lex1 s0 =
     (case dropWhile json_ws s0 of
        [] \<Rightarrow> None
      | c # s \<Rightarrow>
         (if c = CHR ''{'' then Some (TLBrace, s) else if c = CHR ''}'' then Some (TRBrace, s)
          else if c = CHR ''['' then Some (TLBrack, s) else if c = CHR '']'' then Some (TRBrack, s)
          else if c = CHR '':'' then Some (TColon, s) else if c = CHR '','' then Some (TComma, s)
          else if c = CHR 0x22 then map_option (\<lambda>(b, r). (TStr (unquote b), r)) (scan_str s)
          else if has_prefix (c # s) ''true'' then Some (TTrue, drop 3 s)
          else if has_prefix (c # s) ''false'' then Some (TFalse, drop 4 s)
          else if has_prefix (c # s) ''null'' then Some (TNull, drop 3 s)
          else map_option (\<lambda>(n, r). (TNum n, r)) (lex_num (c # s))))"

section \<open>Parsing\<close>

datatype jstate = PVal | PValEnd | PKey | PKeyEnd | PColon | PCommaArr | PCommaObj

datatype frame = FArr "json list" | FObj gomap | FPair gomap string

datatype jres = JDone json | JMore jstate "frame list" | JBad

fun jpush :: "json \<Rightarrow> frame list \<Rightarrow> jres" where
  "jpush v [] = JDone v"
| "jpush v (FArr vs # st) = JMore PCommaArr (FArr (v # vs) # st)"
| "jpush v (FPair kvs k # st) = JMore PCommaObj (FObj ((k, v) # kvs) # st)"
| "jpush v (FObj kvs # st) = JBad"

definition jvalue :: "frame list \<Rightarrow> token \<Rightarrow> jres" where
  "jvalue st t = (case t of
      TLBrace \<Rightarrow> JMore PKeyEnd (FObj [] # st)
    | TLBrack \<Rightarrow> JMore PValEnd (FArr [] # st)
    | TStr s \<Rightarrow> jpush (JStr s) st
    | TNum n \<Rightarrow> jpush (JNum n) st
    | TTrue \<Rightarrow> jpush (JBool True) st
    | TFalse \<Rightarrow> jpush (JBool False) st
    | TNull \<Rightarrow> jpush JNull st
    | _ \<Rightarrow> JBad)"

definition jclose_arr :: "frame list \<Rightarrow> jres" where
  "jclose_arr st = (case st of FArr vs # st' \<Rightarrow> jpush (JArr (rev vs)) st' | _ \<Rightarrow> JBad)"

definition jclose_obj :: "frame list \<Rightarrow> jres" where
  "jclose_obj st = (case st of FObj kvs # st' \<Rightarrow> jpush (JObj (rev kvs)) st' | _ \<Rightarrow> JBad)"

definition jkey :: "frame list \<Rightarrow> token \<Rightarrow> jres" where
  "jkey st t = (case (st, t) of
      (FObj kvs # st', TStr k) \<Rightarrow> JMore PColon (FPair kvs k # st')
    | _ \<Rightarrow> JBad)"

fun jstep :: "jstate \<Rightarrow> frame list \<Rightarrow> token \<Rightarrow> jres" where
  "jstep PVal st t = jvalue st t"
| "jstep PValEnd st t = (if t = TRBrack then jclose_arr st else jvalue st t)"
| "jstep PKey st t = jkey st t"
| "jstep PKeyEnd st t = (if t = TRBrace then jclose_obj st else jkey st t)"
| "jstep PColon st t = (if t = TColon then JMore PVal st else JBad)"
| "jstep PCommaArr st t =
     (if t = TComma then JMore PVal st else if t = TRBrack then jclose_arr st else JBad)"
| "jstep PCommaObj st t =
     (if t = TComma then JMore PKey st else if t = TRBrace then jclose_obj st else JBad)"

lemma scan_str_length: "scan_str s = Some (b, r) \<Longrightarrow> length r < length s"
proof (induction s arbitrary: b r rule: scan_str.induct)
  case 1
  then show ?case by simp
next
  case (2 c s)
  then show ?case
    by (fastforce split: if_splits list.splits prod.splits)
qed

lemma lex_digits_length: "lex_digits s = Some (d, r) \<Longrightarrow> length r < length s"
  by (cases s) (auto simp: lex_digits_def Let_def split: if_splits)

lemma lex_int_length: "lex_int s = Some (d, r) \<Longrightarrow> length r < length s"
  by (auto simp: lex_int_def split: list.splits if_splits dest: lex_digits_length)

lemma lex_frac_length: "lex_frac s = Some (d, r) \<Longrightarrow> length r \<le> length s"
  by (fastforce simp: lex_frac_def split: list.splits if_splits dest: lex_digits_length)

lemma lex_exp_length: "lex_exp s = Some (d, r) \<Longrightarrow> length r \<le> length s"
  by (fastforce simp: lex_exp_def split: list.splits if_splits dest: lex_digits_length)

lemma lex_num_length: "lex_num s = Some (d, r) \<Longrightarrow> length r < length s"
  by (fastforce simp: lex_num_def split: list.splits if_splits option.splits prod.splits
      dest: lex_int_length lex_frac_length lex_exp_length)

lemma lex1_length: "lex1 s = Some (t, r) \<Longrightarrow> length r < length s"
proof -
  assume a: "lex1 s = Some (t, r)"
  have "length (dropWhile json_ws s) \<le> length s" by (rule length_dropWhile_le)
  with a show ?thesis
    by (fastforce simp: lex1_def split: list.splits if_splits
        dest: scan_str_length lex_num_length)
qed

function jrun :: "jstate \<Rightarrow> frame list \<Rightarrow> string \<Rightarrow> (json \<times> string) option" where
  "jrun q st s =
     (case lex1 s of
        None \<Rightarrow> None
      | Some (t, r) \<Rightarrow>
         (case jstep q st t of
            JBad \<Rightarrow> None
          | JDone v \<Rightarrow> Some (v, r)
          | JMore q' st' \<Rightarrow> jrun q' st' r))"
  by pat_completeness auto
termination
  by (relation "measure (\<lambda>(q, st, s). length s)") (auto dest: lex1_length)

declare jrun.simps [simp del]

text \<open>
  \<open>Decoder.Decode\<close>: the first value and the text behind it; behind a scalar the next byte
  must be white space.
\<close>

definition is_compound :: "json \<Rightarrow> bool" where
  "is_compound v = (case v of JArr _ \<Rightarrow> True | JObj _ \<Rightarrow> True | _ \<Rightarrow> False)"

definition json_decode :: "string \<Rightarrow> (json \<times> string) option" where
  "json_decode s =
     (case jrun PVal [] s of
        None \<Rightarrow> None
      | Some (v, r) \<Rightarrow>
         (if is_compound v \<or> (case r of [] \<Rightarrow> True | c # _ \<Rightarrow> json_ws c) then Some (v, r) else None))"

text \<open>A second \<open>Decode\<close> that must report \<open>io.EOF\<close>: only white space is left.\<close>

definition at_eof :: "string \<Rightarrow> bool" where
  "at_eof s = list_all json_ws s"

definition json_unmarshal :: "string \<Rightarrow> json option" where
  "json_unmarshal s =
     (case jrun PVal [] s of None \<Rightarrow> None | Some (v, r) \<Rightarrow> if at_eof r then Some v else None)"

definition json_valid :: "string \<Rightarrow> bool" where
  "json_valid s = (json_unmarshal s \<noteq> None)"

text \<open>Decoding into a \<open>map[string]any\<close>: an object, or \<open>null\<close>, which is the nil map.\<close>

definition as_map :: "json \<Rightarrow> gomap option option" where
  "as_map v = (case v of JObj kvs \<Rightarrow> Some (Some kvs) | JNull \<Rightarrow> Some None | _ \<Rightarrow> None)"

section \<open>Encoding\<close>

definition hex_digit :: "nat \<Rightarrow> char" where
  "hex_digit n = (if n < 10 then char_of (48 + n) else char_of (87 + n))"

definition quote_chunk :: "nat \<times> string \<Rightarrow> string" where
  "quote_chunk rc =
     (let (r, bs) = rc in
      if r = 34 \<or> r = 92 then CHR 0x5C # bs
      else if r = 8 then [CHR 0x5C, CHR ''b''] else if r = 12 then [CHR 0x5C, CHR ''f'']
      else if r = 10 then [CHR 0x5C, CHR ''n''] else if r = 13 then [CHR 0x5C, CHR ''r'']
      else if r = 9 then [CHR 0x5C, CHR ''t'']
      else if r < 32 \<or> r = 60 \<or> r = 62 \<or> r = 38
      then [CHR 0x5C, CHR ''u'', CHR ''0'', CHR ''0'', hex_digit (r div 16), hex_digit (r mod 16)]
      else if r = rune_error \<and> length bs = 1 then CHR 0x5C # ''ufffd''
      else if r = 8232 then CHR 0x5C # ''u2028'' else if r = 8233 then CHR 0x5C # ''u2029''
      else bs)"

definition quote :: "string \<Rightarrow> string" where
  "quote s = CHR 0x22 # concat (map quote_chunk (chunks s)) @ [CHR 0x22]"

text \<open>\<open>json.Compact\<close> with HTML escaping, applied to a \<open>RawMessage\<close>.\<close>

definition raw_escape :: "char \<Rightarrow> string" where
  "raw_escape c = [CHR 0x5C, CHR ''u'', CHR ''0'', CHR ''0'', hex_digit (byte c div 16), hex_digit (byte c mod 16)]"

text \<open>U+2028 and U+2029, in three bytes.\<close>

definition line_separator :: "char \<Rightarrow> string \<Rightarrow> string option" where
  "line_separator c s =
     (if c = CHR 0xE2 \<and> take 2 s = [CHR 0x80, CHR 0xA8] then Some (CHR 0x5C # ''u2028'')
      else if c = CHR 0xE2 \<and> take 2 s = [CHR 0x80, CHR 0xA9] then Some (CHR 0x5C # ''u2029'')
      else None)"

function compact_raw :: "bool \<Rightarrow> bool \<Rightarrow> string \<Rightarrow> string" where
  "compact_raw instr esc [] = []"
| "compact_raw instr esc (c # s) =
     (if instr then
        (if c \<in> set ''<>&'' then raw_escape c @ compact_raw True False s
         else (case line_separator c s of
           Some e \<Rightarrow> e @ compact_raw True False (drop 2 s)
         | None \<Rightarrow>
            (if esc then c # compact_raw True False s
             else if c = CHR 0x5C then c # compact_raw True True s
             else if c = CHR 0x22 then c # compact_raw False False s
             else c # compact_raw True False s)))
      else if json_ws c then compact_raw False False s
      else if c = CHR 0x22 then c # compact_raw True False s
      else c # compact_raw False False s)"
  by pat_completeness auto
termination
  by (relation "measure (\<lambda>(i, e, s). length s)") auto

fun render :: "json \<Rightarrow> string" where
  "render JNull = ''null''"
| "render (JBool b) = (if b then ''true'' else ''false'')"
| "render (JNum n) = n"
| "render (JStr s) = quote s"
| "render (JArr vs) = ''['' @ join '','' (map render vs) @ '']''"
| "render (JObj kvs) = ''{'' @ join '','' (map (\<lambda>(k, v). quote k @ '':'' @ render v) kvs) @ ''}''"
| "render (JRaw s) = (if s = [] then ''null'' else compact_raw False False s)"

text \<open>
  \<open>json.Marshal\<close> fails on a raw message that is no JSON text; the callers here drop the
  error and go on with no bytes.  An empty raw message is the nil one.
\<close>

fun raws_valid :: "json \<Rightarrow> bool" where
  "raws_valid (JRaw s) = (s = [] \<or> json_valid s)"
| "raws_valid (JArr vs) = list_all raws_valid vs"
| "raws_valid (JObj kvs) = list_all (\<lambda>(k, v). raws_valid v) kvs"
| "raws_valid _ = True"

definition marshal :: "json \<Rightarrow> string" where
  "marshal v = (if raws_valid v then render v else [])"

text \<open>
  A Go map as \<open>json.Marshal\<close> prints it: one pair per key (the last), keys in byte order.
  \<open>go_any\<close> is a value decoded into \<open>any\<close>: every object in it has become a map.
\<close>

definition go_map :: "gomap \<Rightarrow> gomap" where
  "go_map m = map (\<lambda>k. (k, the (mget m k))) (sort (remdups (map fst m)))"

fun go_any :: "json \<Rightarrow> json" where
  "go_any (JArr vs) = JArr (map go_any vs)"
| "go_any (JObj kvs) = JObj (go_map (map (\<lambda>(k, v). (k, go_any v)) kvs))"
| "go_any v = v"

text \<open>A \<open>map[string]any\<close> variable, the nil map printed as \<open>null\<close>.\<close>

definition map_json :: "gomap option \<Rightarrow> json" where
  "map_json m = (case m of None \<Rightarrow> JNull | Some kvs \<Rightarrow> go_any (JObj kvs))"

section \<open>Numbers as float64\<close>

text \<open>\<open>(m, e)\<close> is \<open>m * 10 ^ e\<close>, with no trailing zero in \<open>m\<close>.\<close>

type_synonym dec = "int \<times> int"

function dec_norm :: "int \<Rightarrow> int \<Rightarrow> dec" where
  "dec_norm m e = (if m = 0 then (0, 0) else if m mod 10 = 0 then dec_norm (m div 10) (e + 1) else (m, e))"
  by pat_completeness auto
termination
  by (relation "measure (\<lambda>(m, e). nat \<bar>m\<bar>)") auto

declare dec_norm.simps [simp del]

definition dec_of_int :: "int \<Rightarrow> dec" where
  "dec_of_int i = dec_norm i 0"

definition dec_add :: "dec \<Rightarrow> dec \<Rightarrow> dec" where
  "dec_add a b =
     (let e = min (snd a) (snd b)
      in dec_norm (fst a * 10 ^ nat (snd a - e) + fst b * 10 ^ nat (snd b - e)) e)"

text \<open>\<open>strconv.ParseFloat\<close> of a JSON number literal.\<close>

definition dec_of_lit :: "string \<Rightarrow> dec" where
  "dec_of_lit n =
     (let (neg, s) = (case n of [] \<Rightarrow> (False, []) | c # r \<Rightarrow> if c = CHR ''-'' then (True, r) else (False, n));
          i = takeWhile is_digit s; s2 = drop (length i) s;
          f = (case s2 of [] \<Rightarrow> [] | c # r \<Rightarrow> if c = CHR ''.'' then takeWhile is_digit r else []);
          s3 = (if f = [] then s2 else drop (1 + length f) s2);
          x = (case s3 of [] \<Rightarrow> 0 | c # r \<Rightarrow> (case atoi r of None \<Rightarrow> 0 | Some k \<Rightarrow> k));
          m = int (nat_of_digits (i @ f))
      in dec_norm (if neg then - m else m) (x - int (length f)))"

definition dec_is_int :: "dec \<Rightarrow> int \<Rightarrow> bool" where
  "dec_is_int d i = (d = dec_of_int i)"

text \<open>The text \<open>json.Marshal\<close> prints for a \<open>float64\<close>.\<close>

definition show_dec :: "dec \<Rightarrow> string" where
  "show_dec d =
     (let m = fst d; e = snd d; ds = show_nat (nat \<bar>m\<bar>); n = int (length ds); p = n + e;
          body = (if m = 0 then ''0''
                  else if 21 < p \<or> p < -5
                  then take 1 ds @ (if n = 1 then [] else CHR ''.'' # drop 1 ds) @ ''e''
                       @ (if 0 \<le> p - 1 then ''+'' else []) @ show_int (p - 1)
                  else if 0 \<le> e then ds @ replicate (nat e) (CHR ''0'')
                  else if 0 < p then take (nat p) ds @ ''.'' @ drop (nat p) ds
                  else ''0.'' @ replicate (nat (- p)) (CHR ''0'') @ ds)
      in if m < 0 then CHR ''-'' # body else body)"

definition dec_positive :: "dec \<Rightarrow> bool" where
  "dec_positive d = (0 < fst d)"

section \<open>Decoding into structs\<close>

text \<open>
  A struct field takes every key that equals its name up to case folding, in the order of the
  text; \<open>null\<close> leaves it as it is and a value of another type is an error.
\<close>

definition fold_rune :: "nat \<Rightarrow> nat" where
  "fold_rune r = (if 65 \<le> r \<and> r \<le> 90 then r + 32 else if r = 383 then 115 else if r = 8490 then 107 else r)"

definition fold_key :: "string \<Rightarrow> nat list" where
  "fold_key k = map fold_rune (runes k)"

definition struct_vals :: "string \<Rightarrow> gomap \<Rightarrow> json list" where
  "struct_vals name kvs = map snd (filter (\<lambda>kv. fold_key (fst kv) = fold_key name) kvs)"

fun dec_str :: "string \<Rightarrow> json list \<Rightarrow> string option" where
  "dec_str acc [] = Some acc"
| "dec_str acc (JNull # vs) = dec_str acc vs"
| "dec_str acc (JStr s # vs) = dec_str s vs"
| "dec_str acc (_ # vs) = None"

fun dec_bool :: "bool \<Rightarrow> json list \<Rightarrow> bool option" where
  "dec_bool acc [] = Some acc"
| "dec_bool acc (JNull # vs) = dec_bool acc vs"
| "dec_bool acc (JBool b # vs) = dec_bool b vs"
| "dec_bool acc (_ # vs) = None"

fun dec_int :: "int \<Rightarrow> json list \<Rightarrow> int option" where
  "dec_int acc [] = Some acc"
| "dec_int acc (JNull # vs) = dec_int acc vs"
| "dec_int acc (JNum n # vs) = (case atoi n of None \<Rightarrow> None | Some i \<Rightarrow> dec_int i vs)"
| "dec_int acc (_ # vs) = None"

text \<open>A field of type \<open>any\<close>: nil is \<open>JNull\<close>.\<close>

definition dec_any :: "json list \<Rightarrow> json" where
  "dec_any vs = (if vs = [] then JNull else last vs)"

definition str_field :: "string \<Rightarrow> gomap \<Rightarrow> string option" where
  "str_field name kvs = dec_str [] (struct_vals name kvs)"

definition bool_field :: "string \<Rightarrow> gomap \<Rightarrow> bool option" where
  "bool_field name kvs = dec_bool False (struct_vals name kvs)"

definition int_field :: "string \<Rightarrow> gomap \<Rightarrow> int option" where
  "int_field name kvs = dec_int 0 (struct_vals name kvs)"

definition any_field :: "string \<Rightarrow> gomap \<Rightarrow> json" where
  "any_field name kvs = dec_any (struct_vals name kvs)"

text \<open>\<open>DisallowUnknownFields\<close>: every key names one of the fields.\<close>

definition known_fields :: "string list \<Rightarrow> gomap \<Rightarrow> bool" where
  "known_fields names kvs = list_all (\<lambda>kv. fold_key (fst kv) \<in> set (map fold_key names)) kvs"

text \<open>
  The pairs a value decodes to for a struct target: an object's, none for \<open>null\<close>, an
  error otherwise.
\<close>

definition struct_pairs :: "json \<Rightarrow> gomap option" where
  "struct_pairs v = (case v of JObj kvs \<Rightarrow> Some kvs | JNull \<Rightarrow> Some [] | _ \<Rightarrow> None)"

section \<open>Facts\<close>

lemma mget_Nil [simp]: "mget [] k = None"
  by (simp add: mget_def)

lemma mget_snoc [simp]: "mget (m @ [(k, v)]) k' = (if k' = k then Some v else mget m k')"
  by (simp add: mget_def)

lemma mget_Some_iff_key: "mget m k \<noteq> None \<longleftrightarrow> k \<in> fst ` set m"
  by (auto simp: mget_def map_of_eq_None_iff)

lemma distinct_keys_go_map: "distinct (map fst (go_map m))"
  by (simp add: go_map_def comp_def)

lemma sorted_keys_go_map: "sorted (map fst (go_map m))"
  by (simp add: go_map_def comp_def)

lemma mget_go_map: "mget (go_map m) k = mget m k"
proof -
  have d: "distinct (map fst (rev (go_map m)))"
    using distinct_keys_go_map[of m] by (simp add: rev_map[symmetric])
  show ?thesis
  proof (cases "mget m k")
    case None
    then have "k \<notin> fst ` set m" using mget_Some_iff_key[of m k] by simp
    then have "k \<notin> fst ` set (go_map m)" by (force simp: go_map_def)
    with None show ?thesis using mget_Some_iff_key[of "go_map m" k] by simp
  next
    case (Some v)
    then have "k \<in> fst ` set m" using mget_Some_iff_key[of m k] by simp
    with Some have "(k, v) \<in> set (go_map m)" by (force simp: go_map_def)
    with d have "map_of (rev (go_map m)) k = Some v" by (simp add: map_of_eq_Some_iff)
    with Some show ?thesis by (simp add: mget_def)
  qed
qed

text \<open>A string literal without escapes reads as itself.\<close>

definition plain_char :: "char \<Rightarrow> bool" where
  "plain_char c = (32 \<le> byte c \<and> byte c < 128 \<and> c \<noteq> CHR 0x22 \<and> c \<noteq> CHR 0x5C)"

lemma scan_plain: "list_all plain_char s \<Longrightarrow> scan_str (s @ CHR 0x22 # r) = Some (s, r)"
  by (induction s) (simp_all add: plain_char_def)

lemma decode_plain: "plain_char c \<Longrightarrow> decode_rune (c # s) = (byte c, 1)"
  by (simp add: plain_char_def decode_rune_def)

lemma encode_plain: "plain_char c \<Longrightarrow> encode_rune (byte c) = [c]"
  by (simp add: plain_char_def encode_rune_def)

lemma unquote_plain: "list_all plain_char s \<Longrightarrow> unquote s = s"
  by (induction s) (simp_all add: decode_plain encode_plain, simp add: plain_char_def)

text \<open>A string of printable ASCII without special characters is printed as itself.\<close>

definition safe_char :: "char \<Rightarrow> bool" where
  "safe_char c = (32 \<le> byte c \<and> byte c < 128 \<and> byte c \<notin> {34, 92, 60, 62, 38})"

lemma quote_safe: "list_all safe_char s \<Longrightarrow> quote s = CHR 0x22 # s @ [CHR 0x22]"
proof -
  assume a: "list_all safe_char s"
  then have "ascii s" by (auto simp: ascii_def safe_char_def list_all_iff)
  moreover from a have "concat (map (quote_chunk \<circ> (\<lambda>c. (byte c, [c]))) s) = s"
    by (induction s) (auto simp: quote_chunk_def safe_char_def rune_error_def)
  ultimately show ?thesis by (simp add: quote_def chunks_ascii)
qed

lemmas go_json_defs [go_json] = mget_def jvalue_def jclose_arr_def jclose_obj_def jkey_def json_ws_def hex_val_def hex4_def esc_ok_def
  simple_escape_def lex_digits_def lex_int_def lex_frac_def lex_exp_def lex_num_def lex1_def
  is_compound_def json_decode_def at_eof_def json_unmarshal_def json_valid_def as_map_def
  fold_rune_def fold_key_def struct_vals_def dec_any_def str_field_def bool_field_def
  int_field_def any_field_def known_fields_def struct_pairs_def

end
