(* ===== verification/ModelRuntime.thy ===== *)
theory ModelRuntime
  imports GoJson "HOL-Library.AList"
begin

text \<open>
  Package \<open>backend/internal/model/runtime\<close>: the provider-neutral messages, requests and
  stream events, the error classification of \<open>errors.go\<close>, the fragment assembler of
  \<open>tool_calls.go\<close> and the usage counters of \<open>usage.go\<close>.  The \<open>Client\<close>
  interface is implemented by provider adapters and is not modelled here.  A UUID is its
  canonical text.
\<close>

section \<open>Messages and requests\<close>

record tool_call =
  callID :: string
  callName :: string
  arguments :: string
  callIndex :: int

record message =
  role :: string
  content :: string
  toolCallID :: string
  toolCalls :: "tool_call list"
  msgRunID :: string
  messageID :: string
  msgSeq :: int

record tool =
  toolName :: string
  toolDescription :: string
  inputSchema :: "gomap option"

record json_schema =
  schemaName :: string
  schemaBody :: "gomap option"
  allowJSONMode :: bool

record request =
  reqModel :: string
  reqSystem :: string
  reqMessages :: "message list"
  reqTools :: "tool list"
  reqMaxTokens :: int
  reqTemperature :: "dec option"
  reqResponseSchema :: "json_schema option"

section \<open>Provider errors\<close>

type_synonym error_kind = string

text \<open>
  A Go error as far as \<open>errors.Is\<close> and \<open>errors.As\<close> see it: \<open>context.Canceled\<close>,
  a \<open>ProviderError\<close> with its optional cause, an error that wraps another, any other.
\<close>

datatype go_error =
    CtxCanceled
  | ProviderError error_kind int bool "go_error option"
  | Wrapped string go_error
  | OtherError string

definition provider_message :: "error_kind \<Rightarrow> string" where
  "provider_message k =
     (if k = ''context_length_exceeded'' then ''model request exceeds the provider context window''
      else if k = ''authentication'' then ''model provider authentication or access was denied''
      else if k = ''rate_limit'' then ''model provider rate limit reached''
      else if k = ''cancelled'' then ''model request cancelled''
      else if k = ''transport'' then ''model provider connection failed or ended before completion''
      else if k = ''protocol'' then ''model provider returned an invalid response''
      else ''model provider request failed'')"

definition provider_error_text :: "error_kind \<Rightarrow> int \<Rightarrow> string" where
  "provider_error_text k status =
     (if 0 < status then provider_message k @ '' (HTTP '' @ show_int status @ '')''
      else provider_message k)"

fun unwrap :: "go_error \<Rightarrow> go_error option" where
  "unwrap (ProviderError k st re cause) = cause"
| "unwrap (Wrapped s e) = Some e"
| "unwrap _ = None"

text \<open>\<open>errors.Is(err, context.Canceled)\<close> and \<open>errors.As(err, *ProviderError)\<close>.\<close>

fun is_canceled :: "go_error \<Rightarrow> bool" where
  "is_canceled CtxCanceled = True"
| "is_canceled (ProviderError k st re None) = False"
| "is_canceled (ProviderError k st re (Some e)) = is_canceled e"
| "is_canceled (Wrapped s e) = is_canceled e"
| "is_canceled (OtherError s) = False"

fun as_provider_kind :: "go_error \<Rightarrow> error_kind option" where
  "as_provider_kind (ProviderError k st re cause) = Some k"
| "as_provider_kind (Wrapped s e) = as_provider_kind e"
| "as_provider_kind _ = None"

definition error_kind_of :: "go_error option \<Rightarrow> error_kind" where
  "error_kind_of err =
     (case err of
        None \<Rightarrow> []
      | Some e \<Rightarrow>
          if is_canceled e then ''cancelled''
          else (case as_provider_kind e of Some k \<Rightarrow> k | None \<Rightarrow> ''provider''))"

section \<open>Usage\<close>

record usage =
  uProvider :: string
  uSource :: string
  uInput :: int
  uOutput :: int
  uCacheRead :: int
  uCacheCreation :: int
  uCachedIncluded :: bool
  uInputReported :: bool
  uOutputReported :: bool
  uRaw :: "(string \<times> int) list"

definition request_input_tokens :: "usage \<Rightarrow> int \<times> bool" where
  "request_input_tokens u =
     (if uSource u = ''missing'' \<or> uSource u = [] \<or> (\<not> uInputReported u \<and> uSource u \<noteq> ''estimated'')
      then (0, False)
      else (let base = max 0 (uInput u);
                tokens = (if uCachedIncluded u then base
                          else base + (max 0 (uCacheRead u) + max 0 (uCacheCreation u)))
            in (tokens, 0 < tokens)))"

section \<open>Assembling streamed tool calls\<close>

text \<open>A nil pointer in a stream frame is \<open>None\<close>.\<close>

record event =
  evDelta :: string
  evToolCall :: "tool_call option"
  evToolCalls :: "tool_call option list"
  evUsage :: "usage option"
  evErr :: "go_error option"

definition tool_call_deltas :: "event \<Rightarrow> tool_call option list" where
  "tool_call_deltas e =
     (if evToolCalls e \<noteq> [] then evToolCalls e
      else (case evToolCall e of Some c \<Rightarrow> [Some c] | None \<Rightarrow> []))"

text \<open>The assembler's map from provider index to the call built so far.\<close>

type_synonym assembler = "(int \<times> tool_call) list"

definition add_fragment :: "tool_call option \<Rightarrow> assembler \<Rightarrow> assembler" where
  "add_fragment d calls =
     (case d of
        None \<Rightarrow> calls
      | Some f \<Rightarrow>
         (let call = (case map_of calls (callIndex f) of
                        Some c \<Rightarrow> c
                      | None \<Rightarrow> \<lparr>callID = [], callName = [], arguments = [], callIndex = callIndex f\<rparr>);
              call1 = (if callID f \<noteq> [] then call\<lparr>callID := callID f\<rparr> else call);
              call2 = (if callName f \<noteq> [] then call1\<lparr>callName := callName f\<rparr> else call1);
              call3 = (if arguments f \<noteq> [] \<and> arguments f \<noteq> ''{}''
                       then call2\<lparr>arguments := arguments call2 @ arguments f\<rparr> else call2)
          in AList.update (callIndex f) call3 calls))"

definition add_event :: "assembler \<Rightarrow> event \<Rightarrow> assembler" where
  "add_event calls e = fold add_fragment (tool_call_deltas e) calls"

definition calls :: "assembler \<Rightarrow> tool_call list" where
  "calls a =
     map (\<lambda>i. let call = the (map_of a i)
              in if arguments call = [] then call\<lparr>arguments := ''{}''\<rparr> else call)
         (sort (map fst a))"

section \<open>Lemmas\<close>

text \<open>What a stream means: per index, the last ID and name and all argument fragments joined.\<close>

definition last_nonempty :: "string list \<Rightarrow> string" where
  "last_nonempty xs = (case filter (\<lambda>x. x \<noteq> []) (rev xs) of [] \<Rightarrow> [] | x # _ \<Rightarrow> x)"

definition joined_args :: "string list \<Rightarrow> string" where
  "joined_args xs = concat (filter (\<lambda>x. x \<noteq> [] \<and> x \<noteq> ''{}'') xs)"

definition at_index :: "int \<Rightarrow> tool_call list \<Rightarrow> tool_call list" where
  "at_index i ds = filter (\<lambda>f. callIndex f = i) ds"

definition merged_call :: "int \<Rightarrow> tool_call list \<Rightarrow> tool_call" where
  "merged_call i ds =
     \<lparr>callID = last_nonempty (map callID (at_index i ds)),
      callName = last_nonempty (map callName (at_index i ds)),
      arguments = joined_args (map arguments (at_index i ds)), callIndex = i\<rparr>"

definition fragments :: "event list \<Rightarrow> tool_call list" where
  "fragments evs = List.map_filter id (concat (map tool_call_deltas evs))"

lemma last_nonempty_snoc [simp]:
  "last_nonempty (xs @ [x]) = (if x = [] then last_nonempty xs else x)"
  by (simp add: last_nonempty_def)

lemma last_nonempty_Nil [simp]: "last_nonempty [] = []"
  by (simp add: last_nonempty_def)

lemma joined_args_snoc [simp]:
  "joined_args (xs @ [x]) = joined_args xs @ (if x = ''{}'' then [] else x)"
  by (simp add: joined_args_def)

lemma joined_args_Nil [simp]: "joined_args [] = []"
  by (simp add: joined_args_def)

lemma at_index_snoc [simp]:
  "at_index i (ds @ [f]) = (if callIndex f = i then at_index i ds @ [f] else at_index i ds)"
  by (simp add: at_index_def)

lemma at_index_Nil [simp]: "at_index i [] = []"
  by (simp add: at_index_def)

lemma at_index_empty_iff: "at_index i ds = [] \<longleftrightarrow> i \<notin> callIndex ` set ds"
  by (auto simp: at_index_def filter_empty_conv)

text \<open>The state of the assembler after the fragments \<open>ds\<close>.\<close>

definition assembled :: "tool_call list \<Rightarrow> assembler \<Rightarrow> bool" where
  "assembled ds a \<longleftrightarrow> distinct (map fst a) \<and>
     (\<forall>i. map_of a i = (if i \<in> callIndex ` set ds then Some (merged_call i ds) else None))"

lemma assembled_Nil: "assembled [] []"
  by (simp add: assembled_def)

lemma merged_call_snoc:
  "merged_call i (ds @ [f]) =
     (if callIndex f = i then
        merged_call i ds
          \<lparr>callID := (if callID f = [] then callID (merged_call i ds) else callID f),
           callName := (if callName f = [] then callName (merged_call i ds) else callName f),
           arguments := arguments (merged_call i ds) @ (if arguments f = ''{}'' then [] else arguments f)\<rparr>
      else merged_call i ds)"
  by (simp add: merged_call_def)

lemma assembled_add_fragment:
  assumes "assembled ds a"
  shows "assembled (ds @ [f]) (add_fragment (Some f) a)"
proof -
  let ?i = "callIndex f"
  have m: "(case map_of a ?i of Some c \<Rightarrow> c
             | None \<Rightarrow> \<lparr>callID = [], callName = [], arguments = [], callIndex = ?i\<rparr>) = merged_call ?i ds"
  proof (cases "?i \<in> callIndex ` set ds")
    case True
    with assms show ?thesis by (simp add: assembled_def)
  next
    case False
    then have "at_index ?i ds = []" by (simp add: at_index_empty_iff)
    with False assms show ?thesis by (simp add: assembled_def merged_call_def)
  qed
  have "add_fragment (Some f) a = AList.update ?i (merged_call ?i (ds @ [f])) a"
    unfolding add_fragment_def Let_def option.case m
    by (simp add: merged_call_snoc)
  then show ?thesis
    using assms by (auto simp: assembled_def distinct_update update_conv' merged_call_snoc)
qed

lemma assembled_fold:
  "assembled ds a \<Longrightarrow> assembled (ds @ List.map_filter id fs) (fold add_fragment fs a)"
proof (induction fs arbitrary: ds a)
  case Nil
  then show ?case by (simp add: map_filter_simps)
next
  case (Cons f fs)
  show ?case
  proof (cases f)
    case None
    with Cons show ?thesis by (simp add: map_filter_simps add_fragment_def)
  next
    case (Some g)
    with Cons.IH[OF assembled_add_fragment[OF Cons.prems, of g]] show ?thesis
      by (simp add: map_filter_simps)
  qed
qed

lemma foldl_add_event: "foldl add_event a evs = fold add_fragment (concat (map tool_call_deltas evs)) a"
  by (induction evs arbitrary: a) (auto simp: add_event_def)

lemma assembled_events: "assembled (fragments evs) (foldl add_event [] evs)"
  using assembled_fold[OF assembled_Nil] by (simp add: foldl_add_event fragments_def)

lemma assembled_keys: "assembled ds a \<Longrightarrow> set (map fst a) = callIndex ` set ds"
proof -
  assume a: "assembled ds a"
  have "i \<in> set (map fst a) \<longleftrightarrow> i \<in> callIndex ` set ds" for i
  proof -
    have "i \<in> set (map fst a) \<longleftrightarrow> map_of a i \<noteq> None"
      by (force simp: map_of_eq_None_iff)
    with a show ?thesis by (simp add: assembled_def split: if_splits)
  qed
  then show ?thesis by blast
qed

lemma calls_assembled:
  assumes "assembled ds a"
  shows "calls a =
    map (\<lambda>i. let c = merged_call i ds in if arguments c = [] then c\<lparr>arguments := ''{}''\<rparr> else c)
        (sort (remdups (map callIndex ds)))"
proof -
  have d: "distinct (map fst a)" using assms by (simp add: assembled_def)
  have s: "sort (map fst a) = sort (remdups (map callIndex ds))"
  proof (rule sorted_distinct_set_unique)
    show "set (sort (map fst a)) = set (sort (remdups (map callIndex ds)))"
      using assembled_keys[OF assms] by simp
  qed (use d in auto)
  have "\<And>i. i \<in> set (sort (remdups (map callIndex ds))) \<Longrightarrow> the (map_of a i) = merged_call i ds"
    using assms by (auto simp: assembled_def)
  then show ?thesis
    unfolding calls_def s by (intro map_cong) auto
qed

section \<open>Property\<close>

text \<open>
  The calls assembled from a stream do not depend on how it was split: per provider
  index, in index order, the last non-empty ID and name and all argument fragments joined;
  the \<open>{}\<close> placeholder of a provider's first frame is no argument, but the arguments of a call
  without any.
\<close>

theorem stream_assembly:
  "calls (foldl add_event [] evs) =
    map (\<lambda>i. let c = merged_call i (fragments evs) in if arguments c = [] then c\<lparr>arguments := ''{}''\<rparr> else c)
        (sort (remdups (map callIndex (fragments evs))))"
  by (rule calls_assembled[OF assembled_events])

end
