(* ===== verification/ToolExchanges.thy ===== *)
theory ToolExchanges
  imports ModelRuntime "HOL-Library.Multiset"
begin

text \<open>
  \<open>Exchanges\<close> of \<open>backend/internal/toolcontext/context.go\<close>: a transcript is split
  into tool exchanges, an assistant call with its result.  A batch is one assistant message with
  calls, directly followed by as many tool messages, one per call, in any order; everything else
  is refused.  The specification is the grammar \<open>well_batched\<close>; \<open>exchanges\<close>
  accepts exactly its transcripts.
\<close>

section \<open>Data\<close>

record exchange =
  exID :: string
  exCall :: tool_call
  exResult :: message
  asstIndex :: nat
  resIndex :: nat
  consumed :: bool

datatype exchange_error =
    OrphanResult nat
  | CallsOnNonAssistant nat
  | InvalidCall nat
  | MissingResult nat
  | InvalidResult nat

definition empty_message :: message where
  "empty_message = \<lparr>role = [], content = [], toolCallID = [], toolCalls = [], msgRunID = [],
                     messageID = [], msgSeq = 0\<rparr>"

section \<open>Splitting a transcript\<close>

text \<open>The index of the last assistant message, -1 when there is none.\<close>

definition last_assistant :: "message list \<Rightarrow> int" where
  "last_assistant h =
     foldl (\<lambda>la (i, m). if role m = ''assistant'' then int i else la) (-1) (enumerate 0 h)"

text \<open>
  The calls of an assistant message become open exchanges; \<open>pending\<close> holds the IDs
  already seen in the batch.
\<close>

fun open_batch :: "int \<Rightarrow> nat \<Rightarrow> string \<Rightarrow> string list \<Rightarrow> tool_call list \<Rightarrow> exchange_error + exchange list" where
  "open_batch la i run pending [] = Inr []"
| "open_batch la i run pending (c # cs) =
     (if callID c \<in> set pending \<or> callID c = [] \<or> callName c = [] then Inl (InvalidCall i)
      else bindr (open_batch la i run (callID c # pending) cs)
        (\<lambda>xs. Inr (\<lparr>exID = (if run \<noteq> [] then run @ '':'' @ callID c else callID c), exCall = c,
                     exResult = empty_message, asstIndex = i, resIndex = 0,
                     consumed = (int i < la)\<rparr> # xs)))"

definition record_result :: "message \<Rightarrow> nat \<Rightarrow> exchange \<Rightarrow> exchange" where
  "record_result r k x =
     (if callID (exCall x) = toolCallID r then x\<lparr>exResult := r, resIndex := k\<rparr> else x)"

text \<open>
  The next \<open>n\<close> messages are the results of the batch; \<open>k\<close> is the index of the
  first of them.
\<close>

fun settle_batch :: "nat \<Rightarrow> nat \<Rightarrow> nat \<Rightarrow> message list \<Rightarrow> string list \<Rightarrow> exchange list \<Rightarrow>
    exchange_error + exchange list" where
  "settle_batch i k 0 ms pending xs = Inr xs"
| "settle_batch i k (Suc n) [] pending xs = Inl (MissingResult i)"
| "settle_batch i k (Suc n) (r # ms) pending xs =
     (if role r \<noteq> ''tool'' \<or> toolCallID r \<notin> set pending \<or> toolCalls r \<noteq> []
      then Inl (InvalidResult k)
      else settle_batch i (Suc k) n ms (remove1 (toolCallID r) pending) (map (record_result r k) xs))"

text \<open>The loop of \<open>Exchanges\<close> from index \<open>i\<close> on the rest of the transcript.\<close>

function exchanges_from :: "int \<Rightarrow> nat \<Rightarrow> message list \<Rightarrow> exchange_error + exchange list" where
  "exchanges_from la i [] = Inr []"
| "exchanges_from la i (m # ms) =
     (if role m = ''tool'' \<or> toolCallID m \<noteq> [] then Inl (OrphanResult i)
      else if toolCalls m = [] then exchanges_from la (Suc i) ms
      else if role m \<noteq> ''assistant'' then Inl (CallsOnNonAssistant i)
      else (let n = length (toolCalls m) in
        bindr (open_batch la i (msgRunID m) [] (toolCalls m)) (\<lambda>opened.
        bindr (settle_batch i (Suc i) n ms (map callID (toolCalls m)) opened) (\<lambda>batch.
        bindr (exchanges_from la (Suc i + n) (drop n ms)) (\<lambda>rest.
          Inr (batch @ rest))))))"
  by pat_completeness auto
termination
  by (relation "measure (\<lambda>(la, i, ms). length ms)") auto

definition exchanges :: "message list \<Rightarrow> exchange_error + exchange list" where
  "exchanges h = exchanges_from (last_assistant h) 0 h"

section \<open>The grammar of well-formed transcripts\<close>

definition plain_message :: "message \<Rightarrow> bool" where
  "plain_message m = (role m \<noteq> ''tool'' \<and> toolCallID m = [] \<and> toolCalls m = [])"

definition batch_head :: "message \<Rightarrow> bool" where
  "batch_head m = (role m = ''assistant'' \<and> toolCallID m = [] \<and> toolCalls m \<noteq> [] \<and>
     distinct (map callID (toolCalls m)) \<and>
     (\<forall>c \<in> set (toolCalls m). callID c \<noteq> [] \<and> callName c \<noteq> []))"

definition result_message :: "message \<Rightarrow> bool" where
  "result_message r = (role r = ''tool'' \<and> toolCalls r = [])"

definition results_of :: "message \<Rightarrow> message list \<Rightarrow> bool" where
  "results_of m rs = ((\<forall>r \<in> set rs. result_message r) \<and>
     mset (map toolCallID rs) = mset (map callID (toolCalls m)))"

inductive well_batched :: "message list \<Rightarrow> bool" where
  wb_nil: "well_batched []"
| wb_plain: "plain_message m \<Longrightarrow> well_batched ms \<Longrightarrow> well_batched (m # ms)"
| wb_batch: "batch_head m \<Longrightarrow> results_of m rs \<Longrightarrow> well_batched ms \<Longrightarrow> well_batched (m # rs @ ms)"

inductive_cases well_batched_ConsE: "well_batched (m # ms)"

section \<open>Opening and settling a batch\<close>

definition opened :: "int \<Rightarrow> nat \<Rightarrow> string \<Rightarrow> tool_call \<Rightarrow> exchange" where
  "opened la i run c =
     \<lparr>exID = (if run \<noteq> [] then run @ '':'' @ callID c else callID c), exCall = c,
      exResult = empty_message, asstIndex = i, resIndex = 0, consumed = (int i < la)\<rparr>"

lemma open_batch_Inr:
  "open_batch la i run pending cs = Inr xs \<longleftrightarrow>
     distinct (map callID cs) \<and> set (map callID cs) \<inter> set pending = {} \<and>
     (\<forall>c \<in> set cs. callID c \<noteq> [] \<and> callName c \<noteq> []) \<and> xs = map (opened la i run) cs"
proof (induction cs arbitrary: pending xs)
  case Nil
  then show ?case by auto
next
  case (Cons c cs)
  show ?case
    by (auto simp: result_simps Cons.IH opened_def)
qed

text \<open>What settling does to one exchange: the result with its call's ID, where there is one.\<close>

fun settled :: "nat \<Rightarrow> message list \<Rightarrow> exchange \<Rightarrow> exchange" where
  "settled k [] x = x"
| "settled k (r # rs) x = settled (Suc k) rs (record_result r k x)"

lemma record_result_call [simp]: "exCall (record_result r k x) = exCall x"
  by (simp add: record_result_def)

lemma record_result_keeps [simp]:
  "exID (record_result r k x) = exID x" "asstIndex (record_result r k x) = asstIndex x"
  "consumed (record_result r k x) = consumed x"
  by (simp_all add: record_result_def)

lemma settled_keeps [simp]:
  "exCall (settled k rs x) = exCall x" "exID (settled k rs x) = exID x"
  "asstIndex (settled k rs x) = asstIndex x" "consumed (settled k rs x) = consumed x"
  by (induction rs arbitrary: k x) auto

lemma settled_other: "callID (exCall x) \<notin> toolCallID ` set rs \<Longrightarrow> settled k rs x = x"
  by (induction rs arbitrary: k x) (auto simp: record_result_def)

lemma settled_at:
  "j < length rs \<Longrightarrow> distinct (map toolCallID rs) \<Longrightarrow> toolCallID (rs ! j) = callID (exCall x) \<Longrightarrow>
   settled k rs x = x\<lparr>exResult := rs ! j, resIndex := k + j\<rparr>"
proof (induction rs arbitrary: k x j)
  case Nil
  then show ?case by simp
next
  case (Cons r rs)
  show ?case
  proof (cases j)
    case 0
    with Cons.prems have "callID (exCall x) = toolCallID r" by simp
    moreover from this Cons.prems have "callID (exCall x) \<notin> toolCallID ` set rs" by auto
    ultimately show ?thesis using 0
      by (simp add: settled_other record_result_def)
  next
    case (Suc j')
    with Cons.prems have "toolCallID r \<noteq> callID (exCall x)"
      by (metis distinct.simps(2) length_Cons list.simps(9) nth_Cons_Suc nth_map nth_mem Suc_less_eq length_map)
    with Cons.IH[of j' x "Suc k"] Cons.prems Suc show ?thesis
      by (auto simp: record_result_def)
  qed
qed

lemma map_settled_Nil [simp]: "map (settled k []) xs = xs"
  by (induction xs) auto

lemma settle_batch_Inr:
  "settle_batch i k n ms pending xs = Inr ys \<longleftrightarrow>
     n \<le> length ms \<and> (\<forall>r \<in> set (take n ms). result_message r) \<and>
     mset (map toolCallID (take n ms)) \<subseteq># mset pending \<and>
     ys = map (settled k (take n ms)) xs"
proof (induction i k n ms pending xs arbitrary: ys rule: settle_batch.induct)
  case (3 i k n r ms pending xs)
  show ?case
  proof (cases "role r \<noteq> ''tool'' \<or> toolCallID r \<notin> set pending \<or> toolCalls r \<noteq> []")
    case True
    then have "\<not> (result_message r \<and> toolCallID r \<in># mset pending)"
      by (auto simp: result_message_def)
    moreover have "add_mset (toolCallID r) M \<subseteq># mset pending \<Longrightarrow> toolCallID r \<in># mset pending" for M
      by (meson mset_subset_eqD union_single_eq_member)
    ultimately show ?thesis using True by (auto simp: result_message_def)
  next
    case False
    then have p: "mset pending = add_mset (toolCallID r) (mset (remove1 (toolCallID r) pending))"
      by (metis insert_DiffM mset_remove1 set_mset_mset)
    have sub: "mset (map toolCallID (take (Suc n) (r # ms))) \<subseteq># mset pending \<longleftrightarrow>
        mset (map toolCallID (take n ms)) \<subseteq># mset (remove1 (toolCallID r) pending)"
      unfolding p by simp
    show ?thesis
      using False unfolding sub by (simp add: 3[OF False] result_message_def comp_def)
  qed
qed auto

text \<open>The exchanges of one batch.\<close>

definition batch_exchanges :: "int \<Rightarrow> nat \<Rightarrow> message \<Rightarrow> message list \<Rightarrow> exchange list" where
  "batch_exchanges la i m rs =
     map (\<lambda>c. settled (Suc i) rs (opened la i (msgRunID m) c)) (toolCalls m)"

lemma length_batch_exchanges [simp]: "length (batch_exchanges la i m rs) = length (toolCalls m)"
  by (simp add: batch_exchanges_def)

lemma batch_exchanges_keeps:
  "map exCall (batch_exchanges la i m rs) = toolCalls m"
  "x \<in> set (batch_exchanges la i m rs) \<Longrightarrow> asstIndex x = i"
  by (auto simp: batch_exchanges_def opened_def comp_def)

lemma results_of_length: "results_of m rs \<Longrightarrow> length rs = length (toolCalls m)"
  by (metis length_map results_of_def size_mset)

lemma exchanges_from_batch:
  assumes h: "batch_head m" and r: "results_of m rs"
  shows "exchanges_from la i (m # rs @ ms) =
    bindr (exchanges_from la (Suc i + length rs) ms) (\<lambda>rest. Inr (batch_exchanges la i m rs @ rest))"
proof -
  have len: "length rs = length (toolCalls m)" by (rule results_of_length[OF r])
  have "open_batch la i (msgRunID m) [] (toolCalls m) = Inr (map (opened la i (msgRunID m)) (toolCalls m))"
    using h by (simp add: open_batch_Inr batch_head_def)
  moreover have "settle_batch i (Suc i) (length rs) (rs @ ms) (map callID (toolCalls m))
      (map (opened la i (msgRunID m)) (toolCalls m)) = Inr (batch_exchanges la i m rs)"
    using r by (simp add: settle_batch_Inr results_of_def batch_exchanges_def comp_def)
  ultimately show ?thesis
    using h by (simp add: batch_head_def len[symmetric])
qed

lemma exchanges_from_plain:
  "plain_message m \<Longrightarrow> exchanges_from la i (m # ms) = exchanges_from la (Suc i) ms"
  by (simp add: plain_message_def)

declare exchanges_from.simps(2) [simp del]

text \<open>Every transcript of the grammar is accepted, and nothing else is.\<close>

lemma well_batched_exchanges: "well_batched h \<Longrightarrow> is_ok (exchanges_from la i h)"
proof (induction arbitrary: i rule: well_batched.induct)
  case wb_nil
  then show ?case by simp
next
  case (wb_plain m ms)
  then show ?case by (simp add: exchanges_from_plain)
next
  case (wb_batch m rs ms)
  then obtain rest where "exchanges_from la (Suc i + length rs) ms = Inr rest"
    by (auto simp: is_ok_iff)
  with wb_batch show ?case by (simp add: exchanges_from_batch)
qed

lemma exchanges_well_batched: "exchanges_from la i h = Inr xs \<Longrightarrow> well_batched h"
proof (induction la i h arbitrary: xs rule: exchanges_from.induct)
  case (1 la i)
  show ?case by (rule wb_nil)
next
  case (2 la i m ms)
  let ?n = "length (toolCalls m)"
  from "2.prems" have ok: "role m \<noteq> ''tool''" "toolCallID m = []"
    by (auto simp: exchanges_from.simps(2) split: if_splits)
  show ?case
  proof (cases "toolCalls m = []")
    case True
    with ok "2.prems" "2.IH"(1) have "well_batched ms"
      by (auto simp: exchanges_from.simps(2))
    with True ok show ?thesis by (intro wb_plain) (simp_all add: plain_message_def)
  next
    case False
    with "2.prems" ok have asst: "role m = ''assistant''"
      by (auto simp: exchanges_from.simps(2) split: if_splits)
    from "2.prems" ok False asst obtain ops batch rest where
      op: "open_batch la i (msgRunID m) [] (toolCalls m) = Inr ops" and
      st: "settle_batch i (Suc i) ?n ms (map callID (toolCalls m)) ops = Inr batch" and
      rest: "exchanges_from la (Suc i + ?n) (drop ?n ms) = Inr rest"
      by (auto simp: exchanges_from.simps(2) Let_def result_simps)
    from "2.IH"(2)[OF _ False _ refl op st] rest ok asst have wb: "well_batched (drop ?n ms)" by simp
    from op have head: "batch_head m"
      using ok asst False by (auto simp: open_batch_Inr batch_head_def)
    have sub: "mset (map toolCallID (take ?n ms)) \<subseteq># mset (map callID (toolCalls m))"
      and len: "?n \<le> length ms" and res: "\<forall>r \<in> set (take ?n ms). result_message r"
      using st unfolding settle_batch_Inr by auto
    have "size (mset (map toolCallID (take ?n ms))) = size (mset (map callID (toolCalls m)))"
      using len by simp
    with sub have "mset (map toolCallID (take ?n ms)) = mset (map callID (toolCalls m))"
      by (metis nless_le mset_subset_size subset_mset.nless_le)
    with res have "results_of m (take ?n ms)" by (simp add: results_of_def)
    from wb_batch[OF head this wb] show ?thesis by simp
  qed
qed

section \<open>Indices\<close>

lemma batch_result_index:
  assumes h: "batch_head m" and r: "results_of m rs" and c: "c \<in> set (toolCalls m)"
  shows "\<exists>j < length rs. toolCallID (rs ! j) = callID c \<and>
    settled (Suc i) rs (opened la i run c) =
      (opened la i run c)\<lparr>exResult := rs ! j, resIndex := Suc i + j\<rparr>"
proof -
  have ms: "mset (map toolCallID rs) = mset (map callID (toolCalls m))"
    using r by (simp add: results_of_def)
  then have d: "distinct (map toolCallID rs)"
    using h by (metis batch_head_def mset_eq_imp_distinct_iff)
  from ms c have "callID c \<in> set (map toolCallID rs)"
    by (metis imageI list.set_map mset_eq_setD)
  then obtain j where j: "j < length rs" "toolCallID (rs ! j) = callID c"
    by (auto simp: in_set_conv_nth)
  with settled_at[OF j(1) d, of "opened la i run c" "Suc i"] show ?thesis
    by (auto simp: opened_def)
qed

lemma exchange_indices:
  "well_batched h \<Longrightarrow> exchanges_from la i h = Inr xs \<Longrightarrow> x \<in> set xs \<Longrightarrow>
   i \<le> asstIndex x \<and> asstIndex x < resIndex x \<and> resIndex x < i + length h"
proof (induction arbitrary: i xs rule: well_batched.induct)
  case wb_nil
  then show ?case by simp
next
  case (wb_plain m ms)
  from wb_plain.prems wb_plain.hyps have "exchanges_from la (Suc i) ms = Inr xs"
    by (simp add: exchanges_from_plain)
  from wb_plain.IH[OF this wb_plain.prems(2)] show ?case by simp
next
  case (wb_batch m rs ms)
  from wb_batch.prems wb_batch.hyps obtain rest where
    rest: "exchanges_from la (Suc i + length rs) ms = Inr rest" and
    xs: "xs = batch_exchanges la i m rs @ rest"
    by (auto simp: exchanges_from_batch result_simps)
  show ?case
  proof (cases "x \<in> set rest")
    case True
    from wb_batch.IH[OF rest True] show ?thesis by simp
  next
    case False
    with xs wb_batch.prems obtain c where c: "c \<in> set (toolCalls m)"
      and x: "x = settled (Suc i) rs (opened la i (msgRunID m) c)"
      by (auto simp: batch_exchanges_def)
    from batch_result_index[OF wb_batch.hyps(1,2) c, of i la "msgRunID m"] show ?thesis
      unfolding x by (auto simp: opened_def)
  qed
qed

end
