(* ===== verification/ToolPolicy.thy ===== *)
theory ToolPolicy
  imports ToolExchanges GoCrypto
begin

text \<open>
  \<open>backend/internal/toolcontext/policy.go\<close> and \<open>skills.go\<close>: which exchanges of a
  transcript the model still sees in full.  \<open>observe\<close> classifies an exchange from its
  arguments and result, \<open>resolve_from\<close> is the backward loop of
  \<open>DefaultPolicy.Resolve\<close> and \<open>dedup_from\<close> that of \<open>deduplicateSkills\<close>;
  both recur on the list, so the head is treated after its tail, with the state the tail left.
\<close>

section \<open>Data\<close>

datatype context_mode = ToolContextFull | ToolContextReference | ToolContextEvicted

record context_item =
  itMode :: context_mode
  itReference :: string
  itPinned :: bool
  itReason :: string

text \<open>\<open>obArgs\<close> and \<open>obResult\<close> are decoded maps, \<open>None\<close> the nil map.\<close>

record observation =
  obName :: string
  obStatus :: string
  obKey :: string
  obArgs :: "gomap option"
  obResult :: "gomap option"

definition RecentFullToolExchanges :: nat where
  "RecentFullToolExchanges = 10"

section \<open>Reading decoded maps\<close>

definition mlook :: "gomap option \<Rightarrow> string \<Rightarrow> json option" where
  "mlook m k = (case m of None \<Rightarrow> None | Some kvs \<Rightarrow> mget kvs k)"

definition field :: "gomap option \<Rightarrow> string \<Rightarrow> string" where
  "field m k = (case mlook m k of Some (JStr s) \<Rightarrow> s | _ \<Rightarrow> [])"

definition number :: "gomap option \<Rightarrow> string \<Rightarrow> dec option" where
  "number m k = (case mlook m k of Some (JNum n) \<Rightarrow> Some (dec_of_lit n) | _ \<Rightarrow> None)"

definition filePath :: "gomap option \<Rightarrow> string" where
  "filePath m = (if field m ''file_path'' \<noteq> [] then field m ''file_path'' else field m ''path'')"

definition shortened :: "string \<Rightarrow> nat \<Rightarrow> string" where
  "shortened s limit =
     (let rs = runes s in
      if limit < length rs
      then string_of_runes (take limit rs) @ [CHR 0xE2, CHR 0x80, CHR 0xA6] @ ''[''
           @ show_nat (length rs - limit) @ '' chars omitted]''
      else s)"

section \<open>Classification\<close>

definition canonicalName :: "string \<Rightarrow> string" where
  "canonicalName n =
     (if n = ''computer_exec'' then ''bash''
      else if n = ''computer_read_file'' then ''read''
      else if n = ''computer_write_file'' then ''write''
      else if n = ''computer_list_files'' then ''list_files''
      else n)"

definition knownTool :: "string \<Rightarrow> bool" where
  "knownTool n = (n \<in> set [''bash'', ''read'', ''write'', ''edit'', ''list_files'',
                          ''ask_user_question'', ''propose_plan''])"

definition hasError :: "gomap option \<Rightarrow> bool" where
  "hasError r =
     ((case mlook r ''error'' of None \<Rightarrow> False
       | Some v \<Rightarrow> v \<noteq> JNull \<and> v \<noteq> JStr [] \<and> v \<noteq> JBool False) \<or>
      mlook r ''is_error'' = Some (JBool True) \<or> mlook r ''ok'' = Some (JBool False) \<or>
      (case number r ''exit_code'' of None \<Rightarrow> False | Some code \<Rightarrow> \<not> dec_is_int code 0) \<or>
      field r ''status'' \<in> set [''error'', ''failed'', ''interrupted''])"

definition interaction_tool :: "string \<Rightarrow> bool" where
  "interaction_tool n = (n = ''ask_user_question'' \<or> n = ''propose_plan'')"

text \<open>
  The arguments as \<open>Decode\<close> with \<open>UseNumber\<close> leaves them: the error flag and the
  map.  Text behind the first value is ignored.
\<close>

definition decode_args :: "string \<Rightarrow> bool \<times> gomap option" where
  "decode_args s =
     (case json_decode s of
        None \<Rightarrow> (False, None)
      | Some (v, rest) \<Rightarrow> (case as_map v of None \<Rightarrow> (False, None) | Some m \<Rightarrow> (True, m)))"

definition decode_result :: "string \<Rightarrow> gomap option" where
  "decode_result s =
     (case json_unmarshal s of
        None \<Rightarrow> None
      | Some v \<Rightarrow> (case as_map v of None \<Rightarrow> None | Some m \<Rightarrow> m))"

text \<open>The status of a call without an error whose arguments decoded.\<close>

definition success_status :: "string \<Rightarrow> string \<Rightarrow> gomap option \<Rightarrow> string" where
  "success_status n raw r =
     (if n = ''bash'' then
        (if (case number r ''exit_code'' of None \<Rightarrow> False | Some code \<Rightarrow> dec_is_int code 0) then ''success''
         else if field r ''status'' = ''running'' then ''running'' else ''unknown'')
      else if n = ''read'' then
        (case mlook r ''content'' of Some (JStr _) \<Rightarrow> ''success'' | _ \<Rightarrow> ''unknown'')
      else if n = ''edit'' \<or> n = ''write'' then
        (if mlook r ''ok'' = Some (JBool True) then ''success'' else ''unknown'')
      else if n = ''list_files'' then
        (case json_unmarshal raw of Some (JArr _) \<Rightarrow> ''success'' | _ \<Rightarrow> ''unknown'')
      else if interaction_tool n then
        (if field r ''status'' \<in> set [''answered'', ''approved'', ''rejected'', ''changes_requested'']
         then ''success'' else ''unknown'')
      else ''unknown'')"

definition key_args :: "string \<Rightarrow> gomap option \<Rightarrow> gomap option" where
  "key_args n args =
     (if n = ''bash'' \<and> field args ''command'' \<noteq> [] then
        Some [(''command'', JStr (field args ''command'')),
              (''run_in_background'', JBool (mlook args ''run_in_background'' = Some (JBool True)))]
      else if n = ''read'' \<and> filePath args \<noteq> [] then Some [(''file_path'', JStr (filePath args))]
      else args)"

definition observe :: "exchange \<Rightarrow> observation" where
  "observe x =
     (let n = canonicalName (callName (exCall x));
          raw = content (exResult x);
          (argsOk, args) = decode_args (arguments (exCall x));
          r = decode_result raw;
          status =
            (if interaction_tool n \<and> mlook r ''cancelled'' = Some (JBool True) then ''cancelled''
             else if hasError r then ''error''
             else if argsOk \<and> args \<noteq> None then success_status n raw r
             else ''unknown'');
          canonical =
            (case key_args n args of
               Some kvs \<Rightarrow> if argsOk then render (go_any (JObj kvs)) else arguments (exCall x)
             | None \<Rightarrow> arguments (exCall x))
      in \<lparr>obName = n, obStatus = status, obKey = n @ '':'' @ canonical, obArgs = args, obResult = r\<rparr>)"

definition lowValue :: "observation \<Rightarrow> bool" where
  "lowValue ob =
     (if obName ob = ''list_files'' then True
      else if obName ob \<noteq> ''bash'' \<or> mlook (obArgs ob) ''run_in_background'' = Some (JBool True) then False
      else trim_space (field (obArgs ob) ''command'') \<in>
        set [''pwd'', ''ls'', ''ls -a'', ''ls -l'', ''ls -la'', ''ls -al'', ''git status'',
             ''git status --short'', ''git status --porcelain''])"

section \<open>References\<close>

definition num_json :: "dec \<Rightarrow> json" where
  "num_json d = JNum (show_dec d)"

definition short_fields :: "gomap option \<Rightarrow> nat \<Rightarrow> string list \<Rightarrow> gomap" where
  "short_fields m limit ks =
     concat (map (\<lambda>k. if field m k \<noteq> [] then [(k, JStr (shortened (field m k) limit))] else []) ks)"

definition read_reference :: "gomap option \<Rightarrow> gomap option \<Rightarrow> gomap" where
  "read_reference args r =
     [(''file'', JStr (shortened (filePath args) 240))]
     @ (case mlook r ''read_receipt'' of
          Some (JObj receipt) \<Rightarrow>
            (if length (field (Some receipt) ''sha256'') = 64
             then [(''historical_sha256'', JStr (field (Some receipt) ''sha256''))] else [])
        | _ \<Rightarrow> [])
     @ (case (number r ''start_line'', number r ''line_count'') of
          (Some start, Some lines) \<Rightarrow>
            [(''start_line'', num_json start), (''line_count'', num_json lines)]
            @ (if dec_positive lines
               then [(''end_line'', num_json (dec_add (dec_add start lines) (dec_of_int (-1))))] else [])
        | _ \<Rightarrow> [])
     @ (case number r ''next_offset'' of Some v \<Rightarrow> [(''next_offset'', num_json v)] | None \<Rightarrow> [])
     @ (case mlook r ''truncated'' of Some (JBool b) \<Rightarrow> [(''truncated'', JBool b)] | _ \<Rightarrow> [])"

definition tool_reference :: "observation \<Rightarrow> gomap" where
  "tool_reference ob =
     (let n = obName ob; args = obArgs ob; r = obResult ob in
      if interaction_tool n then
        [(''interaction_status'', JStr (field r ''status'')), (''historical_only'', JBool True),
         (''execution_approval'', JBool False)] @ short_fields r 80 [''interaction_id'', ''request_digest'']
      else if n = ''read'' then read_reference args r
      else if n = ''bash'' then
        [(''command'', JStr (shortened (field args ''command'') 400))]
        @ (case number r ''exit_code'' of Some code \<Rightarrow> [(''exit_code'', num_json code)] | None \<Rightarrow> [])
        @ short_fields r 240 [''task_id'', ''log_path'', ''pid'']
      else if n = ''edit'' \<or> n = ''write'' then
        [(''file'', JStr (shortened (filePath args) 240))]
        @ (case number r ''replacements'' of Some k \<Rightarrow> [(''replacements'', num_json k)] | None \<Rightarrow> [])
      else [])"

definition reference :: "exchange \<Rightarrow> observation \<Rightarrow> bool \<Rightarrow> string" where
  "reference x ob resolved =
     render (JObj (go_map (
       [(''tool'', JStr (obName ob)), (''tool_execution_id'', JStr (exID x)), (''status'', JStr (obStatus ob))]
       @ (if messageID (exResult x) \<noteq> [] then [(''result_message_id'', JStr (messageID (exResult x)))] else [])
       @ (if resolved then [(''resolved_by_later_success'', JBool True)] else [])
       @ tool_reference ob)))"

section \<open>Resolve\<close>

text \<open>Assistant index of the latest later success, per retry key.\<close>

type_synonym successes = "string \<Rightarrow> nat option"

definition unresolved :: "successes \<Rightarrow> exchange \<Rightarrow> observation \<Rightarrow> bool" where
  "unresolved later x ob = (obStatus ob = ''error'' \<and>
     \<not> (case later (obKey ob) of None \<Rightarrow> False | Some at \<Rightarrow> asstIndex x < at))"

text \<open>\<open>newer\<close> is the number of exchanges behind this one, \<open>len - 1 - i\<close>.\<close>

definition resolve_one :: "successes \<Rightarrow> nat \<Rightarrow> exchange \<Rightarrow> observation \<Rightarrow> context_item" where
  "resolve_one later newer x ob =
     (let item = \<lparr>itMode = ToolContextFull, itReference = [], itPinned = False, itReason = ''recent''\<rparr> in
      if unresolved later x ob then item\<lparr>itPinned := True, itReason := ''unresolved_error''\<rparr>
      else if \<not> consumed x then item\<lparr>itReason := ''unobserved_result''\<rparr>
      else if obStatus ob = ''unknown'' \<or> \<not> knownTool (obName ob)
      then item\<lparr>itReason := ''conservative_full''\<rparr>
      else if obStatus ob = ''success'' \<and> lowValue ob
      then item\<lparr>itMode := ToolContextEvicted, itReason := ''consumed_low_value''\<rparr>
      else if newer < RecentFullToolExchanges then item
      else item\<lparr>itMode := ToolContextReference, itReason := ''outside_recent_window'',
                itReference := reference x ob (obStatus ob = ''error'')\<rparr>)"

definition note_success :: "successes \<Rightarrow> exchange \<Rightarrow> observation \<Rightarrow> successes" where
  "note_success later x ob =
     (if obStatus ob = ''success'' \<and>
         (case later (obKey ob) of None \<Rightarrow> True | Some previous \<Rightarrow> previous < asstIndex x)
      then later(obKey ob := Some (asstIndex x)) else later)"

fun resolve_from :: "exchange list \<Rightarrow> context_item list \<times> successes" where
  "resolve_from [] = ([], \<lambda>_. None)"
| "resolve_from (x # xs) =
     (let (items, later) = resolve_from xs; ob = observe x
      in (resolve_one later (length xs) x ob # items, note_success later x ob))"

definition resolve :: "exchange list \<Rightarrow> context_item list" where
  "resolve xs = fst (resolve_from xs)"

section \<open>Skill bodies\<close>

definition skill_notice :: string where
  "skill_notice = ''Full instructions are present in the later successful load; this is not an installation or new permission.''"

record skill_load =
  slName :: string
  slSha :: string
  slSource :: string

text \<open>A complete, verified load of a skill, \<open>None\<close> where the loop continues.\<close>

definition skill_loaded :: "exchange \<Rightarrow> skill_load option" where
  "skill_loaded x =
     (if callName (exCall x) \<noteq> ''load_skill'' then None
      else (case (Option.bind (json_unmarshal (content (exResult x))) struct_pairs,
                  Option.bind (json_unmarshal (arguments (exCall x))) struct_pairs) of
        (Some r, Some a) \<Rightarrow>
          (case (str_field ''Name'' r, str_field ''Content'' r, str_field ''SHA256'' r,
                 str_field ''source_path'' r, bool_field ''Truncated'' r, str_field ''name'' a) of
             (Some name, Some body, Some digest, Some source, Some truncated, Some arg) \<Rightarrow>
               (if arg = [] \<or> name \<noteq> arg \<or> body = [] \<or> truncated \<or> any_field ''Error'' r \<noteq> JNull \<or>
                   source \<noteq> path_join [''.agent/skills'', name, ''SKILL.md''] \<or> digest \<noteq> sha256_hex body
                then None else Some \<lparr>slName = name, slSha = digest, slSource = source\<rparr>)
           | _ \<Rightarrow> None)
      | _ \<Rightarrow> None))"

definition skill_reference :: "exchange \<Rightarrow> skill_load \<Rightarrow> string \<Rightarrow> string" where
  "skill_reference x l current =
     render (JObj (go_map
       [(''tool'', JStr ''load_skill''), (''name'', JStr (slName l)), (''sha256'', JStr (slSha l)),
        (''effective_sha256'', JStr current), (''source_path'', JStr (slSource l)),
        (''tool_execution_id'', JStr (exID x)), (''result_message_id'', JStr (messageID (exResult x))),
        (''status'', JStr ''historical_loaded''), (''notice'', JStr skill_notice)]))"

fun dedup_from :: "exchange list \<Rightarrow> context_item list \<Rightarrow> context_item list \<times> (string \<Rightarrow> string option)" where
  "dedup_from (x # xs) (item # items) =
     (let (items', latest) = dedup_from xs items in
      (case skill_loaded x of
         None \<Rightarrow> (item # items', latest)
       | Some l \<Rightarrow>
          (case latest (slName l) of
             Some current \<Rightarrow>
               if consumed x \<and> \<not> itPinned item then
                 (\<lparr>itMode = ToolContextReference, itReference = skill_reference x l current,
                   itPinned = False, itReason = ''superseded_skill_body''\<rparr> # items', latest)
               else (item # items', latest(slName l := Some (slSha l)))
           | None \<Rightarrow> (item # items', latest(slName l := Some (slSha l))))))"
| "dedup_from _ items = (items, \<lambda>_. None)"

definition deduplicateSkills :: "exchange list \<Rightarrow> context_item list \<Rightarrow> context_item list" where
  "deduplicateSkills xs items = fst (dedup_from xs items)"

section \<open>Lengths and modes\<close>

lemma length_resolve [simp]: "length (resolve xs) = length xs"
  unfolding resolve_def by (induction xs) (auto simp: Let_def split: prod.splits)

lemma length_dedup [simp]: "length (deduplicateSkills xs items) = length items"
  unfolding deduplicateSkills_def
  by (induction xs items rule: dedup_from.induct)
     (auto simp: Let_def split: prod.splits option.splits)

text \<open>The item of the exchange at a position depends on the exchanges behind it.\<close>

lemma resolve_nth:
  "i < length xs \<Longrightarrow>
   resolve xs ! i =
     resolve_one (snd (resolve_from (drop (Suc i) xs))) (length xs - Suc i) (xs ! i) (observe (xs ! i))"
proof (induction xs arbitrary: i)
  case Nil
  then show ?case by simp
next
  case (Cons x xs)
  show ?case
  proof (cases i)
    case 0
    then show ?thesis by (simp add: resolve_def split_beta Let_def)
  next
    case (Suc j)
    with Cons.prems have "j < length xs" by simp
    from Cons.IH[OF this] Suc show ?thesis by (simp add: resolve_def split_beta Let_def)
  qed
qed

text \<open>What the success map holds: an exchange of the suffix that succeeded with that key.\<close>

lemma success_map_sound:
  "snd (resolve_from xs) k = Some a \<Longrightarrow>
   \<exists>y \<in> set xs. obStatus (observe y) = ''success'' \<and> obKey (observe y) = k \<and> asstIndex y = a"
proof (induction xs)
  case Nil
  then show ?case by simp
next
  case (Cons x xs)
  then show ?case
    by (auto simp: split_beta Let_def note_success_def split: if_splits)
qed

lemma success_map_complete:
  "y \<in> set xs \<Longrightarrow> obStatus (observe y) = ''success'' \<Longrightarrow>
   \<exists>a. snd (resolve_from xs) (obKey (observe y)) = Some a \<and> asstIndex y \<le> a"
proof (induction xs)
  case Nil
  then show ?case by simp
next
  case (Cons x xs)
  then consider "y = x" | "y \<in> set xs" by auto
  then show ?case
  proof cases
    case 1
    with Cons.prems show ?thesis
      by (cases "snd (resolve_from xs) (obKey (observe x))")
         (auto simp: split_beta Let_def note_success_def)
  next
    case 2
    with Cons.IH Cons.prems obtain a where
      "snd (resolve_from xs) (obKey (observe y)) = Some a" "asstIndex y \<le> a" by auto
    then show ?thesis
      by (auto simp: split_beta Let_def note_success_def split: option.splits)
  qed
qed

text \<open>When the item of an exchange is a pinned one.\<close>

lemma unresolved_iff:
  "unresolved (snd (resolve_from ys)) x (observe x) \<longleftrightarrow>
     obStatus (observe x) = ''error'' \<and>
     \<not> (\<exists>y \<in> set ys. obStatus (observe y) = ''success'' \<and> obKey (observe y) = obKey (observe x) \<and>
          asstIndex x < asstIndex y)"
proof -
  let ?m = "snd (resolve_from ys) (obKey (observe x))"
  have "(case ?m of None \<Rightarrow> False | Some at \<Rightarrow> asstIndex x < at) \<longleftrightarrow>
    (\<exists>y \<in> set ys. obStatus (observe y) = ''success'' \<and> obKey (observe y) = obKey (observe x) \<and>
          asstIndex x < asstIndex y)" (is "?L = ?R")
  proof
    assume ?L
    then obtain a where a: "?m = Some a" "asstIndex x < a" by (auto split: option.splits)
    from success_map_sound[OF a(1)] a(2) show ?R by auto
  next
    assume ?R
    then obtain y where y: "y \<in> set ys" "obStatus (observe y) = ''success''"
      "obKey (observe y) = obKey (observe x)" "asstIndex x < asstIndex y" by auto
    from success_map_complete[OF y(1,2)] y(3,4) show ?L by auto
  qed
  then show ?thesis by (simp add: unresolved_def)
qed

lemma resolve_one_pinned: "itPinned (resolve_one later n x ob) \<longleftrightarrow> unresolved later x ob"
  by (simp add: resolve_one_def Let_def)

lemma resolve_one_full:
  "unresolved later x ob \<or> \<not> consumed x \<or> obStatus ob = ''unknown'' \<or> \<not> knownTool (obName ob) \<Longrightarrow>
   itMode (resolve_one later n x ob) = ToolContextFull"
  by (auto simp: resolve_one_def Let_def)

lemma resolve_one_recent:
  "n < RecentFullToolExchanges \<Longrightarrow> itMode (resolve_one later n x ob) \<noteq> ToolContextReference"
  by (auto simp: resolve_one_def Let_def)

lemma resolve_one_evicted:
  "itMode (resolve_one later n x ob) = ToolContextEvicted \<Longrightarrow>
   consumed x \<and> obStatus ob = ''success'' \<and> lowValue ob"
  by (auto simp: resolve_one_def Let_def split: if_splits)

text \<open>
  Deduplication changes an item only into a reference, and only one that is consumed, not
  pinned and a verified load with a later effective one.
\<close>

lemma dedup_nth:
  assumes "length items = length xs" and "i < length xs"
  shows "deduplicateSkills xs items ! i = items ! i \<or>
    (itMode (deduplicateSkills xs items ! i) = ToolContextReference \<and> consumed (xs ! i) \<and>
     \<not> itPinned (items ! i) \<and> \<not> itPinned (deduplicateSkills xs items ! i) \<and>
     skill_loaded (xs ! i) \<noteq> None)"
  using assms unfolding deduplicateSkills_def
proof (induction xs items arbitrary: i rule: dedup_from.induct)
  case (1 x xs item items)
  obtain its latest where d: "dedup_from xs items = (its, latest)" by fastforce
  show ?case
  proof (cases i)
    case 0
    then show ?thesis by (auto simp: d split: option.splits)
  next
    case (Suc j)
    with 1(1)[of j] 1(2,3) d show ?thesis by (auto split: option.splits)
  qed
qed auto

text \<open>A name in \<open>latest\<close> has a load behind that stays as it was.\<close>

lemma latest_kept:
  "length items = length xs \<Longrightarrow> snd (dedup_from xs items) name = Some d \<Longrightarrow>
   \<exists>j < length xs. \<exists>l. skill_loaded (xs ! j) = Some l \<and> slName l = name \<and> slSha l = d \<and>
     fst (dedup_from xs items) ! j = items ! j"
proof (induction xs items arbitrary: d rule: dedup_from.induct)
  case (1 x xs item items)
  obtain its latest where dd: "dedup_from xs items = (its, latest)" by fastforce
  have step: "latest name = Some e \<Longrightarrow> \<exists>j < length xs. \<exists>l. skill_loaded (xs ! j) = Some l \<and>
      slName l = name \<and> slSha l = e \<and> its ! j = items ! j" for e
    using 1(1)[of e] 1(2) dd by simp
  show ?case
  proof (cases "latest name = Some d")
    case True
    from step[OF this] obtain j l where j: "j < length xs" "skill_loaded (xs ! j) = Some l"
      "slName l = name" "slSha l = d" "its ! j = items ! j" by auto
    show ?thesis
      by (rule exI[of _ "Suc j"]) (use j dd in \<open>auto split: option.splits\<close>)
  next
    case False
    with 1(3) dd obtain l where "skill_loaded x = Some l" "slName l = name" "slSha l = d"
      "fst (dedup_from (x # xs) (item # items)) ! 0 = item"
      by (auto split: option.splits if_splits)
    then show ?thesis by (intro exI[of _ 0]) auto
  qed
qed auto

end
