(* ===== verification/ToolContextClaims.thy ===== *)
theory ToolContextClaims
  imports ToolProjection
begin

text \<open>
  What the projection of \<open>backend/internal/toolcontext\<close> guarantees.  Each property is a few
  steps over the lemmas of \<open>ToolExchanges\<close>, \<open>ToolPolicy\<close> and
  \<open>ToolProjection\<close>; the example transcript \<open>sample\<close> instantiates them.
\<close>

section \<open>A transcript\<close>

definition text_message :: "string \<Rightarrow> string \<Rightarrow> message" where
  "text_message r s = empty_message\<lparr>role := r, content := s\<rparr>"

definition call_of :: "string \<Rightarrow> string \<Rightarrow> string \<Rightarrow> tool_call" where
  "call_of i n a = \<lparr>callID = i, callName = n, arguments = a, callIndex = 0\<rparr>"

definition result_of :: "string \<Rightarrow> string \<Rightarrow> message" where
  "result_of i s = empty_message\<lparr>role := ''tool'', toolCallID := i, content := s\<rparr>"

definition ls_args :: string where \<open>ls_args = ''{"command":"ls"}''\<close>
definition make_args :: string where \<open>make_args = ''{"command":"make"}''\<close>
definition ok_result :: string where \<open>ok_result = ''{"exit_code":0}''\<close>
definition failed_result :: string where \<open>failed_result = ''{"exit_code":2}''\<close>

definition sample :: "message list" where
  "sample =
     [text_message ''user'' ''build it'',
      (text_message ''assistant'' [])\<lparr>toolCalls := [call_of ''a'' ''bash'' ls_args, call_of ''b'' ''bash'' make_args]\<rparr>,
      result_of ''b'' failed_result,
      result_of ''a'' ok_result,
      text_message ''assistant'' ''it fails'']"

lemmas sample_defs = sample_def text_message_def call_of_def result_of_def ls_args_def make_args_def
  ok_result_def failed_result_def empty_message_def

lemmas json_eval = go_json_defs jrun.simps go_text_defs char_of_eq_iff

definition ls_exchange :: exchange where
  "ls_exchange = \<lparr>exID = ''a'', exCall = call_of ''a'' ''bash'' ls_args, exResult = result_of ''a'' ok_result,
                  asstIndex = 1, resIndex = 3, consumed = True\<rparr>"

definition make_exchange :: exchange where
  "make_exchange = \<lparr>exID = ''b'', exCall = call_of ''b'' ''bash'' make_args, exResult = result_of ''b'' failed_result,
                    asstIndex = 1, resIndex = 2, consumed = True\<rparr>"

lemma sample_exchanges: "exchanges sample = Inr [ls_exchange, make_exchange]"
  by (simp add: exchanges_def sample_defs exchanges_from.simps last_assistant_def ls_exchange_def
      make_exchange_def record_result_def Let_def eval_nat_numeral)

lemma sample_args:
  "decode_args ls_args = (True, Some [(''command'', JStr ''ls'')])"
  "decode_args make_args = (True, Some [(''command'', JStr ''make'')])"
  by (simp_all add: decode_args_def ls_args_def make_args_def json_eval as_map_def)

lemma sample_results:
  "decode_result ok_result = Some [(''exit_code'', JNum ''0'')]"
  "decode_result failed_result = Some [(''exit_code'', JNum ''2'')]"
  by (simp_all add: decode_result_def ok_result_def failed_result_def json_eval as_map_def)

lemma sample_numbers: "dec_of_lit ''0'' = (0, 0)" "dec_of_lit ''2'' = (2, 0)" "dec_of_int 0 = (0, 0)"
  by (simp_all add: dec_of_lit_def dec_of_int_def dec_norm.simps nat_of_digits_def is_digit_def)

lemma sample_observed:
  "obStatus (observe ls_exchange) = ''success''" "obName (observe ls_exchange) = ''bash''"
  "obArgs (observe ls_exchange) = Some [(''command'', JStr ''ls'')]"
  "obStatus (observe make_exchange) = ''error''"
  by (simp_all add: observe_def ls_exchange_def make_exchange_def call_of_def result_of_def sample_args
      sample_results canonicalName_def interaction_tool_def hasError_def mlook_def mget_def number_def
      field_def dec_is_int_def sample_numbers success_status_def empty_message_def Let_def)

section \<open>Properties\<close>

text \<open>
  C36. \<open>Build\<close> fails closed: it returns a projection exactly for the transcripts of the
  batch grammar (each assistant message with calls directly followed by one result per call,
  no other tool message), and an error for every other one.
\<close>

theorem build_accepts: "is_ok (Build h) \<longleftrightarrow> well_batched h"
proof -
  have "is_ok (Build h) \<longleftrightarrow> is_ok (exchanges h)"
    by (auto simp: Build_def build_with_def is_ok_iff result_simps Let_def)
  then show ?thesis
    by (auto simp: exchanges_def is_ok_iff dest: exchanges_well_batched
        intro: well_batched_exchanges[unfolded is_ok_iff])
qed

text \<open>
  C35. The projection is itself a well-batched transcript: every call kept has its result,
  directly behind the message that makes it, and no result is kept without its call.
\<close>

theorem build_stays_batched: "Build h = Inr p \<Longrightarrow> well_batched (prMessages p)"
  unfolding Build_def by (rule build_with_well_batched[OF length_default_items])

theorem build_stays_batched_witness:
  "\<exists>p. Build sample = Inr p \<and> well_batched (prMessages p)"
proof -
  from sample_exchanges obtain p where p: "Build sample = Inr p"
    by (simp add: Build_def build_with_def Let_def)
  with build_stays_batched[OF p] show ?thesis by blast
qed

text \<open>
  C37. An error that no later assistant turn repaired by the same call, and a result the model
  has not seen yet, are never taken from the model: call and result stay in the projection.
\<close>

theorem build_keeps_needed:
  assumes "Build h = Inr p" and "exchanges h = Inr xs" and "i < length xs"
    and "(obStatus (observe (xs ! i)) = ''error'' \<and>
          \<not> (\<exists>j < length xs. i < j \<and> obStatus (observe (xs ! j)) = ''success'' \<and>
               obKey (observe (xs ! j)) = obKey (observe (xs ! i)) \<and> asstIndex (xs ! i) < asstIndex (xs ! j)))
         \<or> \<not> consumed (xs ! i)"
  shows "exResult (xs ! i) \<in> set (prMessages p) \<and>
    (\<exists>m \<in> set (prMessages p). role m = ''assistant'' \<and> exCall (xs ! i) \<in> set (toolCalls m))"
proof -
  have "unresolved (snd (resolve_from (drop (Suc i) xs))) (xs ! i) (observe (xs ! i)) \<or> \<not> consumed (xs ! i)"
    using assms(4) unfolding unresolved_iff by (fastforce simp: in_set_conv_nth)
  from default_items_full[OF assms(3) this]
  have full: "itMode (default_items xs ! i) = ToolContextFull" .
  have mem: "(xs ! i, default_items xs ! i) \<in> set (zip xs (default_items xs))"
    using assms(3) by (auto simp: in_set_zip)
  from assms(1,2) have p: "prMessages p = project_from ([] @ zip xs (default_items xs)) 0 h"
    by (auto simp: Build_def dest: build_with_Inr)
  have e: "exchanges_from (last_assistant h) 0 h = Inr xs" using assms(2) by (simp add: exchanges_def)
  show ?thesis
    unfolding p
    by (rule project_keeps_full[OF exchanges_well_batched_top[OF assms(2)] e _ _ mem full])
       (simp_all add: before_def)
qed

theorem build_keeps_needed_witness:
  "\<exists>p. Build sample = Inr p \<and> result_of ''b'' failed_result \<in> set (prMessages p)"
proof -
  from sample_exchanges obtain p where p: "Build sample = Inr p"
    by (simp add: Build_def build_with_def Let_def)
  have "exResult ([ls_exchange, make_exchange] ! 1) \<in> set (prMessages p)"
    by (rule build_keeps_needed[OF p sample_exchanges, THEN conjunct1])
       (simp_all add: sample_observed)
  with p show ?thesis by (auto simp: make_exchange_def)
qed

text \<open>
  Pinned is exactly "unresolved error": the result is an error and no later call with the
  same key, in a later assistant turn, succeeded.  Siblings of one batch never count.
\<close>

theorem pinned_iff_unresolved:
  assumes "i < length xs"
  shows "itPinned (default_items xs ! i) \<longleftrightarrow>
    obStatus (observe (xs ! i)) = ''error'' \<and>
    \<not> (\<exists>y \<in> set (drop (Suc i) xs). obStatus (observe y) = ''success'' \<and>
         obKey (observe y) = obKey (observe (xs ! i)) \<and> asstIndex (xs ! i) < asstIndex y)"
  unfolding default_items_pinned[OF assms] resolve_nth[OF assms] resolve_one_pinned unresolved_iff ..

theorem pinned_iff_unresolved_witness:
  "itPinned (default_items [ls_exchange, make_exchange] ! 1)"
  by (subst pinned_iff_unresolved) (simp_all add: sample_observed)

text \<open>
  A call is dropped without a trace only when the model has seen its result, the result
  is a success, and the call is on the exact list of commands without lasting value.
\<close>

theorem evicted_is_low_value:
  assumes "i < length xs" and "itMode (default_items xs ! i) = ToolContextEvicted"
  shows "consumed (xs ! i) \<and> obStatus (observe (xs ! i)) = ''success'' \<and> lowValue (observe (xs ! i))"
  by (rule default_items_evicted[OF assms])

theorem evicted_is_low_value_witness:
  "itMode (default_items [ls_exchange, make_exchange] ! 0) = ToolContextEvicted \<and> lowValue (observe ls_exchange)"
proof -
  have "lowValue (observe ls_exchange)"
    by (simp add: lowValue_def sample_observed field_def mlook_def mget_def trim_space_def chunks.simps
        go_text_defs)
  then have "itMode (default_items [ls_exchange, make_exchange] ! 0) = ToolContextEvicted"
    by (simp add: default_items_def deduplicateSkills_def resolve_def resolve_one_def unresolved_def
        sample_observed knownTool_def skill_loaded_def Let_def split_beta note_success_def
        ls_exchange_def[THEN arg_cong, of consumed] ls_exchange_def[THEN arg_cong, of exCall] call_of_def)
  with evicted_is_low_value[of 0 "[ls_exchange, make_exchange]"] show ?thesis by simp
qed

text \<open>
  However old they are, messages without tool calls reach the model unchanged and in
  order.
\<close>

theorem build_keeps_plain:
  assumes "Build h = Inr p"
  shows "subseq (filter plain_message h) (prMessages p)"
proof -
  from build_with_Inr[OF assms[unfolded Build_def]] obtain xs where xs: "exchanges h = Inr xs"
    and p: "prMessages p = project_from ([] @ zip xs (default_items xs)) 0 h" by blast
  show ?thesis
    unfolding p
    by (rule project_keeps_plain[OF exchanges_well_batched_top[OF xs] xs[unfolded exchanges_def]])
       (simp_all add: before_def)
qed

theorem build_keeps_plain_witness:
  "\<exists>p. Build sample = Inr p \<and> subseq (filter plain_message sample) (prMessages p)"
proof -
  from sample_exchanges obtain p where p: "Build sample = Inr p"
    by (simp add: Build_def build_with_def Let_def)
  with build_keeps_plain[OF p] show ?thesis by blast
qed

text \<open>
  Skill instructions: whenever a complete load of a skill is in the transcript, one load
  of that skill, this or a later one, is kept in full.
\<close>

theorem skill_body_kept:
  assumes "i < length xs" and "skill_loaded (xs ! i) = Some l"
  shows "\<exists>j l'. i \<le> j \<and> j < length xs \<and> skill_loaded (xs ! j) = Some l' \<and> slName l' = slName l \<and>
    itMode (default_items xs ! j) = ToolContextFull"
proof -
  from dedup_effective[of "resolve xs" xs, OF _ assms] obtain j l' where j: "i \<le> j" "j < length xs"
    "skill_loaded (xs ! j) = Some l'" "slName l' = slName l" "default_items xs ! j = resolve xs ! j"
    by (auto simp: default_items_def deduplicateSkills_def)
  with skill_loaded_full[of j xs] show ?thesis by auto
qed

text \<open>A load of the skill \<open>x\<close>, for the instance.\<close>

definition skill_result :: string where
  \<open>skill_result = ''{"name":"x","content":"y","source_path":".agent/skills/x/SKILL.md","sha256":"''
     @ sha256_hex ''y'' @ ''"}''\<close>

definition skill_exchange :: exchange where
  \<open>skill_exchange = \<lparr>exID = ''s'', exCall = call_of ''s'' ''load_skill'' ''{"name":"x"}'',
     exResult = result_of ''s'' skill_result, asstIndex = 0, resIndex = 1, consumed = True\<rparr>\<close>

lemma skill_result_decoded:
  "json_unmarshal skill_result = Some (JObj [(''name'', JStr ''x''), (''content'', JStr ''y''),
     (''source_path'', JStr ''.agent/skills/x/SKILL.md''), (''sha256'', JStr (sha256_hex ''y''))])"
  using plain_sha256_hex[of "''y''"]
  by (simp add: skill_result_def json_eval scan_plain unquote_plain)

lemma skill_args_decoded:
  \<open>json_unmarshal ''{"name":"x"}'' = Some (JObj [(''name'', JStr ''x'')])\<close>
  by (simp add: json_eval)

lemma skill_fields:
  "str_field ''Name'' [(''name'', JStr a), (''content'', JStr b), (''source_path'', JStr c), (''sha256'', JStr d)] = Some a"
  "str_field ''Content'' [(''name'', JStr a), (''content'', JStr b), (''source_path'', JStr c), (''sha256'', JStr d)] = Some b"
  "str_field ''SHA256'' [(''name'', JStr a), (''content'', JStr b), (''source_path'', JStr c), (''sha256'', JStr d)] = Some d"
  "str_field ''source_path'' [(''name'', JStr a), (''content'', JStr b), (''source_path'', JStr c), (''sha256'', JStr d)] = Some c"
  "bool_field ''Truncated'' [(''name'', JStr a), (''content'', JStr b), (''source_path'', JStr c), (''sha256'', JStr d)] = Some False"
  "any_field ''Error'' [(''name'', JStr a), (''content'', JStr b), (''source_path'', JStr c), (''sha256'', JStr d)] = JNull"
  "str_field ''name'' [(''name'', JStr a)] = Some a"
  "path_join [''.agent/skills'', ''x'', ''SKILL.md''] = ''.agent/skills/x/SKILL.md''"
  by (simp_all add: str_field_def bool_field_def any_field_def dec_any_def struct_vals_def
      fold_key_def fold_rune_def go_text_defs path_join_def path_clean_def)

lemma skill_exchange_loaded:
  "skill_loaded skill_exchange =
     Some \<lparr>slName = ''x'', slSha = sha256_hex ''y'', slSource = ''.agent/skills/x/SKILL.md''\<rparr>"
  unfolding skill_loaded_def skill_exchange_def call_of_def result_of_def
  by (simp add: skill_result_decoded skill_args_decoded struct_pairs_def skill_fields)

definition skill_transcript :: "exchange list" where
  "skill_transcript = [skill_exchange, skill_exchange]"

theorem skill_body_kept_witness:
  "\<exists>j l'. j < 2 \<and> skill_loaded (skill_transcript ! j) = Some l' \<and> slName l' = ''x'' \<and>
     itMode (default_items skill_transcript ! j) = ToolContextFull"
proof -
  have i: "0 < length skill_transcript" by (simp add: skill_transcript_def)
  have l: "skill_loaded (skill_transcript ! 0) =
      Some \<lparr>slName = ''x'', slSha = sha256_hex ''y'', slSource = ''.agent/skills/x/SKILL.md''\<rparr>"
    by (simp add: skill_transcript_def skill_exchange_loaded)
  from skill_body_kept[OF i l] obtain j l' where "j < length skill_transcript"
    "skill_loaded (skill_transcript ! j) = Some l'" "slName l' = ''x''"
    "itMode (default_items skill_transcript ! j) = ToolContextFull" by auto
  then show ?thesis by (intro exI[of _ j] exI[of _ l']) (simp add: skill_transcript_def)
qed

end
