(* ===== verification/Budget.thy ===== *)
theory Budget
  imports ModelRuntime GoCrypto
begin

text \<open>
  \<open>backend/internal/toolcontext/budget.go\<close>: the token estimate of a request and the context
  budget it is held against.  The two products of the code are \<open>float64\<close> products: the
  exact product is rounded to 53 bits, half to even, before \<open>math.Ceil\<close>.  Counts are below
  \<open>2 ^ 53\<close>, where \<open>float64(int)\<close> is exact.  A ratio is \<open>(q, k)\<close> for \<open>q / 2 ^ k\<close>.
\<close>

section \<open>float64 products\<close>

fun bit_len :: "nat \<Rightarrow> nat" where
  "bit_len n = (if n = 0 then 0 else Suc (bit_len (n div 2)))"

declare bit_len.simps [simp del]

text \<open>\<open>n\<close> rounded to its 53 leading bits, half to even.\<close>

definition half_even :: "nat \<Rightarrow> nat \<Rightarrow> nat" where
  "half_even n d =
     (let q = n div d; r = n mod d
      in if d < 2 * r \<or> (2 * r = d \<and> odd q) then Suc q else q)"

definition round53 :: "nat \<Rightarrow> nat" where
  "round53 n = (let j = bit_len n - 53 in half_even n (2 ^ j) * 2 ^ j)"

type_synonym ratio = "nat \<times> nat"

definition ceil_div :: "nat \<Rightarrow> nat \<Rightarrow> nat" where
  "ceil_div n d = (n + d - 1) div d"

text \<open>\<open>math.Ceil(float64(n) * r)\<close>.\<close>

definition ceil_mul :: "nat \<Rightarrow> ratio \<Rightarrow> nat" where
  "ceil_mul n r = ceil_div (round53 (n * fst r)) (2 ^ snd r)"

text \<open>The constant \<open>1.1\<close>.\<close>

definition eleven_tenths :: ratio where
  "eleven_tenths = (4953959590107546, 52)"

text \<open>\<open>float64(a) / float64(b)\<close> for \<open>b \<le> a\<close>, with 53 bits.\<close>

definition fl_div :: "nat \<Rightarrow> nat \<Rightarrow> ratio" where
  "fl_div a b = (let k = 53 - bit_len (a div b) in (half_even (a * 2 ^ k) b, k))"

section \<open>Estimating a request\<close>

definition textTokens :: "unicode_tables \<Rightarrow> string \<Rightarrow> nat" where
  "textTokens u s =
     (let rs = runes s;
          ascii = length (filter (\<lambda>r. r < 128) rs);
          other = sum_list (map (\<lambda>r. if r < 128 then 0 else if east_asian u r then 2 else 3) rs)
      in (ascii + 3) div 4 + other)"

definition b64_char :: "char \<Rightarrow> bool" where
  "b64_char c = (let b = byte c in
     (65 \<le> b \<and> b \<le> 90) \<or> (97 \<le> b \<and> b \<le> 122) \<or> (48 \<le> b \<and> b \<le> 57) \<or> b = 43 \<or> b = 47)"

text \<open>\<open>base64.StdEncoding.DecodeString\<close> returns no error; line breaks are skipped.\<close>

definition b64_valid :: "string \<Rightarrow> bool" where
  "b64_valid s =
     (let t = filter (\<lambda>c. byte c \<noteq> 10 \<and> byte c \<noteq> 13) s;
          body = takeWhile (\<lambda>c. c \<noteq> CHR ''='') t; pad = dropWhile (\<lambda>c. c \<noteq> CHR ''='') t
      in length t mod 4 = 0 \<and> list_all b64_char body \<and> (pad = [] \<or> pad = ''='' \<or> pad = ''==''))"

record image =
  mediaType :: string
  imgEncoding :: string
  imgData :: string

text \<open>One element of the \<open>images\<close> array; \<open>null\<close> leaves the zero value.\<close>

definition decode_image :: "json \<Rightarrow> image option" where
  "decode_image v =
     (case struct_pairs v of None \<Rightarrow> None | Some kvs \<Rightarrow>
        (case (str_field ''media_type'' kvs, str_field ''encoding'' kvs, str_field ''data'' kvs) of
           (Some m, Some e, Some d) \<Rightarrow> Some \<lparr>mediaType = m, imgEncoding = e, imgData = d\<rparr>
         | _ \<Rightarrow> None))"

text \<open>A slice field takes its last array.\<close>

fun dec_images :: "image list \<Rightarrow> json list \<Rightarrow> image list option" where
  "dec_images acc [] = Some acc"
| "dec_images acc (JNull # vs) = dec_images [] vs"
| "dec_images acc (JArr es # vs) =
     (if list_all (\<lambda>e. decode_image e \<noteq> None) es then dec_images (map (the \<circ> decode_image) es) vs else None)"
| "dec_images acc (_ # vs) = None"

definition decode_envelope :: "string \<Rightarrow> (string \<times> image list) option" where
  "decode_envelope s =
     (case Option.bind (json_unmarshal s) struct_pairs of
        None \<Rightarrow> None
      | Some kvs \<Rightarrow>
         (case (str_field ''content'' kvs, dec_images [] (struct_vals ''images'' kvs)) of
            (Some c, Some is) \<Rightarrow> Some (c, is)
          | _ \<Rightarrow> None))"

definition vision_image :: "image \<Rightarrow> bool" where
  "vision_image im = (imgEncoding im = ''base64'' \<and> has_prefix (mediaType im) ''image/'' \<and>
     imgData im \<noteq> [] \<and> b64_valid (imgData im))"

definition visionContent :: "message \<Rightarrow> string \<times> nat" where
  "visionContent m =
     (if role m \<noteq> ''tool'' then (content m, 0)
      else (case decode_envelope (content m) of
          None \<Rightarrow> (content m, 0)
        | Some (c, is) \<Rightarrow>
            (let n = length (filter vision_image is) in if n = 0 then (content m, 0) else (c, n))))"

definition call_tokens :: "unicode_tables \<Rightarrow> tool_call \<Rightarrow> nat" where
  "call_tokens u c = 12 + textTokens u (callID c) + textTokens u (callName c) + textTokens u (arguments c)"

definition message_tokens :: "unicode_tables \<Rightarrow> message \<Rightarrow> nat" where
  "message_tokens u m =
     (let (c, images) = visionContent m
      in 12 + textTokens u (role m) + textTokens u (toolCallID m) + textTokens u c + images * 4096
         + sum_list (map (call_tokens u) (toolCalls m)))"

definition tool_tokens :: "unicode_tables \<Rightarrow> tool \<Rightarrow> nat" where
  "tool_tokens u t = 12 + textTokens u (toolName t) + textTokens u (toolDescription t)
     + textTokens u (render (map_json (inputSchema t)))"

definition schema_tokens :: "unicode_tables \<Rightarrow> json_schema option \<Rightarrow> nat" where
  "schema_tokens u s =
     (case s of None \<Rightarrow> 0
      | Some sc \<Rightarrow> 12 + textTokens u (schemaName sc) + textTokens u (render (map_json (schemaBody sc))))"

definition request_tokens :: "unicode_tables \<Rightarrow> request \<Rightarrow> nat" where
  "request_tokens u r =
     24 + textTokens u (reqSystem r) + textTokens u (reqModel r) + schema_tokens u (reqResponseSchema r)
     + sum_list (map (tool_tokens u) (reqTools r)) + sum_list (map (message_tokens u) (reqMessages r))"

definition EstimateInput :: "unicode_tables \<Rightarrow> request \<Rightarrow> nat" where
  "EstimateInput u r = ceil_mul (request_tokens u r) eleven_tenths"

section \<open>The calibrated estimator\<close>

text \<open>The zero value \<open>(0, 0)\<close> has not observed a request.\<close>

type_synonym estimator = ratio

definition max_one :: "ratio \<Rightarrow> ratio" where
  "max_one r = (if fst r \<le> 2 ^ snd r then (1, 0) else r)"

definition Observe :: "estimator \<Rightarrow> int \<Rightarrow> usage option \<Rightarrow> estimator" where
  "Observe e estimate us =
     (case us of None \<Rightarrow> e
      | Some u \<Rightarrow>
          if estimate < 1 \<or> uSource u \<noteq> ''actual'' then e
          else (case request_input_tokens u of (actual, ok) \<Rightarrow>
            if \<not> ok then e
            else if actual \<le> estimate then (1, 0)
            else max_one (fl_div (nat actual) (nat estimate))))"

definition Estimate :: "unicode_tables \<Rightarrow> estimator \<Rightarrow> request \<Rightarrow> nat" where
  "Estimate u e r = ceil_mul (EstimateInput u r) (max_one e)"

section \<open>Budgets\<close>

record budget_config =
  contextWindow :: int
  cfgOutputReserve :: int
  cfgPolicyWindow :: int

record budget =
  bgSource :: string
  estimatedInput :: int
  modelWindow :: int
  modelWindowKnown :: bool
  policyWindow :: int
  outputReserve :: int
  inputLimit :: int
  shouldCompact :: bool
  exceeded :: bool

datatype budget_error = InvalidBudget | ReserveTooLarge

definition DefaultPolicyWindow :: int where
  "DefaultPolicyWindow = 64000"

definition budget_policy :: "budget_config \<Rightarrow> int" where
  "budget_policy cfg = (if cfgPolicyWindow cfg = 0 then DefaultPolicyWindow else cfgPolicyWindow cfg)"

definition budget_window :: "budget_config \<Rightarrow> int" where
  "budget_window cfg =
     (if 0 < contextWindow cfg then min (budget_policy cfg) (contextWindow cfg) else budget_policy cfg)"

definition budget_reserve :: "budget_config \<Rightarrow> int" where
  "budget_reserve cfg =
     (if cfgOutputReserve cfg = 0 then min 8192 (max 1 (budget_window cfg div 8)) else cfgOutputReserve cfg)"

definition Evaluate :: "unicode_tables \<Rightarrow> estimator \<Rightarrow> request \<Rightarrow> budget_config \<Rightarrow> budget_error + budget" where
  "Evaluate u e r cfg =
     (if contextWindow cfg < 0 \<or> cfgOutputReserve cfg < 0 \<or> cfgPolicyWindow cfg < 0 then Inl InvalidBudget
      else if budget_window cfg \<le> budget_reserve cfg then Inl ReserveTooLarge
      else (let input = int (Estimate u e r); limit = budget_window cfg - budget_reserve cfg in
        Inr \<lparr>bgSource = (if 2 ^ snd e < fst e then ''estimated_calibrated'' else ''estimated''),
             estimatedInput = input, modelWindow = contextWindow cfg,
             modelWindowKnown = (0 < contextWindow cfg), policyWindow = budget_policy cfg,
             outputReserve = budget_reserve cfg, inputLimit = limit,
             shouldCompact = (limit * 4 div 5 < input), exceeded = (limit < input)\<rparr>))"

section \<open>Rounding\<close>

lemma half_even_ge: "n div d \<le> half_even n d"
  by (simp add: half_even_def Let_def)

lemma bit_len_bounds: "0 < n \<Longrightarrow> 2 ^ (bit_len n - 1) \<le> n \<and> n < 2 ^ bit_len n"
proof (induction n rule: bit_len.induct)
  case (1 n)
  show ?case
  proof (cases "n div 2 = 0")
    case True
    with "1.prems" have "n = 1" by simp
    then show ?thesis by (simp add: bit_len.simps)
  next
    case False
    with "1.prems" "1.IH" have ih: "2 ^ (bit_len (n div 2) - 1) \<le> n div 2 \<and> n div 2 < 2 ^ bit_len (n div 2)"
      by simp
    have pos: "0 < bit_len (n div 2)" using False by (subst bit_len.simps) simp
    then have "(2::nat) ^ bit_len (n div 2) = 2 * 2 ^ (bit_len (n div 2) - 1)"
      by (simp flip: power_Suc)
    with ih have "2 ^ bit_len (n div 2) \<le> n" by linarith
    moreover have "n < 2 * 2 ^ bit_len (n div 2)" using ih by linarith
    ultimately show ?thesis using "1.prems" by (subst (1 2) bit_len.simps) simp
  qed
qed

text \<open>Rounding never passes a number of at most 53 bits times a power of two.\<close>

lemma round53_above:
  assumes "n < 2 ^ 53" and "n * 2 ^ k \<le> m"
  shows "n * 2 ^ k \<le> round53 m"
proof (cases "bit_len m \<le> 53 \<or> n = 0")
  case True
  then show ?thesis using assms by (auto simp: round53_def half_even_def)
next
  case False
  define j where "j = bit_len m - 53"
  from False assms(2) have "0 < m" by (auto intro: gr0I)
  from bit_len_bounds[OF this] False have m: "2 ^ (52 + j) \<le> m" "m < 2 ^ (53 + j)"
    by (auto simp: j_def)
  have ge: "m div 2 ^ j * 2 ^ j \<le> round53 m"
    using half_even_ge[of m "2 ^ j"] by (simp add: round53_def j_def[symmetric] Let_def)
  have div: "d * 2 ^ j \<le> m div 2 ^ j * 2 ^ j" if "d * 2 ^ j \<le> m" for d
    using that by (simp add: less_eq_div_iff_mult_less_eq)
  show ?thesis
  proof (cases "j \<le> k")
    case True
    then have "n * 2 ^ k = n * 2 ^ (k - j) * 2 ^ j" by (simp add: power_add [symmetric])
    with div assms(2) ge show ?thesis by (metis order_trans)
  next
    case False
    then have "n * 2 ^ k \<le> (2 ^ 53 - 1) * 2 ^ (j - 1)"
      using assms(1) by (intro mult_le_mono) (auto intro: power_increasing)
    also have "\<dots> \<le> 2 ^ 53 * 2 ^ (j - 1)" by simp
    also have "\<dots> = 2 ^ (52 + j)" using False by (simp only: power_add [symmetric]) simp
    also have "\<dots> = 2 ^ 52 * 2 ^ j" by (simp add: power_add)
    also have "\<dots> \<le> m div 2 ^ j * 2 ^ j" using m(1) by (intro div) (simp add: power_add)
    finally show ?thesis using ge by linarith
  qed
qed

lemma ceil_div_ge: "0 < d \<Longrightarrow> n * d \<le> m \<Longrightarrow> n \<le> ceil_div m d"
  by (simp add: ceil_div_def less_eq_div_iff_mult_less_eq)

lemma ceil_mul_ge:
  assumes "n < 2 ^ 53" and "2 ^ snd r \<le> fst r"
  shows "n \<le> ceil_mul n r"
proof -
  have "n * 2 ^ snd r \<le> round53 (n * fst r)"
    by (rule round53_above[OF assms(1)]) (use assms(2) in simp)
  then show ?thesis by (simp add: ceil_mul_def ceil_div_ge)
qed

lemma max_one_ge: "2 ^ snd (max_one r) \<le> fst (max_one r)"
  by (simp add: max_one_def)

lemma Estimate_ge: "EstimateInput u r < 2 ^ 53 \<Longrightarrow> EstimateInput u r \<le> Estimate u e r"
  unfolding Estimate_def by (rule ceil_mul_ge[OF _ max_one_ge])

lemma EstimateInput_ge: "request_tokens u r < 2 ^ 53 \<Longrightarrow> request_tokens u r \<le> EstimateInput u r"
  unfolding EstimateInput_def by (rule ceil_mul_ge) (simp_all add: eleven_tenths_def)

lemma Evaluate_Inr:
  assumes "Evaluate u e r cfg = Inr b"
  shows "0 < inputLimit b \<and> 0 < outputReserve b \<and> inputLimit b + outputReserve b \<le> policyWindow b \<and>
   (0 < contextWindow cfg \<longrightarrow> inputLimit b + outputReserve b \<le> contextWindow cfg) \<and>
   (exceeded b \<longleftrightarrow> inputLimit b < estimatedInput b) \<and> (exceeded b \<longrightarrow> shouldCompact b) \<and>
   estimatedInput b = int (Estimate u e r)"
proof -
  have "0 < budget_reserve cfg" if "0 \<le> cfgOutputReserve cfg"
    using that by (auto simp: budget_reserve_def)
  moreover have "budget_window cfg \<le> budget_policy cfg"
    "0 < contextWindow cfg \<longrightarrow> budget_window cfg \<le> contextWindow cfg"
    by (auto simp: budget_window_def)
  moreover have "l * 4 div 5 \<le> l" if "0 < l" for l :: int using that by linarith
  ultimately show ?thesis
    using assms by (fastforce simp: Evaluate_def Let_def split: if_split_asm)
qed

section \<open>Evaluating\<close>

lemma textTokens_ascii: "ascii s \<Longrightarrow> textTokens u s = (length s + 3) div 4"
proof -
  assume a: "ascii s"
  then have low: "\<forall>r \<in> set (map byte s). r < 128" by (simp add: ascii_def list_all_iff)
  then have "map (\<lambda>r. if r < 128 then 0 else if east_asian u r then 2 else 3) (map byte s) = map (\<lambda>r. 0::nat) (map byte s)"
    by (intro map_cong) auto
  then have "sum_list (map (\<lambda>r. if r < 128 then 0 else if east_asian u r then 2 else 3) (map byte s)) = (0::nat)"
    by (simp only: map_replicate_const sum_list_replicate mult_0_right)
  with low show ?thesis by (simp add: textTokens_def runes_ascii[OF a] Let_def)
qed

lemmas ceil_mul_eval = ceil_mul_def eleven_tenths_def round53_def bit_len.simps half_even_def ceil_div_def

end
