(* ===== verification/CompactionClaims.thy ===== *)
theory CompactionClaims
  imports Checkpoint
begin

text \<open>
  What the budget and the checkpoints of \<open>backend/internal/toolcontext\<close> guarantee, with a
  three-message transcript \<open>short_history\<close> as the instance.
\<close>

section \<open>A compaction\<close>

definition numbered :: "string \<Rightarrow> string \<Rightarrow> int \<Rightarrow> message" where
  "numbered r d n = empty_message\<lparr>role := r, content := ''text'', messageID := d, msgSeq := n\<rparr>"

definition short_history :: "message list" where
  "short_history = [numbered ''user'' ''1'' 1, numbered ''user'' ''2'' 2, numbered ''assistant'' ''3'' 3]"

lemmas short_defs = short_history_def numbered_def empty_message_def

definition plain_config :: budget_config where
  "plain_config = \<lparr>contextWindow = 0, cfgOutputReserve = 0, cfgPolicyWindow = 0\<rparr>"

lemma system_tokens: "textTokens u CompactionSystem = (length CompactionSystem + 3) div 4"
  by (rule textTokens_ascii) (simp add: ascii_def CompactionSystem_def)

lemma system_length: "length CompactionSystem \<le> 1000"
  by (simp add: CompactionSystem_def)

lemma short_sources:
  \<open>marshal (JObj [(''historical_messages'', slice_json message_json [numbered ''user'' ''1'' 1])])
     = ''{"historical_messages":[{"Role":"user","Content":"text"}]}''\<close>
  by (simp add: marshal_def slice_json_def message_json_def numbered_def empty_message_def quote_safe safe_char_def)

lemma short_request_tokens:
  "request_tokens u (CompactionRequest ''m'' [numbered ''user'' ''1'' 1] None 100) \<le> 1000"
  using system_length
  by (simp add: request_tokens_def CompactionRequest_def short_sources system_tokens textTokens_ascii ascii_def
      schema_tokens_def message_tokens_def visionContent_def empty_message_def)

text \<open>Upper bounds, for requests of a known size.\<close>

lemma round53_upper: "n < 2 ^ 53 \<Longrightarrow> round53 n = n"
proof -
  assume n: "n < 2 ^ 53"
  have "bit_len n \<le> 53"
  proof (rule ccontr)
    assume "\<not> bit_len n \<le> 53"
    then have "(2::nat) ^ 53 \<le> 2 ^ (bit_len n - 1)" by (intro power_increasing) auto
    moreover from \<open>\<not> bit_len n \<le> 53\<close> have "0 < n" by (auto simp: bit_len.simps[of 0] intro: gr0I)
    ultimately show False using bit_len_bounds[of n] n by linarith
  qed
  then show ?thesis by (simp add: round53_def half_even_def)
qed

lemma half_even_le: "half_even n d \<le> Suc (n div d)"
  by (simp add: half_even_def Let_def)

lemma short_estimate:
  "EstimateInput u (CompactionRequest ''m'' [numbered ''user'' ''1'' 1] None 100) \<le> 1101"
  "Estimate u (0, 0) (CompactionRequest ''m'' [numbered ''user'' ''1'' 1] None 100) \<le> 1101"
proof -
  let ?r = "CompactionRequest ''m'' [numbered ''user'' ''1'' 1] None 100"
  have mono: "ceil_mul n eleven_tenths \<le> 1101" if "n \<le> 1000" for n
  proof -
    let ?p = "n * 4953959590107546" and ?j = "bit_len (n * 4953959590107546) - 53"
    have "?p \<le> 1000 * 4953959590107546" using that by simp
    moreover have "round53 ?p \<le> ?p + 2 ^ ?j"
    proof -
      have "half_even ?p (2 ^ ?j) * 2 ^ ?j \<le> Suc (?p div 2 ^ ?j) * 2 ^ ?j"
        by (rule mult_le_mono1[OF half_even_le])
      also have "\<dots> \<le> ?p + 2 ^ ?j" by simp
      finally show ?thesis by (simp add: round53_def Let_def)
    qed
    moreover have "(2::nat) ^ ?j \<le> 2 ^ 10"
    proof (cases "n = 0")
      case False
      have "?j \<le> 10"
      proof (rule ccontr)
        assume "\<not> ?j \<le> 10"
        then have "(2::nat) ^ 63 \<le> 2 ^ (bit_len ?p - 1)" by (intro power_increasing) auto
        with bit_len_bounds[of ?p] False \<open>?p \<le> _\<close> show False by simp
      qed
      then show ?thesis by (intro power_increasing) auto
    qed (simp add: bit_len.simps)
    ultimately have "round53 ?p \<le> 1000 * 4953959590107546 + 1024" by simp
    then have "(round53 ?p + 2 ^ 52 - 1) div 2 ^ 52 \<le> (1000 * 4953959590107546 + 1024 + 2 ^ 52 - 1) div 2 ^ 52"
      by (intro div_le_mono) simp
    then show ?thesis by (simp add: ceil_mul_def eleven_tenths_def ceil_div_def)
  qed
  show "EstimateInput u ?r \<le> 1101"
    unfolding EstimateInput_def by (rule mono[OF short_request_tokens])
  then show "Estimate u (0, 0) ?r \<le> 1101"
    by (simp add: Estimate_def max_one_def ceil_mul_def ceil_div_def round53_upper)
qed

lemma short_judged:
  "\<exists>b. Evaluate u (0, 0) (CompactionRequest ''m'' [numbered ''user'' ''1'' 1] None 100) plain_config = Inr b \<and> \<not> exceeded b"
  using short_estimate(2)[of u]
  by (simp add: Evaluate_def plain_config_def budget_window_def budget_policy_def budget_reserve_def
      DefaultPolicyWindow_def)

lemma short_exchanges: "exchanges short_history = Inr []"
  by (simp add: exchanges_def short_defs exchanges_from.simps)

lemma short_protected:
  "protected short_history [] i \<longleftrightarrow> i = 1 \<or> i = 2"
  by (auto simp: protected_def latest_index_def short_defs resolve_def latest_skills_def)

lemma short_plan: "\<exists>pl. PlanCompaction u short_history None ''m'' (0, 0) plain_config 100 = Inr pl \<and> plSourceIDs pl = [''1'']"
proof -
  obtain b where b: "Evaluate u (0, 0) (CompactionRequest ''m'' [numbered ''user'' ''1'' 1] None 100) plain_config = Inr b"
    "\<not> exceeded b" using short_judged by blast
  have calls: "toolCalls (numbered r d n) = []" "messageID (numbered r d n) = d" "msgSeq (numbered r d n) = n" for r d n
    by (simp_all add: numbered_def empty_message_def)
  show ?thesis
    using b
    by (simp add: PlanCompaction_def ApplyCheckpoint_def short_exchanges)
       (simp add: short_history_def select_groups.simps(2) calls eligible_def
         short_protected[unfolded short_history_def] start_plan_def take_group_def finish_plan_def Let_def)
qed

section \<open>Properties\<close>

text \<open>
  C40. A context budget always leaves room: the input limit and the output reserve are
  positive and together stay within the policy window and, where it is known, the model's
  window; whatever exceeds the limit was due for compaction.
\<close>

theorem budget_leaves_room:
  assumes "Evaluate u e r cfg = Inr b"
  shows "0 < inputLimit b \<and> 0 < outputReserve b \<and> inputLimit b + outputReserve b \<le> policyWindow b \<and>
    (0 < contextWindow cfg \<longrightarrow> inputLimit b + outputReserve b \<le> contextWindow cfg) \<and>
    (exceeded b \<longrightarrow> shouldCompact b)"
  using Evaluate_Inr[OF assms] by blast

theorem budget_leaves_room_witness:
  "\<exists>b. Evaluate ascii_tables (0, 0) (CompactionRequest ''m'' [numbered ''user'' ''1'' 1] None 100) plain_config = Inr b
     \<and> 0 < inputLimit b"
proof -
  obtain b where "Evaluate ascii_tables (0, 0) (CompactionRequest ''m'' [numbered ''user'' ''1'' 1] None 100) plain_config = Inr b"
    using short_judged by blast
  from this budget_leaves_room[OF this] show ?thesis by blast
qed

text \<open>
  The estimate is conservative: calibrated or not, with both products rounded as
  \<open>float64\<close> rounds them, it is never below the number of tokens counted.
\<close>

theorem estimate_never_below_count:
  assumes "request_tokens u r < 2 ^ 53" and "EstimateInput u r < 2 ^ 53"
  shows "request_tokens u r \<le> Estimate u e r"
  using EstimateInput_ge[OF assms(1)] Estimate_ge[OF assms(2)] by (rule order_trans)

theorem estimate_never_below_count_witness:
  "request_tokens ascii_tables (CompactionRequest ''m'' [numbered ''user'' ''1'' 1] None 100)
     \<le> Estimate ascii_tables (3, 1) (CompactionRequest ''m'' [numbered ''user'' ''1'' 1] None 100)"
proof (rule estimate_never_below_count)
  let ?r = "CompactionRequest ''m'' [numbered ''user'' ''1'' 1] None 100"
  show "request_tokens ascii_tables ?r < 2 ^ 53" using short_request_tokens[of ascii_tables] by simp
  show "EstimateInput ascii_tables ?r < 2 ^ 53"
    using short_estimate(1)[of ascii_tables] by simp
qed

text \<open>
  C38. A compaction loses exactly what it summarises: once a plan has become the new
  checkpoint, the working set is the new summary followed by the messages of the old working
  set, in their order, without those the plan summarised (and without the old summary).
\<close>

theorem compaction_takes_its_sources:
  assumes "PlanCompaction u h previous model est cfg maxTokens = Inr pl" and "distinct_ids h"
    and "throughSeq c = plThroughSeq pl" and "retainedIDs c = plRetainedIDs pl"
  shows "ApplyCheckpoint h (Some c) = summary_message c #
    filter (\<lambda>m. messageID m \<notin> set (plSourceIDs pl))
      (case previous of None \<Rightarrow> h | Some old \<Rightarrow> tl (ApplyCheckpoint h (Some old)))"
proof -
  have "(case previous of None \<Rightarrow> h | Some old \<Rightarrow> tl (ApplyCheckpoint h (Some old))) = working_of h previous"
    by (simp add: working_of_def ApplyCheckpoint_def split: option.splits)
  moreover obtain xs gs where "planned previous (ApplyCheckpoint h previous) xs gs pl"
    by (rule PlanCompaction_Inr[OF assms(1)])
  from compaction_working[OF this assms(2)] assms(3,4)
  have "filter (kept_by c) h = filter (\<lambda>m. messageID m \<notin> set (plSourceIDs pl)) (working_of h previous)"
    by (simp add: checkpoint_of_def)
  ultimately show ?thesis by (simp add: ApplyCheckpoint_def)
qed

definition checkpoint_for :: "plan \<Rightarrow> checkpoint" where
  "checkpoint_for pl = \<lparr>cpID = ''c'', throughSeq = plThroughSeq pl, retainedIDs = plRetainedIDs pl,
     cpSummary = ''{}'', sourceDigest = plDigest pl, sourceCount = plSourceCount pl, cpModel = ''m''\<rparr>"

lemma short_ids: "distinct_ids short_history"
  by (simp add: distinct_ids_def short_defs)

theorem compaction_takes_its_sources_witness:
  "\<exists>pl. PlanCompaction ascii_tables short_history None ''m'' (0, 0) plain_config 100 = Inr pl \<and>
     tl (ApplyCheckpoint short_history (Some (checkpoint_for pl))) = [numbered ''user'' ''2'' 2, numbered ''assistant'' ''3'' 3]"
proof -
  obtain pl where pl: "PlanCompaction ascii_tables short_history None ''m'' (0, 0) plain_config 100 = Inr pl"
    "plSourceIDs pl = [''1'']" using short_plan by blast
  have "throughSeq (checkpoint_for pl) = plThroughSeq pl" "retainedIDs (checkpoint_for pl) = plRetainedIDs pl"
    by (simp_all add: checkpoint_for_def)
  from compaction_takes_its_sources[OF pl(1) short_ids this] pl show ?thesis
    by (auto simp: short_defs)
qed

text \<open>
  C39. Batches are compacted whole: the working set with the new checkpoint is again a
  well-batched transcript, so the next projection and the next compaction accept it.
\<close>

theorem compaction_stays_batched:
  assumes "PlanCompaction u h previous model est cfg maxTokens = Inr pl" and "distinct_ids h"
    and "throughSeq c = plThroughSeq pl" and "retainedIDs c = plRetainedIDs pl"
  shows "well_batched (ApplyCheckpoint h (Some c))"
proof -
  obtain xs gs where xs: "exchanges (ApplyCheckpoint h previous) = Inr xs"
    and pl: "planned previous (ApplyCheckpoint h previous) xs gs pl"
    by (rule PlanCompaction_Inr[OF assms(1)])
  have "well_batched (ApplyCheckpoint h previous)"
    using xs by (auto simp: exchanges_def intro: exchanges_well_batched)
  from compaction_well_batched[OF pl assms(2) _ this, of c] assms(3,4) show ?thesis
    by (simp add: checkpoint_of_def)
qed

theorem compaction_stays_batched_witness:
  "\<exists>pl. PlanCompaction ascii_tables short_history None ''m'' (0, 0) plain_config 100 = Inr pl \<and>
     well_batched (ApplyCheckpoint short_history (Some (checkpoint_for pl)))"
proof -
  obtain pl where pl: "PlanCompaction ascii_tables short_history None ''m'' (0, 0) plain_config 100 = Inr pl"
    using short_plan by blast
  have "throughSeq (checkpoint_for pl) = plThroughSeq pl" "retainedIDs (checkpoint_for pl) = plRetainedIDs pl"
    by (simp_all add: checkpoint_for_def)
  from compaction_stays_batched[OF pl short_ids this] pl show ?thesis by blast
qed

text \<open>
  The latest user message, the latest assistant message, unobserved batches, unresolved
  errors and the last body of each loaded skill are never summarised: no message of a
  protected group is among the sources of a plan.
\<close>

theorem protected_groups_stay:
  assumes "PlanCompaction u h previous model est cfg maxTokens = Inr pl" and "distinct_ids h"
    and "exchanges (ApplyCheckpoint h previous) = Inr xs"
    and "(k, g) \<in> set (groups 0 (ApplyCheckpoint h previous))"
    and "protected (ApplyCheckpoint h previous) xs k" and "m \<in> set g" and "messageID m \<noteq> []"
  shows "messageID m \<notin> set (plSourceIDs pl)"
proof -
  from PlanCompaction_Inr[OF assms(1)] assms(3) obtain gs where
    pl: "planned previous (ApplyCheckpoint h previous) xs gs pl" by (metis Inr_inject)
  with assms(5) have "(k, g) \<notin> set gs" by (auto simp: planned_def eligible_def)
  from planned_other_group[OF pl distinct_ids_working[OF assms(2)] assms(4) this] assms(6,7) show ?thesis by simp
qed

theorem protected_groups_stay_witness:
  "\<exists>pl. PlanCompaction ascii_tables short_history None ''m'' (0, 0) plain_config 100 = Inr pl \<and> ''3'' \<notin> set (plSourceIDs pl)"
proof -
  obtain pl where pl: "PlanCompaction ascii_tables short_history None ''m'' (0, 0) plain_config 100 = Inr pl"
    using short_plan by blast
  have "messageID (numbered ''assistant'' ''3'' 3) \<notin> set (plSourceIDs pl)"
    by (rule protected_groups_stay[OF pl short_ids, of "[]" 2 "[numbered ''assistant'' ''3'' 3]"])
       (simp_all add: ApplyCheckpoint_def short_exchanges short_protected,
        simp_all add: short_defs groups_Cons)
  with pl show ?thesis by (auto simp: numbered_def)
qed

text \<open>
  A plan moves forward and fits: it summarises at least one message, its boundary is not
  before the previous one and covers every source, and the request that summarises the
  sources is within the budget.
\<close>

theorem plan_fits_and_advances:
  assumes "PlanCompaction u h previous model est cfg maxTokens = Inr pl"
  shows "plSources pl \<noteq> [] \<and> (\<forall>old. previous = Some old \<longrightarrow> throughSeq old \<le> plThroughSeq pl) \<and>
    (\<forall>m \<in> set (plSources pl). msgSeq m \<le> plThroughSeq pl) \<and>
    (\<exists>b. Evaluate u est (CompactionRequest model (plSources pl) previous maxTokens) cfg = Inr b \<and> \<not> exceeded b)"
proof -
  from PlanCompaction_Inr[OF assms] obtain xs gs b where
    pl: "planned previous (ApplyCheckpoint h previous) xs gs pl" and
    b: "Evaluate u est (CompactionRequest model (plSources pl) previous maxTokens) cfg = Inr b" "\<not> exceeded b"
    by blast
  obtain k g gs' where gs: "gs = (k, g) # gs'" using pl by (cases gs) (auto simp: planned_def)
  with pl have "(k, g) \<in> set (groups 0 (ApplyCheckpoint h previous))"
    by (auto simp: planned_def dest: subseq_set)
  with groups_nonempty gs pl have "plSources pl \<noteq> []" by (force simp: planned_def)
  moreover have "throughSeq old \<le> plThroughSeq pl" if "previous = Some old" for old
    using planned_through[OF pl] foldl_max_ge that by (simp add: start_plan_def)
  ultimately show ?thesis using planned_source[OF pl] b by blast
qed

theorem plan_fits_and_advances_witness:
  "\<exists>pl. PlanCompaction ascii_tables short_history None ''m'' (0, 0) plain_config 100 = Inr pl \<and> plSources pl \<noteq> []"
proof -
  obtain pl where pl: "PlanCompaction ascii_tables short_history None ''m'' (0, 0) plain_config 100 = Inr pl"
    using short_plan by blast
  from plan_fits_and_advances[OF pl] pl show ?thesis by blast
qed

end
