(* ===== verification/InteractionTypes.thy ===== *)
theory InteractionTypes
  imports GoCrypto
begin

text \<open>
  \<open>backend/internal/agenttool/interaction.go\<close>: questions, plans and schedule proposals, their
  validation and their JSON.  A schedule is the JSON its Go value prints; what a schedule is
  belongs to the automation service and is the record \<open>schedule_codec\<close>, an argument.
\<close>

section \<open>Requests\<close>

record question_option =
  qoID :: string
  qoLabel :: string
  qoDescription :: string
  qoRecommended :: bool

record user_question =
  uqID :: string
  uqPrompt :: string
  uqOptions :: "question_option list"
  uqHeader :: string
  uqMulti :: bool

record interaction_request =
  irKind :: string
  irQuestions :: "user_question list"
  irTitle :: string
  irSteps :: "string list"
  irSchedule :: "json option"
  irPreview :: "json option"

text \<open>\<open>ScheduleRequest\<close> and \<open>SchedulePreview\<close>: validation, and decoding of a JSON value to the value printed again.\<close>

record schedule_codec =
  scheduleValid :: "json \<Rightarrow> bool"
  scheduleOf :: "json \<Rightarrow> json option"
  previewOf :: "json \<Rightarrow> json option"

section \<open>JSON\<close>

definition blank_omitted :: "string \<Rightarrow> string \<Rightarrow> gomap" where
  "blank_omitted k s = (if s = [] then [] else [(k, JStr s)])"

definition false_omitted :: "string \<Rightarrow> bool \<Rightarrow> gomap" where
  "false_omitted k b = (if b then [(k, JBool True)] else [])"

definition empty_omitted :: "string \<Rightarrow> json list \<Rightarrow> gomap" where
  "empty_omitted k vs = (if vs = [] then [] else [(k, JArr vs)])"

definition nil_omitted :: "string \<Rightarrow> json option \<Rightarrow> gomap" where
  "nil_omitted k v = (case v of None \<Rightarrow> [] | Some j \<Rightarrow> [(k, j)])"

definition option_json :: "question_option \<Rightarrow> json" where
  "option_json q = JObj ([(''id'', JStr (qoID q)), (''label'', JStr (qoLabel q))]
     @ blank_omitted ''description'' (qoDescription q) @ false_omitted ''recommended'' (qoRecommended q))"

definition question_json :: "user_question \<Rightarrow> json" where
  "question_json q = JObj ([(''id'', JStr (uqID q)), (''prompt'', JStr (uqPrompt q))]
     @ empty_omitted ''options'' (map option_json (uqOptions q)) @ blank_omitted ''header'' (uqHeader q)
     @ false_omitted ''multi_select'' (uqMulti q))"

definition interaction_json :: "interaction_request \<Rightarrow> json" where
  "interaction_json r = JObj ([(''kind'', JStr (irKind r))]
     @ empty_omitted ''questions'' (map question_json (irQuestions r)) @ blank_omitted ''title'' (irTitle r)
     @ empty_omitted ''steps'' (map JStr (irSteps r)) @ nil_omitted ''schedule'' (irSchedule r)
     @ nil_omitted ''schedule_preview'' (irPreview r))"

section \<open>Decoding\<close>

text \<open>A slice field: the last array, its elements decoded by \<open>f\<close>; \<open>null\<close> is the nil slice.\<close>

fun dec_slice :: "(json \<Rightarrow> 'a option) \<Rightarrow> 'a list \<Rightarrow> json list \<Rightarrow> 'a list option" where
  "dec_slice f acc [] = Some acc"
| "dec_slice f acc (JNull # vs) = dec_slice f [] vs"
| "dec_slice f acc (JArr es # vs) =
     (if list_all (\<lambda>e. f e \<noteq> None) es then dec_slice f (map (the \<circ> f) es) vs else None)"
| "dec_slice f acc (_ # vs) = None"

definition slice_field :: "(json \<Rightarrow> 'a option) \<Rightarrow> string \<Rightarrow> gomap \<Rightarrow> 'a list option" where
  "slice_field f name kvs = dec_slice f [] (struct_vals name kvs)"

text \<open>A pointer field.\<close>

definition pointer_field :: "(json \<Rightarrow> json option) \<Rightarrow> string \<Rightarrow> gomap \<Rightarrow> json option option" where
  "pointer_field f name kvs =
     (case struct_vals name kvs of [] \<Rightarrow> Some None
      | vs \<Rightarrow> (if last vs = JNull then Some None else map_option Some (f (last vs))))"

definition decode_option :: "json \<Rightarrow> question_option option" where
  "decode_option v = (case struct_pairs v of None \<Rightarrow> None | Some kvs \<Rightarrow>
     (case (str_field ''id'' kvs, str_field ''label'' kvs, str_field ''description'' kvs, bool_field ''recommended'' kvs) of
        (Some i, Some l, Some d, Some r) \<Rightarrow> Some \<lparr>qoID = i, qoLabel = l, qoDescription = d, qoRecommended = r\<rparr>
      | _ \<Rightarrow> None))"

definition decode_question :: "json \<Rightarrow> user_question option" where
  "decode_question v = (case struct_pairs v of None \<Rightarrow> None | Some kvs \<Rightarrow>
     (case (str_field ''id'' kvs, str_field ''prompt'' kvs, slice_field decode_option ''options'' kvs,
            str_field ''header'' kvs, bool_field ''multi_select'' kvs) of
        (Some i, Some p, Some os, Some h, Some m) \<Rightarrow>
          Some \<lparr>uqID = i, uqPrompt = p, uqOptions = os, uqHeader = h, uqMulti = m\<rparr>
      | _ \<Rightarrow> None))"

definition decode_step :: "json \<Rightarrow> string option" where
  "decode_step v = (case v of JStr s \<Rightarrow> Some s | JNull \<Rightarrow> Some [] | _ \<Rightarrow> None)"

definition decode_interaction :: "schedule_codec \<Rightarrow> string \<Rightarrow> interaction_request option" where
  "decode_interaction sc raw = (case Option.bind (json_unmarshal raw) struct_pairs of None \<Rightarrow> None | Some kvs \<Rightarrow>
     (case (str_field ''kind'' kvs, slice_field decode_question ''questions'' kvs, str_field ''title'' kvs,
            slice_field decode_step ''steps'' kvs, pointer_field (scheduleOf sc) ''schedule'' kvs,
            pointer_field (previewOf sc) ''schedule_preview'' kvs) of
        (Some k, Some qs, Some t, Some ss, Some s, Some p) \<Rightarrow>
          Some \<lparr>irKind = k, irQuestions = qs, irTitle = t, irSteps = ss, irSchedule = s, irPreview = p\<rparr>
      | _ \<Rightarrow> None))"

section \<open>Validation\<close>

definition alnum :: "char \<Rightarrow> bool" where
  "alnum c = (let b = byte c in (65 \<le> b \<and> b \<le> 90) \<or> (97 \<le> b \<and> b \<le> 122) \<or> (48 \<le> b \<and> b \<le> 57))"

text \<open>\<open>^[a-zA-Z0-9][a-zA-Z0-9_-]{0,39}$\<close>\<close>

definition interaction_id :: "string \<Rightarrow> bool" where
  "interaction_id s =
     (case s of [] \<Rightarrow> False
      | c # r \<Rightarrow> alnum c \<and> length r \<le> 39 \<and> list_all (\<lambda>x. alnum x \<or> x = CHR ''_'' \<or> x = CHR ''-'') r)"

definition blank :: "string \<Rightarrow> bool" where
  "blank s = (trim_space s = [])"

definition valid_option :: "question_option \<Rightarrow> bool" where
  "valid_option o' = (interaction_id (qoID o') \<and> \<not> blank (qoLabel o') \<and> rune_count (qoLabel o') \<le> 160 \<and>
     rune_count (qoDescription o') \<le> 500)"

definition valid_question :: "user_question \<Rightarrow> bool" where
  "valid_question q =
     (interaction_id (uqID q) \<and> \<not> blank (uqPrompt q) \<and> rune_count (uqPrompt q) \<le> 2000 \<and>
      length (uqOptions q) \<le> 6 \<and> length (uqOptions q) \<noteq> 1 \<and> rune_count (uqHeader q) \<le> 12 \<and>
      (uqMulti q \<longrightarrow> 2 \<le> length (uqOptions q)) \<and>
      length (filter qoRecommended (uqOptions q)) \<le> 1 \<and>
      distinct (map qoID (uqOptions q)) \<and> list_all valid_option (uqOptions q))"

definition interaction_limit :: "string \<Rightarrow> nat" where
  "interaction_limit k = (if k = ''automation'' then 64000 else 24000)"

definition Validate :: "schedule_codec \<Rightarrow> interaction_request \<Rightarrow> bool" where
  "Validate sc r =
     ((irKind r = ''automation'' \<or> (irSchedule r = None \<and> irPreview r = None)) \<and>
      (if irKind r = ''automation'' then
         (case irSchedule r of None \<Rightarrow> False
          | Some s \<Rightarrow> irQuestions r = [] \<and> irSteps r = [] \<and> irTitle r = [] \<and> scheduleValid sc s)
       else if irKind r = ''question'' then
         1 \<le> length (irQuestions r) \<and> length (irQuestions r) \<le> 3 \<and> irTitle r = [] \<and> irSteps r = [] \<and>
         distinct (map uqID (irQuestions r)) \<and> list_all valid_question (irQuestions r)
       else if irKind r = ''plan'' then
         \<not> blank (irTitle r) \<and> rune_count (irTitle r) \<le> 160 \<and> 1 \<le> length (irSteps r) \<and> length (irSteps r) \<le> 12 \<and>
         irQuestions r = [] \<and> list_all (\<lambda>s. \<not> blank s \<and> rune_count s \<le> 2000) (irSteps r)
       else False) \<and>
      length (render (interaction_json r)) \<le> interaction_limit (irKind r))"

section \<open>Answers\<close>

record question_answer =
  qaOption :: string
  qaOptions :: "string list"
  qaText :: string

text \<open>The answers are a map by question ID, one pair per key.\<close>

record interaction_response =
  rsDigest :: string
  rsAnswers :: "(string \<times> question_answer) list"
  rsDecision :: string
  rsFeedback :: string

definition answer_json :: "question_answer \<Rightarrow> json" where
  "answer_json a = JObj (blank_omitted ''option_id'' (qaOption a) @ empty_omitted ''option_ids'' (map JStr (qaOptions a))
     @ blank_omitted ''text'' (qaText a))"

definition response_json :: "interaction_response \<Rightarrow> json" where
  "response_json r = JObj ([(''request_digest'', JStr (rsDigest r))]
     @ (if rsAnswers r = [] then [] else [(''answers'', JObj (go_map (map (\<lambda>(k, a). (k, answer_json a)) (rsAnswers r))))])
     @ blank_omitted ''decision'' (rsDecision r) @ blank_omitted ''feedback'' (rsFeedback r))"

definition offered :: "user_question \<Rightarrow> string \<Rightarrow> bool" where
  "offered q i = list_ex (\<lambda>o'. qoID o' = i) (uqOptions q)"

definition answer_ok :: "(string \<times> question_answer) list \<Rightarrow> user_question \<Rightarrow> bool" where
  "answer_ok answers q =
     (case map_of answers (uqID q) of None \<Rightarrow> False
      | Some a \<Rightarrow>
          \<not> (qaOption a = [] \<and> qaOptions a = [] \<and> blank (qaText a)) \<and> rune_count (qaText a) \<le> 6000 \<and>
          (qaOption a \<noteq> [] \<longrightarrow> offered q (qaOption a)) \<and>
          \<not> (uqMulti q \<and> qaOption a \<noteq> []) \<and> \<not> (\<not> uqMulti q \<and> qaOptions a \<noteq> []) \<and>
          length (qaOptions a) \<le> length (uqOptions q) \<and>
          distinct (qaOptions a) \<and> list_all (offered q) (qaOptions a))"

text \<open>The status a response gives its interaction, \<open>None\<close> where it is refused.\<close>

definition interactionResponseStatus :: "interaction_request \<Rightarrow> interaction_response \<Rightarrow> string option" where
  "interactionResponseStatus r s =
     (if irKind r = ''question'' then
        (if length (rsAnswers s) = length (irQuestions r) \<and> rsDecision s = [] \<and> rsFeedback s = [] \<and>
            list_all (answer_ok (rsAnswers s)) (irQuestions r)
         then Some ''answered'' else None)
      else if irKind r \<noteq> ''plan'' \<and> irKind r \<noteq> ''automation'' then None
      else if rsAnswers s \<noteq> [] \<or> 6000 < rune_count (rsFeedback s) then None
      else if rsDecision s = ''approve'' then Some ''approved''
      else if rsDecision s = ''reject'' then Some ''rejected''
      else if rsDecision s = ''request_changes'' \<and> \<not> blank (rsFeedback s) then Some ''changes_requested''
      else None)"

end
