(* ===== verification/ConvStore.thy ===== *)
theory ConvStore
  imports ModelRuntime InteractionTypes
begin

text \<open>
  The database of \<open>backend/internal/conversation\<close> and \<open>backend/internal/eventlog\<close>: one
  record per table (columns as fields, rows in insertion order, which is the order of
  \<open>created_at\<close>, \<open>seq\<close> and the identity columns), the errors the operations return, and
  the writes every operation shares.  A transaction is a function
  \<open>db \<Rightarrow> err + 'a \<times> db\<close>; an error rolls back, so the caller keeps the old database.
  The row locks serialise the transactions of a conversation, so each is one step.
  A generated UUID is the next value of a counter.
\<close>

section \<open>Tables\<close>

type_synonym uuid = string

definition uuid_nil :: uuid where
  "uuid_nil = ''00000000-0000-0000-0000-000000000000''"

record conversation =
  cvID :: uuid
  cvWorkspace :: uuid
  cvModel :: "uuid option"
  cvLastSeq :: int

record user =
  usID :: uuid
  usDisabled :: bool
  usMustVerify :: bool
  usVerified :: bool

record run =
  rnID :: uuid
  rnConversation :: uuid
  rnStatus :: string
  rnModel :: "uuid option"
  rnSubmission :: "uuid option"
  rnSubmittedBy :: "uuid option"
  rnDigest :: string
  rnExecMode :: string
  rnPermMode :: string
  rnPermRevision :: int
  rnApprovedPlan :: "string option"
  rnInputMessage :: "uuid option"
  rnFinished :: bool

record run_input =
  riID :: uuid
  riWorkspace :: uuid
  riConversation :: uuid
  riAfterRun :: uuid
  riSubmittedBy :: "uuid option"
  riKind :: string
  riRequest :: string
  riDigest :: string
  riContent :: string
  riMetadata :: gomap
  riModel :: "uuid option"
  riExecMode :: string
  riStatus :: string
  riPermMode :: string
  riOrder :: int
  riRevision :: int
  riMessage :: "uuid option"
  riStartedRun :: "uuid option"
  riResume :: bool
  riHeldReason :: "string option"

record run_permission =
  pmID :: uuid
  pmWorkspace :: uuid
  pmConversation :: uuid
  pmRun :: uuid
  pmCall :: string
  pmTool :: string
  pmDigest :: string
  pmSummary :: string
  pmAllowRun :: bool
  pmStatus :: string
  pmDecision :: "string option"
  pmSource :: string
  pmReviewDecision :: "string option"
  pmReviewReason :: string
  pmReviewer :: "uuid option"
  pmRevision :: int
  pmToken :: "uuid option"
  pmConsumed :: bool
  pmRespondedBy :: "uuid option"

record run_interaction =
  itID :: uuid
  itWorkspace :: uuid
  itConversation :: uuid
  itRun :: uuid
  itCall :: string
  itKind :: string
  itRequest :: interaction_request
  itDigest :: string
  itStatus :: string
  itResponse :: "string option"
  itRespondedBy :: "uuid option"

text \<open>\<open>NULL\<close> call IDs and tool names are the empty string.\<close>

record db_message =
  dmID :: uuid
  dmConversation :: uuid
  dmRun :: "uuid option"
  dmRole :: string
  dmContent :: string
  dmMetadata :: gomap
  dmCalls :: "tool_call list"
  dmCallID :: string
  dmToolName :: string
  dmSeq :: int

record run_event =
  evID :: int
  evRun :: uuid
  evConversation :: uuid
  evType :: string
  evPayload :: gomap

record model_request =
  muRun :: uuid
  muIndex :: int
  muPurpose :: string
  muStatus :: string
  muEstimated :: int
  muUsage :: "string option"
  muErrorKind :: "string option"

record checkpoint_row =
  ckID :: uuid
  ckWorkspace :: uuid
  ckConversation :: uuid
  ckRun :: uuid
  ckPrevious :: "uuid option"
  ckThrough :: int
  ckRetained :: "uuid list"
  ckSources :: "uuid list"
  ckDigest :: string
  ckCount :: int
  ckModel :: string
  ckSummary :: string
  ckBefore :: int
  ckAfter :: int

record db =
  conversations :: "conversation list"
  members :: "(uuid \<times> uuid) list"
  users :: "user list"
  runs :: "run list"
  inputs :: "run_input list"
  permissions :: "run_permission list"
  interactions :: "run_interaction list"
  messages :: "db_message list"
  events :: "run_event list"
  outbox :: "int list"
  modelRequests :: "model_request list"
  checkpoints :: "checkpoint_row list"
  nextID :: nat
  nextEvent :: int
  nextOrder :: int

datatype err =
    NoRows
  | UniqueViolation
  | ErrRunNotFound
  | ErrRunNotActive
  | ErrRunInProgress
  | ErrRunInputConflict
  | ErrRunInputNotFound
  | ErrPendingRunInputs
  | ErrQueuedInputPriority
  | ErrRunInputRejected string
  | ErrInteractionConflict
  | ErrInteractionNotFound
  | ErrSubmissionConflict
  | OtherErr string

section \<open>Lookups\<close>

definition find_conversation :: "db \<Rightarrow> uuid \<Rightarrow> conversation option" where
  "find_conversation d c = List.find (\<lambda>x. cvID x = c) (conversations d)"

definition owned_conversation :: "db \<Rightarrow> uuid \<Rightarrow> uuid \<Rightarrow> conversation option" where
  "owned_conversation d w c = List.find (\<lambda>x. cvID x = c \<and> cvWorkspace x = w) (conversations d)"

definition find_run :: "db \<Rightarrow> uuid \<Rightarrow> uuid \<Rightarrow> run option" where
  "find_run d r c = List.find (\<lambda>x. rnID x = r \<and> rnConversation x = c) (runs d)"

text \<open>An enabled account that is a member of the workspace.\<close>

definition member_enabled :: "db \<Rightarrow> uuid \<Rightarrow> uuid \<Rightarrow> bool" where
  "member_enabled d w u =
     ((w, u) \<in> set (members d) \<and> list_ex (\<lambda>x. usID x = u \<and> \<not> usDisabled x) (users d))"

definition active_status :: "string \<Rightarrow> bool" where
  "active_status s = (s = ''running'' \<or> s = ''cancelling'')"

definition terminal_status :: "string \<Rightarrow> bool" where
  "terminal_status s = (s = ''completed'' \<or> s = ''failed'' \<or> s = ''cancelled'')"

definition active_runs :: "db \<Rightarrow> uuid \<Rightarrow> run list" where
  "active_runs d c = filter (\<lambda>r. rnConversation r = c \<and> active_status (rnStatus r)) (runs d)"

section \<open>Writes\<close>

definition on_runs :: "(run \<Rightarrow> bool) \<Rightarrow> (run \<Rightarrow> run) \<Rightarrow> db \<Rightarrow> db" where
  "on_runs P f d = d\<lparr>runs := update_where P f (runs d)\<rparr>"

definition on_inputs :: "(run_input \<Rightarrow> bool) \<Rightarrow> (run_input \<Rightarrow> run_input) \<Rightarrow> db \<Rightarrow> db" where
  "on_inputs P f d = d\<lparr>inputs := update_where P f (inputs d)\<rparr>"

definition on_permissions :: "(run_permission \<Rightarrow> bool) \<Rightarrow> (run_permission \<Rightarrow> run_permission) \<Rightarrow> db \<Rightarrow> db" where
  "on_permissions P f d = d\<lparr>permissions := update_where P f (permissions d)\<rparr>"

definition on_interactions :: "(run_interaction \<Rightarrow> bool) \<Rightarrow> (run_interaction \<Rightarrow> run_interaction) \<Rightarrow> db \<Rightarrow> db" where
  "on_interactions P f d = d\<lparr>interactions := update_where P f (interactions d)\<rparr>"

definition on_requests :: "(model_request \<Rightarrow> bool) \<Rightarrow> (model_request \<Rightarrow> model_request) \<Rightarrow> db \<Rightarrow> db" where
  "on_requests P f d = d\<lparr>modelRequests := update_where P f (modelRequests d)\<rparr>"

text \<open>\<open>gen_random_uuid()\<close> and \<open>uuid.New()\<close>.\<close>

definition new_id :: "db \<Rightarrow> uuid \<times> db" where
  "new_id d = (show_nat (nextID d), d\<lparr>nextID := Suc (nextID d)\<rparr>)"

text \<open>\<open>eventlog.Append\<close>: the event and its delivery intent, in one transaction.\<close>

definition event_append :: "uuid \<Rightarrow> uuid \<Rightarrow> string \<Rightarrow> gomap \<Rightarrow> db \<Rightarrow> err + db" where
  "event_append r c kind payload d =
     bindr (of_option NoRows (find_conversation d c)) (\<lambda>_.
     bindr (of_option NoRows (find_run d r c)) (\<lambda>_.
       Inr (d\<lparr>events := events d @ [\<lparr>evID = nextEvent d, evRun = r, evConversation = c, evType = kind,
                                      evPayload = payload\<rparr>],
              outbox := outbox d @ [nextEvent d], nextEvent := nextEvent d + 1\<rparr>)))"

text \<open>
  An \<open>INSERT\<close> into \<open>messages\<close>: the foreign keys, the unique tool result per run and
  call, and the trigger that numbers the messages of a conversation.
\<close>

definition insert_message :: "uuid \<Rightarrow> uuid \<Rightarrow> message \<Rightarrow> string \<Rightarrow> gomap \<Rightarrow> db \<Rightarrow> err + (db_message \<times> db)" where
  "insert_message c r m tname metadata d =
     (case find_conversation d c of
        None \<Rightarrow> Inl NoRows
      | Some cv \<Rightarrow>
          if find_run d r c = None then Inl NoRows
          else if role m = ''tool'' \<and> toolCallID m \<noteq> [] \<and>
             list_ex (\<lambda>x. dmRun x = Some r \<and> dmRole x = ''tool'' \<and> dmCallID x = toolCallID m) (messages d)
          then Inl UniqueViolation
          else (let (mid, d1) = new_id d;
                    row = \<lparr>dmID = mid, dmConversation = c, dmRun = Some r, dmRole = role m,
                           dmContent = content m, dmMetadata = metadata, dmCalls = toolCalls m,
                           dmCallID = toolCallID m, dmToolName = tname, dmSeq = cvLastSeq cv + 1\<rparr>
            in Inr (row, d1\<lparr>messages := messages d1 @ [row],
                 conversations := update_where (\<lambda>x. cvID x = c) (\<lambda>x. x\<lparr>cvLastSeq := cvLastSeq x + 1\<rparr>)
                   (conversations d1)\<rparr>)))"

section \<open>Event delivery\<close>

text \<open>
  \<open>Dispatcher.Flush\<close>: the first hundred delivery intents in event order, each on its two
  channels.  \<open>publish\<close> says whether a delivery succeeds; the log holds what was published.
  The first failure rolls the transaction back and keeps every intent.
\<close>

type_synonym delivery = "string \<times> run_event"

definition pending_events :: "db \<Rightarrow> (run_event \<times> conversation) list" where
  "pending_events d =
     take 100 (List.map_filter (\<lambda>i. case List.find (\<lambda>e. evID e = i) (events d) of None \<Rightarrow> None
        | Some e \<Rightarrow> map_option (\<lambda>c. (e, c)) (find_conversation d (evConversation e))) (sort (outbox d)))"

definition event_channels :: "run_event \<Rightarrow> conversation \<Rightarrow> string list" where
  "event_channels e c = [''conversation:'' @ evConversation e, ''workspace:'' @ cvWorkspace c]"

fun publish_all :: "(delivery \<Rightarrow> bool) \<Rightarrow> delivery list \<Rightarrow> bool \<times> delivery list" where
  "publish_all publish [] = (True, [])"
| "publish_all publish (x # xs) =
     (if publish x then (let (ok, log) = publish_all publish xs in (ok, x # log)) else (False, []))"

definition event_deliveries :: "(run_event \<times> conversation) list \<Rightarrow> delivery list" where
  "event_deliveries es = concat (map (\<lambda>(e, c). map (\<lambda>ch. (ch, e)) (event_channels e c)) es)"

definition event_flush :: "(delivery \<Rightarrow> bool) \<Rightarrow> db \<Rightarrow> (err + nat) \<times> delivery list \<times> db" where
  "event_flush publish d =
     (let es = pending_events d; (ok, log) = publish_all publish (event_deliveries es) in
      if ok then (Inr (length es), log, d\<lparr>outbox := filter (\<lambda>i. i \<notin> evID ` fst ` set es) (outbox d)\<rparr>)
      else (Inl (OtherErr ''publish''), log, d))"

end
