(* ===== verification/RunLifecycle.thy ===== *)
theory RunLifecycle
  imports ConvStore
begin

text \<open>
  Ends of a run, \<open>backend/internal/conversation/cancellation.go\<close> and
  \<open>transcript.go\<close>: cancellation, completion, failure, recovery of runs whose process died,
  and the appends to the transcript.  What the operations do inside the process (cancelling a
  context, waiting for a worker) is not state of the database and is not modelled.
\<close>

section \<open>Shared updates\<close>

definition set_run_status :: "string \<Rightarrow> uuid \<Rightarrow> db \<Rightarrow> db" where
  "set_run_status s r = on_runs (\<lambda>x. rnID x = r) (\<lambda>x. x\<lparr>rnStatus := s, rnFinished := terminal_status s\<rparr>)"

text \<open>\<open>holdRunInputs\<close>.\<close>

definition holdRunInputs :: "uuid \<Rightarrow> string \<Rightarrow> db \<Rightarrow> db" where
  "holdRunInputs r reason d =
     on_inputs (\<lambda>i. (riAfterRun i = r \<and> riStatus i = ''pending'') \<or>
         (Some (riConversation i) = map_option rnConversation (List.find (\<lambda>x. rnID x = r) (runs d)) \<and>
          riKind i = ''next'' \<and> riStatus i = ''queued''))
       (\<lambda>i. i\<lparr>riStatus := ''held'', riHeldReason := Some reason, riRevision := riRevision i + 1\<rparr>) d"

definition open_permission :: "uuid \<Rightarrow> run_permission \<Rightarrow> bool" where
  "open_permission r p = (pmRun p = r \<and> (pmStatus p = ''pending'' \<or> pmStatus p = ''reviewing''))"

definition cancel_permissions :: "uuid \<Rightarrow> db \<Rightarrow> db" where
  "cancel_permissions r = on_permissions (open_permission r) (\<lambda>p. p\<lparr>pmStatus := ''cancelled'', pmToken := None\<rparr>)"

definition cancel_interactions :: "uuid \<Rightarrow> db \<Rightarrow> db" where
  "cancel_interactions r =
     on_interactions (\<lambda>i. itRun i = r \<and> itStatus i = ''pending'') (\<lambda>i. i\<lparr>itStatus := ''cancelled''\<rparr>)"

definition missing_usage :: string where
  \<open>missing_usage = ''{"source":"missing"}''\<close>

definition close_requests :: "uuid \<Rightarrow> string \<Rightarrow> string \<Rightarrow> db \<Rightarrow> db" where
  "close_requests r status kind =
     on_requests (\<lambda>u. muRun u = r \<and> muStatus u = ''started'')
       (\<lambda>u. u\<lparr>muStatus := status, muErrorKind := Some kind,
              muUsage := Some (case muUsage u of None \<Rightarrow> missing_usage | Some x \<Rightarrow> x)\<rparr>)"

section \<open>Calls without a result\<close>

definition has_result :: "db_message list \<Rightarrow> uuid \<Rightarrow> string \<Rightarrow> bool" where
  "has_result ms r i = list_ex (\<lambda>x. i \<noteq> [] \<and> dmRun x = Some r \<and> dmRole x = ''tool'' \<and> dmCallID x = i) ms"

definition missing_calls :: "db \<Rightarrow> uuid \<Rightarrow> uuid \<Rightarrow> tool_call list" where
  "missing_calls d r c =
     filter (\<lambda>k. \<not> has_result (messages d) r (callID k))
       (concat (map dmCalls (filter (\<lambda>m. dmRun m = Some r \<and> dmConversation m = c \<and> dmRole m = ''assistant'')
          (messages d))))"

definition cancelled_text :: string where
  "cancelled_text = ''Tool execution was cancelled before a result was recorded. Side effects may have occurred; inspect current state before retrying.''"

definition interrupted_text :: string where
  "interrupted_text = ''Tool execution was interrupted and its result is unavailable. Side effects may have occurred; inspect current state before retrying.''"

definition closing_message :: "string \<Rightarrow> string \<Rightarrow> tool_call \<Rightarrow> message" where
  "closing_message flag text k =
     \<lparr>role = ''tool'', content = render (JObj (go_map [(''error'', JStr text), (flag, JBool True)])),
      toolCallID = callID k, toolCalls = [], msgRunID = [], messageID = [], msgSeq = 0\<rparr>"

text \<open>One tool message for every call that has none.\<close>

fun close_calls :: "uuid \<Rightarrow> uuid \<Rightarrow> string \<Rightarrow> string \<Rightarrow> tool_call list \<Rightarrow> db \<Rightarrow> err + db" where
  "close_calls r c flag text [] d = Inr d"
| "close_calls r c flag text (k # ks) d =
     bindr (insert_message c r (closing_message flag text k) (callName k)
              [(''is_error'', JBool True), (flag, JBool True)] d)
       (\<lambda>(row, d'). close_calls r c flag text ks d')"

section \<open>Operations\<close>

text \<open>\<open>ActiveRun\<close>: the newest active run.\<close>

definition ActiveRun :: "db \<Rightarrow> uuid \<Rightarrow> uuid \<Rightarrow> (uuid \<times> string) option" where
  "ActiveRun d w c =
     (case owned_conversation d w c of
        None \<Rightarrow> None
      | Some _ \<Rightarrow> (case rev (active_runs d c) of [] \<Rightarrow> None | r # _ \<Rightarrow> Some (rnID r, rnStatus r)))"

definition CancelRun :: "uuid \<Rightarrow> uuid \<Rightarrow> uuid \<Rightarrow> db \<Rightarrow> err + db" where
  "CancelRun w c r d =
     (if owned_conversation d w c = None then Inl ErrRunNotFound
      else (case find_run d r c of
          None \<Rightarrow> Inl ErrRunNotFound
        | Some x \<Rightarrow>
            if rnStatus x = ''running'' then
              event_append r c ''RUN_CANCELLING'' []
                (cancel_interactions r (cancel_permissions r
                  (holdRunInputs r ''run_cancelled'' (set_run_status ''cancelling'' r d))))
            else if rnStatus x = ''cancelling'' \<or> rnStatus x = ''cancelled'' then Inr d
            else Inl ErrRunNotActive))"

text \<open>The boolean says whether this call ended the run.\<close>

definition finishCancelledRun :: "uuid \<Rightarrow> uuid \<Rightarrow> db \<Rightarrow> err + (bool \<times> db)" where
  "finishCancelledRun r c d =
     (case find_run d r c of
        None \<Rightarrow> Inl NoRows
      | Some x \<Rightarrow>
          if \<not> active_status (rnStatus x) then Inr (False, d)
          else bindr (close_calls r c ''cancelled'' cancelled_text (missing_calls d r c) d) (\<lambda>d1.
            bindr (event_append r c ''RUN_CANCELLED'' [(''reason'', JStr ''user_requested'')]
              (close_requests r ''cancelled'' ''cancelled''
                (cancel_interactions r (cancel_permissions r
                  (holdRunInputs r ''run_cancelled'' (set_run_status ''cancelled'' r d1))))))
              (\<lambda>d2. Inr (True, d2))))"

definition finishFailedRun :: "uuid \<Rightarrow> uuid \<Rightarrow> string \<Rightarrow> db \<Rightarrow> err + db" where
  "finishFailedRun r c reason d =
     (case find_run d r c of
        None \<Rightarrow> Inl NoRows
      | Some x \<Rightarrow>
          if rnStatus x \<noteq> ''running'' then Inr d
          else bindr (close_calls r c ''interrupted'' interrupted_text (missing_calls d r c) d) (\<lambda>d1.
            event_append r c ''RUN_FAILED'' [(''error'', JStr reason)]
              (close_requests r ''failed'' ''interrupted''
                (cancel_permissions r (cancel_interactions r
                  (holdRunInputs r ''run_failed'' (set_run_status ''failed'' r d1)))))))"

definition finishCompletedRun :: "uuid \<Rightarrow> uuid \<Rightarrow> db \<Rightarrow> err + db" where
  "finishCompletedRun r c d =
     (case find_run d r c of
        None \<Rightarrow> Inl NoRows
      | Some x \<Rightarrow>
          if rnStatus x = ''completed'' then Inr d
          else if rnStatus x \<noteq> ''running'' then Inl ErrRunNotActive
          else if list_ex (\<lambda>i. riAfterRun i = r \<and> riKind i = ''adjust'' \<and> riStatus i = ''pending'') (inputs d)
          then Inl ErrPendingRunInputs
          else event_append r c ''RUN_COMPLETED'' [] (cancel_interactions r (set_run_status ''completed'' r d)))"

text \<open>
  \<open>finishExecutionError\<close> and \<open>finishContext\<close> with a user's cancellation as cause: what
  the executor does with a run it gives up.
\<close>

definition finishExecutionError :: "uuid \<Rightarrow> uuid \<Rightarrow> string \<Rightarrow> bool \<Rightarrow> db \<Rightarrow> err + db" where
  "finishExecutionError r c reason cancelledByUser d =
     (if cancelledByUser then bindr (finishCancelledRun r c d) (\<lambda>(ended, d'). Inr d')
      else (case find_run d r c of
          None \<Rightarrow> finishFailedRun r c reason d
        | Some x \<Rightarrow>
            if rnStatus x = ''cancelling'' \<or> rnStatus x = ''cancelled''
            then bindr (finishCancelledRun r c d) (\<lambda>(ended, d'). Inr d')
            else finishFailedRun r c reason d))"

definition interrupted_reason :: string where
  "interrupted_reason = ''Run interrupted before completion; tools were not automatically retried.''"

text \<open>
  \<open>recoverInterruptedRuns\<close>: every active run of the conversation is ended, each in its own
  transaction; the first failure stops the loop and keeps what was done.
\<close>

fun recover_runs :: "uuid \<Rightarrow> run list \<Rightarrow> db \<Rightarrow> err option \<times> db" where
  "recover_runs c [] d = (None, d)"
| "recover_runs c (x # xs) d =
     (case (if rnStatus x = ''cancelling''
            then bindr (finishCancelledRun (rnID x) c d) (\<lambda>(ended, d'). Inr d')
            else finishFailedRun (rnID x) c interrupted_reason d) of
        Inl e \<Rightarrow> (Some e, d)
      | Inr d' \<Rightarrow> recover_runs c xs d')"

definition recoverInterruptedRuns :: "uuid \<Rightarrow> db \<Rightarrow> err option \<times> db" where
  "recoverInterruptedRuns c d = recover_runs c (active_runs d c) d"

section \<open>The transcript\<close>

definition metadata_true :: "gomap \<Rightarrow> string \<Rightarrow> bool" where
  "metadata_true md k = (mget md k = Some (JBool True))"

text \<open>The message with the IDs the database gave it.\<close>

definition receipt :: "message \<Rightarrow> db_message \<Rightarrow> message" where
  "receipt m row = m\<lparr>messageID := dmID row, msgSeq := dmSeq row,
     msgRunID := (case dmRun row of None \<Rightarrow> [] | Some r \<Rightarrow> r)\<rparr>"

definition appendMessageReceipt :: "uuid \<Rightarrow> uuid \<Rightarrow> message \<Rightarrow> string \<Rightarrow> gomap \<Rightarrow> db \<Rightarrow> err + (message \<times> db)" where
  "appendMessageReceipt c r m tname metadata d =
     (case find_run d r c of
        None \<Rightarrow> Inl NoRows
      | Some x \<Rightarrow>
          (let auditOnly = (role m = ''assistant'' \<and> toolCalls m = [] \<and> metadata_true metadata ''incomplete'');
               observation = (role m = ''tool'' \<and> toolCallID m \<noteq> [] \<and> metadata_true metadata ''cancelled'')
           in if rnStatus x \<noteq> ''running'' \<and> \<not> (rnStatus x = ''cancelling'' \<and> (auditOnly \<or> observation))
              then Inl (OtherErr ''run is no longer active'')
              else bindr (insert_message c r m tname metadata d) (\<lambda>(row, d'). Inr (receipt m row, d'))))"

text \<open>
  \<open>modelHistory\<close>: the transcript for the model, without the partial responses.  What the
  model reads of a user's references (\<open>messageContentForModel\<close>) is the function \<open>shown\<close>.
\<close>

definition model_message :: "(db_message \<Rightarrow> string) \<Rightarrow> db_message \<Rightarrow> message" where
  "model_message shown x =
     \<lparr>role = dmRole x, content = shown x, toolCallID = dmCallID x, toolCalls = dmCalls x,
      msgRunID = (case dmRun x of None \<Rightarrow> [] | Some r \<Rightarrow> r), messageID = dmID x, msgSeq = dmSeq x\<rparr>"

definition modelHistory :: "(db_message \<Rightarrow> string) \<Rightarrow> db_message list \<Rightarrow> message list" where
  "modelHistory shown ms =
     map (model_message shown) (filter (\<lambda>x. \<not> metadata_true (dmMetadata x) ''incomplete'') ms)"

definition visibleMessages :: "db_message list \<Rightarrow> db_message list" where
  "visibleMessages ms =
     filter (\<lambda>x. \<not> (dmRole x = ''tool'' \<or> dmCalls x \<noteq> [] \<or> metadata_true (dmMetadata x) ''incomplete'')) ms"

definition conversation_messages :: "db \<Rightarrow> uuid \<Rightarrow> db_message list" where
  "conversation_messages d c = filter (\<lambda>x. dmConversation x = c) (messages d)"

text \<open>\<open>assembledToolCalls\<close>: the streamed calls in index order, each complete and valid.\<close>

fun check_calls :: "string list \<Rightarrow> tool_call list \<Rightarrow> err + tool_call list" where
  "check_calls seen [] = Inr []"
| "check_calls seen (k # ks) =
     (if callID k = [] \<or> callName k = [] \<or> callID k \<in> set seen
      then Inl (OtherErr ''incomplete or duplicate model tool call'')
      else (let k1 = (if arguments k = [] then k\<lparr>arguments := ''{}''\<rparr> else k) in
        if \<not> json_valid (arguments k1) then Inl (OtherErr ''invalid model tool arguments'')
        else bindr (check_calls (callID k # seen) ks) (\<lambda>rest. Inr (k1\<lparr>callIndex := 0\<rparr> # rest))))"

definition assembledToolCalls :: "assembler \<Rightarrow> err + tool_call list" where
  "assembledToolCalls frags =
     check_calls [] (map (\<lambda>i. the (map_of frags i)) (sort (map fst frags)))"

end
