(* ===== verification/RunInputs.thy ===== *)
theory RunInputs
  imports RunLifecycle GoCrypto
begin

text \<open>
  What a user sends while a run is active and how queued work starts:
  \<open>run_inputs.go\<close>, \<open>run_input_actions.go\<close>, \<open>run_input_queue.go\<close>, \<open>submissions.go\<close> and
  \<open>SendSubmission\<close> of \<open>service.go\<close> (all in \<open>backend/internal/conversation\<close>).
  \<open>prepareRunInput\<close> resolves attachments and references from tables outside this model; it
  is the argument \<open>prepare\<close>, \<open>None\<close> for an error.  The session lock of a conversation
  (\<open>acquireRun\<close>) is a list of held conversations.
\<close>

section \<open>Requests\<close>

record input_reference =
  rfType :: string
  rfID :: uuid

record input_request =
  rqID :: uuid
  rqRunID :: uuid
  rqKind :: string
  rqContent :: string
  rqAttachments :: "uuid list"
  rqContexts :: "uuid list"
  rqReferences :: "input_reference list"
  rqExecMode :: string
  rqPermMode :: string

type_synonym prepare = "db \<Rightarrow> uuid \<Rightarrow> uuid \<Rightarrow> uuid \<Rightarrow> string \<Rightarrow> uuid list \<Rightarrow> uuid list \<Rightarrow> input_reference list \<Rightarrow>
  (string \<times> gomap) option"

definition reference_json :: "input_reference \<Rightarrow> json" where
  "reference_json f = JObj [(''type'', JStr (rfType f)), (''id'', JStr (rfID f))]"

definition omit_empty :: "string \<Rightarrow> json list \<Rightarrow> gomap" where
  "omit_empty k vs = (if vs = [] then [] else [(k, JArr vs)])"

definition omit_blank :: "string \<Rightarrow> string \<Rightarrow> gomap" where
  "omit_blank k s = (if s = [] then [] else [(k, JStr s)])"

definition request_json :: "input_request \<Rightarrow> json" where
  "request_json q = JObj (
     [(''id'', JStr (rqID q)), (''run_id'', JStr (rqRunID q)), (''kind'', JStr (rqKind q)), (''content'', JStr (rqContent q))]
     @ omit_empty ''attachment_ids'' (map JStr (rqAttachments q)) @ omit_empty ''context_ids'' (map JStr (rqContexts q))
     @ omit_empty ''references'' (map reference_json (rqReferences q))
     @ omit_blank ''execution_mode'' (rqExecMode q) @ omit_blank ''permission_mode'' (rqPermMode q))"

definition permissionMode :: "string \<Rightarrow> string option" where
  "permissionMode v =
     (let m = (if v = [] then ''standard'' else v)
      in if m = ''standard'' \<or> m = ''auto'' \<or> m = ''full'' then Some m else None)"

section \<open>Accepting an input\<close>

definition find_input :: "db \<Rightarrow> uuid \<Rightarrow> uuid \<Rightarrow> uuid \<Rightarrow> uuid \<Rightarrow> run_input option" where
  "find_input d w u c i =
     List.find (\<lambda>x. riID x = i \<and> riWorkspace x = w \<and> riConversation x = c \<and> riSubmittedBy x = Some u) (inputs d)"

definition open_input :: "run_input \<Rightarrow> bool" where
  "open_input i = (riStatus i \<in> set [''pending'', ''queued'', ''held''])"

definition input_limit :: nat where
  "input_limit = 20"

definition open_inputs :: "db \<Rightarrow> uuid \<Rightarrow> run_input list" where
  "open_inputs d c = filter (\<lambda>i. riConversation i = c \<and> open_input i) (inputs d)"

text \<open>The checks before the transaction: the execution and the permission mode, or the refusal.\<close>

definition check_request :: "input_request \<Rightarrow> err + (string \<times> string)" where
  "check_request q =
     (if rqID q = uuid_nil \<or> rqRunID q = uuid_nil \<or> (rqKind q \<noteq> ''adjust'' \<and> rqKind q \<noteq> ''next'') \<or>
         100000 < rune_count (rqContent q)
      then Inl (ErrRunInputRejected ''invalid run input'')
      else if rqKind q = ''adjust'' \<and> (rqAttachments q \<noteq> [] \<or> rqContexts q \<noteq> [] \<or> rqReferences q \<noteq> [] \<or>
         rqExecMode q \<noteq> [] \<or> rqPermMode q \<noteq> [])
      then Inl (ErrRunInputRejected ''current-task adjustments accept text only and cannot change execution mode'')
      else (let mode = (if rqExecMode q = [] then ''execute'' else rqExecMode q) in
        if mode \<noteq> ''execute'' \<and> mode \<noteq> ''plan''
        then Inl (ErrRunInputRejected ''invalid next-task execution mode'')
        else (case permissionMode (rqPermMode q) of
            None \<Rightarrow> Inl (ErrRunInputRejected ''invalid permission mode'')
          | Some p \<Rightarrow> Inr (mode, p))))"

definition request_digest :: "input_request \<Rightarrow> string" where
  "request_digest q = sha256_hex (marshal (request_json q))"

text \<open>The adjustment takes back what the run was waiting for.\<close>

definition supersede_waiting :: "uuid \<Rightarrow> uuid \<Rightarrow> db \<Rightarrow> db" where
  "supersede_waiting r i d =
     on_interactions (\<lambda>x. itRun x = r \<and> itStatus x = ''pending'')
       (\<lambda>x. x\<lparr>itStatus := ''cancelled'',
              itResponse := Some (render (JObj [(''superseded_by_input_id'', JStr i)]))\<rparr>)
       (cancel_permissions r d)"

definition input_row :: "input_request \<Rightarrow> uuid \<Rightarrow> uuid \<Rightarrow> uuid \<Rightarrow> uuid option \<Rightarrow> string \<Rightarrow> string \<Rightarrow> string \<Rightarrow> gomap \<Rightarrow> db \<Rightarrow> run_input" where
  "input_row q w u c model mode perm body md d =
     \<lparr>riID = rqID q, riWorkspace = w, riConversation = c, riAfterRun = rqRunID q, riSubmittedBy = Some u,
      riKind = rqKind q, riRequest = marshal (request_json q), riDigest = request_digest q, riContent = body,
      riMetadata = md, riModel = model, riExecMode = mode,
      riStatus = (if rqKind q = ''next'' then ''queued'' else ''pending''), riPermMode = perm,
      riOrder = nextOrder d, riRevision = 1, riMessage = None, riStartedRun = None, riResume = False,
      riHeldReason = None\<rparr>"

definition AcceptRunInput :: "prepare \<Rightarrow> uuid \<Rightarrow> uuid \<Rightarrow> uuid \<Rightarrow> input_request \<Rightarrow> db \<Rightarrow> err + (run_input \<times> db)" where
  "AcceptRunInput prepare w u c q d =
     bindr (check_request q) (\<lambda>(mode, perm).
     (case find_input d w u c (rqID q) of
        Some x \<Rightarrow> if riDigest x \<noteq> request_digest q then Inl ErrRunInputConflict else Inr (x, d)
      | None \<Rightarrow>
        (case owned_conversation d w c of
           None \<Rightarrow> Inl ErrRunInputNotFound
         | Some cv \<Rightarrow>
          if \<not> member_enabled d w u then Inl ErrRunInputNotFound
          else if list_ex (\<lambda>r. rnConversation r = c \<and> rnSubmission r = Some (rqID q)) (runs d)
          then Inl ErrRunInputConflict
          else (case find_run d (rqRunID q) c of
             None \<Rightarrow> Inl ErrRunInputNotFound
           | Some r \<Rightarrow>
              if rnStatus r \<noteq> ''running'' then Inl ErrRunNotActive
              else if input_limit \<le> length (open_inputs d c)
              then Inl (ErrRunInputRejected ''too many pending inputs; cancel or finish an existing input first'')
              else (case prepare d w u c (rqContent q) (rqAttachments q) (rqContexts q) (rqReferences q) of
                 None \<Rightarrow> Inl (ErrRunInputRejected ''check the selected references and attachments'')
               | Some (body, md) \<Rightarrow>
                  if list_ex (\<lambda>x. riID x = rqID q) (inputs d) then Inl UniqueViolation
                  else (let item = input_row q w u c (cvModel cv) mode perm body md d;
                            d1 = d\<lparr>inputs := inputs d @ [item], nextOrder := nextOrder d + 1\<rparr>;
                            d2 = (if rqKind q = ''adjust'' then supersede_waiting (rqRunID q) (rqID q) d1 else d1)
                    in bindr (event_append (rqRunID q) c ''RUN_INPUT_ACCEPTED''
                         [(''input_id'', JStr (rqID q)), (''kind'', JStr (rqKind q)), (''status'', JStr (riStatus item))] d2)
                       (\<lambda>d3. Inr (item, d3))))))))"

section \<open>Applying adjustments\<close>

definition pending_adjustments :: "db \<Rightarrow> uuid \<Rightarrow> uuid \<Rightarrow> run_input list" where
  "pending_adjustments d c r =
     filter (\<lambda>i. riAfterRun i = r \<and> riConversation i = c \<and> riKind i = ''adjust'' \<and> riStatus i = ''pending'') (inputs d)"

definition adjustment_message :: "run_input \<Rightarrow> message" where
  "adjustment_message i =
     \<lparr>role = ''user'', content = riContent i, toolCallID = [], toolCalls = [], msgRunID = [], messageID = [], msgSeq = 0\<rparr>"

definition uuid_json :: "uuid option \<Rightarrow> json" where
  "uuid_json u = (case u of None \<Rightarrow> JNull | Some x \<Rightarrow> JStr x)"

fun apply_items :: "uuid \<Rightarrow> uuid \<Rightarrow> run_input list \<Rightarrow> db \<Rightarrow> err + (message list \<times> db)" where
  "apply_items c r [] d = Inr ([], d)"
| "apply_items c r (i # is) d =
     bindr (insert_message c r (adjustment_message i) []
              [(''run_input_id'', JStr (riID i)), (''submitted_by'', uuid_json (riSubmittedBy i)), (''input_kind'', JStr ''adjust'')] d)
       (\<lambda>(row, d1).
     bindr (apply_items c r is (on_inputs (\<lambda>x. riID x = riID i)
              (\<lambda>x. x\<lparr>riStatus := ''applied'', riMessage := Some (dmID row), riRevision := riRevision x + 1\<rparr>) d1))
       (\<lambda>(ms, d2). Inr (receipt (adjustment_message i) row # ms, d2)))"

definition applyRunAdjustments :: "uuid \<Rightarrow> uuid \<Rightarrow> db \<Rightarrow> err + (message list \<times> db)" where
  "applyRunAdjustments c r d =
     (case find_run d r c of
        None \<Rightarrow> Inl NoRows
      | Some x \<Rightarrow>
          if rnStatus x \<noteq> ''running'' then Inl ErrRunNotActive
          else (let items = pending_adjustments d c r in
            bindr (apply_items c r items d) (\<lambda>(ms, d1).
              if items = [] then Inr (ms, d1)
              else bindr (event_append r c ''RUN_INPUT_APPLIED''
                     [(''input_ids'', JArr (map (JStr \<circ> riID) items)),
                      (''message_ids'', JArr (map (JStr \<circ> messageID) ms))] d1)
                   (\<lambda>d2. Inr (ms, d2)))))"

section \<open>Cancelling and resuming\<close>

definition set_input :: "uuid \<Rightarrow> string \<Rightarrow> bool \<Rightarrow> db \<Rightarrow> db" where
  "set_input i status resume =
     on_inputs (\<lambda>x. riID x = i)
       (\<lambda>x. x\<lparr>riStatus := status, riResume := (if resume then True else riResume x), riHeldReason := None,
              riRevision := riRevision x + 1\<rparr>)"

definition ChangeRunInput :: "uuid \<Rightarrow> uuid \<Rightarrow> uuid \<Rightarrow> uuid \<Rightarrow> string \<Rightarrow> db \<Rightarrow> err + db" where
  "ChangeRunInput w u c i action d =
     (if action \<noteq> ''cancel'' \<and> action \<noteq> ''resume'' then Inl (ErrRunInputRejected ''invalid run input action'')
      else if owned_conversation d w c = None \<or> \<not> member_enabled d w u then Inl ErrRunInputNotFound
      else (case find_input d w u c i of
          None \<Rightarrow> Inl ErrRunInputNotFound
        | Some x \<Rightarrow>
            if (action = ''cancel'' \<and> riStatus x = ''cancelled'') \<or>
               (action = ''resume'' \<and> riKind x = ''next'' \<and> riStatus x = ''queued'') then Inr d
            else if riStatus x \<in> set [''started'', ''applied'', ''cancelled''] then Inl ErrRunInputConflict
            else if action = ''resume'' \<and> (riKind x \<noteq> ''next'' \<or> riStatus x \<noteq> ''held'') then Inl ErrRunInputConflict
            else if action = ''resume'' \<and> active_runs d c \<noteq> [] then Inl ErrRunInProgress
            else (let status = (if action = ''resume'' then ''queued'' else ''cancelled'') in
              event_append (riAfterRun x) c ''RUN_INPUT_UPDATED''
                [(''input_id'', JStr i), (''status'', JStr status), (''action'', JStr action)]
                (set_input i status (action = ''resume'') d))))"

section \<open>The queue\<close>

definition run_with_id :: "db \<Rightarrow> uuid \<Rightarrow> run option" where
  "run_with_id d r = List.find (\<lambda>x. rnID x = r) (runs d)"

definition queued_next :: "uuid \<Rightarrow> run_input \<Rightarrow> bool" where
  "queued_next c i = (riConversation i = c \<and> riKind i = ''next'' \<and> riStatus i = ''queued'')"

definition queuedInputHasPriority :: "db \<Rightarrow> uuid \<Rightarrow> bool" where
  "queuedInputHasPriority d c =
     list_ex (\<lambda>i. queued_next c i \<and>
       (case run_with_id d (riAfterRun i) of None \<Rightarrow> False
        | Some r \<Rightarrow> rnStatus r = ''completed'' \<or> riResume i)) (inputs d)"

definition hold_input :: "uuid \<Rightarrow> string \<Rightarrow> db \<Rightarrow> db" where
  "hold_input i reason =
     on_inputs (\<lambda>x. riID x = i)
       (\<lambda>x. x\<lparr>riStatus := ''held'', riHeldReason := Some reason, riRevision := riRevision x + 1\<rparr>)"

definition held_event :: "uuid \<Rightarrow> uuid \<Rightarrow> uuid \<Rightarrow> db \<Rightarrow> err + db" where
  "held_event after c i d =
     event_append after c ''RUN_INPUT_HELD'' [(''input_id'', JStr i), (''status'', JStr ''held'')] d"

definition run_row :: "uuid \<Rightarrow> uuid \<Rightarrow> uuid option \<Rightarrow> uuid option \<Rightarrow> uuid option \<Rightarrow> string \<Rightarrow> string \<Rightarrow> string \<Rightarrow> run" where
  "run_row r c model submission actor digest mode perm =
     \<lparr>rnID = r, rnConversation = c, rnStatus = ''running'', rnModel = model, rnSubmission = submission,
      rnSubmittedBy = actor, rnDigest = digest, rnExecMode = mode, rnPermMode = perm, rnPermRevision = 0,
      rnApprovedPlan = None, rnInputMessage = None, rnFinished = False\<rparr>"

definition user_message :: "string \<Rightarrow> message" where
  "user_message s =
     \<lparr>role = ''user'', content = s, toolCallID = [], toolCalls = [], msgRunID = [], messageID = [], msgSeq = 0\<rparr>"

text \<open>A new run with its user message; a submission identity is used once per conversation.\<close>

definition insert_run :: "uuid \<Rightarrow> uuid option \<Rightarrow> uuid option \<Rightarrow> uuid option \<Rightarrow> string \<Rightarrow> string \<Rightarrow> string \<Rightarrow> string \<Rightarrow> gomap \<Rightarrow>
    db \<Rightarrow> err + (uuid \<times> uuid \<times> db)" where
  "insert_run c model submission actor digest mode perm body md d =
     (if submission \<noteq> None \<and> list_ex (\<lambda>r. rnConversation r = c \<and> rnSubmission r = submission) (runs d)
      then Inl UniqueViolation
      else (let (r, d1) = new_id d;
                d2 = d1\<lparr>runs := runs d1 @ [run_row r c model submission actor digest mode perm]\<rparr> in
        bindr (insert_message c r (user_message body) [] md d2) (\<lambda>(row, d3).
          Inr (r, dmID row, on_runs (\<lambda>x. rnID x = r) (\<lambda>x. x\<lparr>rnInputMessage := Some (dmID row)\<rparr>) d3))))"

text \<open>\<open>claimQueuedInput\<close>: the run it started, or \<open>None\<close> where nothing can start.\<close>

definition claimQueuedInput :: "uuid \<Rightarrow> uuid \<Rightarrow> db \<Rightarrow> err + (uuid option \<times> db)" where
  "claimQueuedInput w c d =
     (if owned_conversation d w c = None then Inl NoRows
      else if active_runs d c \<noteq> [] then Inl ErrRunInProgress
      else (case List.find (\<lambda>i. riWorkspace i = w \<and> queued_next c i) (inputs d) of
          None \<Rightarrow> Inr (None, d)
        | Some i \<Rightarrow>
          (case find_run d (riAfterRun i) c of
             None \<Rightarrow> Inl NoRows
           | Some prev \<Rightarrow>
              if rnStatus prev \<noteq> ''completed'' \<and> \<not> riResume i then
                (if active_status (rnStatus prev) then Inr (None, d)
                 else bindr (held_event (riAfterRun i) c (riID i) (hold_input (riID i) ''run_interrupted'' d))
                        (\<lambda>d1. Inr (None, d1)))
              else if (case riSubmittedBy i of None \<Rightarrow> True | Some u \<Rightarrow> \<not> member_enabled d w u) then
                bindr (held_event (riAfterRun i) c (riID i) (hold_input (riID i) ''authorization_changed'' d))
                  (\<lambda>d1. Inr (None, d1))
              else
                bindr (insert_run c (riModel i) (Some (riID i)) (riSubmittedBy i) (riDigest i) (riExecMode i) (riPermMode i)
                        (riContent i) (riMetadata i @ [(''run_input_id'', JStr (riID i)), (''input_kind'', JStr ''next'')]) d)
                  (\<lambda>(r, m, d1).
                bindr (event_append r c ''RUN_STARTED'' [(''input_id'', JStr (riID i)), (''input_message_id'', JStr m)]
                        (on_inputs (\<lambda>x. riID x = riID i)
                          (\<lambda>x. x\<lparr>riStatus := ''started'', riMessage := Some m, riStartedRun := Some r,
                                 riRevision := riRevision x + 1\<rparr>) d1)) (\<lambda>d2.
                bindr (event_append r c ''RUN_INPUT_STARTED'' [(''input_id'', JStr (riID i)), (''status'', JStr ''started'')] d2)
                  (\<lambda>d3. Inr (Some r, d3)))))))"

section \<open>Sending a message\<close>

fun uniqueUUIDs :: "uuid list \<Rightarrow> uuid list \<Rightarrow> uuid list" where
  "uniqueUUIDs seen [] = []"
| "uniqueUUIDs seen (x # xs) =
     (if x = uuid_nil \<or> x \<in> set seen then uniqueUUIDs seen xs else x # uniqueUUIDs (x # seen) xs)"

text \<open>The digest is extended, byte digest first, for the modes that are not the default.\<close>

definition submissionDigest :: "string \<Rightarrow> uuid list \<Rightarrow> uuid list \<Rightarrow> input_reference list \<Rightarrow> string \<Rightarrow> string \<Rightarrow> string" where
  "submissionDigest body atts ctxs refs mode perm =
     (let raw = render (JObj [(''Content'', JStr body), (''Attachments'', JArr (map JStr (uniqueUUIDs [] atts))),
                  (''Contexts'', JArr (map JStr (uniqueUUIDs [] ctxs))), (''References'', JArr (map reference_json refs))]);
          d0 = sha256 raw;
          d1 = (if mode = ''plan'' then sha256 (d0 @ CHR 0x00 # ''plan'') else d0);
          d2 = (if perm \<noteq> [] \<and> perm \<noteq> ''standard'' then sha256 (d1 @ CHR 0x00 # ''permission:'' @ perm) else d1)
      in hex_encode d2)"

definition acceptedSubmission :: "db \<Rightarrow> uuid \<Rightarrow> uuid \<Rightarrow> uuid \<Rightarrow> uuid \<Rightarrow> string \<Rightarrow> err + uuid option" where
  "acceptedSubmission d w u c s digest =
     (if s = uuid_nil then Inr None
      else (case List.find (\<lambda>r. owned_conversation d w c \<noteq> None \<and> rnConversation r = c \<and>
                   rnSubmittedBy r = Some u \<and> rnSubmission r = Some s) (runs d) of
          None \<Rightarrow> Inr None
        | Some r \<Rightarrow> if rnDigest r \<noteq> digest then Inl ErrSubmissionConflict else Inr (Some (rnID r))))"

record submission =
  smID :: uuid
  smContent :: string
  smAttachments :: "uuid list"
  smContexts :: "uuid list"
  smReferences :: "input_reference list"
  smExecMode :: string
  smPermMode :: string

text \<open>
  The part of \<open>SendSubmission\<close> under the session lock: runs left by a dead process are ended,
  queued work goes first, then the run and its message are written.  Ending the old runs is
  durable even where the rest fails, so the database is returned with an error as well.
\<close>

definition start_submission :: "prepare \<Rightarrow> uuid \<Rightarrow> uuid \<Rightarrow> uuid \<Rightarrow> submission \<Rightarrow> string \<Rightarrow> string \<Rightarrow> string \<Rightarrow> db \<Rightarrow> err + (uuid \<times> db)" where
  "start_submission prepare w u c s digest mode perm d =
     (case owned_conversation d w c of
        None \<Rightarrow> Inl (OtherErr ''conversation not found'')
      | Some cv \<Rightarrow>
          if queuedInputHasPriority d c then Inl ErrQueuedInputPriority
          else (case prepare d w u c (smContent s) (uniqueUUIDs [] (smAttachments s)) (smContexts s) (smReferences s) of
             None \<Rightarrow> Inl (OtherErr ''input'')
           | Some (body, md) \<Rightarrow>
              bindr (insert_run c (cvModel cv) (if smID s = uuid_nil then None else Some (smID s)) (Some u) digest mode perm body md d)
                (\<lambda>(r, m, d1).
              bindr (event_append r c ''RUN_STARTED'' [(''input_message_id'', JStr m)] d1) (\<lambda>d2. Inr (r, d2)))))"

text \<open>
  \<open>locked\<close>: another session holds the lock of the conversation.  Third component: whether
  the new run now owns the lock; \<open>launch\<close> says whether the executor took it
  (\<open>executor.start\<close> refuses while the server shuts down).
\<close>

definition shutdown_reason :: string where
  "shutdown_reason = ''API shut down before execution started; no tools were replayed''"

definition SendSubmission :: "prepare \<Rightarrow> bool \<Rightarrow> bool \<Rightarrow> uuid \<Rightarrow> uuid \<Rightarrow> uuid \<Rightarrow> submission \<Rightarrow> db \<Rightarrow> (err + uuid) \<times> bool \<times> db" where
  "SendSubmission prepare locked launch w u c s d =
     (let mode = (if smExecMode s = [] then ''execute'' else smExecMode s) in
      if mode \<noteq> ''execute'' \<and> mode \<noteq> ''plan'' then (Inl (OtherErr ''invalid execution mode''), False, d)
      else (case permissionMode (smPermMode s) of
        None \<Rightarrow> (Inl (OtherErr ''invalid permission mode''), False, d)
      | Some perm \<Rightarrow>
       (let digest = submissionDigest (smContent s) (smAttachments s) (smContexts s) (smReferences s) mode perm in
        (case acceptedSubmission d w u c (smID s) digest of
           Inl e \<Rightarrow> (Inl e, False, d)
         | Inr (Some r) \<Rightarrow> (Inr r, False, d)
         | Inr None \<Rightarrow>
            if 8 < length (smContexts s) + length (smReferences s) then (Inl (OtherErr ''references''), False, d)
            else if trim_space (smContent s) = [] \<and> uniqueUUIDs [] (smAttachments s) = []
            then (Inl (OtherErr ''message is required''), False, d)
            else if owned_conversation d w c = None then (Inl (OtherErr ''conversation not found''), False, d)
            else if locked then (Inl ErrRunInProgress, False, d)
            else (case recoverInterruptedRuns c d of
               (Some e, d1) \<Rightarrow> (Inl e, False, d1)
             | (None, d1) \<Rightarrow>
                (case start_submission prepare w u c s digest mode perm d1 of
                   Inl e \<Rightarrow> (Inl e, False, d1)
                 | Inr (r, d2) \<Rightarrow>
                    if launch then (Inr r, True, d2)
                    else (case finishFailedRun r c shutdown_reason d2 of
                       Inl e \<Rightarrow> (Inl e, False, d2)
                     | Inr d3 \<Rightarrow> (Inr r, False, d3))))))))"

text \<open>\<open>dispatchInputQueue\<close>, under the lock as well.\<close>

definition queue_shutdown_reason :: string where
  "queue_shutdown_reason = ''Queued input was accepted, but execution was interrupted during API shutdown. Tools were not replayed.''"

definition dispatchInputQueue :: "bool \<Rightarrow> bool \<Rightarrow> bool \<Rightarrow> uuid \<Rightarrow> uuid \<Rightarrow> db \<Rightarrow> uuid option \<times> bool \<times> db" where
  "dispatchInputQueue locked stopping launch w c d =
     (if owned_conversation d w c = None \<or> locked then (None, False, d)
      else (case recoverInterruptedRuns c d of
          (Some e, d1) \<Rightarrow> (None, False, d1)
        | (None, d1) \<Rightarrow>
           if stopping then (None, False, d1)
           else (case claimQueuedInput w c d1 of
              Inl e \<Rightarrow> (None, False, d1)
            | Inr (None, d2) \<Rightarrow> (None, False, d2)
            | Inr (Some r, d2) \<Rightarrow>
               if launch then (Some r, True, d2)
               else (case finishFailedRun r c queue_shutdown_reason d2 of
                  Inl e \<Rightarrow> (None, False, d2)
                | Inr d3 \<Rightarrow> (None, False, d3)))))"

end
