(* ===== verification/Permissions.thy ===== *)
theory Permissions
  imports RunInputs
begin

text \<open>
  Operation approval, \<open>permissions.go\<close>, \<open>permission_modes.go\<close> and
  \<open>permission_reviews.go\<close> of \<open>backend/internal/conversation\<close>, with
  \<open>PlanReadOnlyTool\<close> of \<open>agenttool/interaction.go\<close> and \<open>authorizeRunTool\<close> of
  \<open>interactions.go\<close>.  A tool call asks with \<open>authorize_request\<close>, then polls: the loop of
  \<open>authorizePermission\<close> is the operation \<open>authorize_poll\<close>, repeated.  Users answer with
  \<open>respondPermission\<close>, the reviewer model with \<open>claimPermissionReview\<close> and
  \<open>finish_review\<close>.  \<open>jsonb\<close> is the text PostgreSQL gives back for stored arguments;
  the content of a review is whatever the model returns.
\<close>

section \<open>Policy\<close>

definition PlanReadOnlyTool :: "string \<Rightarrow> bool" where
  "PlanReadOnlyTool n = (n \<in> set [''read'', ''list_files'', ''load_skill'', ''read_conversation'', ''read_tool_result'',
     ''task_output'', ''ask_user_question'', ''propose_plan'', ''list_schedules'', ''list_app_connections'', ''read_app'',
     ''list_github_repositories'', ''github_prepare_publish''])"

definition permissionTool :: "string \<Rightarrow> string" where
  "permissionTool n =
     (if n = ''computer_exec'' then ''bash'' else if n = ''computer_read_file'' then ''read''
      else if n = ''computer_write_file'' then ''write'' else if n = ''computer_list_files'' then ''list_files'' else n)"

definition permissionDigest :: "string \<Rightarrow> string \<Rightarrow> string option" where
  "permissionDigest n args =
     map_option (\<lambda>v. sha256_hex (permissionTool n @ CHR 0x00 # render (go_any v))) (json_unmarshal args)"

definition sensitive_part :: "string \<Rightarrow> bool" where
  "sensitive_part p =
     (has_prefix p ''.env'' \<or> p = ''.ssh'' \<or> p = ''.aws'' \<or> p = ''.git'' \<or> contains p ''credential'' \<or>
      contains p ''secret'' \<or> has_suffix p ''.pem'' \<or> has_suffix p ''.key'')"

definition sensitive_path :: "string \<Rightarrow> bool" where
  "sensitive_path target = list_ex sensitive_part (split_char (CHR ''/'') (replace_char (CHR 0x5C) (CHR ''/'') target))"

text \<open>The path arguments and the command, if the arguments decode.\<close>

definition permission_target :: "unicode_tables \<Rightarrow> string \<Rightarrow> string option" where
  "permission_target u args =
     (case Option.bind (json_unmarshal args) struct_pairs of
        None \<Rightarrow> None
      | Some kvs \<Rightarrow>
          (case (str_field ''file_path'' kvs, str_field ''path'' kvs, str_field ''command'' kvs) of
             (Some f, Some p, Some _) \<Rightarrow>
               (let t = to_lower u (trim_space f) in Some (if t = [] then to_lower u (trim_space p) else t))
           | _ \<Rightarrow> None))"

definition unasked_tools :: "string list" where
  "unasked_tools = [''read'', ''list_files'', ''load_skill'', ''read_conversation'', ''tool_result'', ''task_output'',
     ''ask_user_question'', ''propose_plan'', ''enter_plan_mode'', ''list_schedules'', ''propose_schedule'',
     ''list_app_connections'', ''read_app'', ''list_github_repositories'', ''github_prepare_publish'']"

text \<open>Whether a permission is needed, and whether it may be given for the whole run.\<close>

definition needsPermission :: "unicode_tables \<Rightarrow> string \<Rightarrow> string \<Rightarrow> string \<Rightarrow> bool \<times> bool" where
  "needsPermission u mode n0 args =
     (let n = permissionTool n0 in
      if n = ''github_publish'' then (True, False)
      else if mode = ''full'' then (False, False)
      else (case permission_target u args of
          None \<Rightarrow> (True, False)
        | Some target \<Rightarrow>
            if sensitive_path target then (True, False)
            else if n \<in> set unasked_tools then (False, False)
            else if n = ''write'' \<or> n = ''edit'' \<or> n = ''github_checkout''
            then (mode \<noteq> ''auto'', n \<noteq> ''github_checkout'')
            else (True, False)))"

definition summary_keys :: "string list" where
  "summary_keys = [''file_path'', ''path'', ''command'', ''task_id'', ''description'', ''repository'', ''ref'',
     ''directory'', ''branch'', ''summary'', ''proposal_id'', ''digest'']"

definition text_value :: "json option \<Rightarrow> string option" where
  "text_value v = (case v of Some (JStr s) \<Rightarrow> Some s | Some JNull \<Rightarrow> Some [] | _ \<Rightarrow> None)"

definition permissionSummary :: "string \<Rightarrow> string \<Rightarrow> string" where
  "permissionSummary n args =
     (let input = (case json_unmarshal args of Some (JObj kvs) \<Rightarrow> kvs | _ \<Rightarrow> []) in
      render (JObj (go_map ([(''tool'', JStr n)]
        @ List.map_filter (\<lambda>k. map_option (\<lambda>s. (k, JStr s)) (text_value (mget input k))) summary_keys
        @ (case text_value (mget input ''content'') of None \<Rightarrow> []
           | Some s \<Rightarrow> [(''content_bytes'', JNum (show_nat (length s)))])))))"

definition authorizeRunTool :: "uuid \<Rightarrow> uuid \<Rightarrow> string \<Rightarrow> db \<Rightarrow> err + unit" where
  "authorizeRunTool c r n d =
     (case find_run d r c of
        None \<Rightarrow> Inl NoRows
      | Some x \<Rightarrow>
          if rnStatus x \<noteq> ''running'' then Inl ErrRunNotActive
          else if rnExecMode x = ''plan'' \<and> \<not> PlanReadOnlyTool n then Inl (OtherErr ''Plan mode blocks the tool'')
          else Inr ())"

section \<open>Asking\<close>

text \<open>The newest recorded call with this ID in the run.\<close>

definition recorded_call :: "db \<Rightarrow> uuid \<Rightarrow> uuid \<Rightarrow> string \<Rightarrow> tool_call option" where
  "recorded_call d c r i =
     (case rev (filter (\<lambda>k. callID k = i)
        (concat (map dmCalls (filter (\<lambda>m. dmConversation m = c \<and> dmRun m = Some r \<and> dmRole m = ''assistant'')
          (messages d))))) of [] \<Rightarrow> None | k # _ \<Rightarrow> Some k)"

definition run_grant :: "db \<Rightarrow> uuid \<Rightarrow> uuid \<Rightarrow> string list \<Rightarrow> int \<Rightarrow> bool" where
  "run_grant d c r tools revision =
     list_ex (\<lambda>p. pmRun p = r \<and> pmConversation p = c \<and> pmTool p \<in> set tools \<and> pmAllowRun p \<and>
       pmStatus p = ''approved'' \<and> pmDecision p = Some ''run'' \<and> pmRevision p = revision) (permissions d)"

definition find_permission :: "db \<Rightarrow> uuid \<Rightarrow> string \<Rightarrow> run_permission option" where
  "find_permission d r i = List.find (\<lambda>p. pmRun p = r \<and> pmCall p = i) (permissions d)"

definition permission_row :: "uuid \<Rightarrow> uuid \<Rightarrow> uuid \<Rightarrow> uuid \<Rightarrow> string \<Rightarrow> string \<Rightarrow> string \<Rightarrow> string \<Rightarrow> bool \<Rightarrow> int \<Rightarrow> string \<Rightarrow> run_permission" where
  "permission_row p w c r call n digest summary allowRun revision status =
     \<lparr>pmID = p, pmWorkspace = w, pmConversation = c, pmRun = r, pmCall = call, pmTool = n, pmDigest = digest,
      pmSummary = summary, pmAllowRun = allowRun, pmStatus = status, pmDecision = None, pmSource = ''user'',
      pmReviewDecision = None, pmReviewReason = [], pmReviewer = None, pmRevision = revision, pmToken = None,
      pmConsumed = False, pmRespondedBy = None\<rparr>"

text \<open>
  The transaction of \<open>authorizePermission\<close>: \<open>None\<close> where the call may run at once, else the
  permission to wait for with the digest of the call.
\<close>

definition authorize_request :: "unicode_tables \<Rightarrow> (string \<Rightarrow> string) \<Rightarrow> uuid \<Rightarrow> uuid \<Rightarrow> string \<Rightarrow> string \<Rightarrow> string \<Rightarrow>
    db \<Rightarrow> err + ((uuid \<times> string) option \<times> db)" where
  "authorize_request u jsonb c r call n0 args d =
     (let n = permissionTool n0 in
      (case find_run d r c of
         None \<Rightarrow> Inl NoRows
       | Some x \<Rightarrow>
          if rnStatus x \<noteq> ''running'' then Inl ErrRunNotActive
          else (case needsPermission u (rnPermMode x) n args of (needed, allowRun) \<Rightarrow>
            if \<not> needed then Inr (None, d)
            else (case (permissionDigest n args, find_conversation d c) of
              (Some digest, Some cv) \<Rightarrow>
               (case recorded_call d c r call of
                  None \<Rightarrow> Inl (OtherErr ''permission requires a durable tool call'')
                | Some k \<Rightarrow>
                   if permissionDigest (callName k) (jsonb (arguments k)) \<noteq> Some digest
                   then Inl (OtherErr ''permission parameters differ from recorded call'')
                   else if allowRun \<and> run_grant d c r (if n = ''write'' \<or> n = ''edit'' then [''write'', ''edit''] else [n])
                             (rnPermRevision x)
                   then Inr (None, d)
                   else (let status = (if rnPermMode x = ''auto'' \<and> n = ''bash'' then ''reviewing'' else ''pending'');
                             (fresh, d1) = new_id d;
                             d2 = (if find_permission d r call \<noteq> None then d1
                                   else d1\<lparr>permissions := permissions d1 @ [permission_row fresh (cvWorkspace cv) c r call n
                                          digest (permissionSummary n args) allowRun (rnPermRevision x) status]\<rparr>)
                     in (case find_permission d2 r call of
                        None \<Rightarrow> Inl NoRows
                      | Some p \<Rightarrow>
                          if pmDigest p \<noteq> digest then Inl ErrInteractionConflict
                          else if pmStatus p = ''pending''
                          then bindr (event_append r c ''PERMISSION_REQUESTED''
                                 [(''permission_id'', JStr (pmID p)), (''tool'', JStr n)] d2)
                                 (\<lambda>d3. Inr (Some (pmID p, digest), d3))
                          else Inr (Some (pmID p, digest), d2))))
              | _ \<Rightarrow> Inl (OtherErr ''invalid tool arguments'')))))"

definition permission_with_id :: "db \<Rightarrow> uuid \<Rightarrow> run_permission option" where
  "permission_with_id d p = List.find (\<lambda>x. pmID x = p) (permissions d)"

definition on_permission :: "uuid \<Rightarrow> (run_permission \<Rightarrow> run_permission) \<Rightarrow> db \<Rightarrow> db" where
  "on_permission p f = on_permissions (\<lambda>x. pmID x = p) f"

text \<open>The cleanup when a waiting call ends without a permission.\<close>

definition abandon_permission :: "uuid \<Rightarrow> db \<Rightarrow> db" where
  "abandon_permission p =
     on_permissions (\<lambda>x. pmID x = p \<and> (pmStatus x = ''pending'' \<or> pmStatus x = ''reviewing''))
       (\<lambda>x. x\<lparr>pmStatus := ''cancelled'', pmToken := None\<rparr>)"

section \<open>Using a permission\<close>

definition consumePermission :: "uuid \<Rightarrow> uuid \<Rightarrow> uuid \<Rightarrow> string \<Rightarrow> db \<Rightarrow> err + (bool \<times> db)" where
  "consumePermission c r p digest d =
     (case find_run d r c of
        None \<Rightarrow> Inl NoRows
      | Some x \<Rightarrow>
          if rnStatus x \<noteq> ''running'' then Inl ErrRunNotActive
          else (case List.find (\<lambda>q. pmID q = p \<and> pmRun q = r) (permissions d) of
             None \<Rightarrow> Inl NoRows
           | Some q \<Rightarrow>
              if pmDigest q \<noteq> digest \<or> pmRevision q \<noteq> rnPermRevision x then Inl ErrInteractionConflict
              else if pmStatus q \<noteq> ''approved'' then Inr (False, d)
              else if pmTool q = ''github_publish'' \<and> (pmSource q \<noteq> ''user'' \<or> pmDecision q \<noteq> Some ''once'')
              then Inl ErrInteractionConflict
              else if pmConsumed q then Inl (OtherErr ''permission was already consumed; do not replay this operation'')
              else if rnExecMode x = ''plan'' \<and> \<not> PlanReadOnlyTool (pmTool q) then Inl ErrInteractionConflict
              else Inr (True, on_permission p (\<lambda>y. y\<lparr>pmConsumed := True\<rparr>) d)))"

datatype poll = PollGranted | PollWait | PollReview

text \<open>One pass of the loop: \<open>PollReview\<close> says that a review is due.\<close>

definition authorize_poll :: "uuid \<Rightarrow> uuid \<Rightarrow> string \<Rightarrow> uuid \<Rightarrow> string \<Rightarrow> db \<Rightarrow> err + (poll \<times> db)" where
  "authorize_poll c r n p digest d =
     (case permission_with_id d p of
        None \<Rightarrow> Inl NoRows
      | Some q \<Rightarrow>
         (case find_run d (pmRun q) c of
            None \<Rightarrow> Inl NoRows
          | Some x \<Rightarrow>
             if rnStatus x \<noteq> ''running'' then Inl ErrRunNotActive
             else if pmStatus q = ''approved'' then
               bindr (authorizeRunTool c r n d) (\<lambda>_.
               bindr (consumePermission c r p digest d) (\<lambda>(ok, d').
                 Inr (if ok then PollGranted else PollWait, d')))
             else if pmStatus q \<noteq> ''pending'' \<and> pmStatus q \<noteq> ''reviewing''
             then Inl (OtherErr ''operation was not authorized'')
             else if rnPermMode x = ''auto'' \<and> n = ''bash'' \<and> pmReviewDecision q = None then Inr (PollReview, d)
             else Inr (PollWait, d)))"

section \<open>Changing the mode\<close>

definition mode_change :: "uuid \<Rightarrow> string \<Rightarrow> int \<Rightarrow> run_permission \<Rightarrow> run_permission" where
  "mode_change actor mode revision p =
     (let auto_edit = (mode = ''auto'' \<and> (pmTool p = ''write'' \<or> pmTool p = ''edit'') \<and> pmAllowRun p) in
      p\<lparr>pmStatus := (if pmTool p = ''github_publish'' then ''pending'' else if auto_edit then ''approved''
                     else if mode = ''auto'' \<and> pmTool p = ''bash'' then ''reviewing''
                     else if mode = ''full'' then ''approved'' else ''pending''),
        pmDecision := (if pmTool p = ''github_publish'' then None else if auto_edit then Some ''once''
                       else if mode = ''full'' then Some ''full'' else None),
        pmSource := ''mode'', pmRespondedBy := Some actor, pmRevision := revision, pmToken := None,
        pmReviewDecision := None, pmReviewReason := [], pmReviewer := None\<rparr>)"

definition undecided :: "uuid \<Rightarrow> run_permission \<Rightarrow> bool" where
  "undecided r p = (pmRun p = r \<and>
     (pmStatus p = ''pending'' \<or> pmStatus p = ''reviewing'' \<or> (pmStatus p = ''approved'' \<and> \<not> pmConsumed p)))"

definition setRunPermissionModeTx :: "uuid \<Rightarrow> uuid \<Rightarrow> string \<Rightarrow> int \<Rightarrow> db \<Rightarrow> db" where
  "setRunPermissionModeTx r actor mode revision d =
     on_permissions (undecided r) (mode_change actor mode revision)
       (on_runs (\<lambda>x. rnID x = r) (\<lambda>x. x\<lparr>rnPermMode := mode, rnPermRevision := revision\<rparr>) d)"

definition mode_event :: "string \<Rightarrow> int \<Rightarrow> uuid \<Rightarrow> gomap" where
  "mode_event mode revision actor =
     [(''permission_mode'', JStr mode), (''revision'', JNum (show_int revision)), (''changed_by'', JStr actor)]"

definition changeRunPermissionMode :: "uuid \<Rightarrow> uuid \<Rightarrow> uuid \<Rightarrow> uuid \<Rightarrow> string \<Rightarrow> int \<Rightarrow> db \<Rightarrow> err + (int \<times> db)" where
  "changeRunPermissionMode w actor c r mode expected d =
     (if permissionMode mode = None \<or> mode = [] then Inl (OtherErr ''invalid permission mode'')
      else if owned_conversation d w c = None \<or> \<not> member_enabled d w actor then Inl ErrInteractionNotFound
      else (case find_run d r c of
          None \<Rightarrow> Inl ErrInteractionNotFound
        | Some x \<Rightarrow>
            if rnStatus x \<noteq> ''running'' \<or> rnPermRevision x \<noteq> expected then Inl ErrInteractionConflict
            else if rnPermMode x = mode then Inr (rnPermRevision x, d)
            else bindr (event_append r c ''PERMISSION_MODE_CHANGED'' (mode_event mode (rnPermRevision x + 1) actor)
                   (setRunPermissionModeTx r actor mode (rnPermRevision x + 1) d))
                 (\<lambda>d'. Inr (rnPermRevision x + 1, d'))))"

section \<open>A user's answer\<close>

definition own_verified :: "db \<Rightarrow> uuid \<Rightarrow> uuid \<Rightarrow> run \<Rightarrow> bool" where
  "own_verified d w u x =
     (rnSubmittedBy x = Some u \<and> (w, u) \<in> set (members d) \<and>
      list_ex (\<lambda>y. usID y = u \<and> \<not> usDisabled y \<and> (\<not> usMustVerify y \<or> usVerified y)) (users d))"

definition answer_permission :: "uuid \<Rightarrow> string \<Rightarrow> string \<Rightarrow> uuid \<Rightarrow> db \<Rightarrow> db" where
  "answer_permission p target decision u =
     on_permission p (\<lambda>x. x\<lparr>pmStatus := target, pmDecision := Some decision, pmSource := ''user'', pmRespondedBy := Some u\<rparr>)"

definition respondPermission :: "uuid \<Rightarrow> uuid \<Rightarrow> uuid \<Rightarrow> uuid \<Rightarrow> string \<Rightarrow> string \<Rightarrow> db \<Rightarrow> err + db" where
  "respondPermission w u c p digest decision d =
     (if decision \<notin> set [''once'', ''run'', ''reject'', ''full''] then Inl (OtherErr ''invalid permission decision'')
      else if owned_conversation d w c = None \<or> \<not> member_enabled d w u then Inl ErrInteractionNotFound
      else (case List.find (\<lambda>q. pmID q = p \<and> pmWorkspace q = w \<and> pmConversation q = c) (permissions d) of
          None \<Rightarrow> Inl ErrInteractionNotFound
        | Some q \<Rightarrow>
          (case run_with_id d (pmRun q) of
             None \<Rightarrow> Inl NoRows
           | Some x \<Rightarrow>
              if pmTool q = ''github_publish'' \<and> \<not> own_verified d w u x then Inl ErrInteractionNotFound
              else if pmTool q = ''github_publish'' \<and> decision \<noteq> ''once'' \<and> decision \<noteq> ''reject'' then Inl ErrInteractionConflict
              else if digest \<noteq> pmDigest q \<or> (decision = ''run'' \<and> \<not> pmAllowRun q) then Inl ErrInteractionConflict
              else (let target = (if decision = ''reject'' then ''rejected'' else ''approved'') in
                if pmStatus q \<noteq> ''pending'' then
                  (if pmStatus q = target \<and> pmDecision q = Some decision then Inr d else Inl ErrInteractionConflict)
                else if rnStatus x \<noteq> ''running'' \<or> (rnExecMode x = ''plan'' \<and> \<not> PlanReadOnlyTool (pmTool q))
                then Inl ErrInteractionConflict
                else (let revision = (if decision = ''full'' then rnPermRevision x + 1 else rnPermRevision x);
                          d1 = (if decision = ''full'' then setRunPermissionModeTx (rnID x) u ''full'' revision d else d);
                          d2 = answer_permission p target decision u d1 in
                  bindr (if decision = ''full''
                         then event_append (rnID x) c ''PERMISSION_MODE_CHANGED'' (mode_event ''full'' revision u) d2 else Inr d2)
                    (\<lambda>d3. event_append (rnID x) c ''PERMISSION_RESPONDED''
                             [(''permission_id'', JStr p), (''status'', JStr target)] d3))))))"

section \<open>The reviewer model\<close>

record command_review =
  rvDecision :: string
  rvReason :: string
  rvDigest :: string

text \<open>The whole response must be one object with the three fields, each once.\<close>

definition parseCommandReview :: "string option \<Rightarrow> bool \<Rightarrow> string \<Rightarrow> command_review option" where
  "parseCommandReview response hasToolCalls digest =
     (case response of None \<Rightarrow> None | Some s \<Rightarrow>
      if hasToolCalls \<or> 4096 < length s \<or> \<not> utf8_valid s then None
      else (case json_unmarshal s of
        Some (JObj kvs) \<Rightarrow>
          (if \<not> distinct (map fst kvs) \<or> \<not> set (map fst kvs) \<subseteq> {''decision'', ''reason'', ''request_digest''} \<or>
              length kvs \<noteq> 3
           then None
           else (case (text_value (mget kvs ''decision''), text_value (mget kvs ''reason''), text_value (mget kvs ''request_digest'')) of
              (Some dec, Some reason, Some dig) \<Rightarrow>
                if dig \<noteq> digest \<or> trim_space reason = [] \<or> 300 < rune_count reason \<or>
                   dec \<notin> set [''allow'', ''deny'', ''ask_user''] then None
                else Some \<lparr>rvDecision = dec, rvReason = reason, rvDigest = dig\<rparr>
            | _ \<Rightarrow> None))
      | _ \<Rightarrow> None))"

definition claimable :: "uuid \<Rightarrow> uuid \<Rightarrow> int \<Rightarrow> run_permission \<Rightarrow> bool" where
  "claimable p r revision x =
     (pmID x = p \<and> pmRun x = r \<and> pmTool x = ''bash'' \<and> pmRevision x = revision \<and> pmReviewDecision x = None \<and>
      pmToken x = None \<and> (pmStatus x = ''pending'' \<or> pmStatus x = ''reviewing''))"

text \<open>\<open>Some token\<close> when this caller claimed the review.\<close>

definition claimPermissionReview :: "uuid \<Rightarrow> uuid \<Rightarrow> uuid \<Rightarrow> db \<Rightarrow> err + (uuid option \<times> int \<times> db)" where
  "claimPermissionReview c r p d =
     (case find_run d r c of
        None \<Rightarrow> Inl NoRows
      | Some x \<Rightarrow>
          if rnPermMode x \<noteq> ''auto'' \<or> rnStatus x \<noteq> ''running'' then Inr (None, rnPermRevision x, d)
          else (let (token, d1) = new_id d in
            if \<not> list_ex (claimable p r (rnPermRevision x)) (permissions d1) then Inr (None, rnPermRevision x, d1)
            else bindr (event_append r c ''PERMISSION_REVIEW_STARTED'' [(''permission_id'', JStr p)]
                   (on_permissions (claimable p r (rnPermRevision x))
                     (\<lambda>y. y\<lparr>pmStatus := ''reviewing'', pmToken := Some token\<rparr>) d1))
                 (\<lambda>d2. Inr (Some token, rnPermRevision x, d2))))"

definition under_review :: "uuid \<Rightarrow> uuid \<Rightarrow> uuid \<Rightarrow> int \<Rightarrow> string \<Rightarrow> run_permission \<Rightarrow> bool" where
  "under_review p r token revision digest x =
     (pmID x = p \<and> pmRun x = r \<and> pmStatus x = ''reviewing'' \<and> pmToken x = Some token \<and>
      pmRevision x = revision \<and> pmDigest x = digest)"

definition review_status :: "string \<Rightarrow> string" where
  "review_status dec = (if dec = ''allow'' then ''approved'' else if dec = ''deny'' then ''rejected'' else ''pending'')"

definition review_receipt :: "string \<Rightarrow> string option" where
  "review_receipt dec = (if dec = ''allow'' then Some ''once'' else if dec = ''deny'' then Some ''reject'' else None)"

text \<open>The transaction at the end of \<open>reviewPermission\<close>.\<close>

definition finish_review :: "uuid \<Rightarrow> uuid \<Rightarrow> uuid \<Rightarrow> uuid \<Rightarrow> int \<Rightarrow> string \<Rightarrow> command_review \<Rightarrow> uuid option \<Rightarrow> db \<Rightarrow> err + db" where
  "finish_review c r p token revision digest review reviewer d =
     (case find_run d r c of
        None \<Rightarrow> Inl NoRows
      | Some x \<Rightarrow>
          if rnPermMode x \<noteq> ''auto'' \<or> rnStatus x \<noteq> ''running'' \<or> rnPermRevision x \<noteq> revision then Inr d
          else if \<not> list_ex (under_review p r token revision digest) (permissions d) then Inr d
          else (let dec = rvDecision review;
                    d1 = on_permissions (under_review p r token revision digest)
                      (\<lambda>y. y\<lparr>pmStatus := review_status dec, pmDecision := review_receipt dec, pmSource := ''llm'',
                             pmReviewDecision := Some dec, pmReviewReason := rvReason review, pmReviewer := reviewer,
                             pmToken := None\<rparr>) d in
            bindr (event_append r c ''PERMISSION_REVIEW_COMPLETED''
                     [(''permission_id'', JStr p), (''decision'', JStr dec), (''reviewer_model_deployment_id'', uuid_json reviewer)] d1)
              (\<lambda>d2. if review_status dec = ''pending''
                     then event_append r c ''PERMISSION_REQUESTED'' [(''permission_id'', JStr p), (''tool'', JStr ''bash'')] d2
                     else Inr d2)))"

text \<open>\<open>generatePermissionReview\<close> records the reviewer before it is asked.\<close>

definition note_reviewer :: "uuid \<Rightarrow> uuid \<Rightarrow> uuid \<Rightarrow> db \<Rightarrow> db" where
  "note_reviewer p token reviewer =
     on_permissions (\<lambda>x. pmID x = p \<and> pmToken x = Some token \<and> pmStatus x = ''reviewing'')
       (\<lambda>x. x\<lparr>pmReviewer := Some reviewer\<rparr>)"

section \<open>Listing\<close>

text \<open>An open permission of a run that has ended is shown as cancelled.\<close>

definition shown_status :: "db \<Rightarrow> run_permission \<Rightarrow> string" where
  "shown_status d p =
     (if (pmStatus p = ''pending'' \<or> pmStatus p = ''reviewing'') \<and>
         (case run_with_id d (pmRun p) of None \<Rightarrow> False | Some x \<Rightarrow> rnStatus x \<noteq> ''running'')
      then ''cancelled'' else pmStatus p)"

definition runPermissions :: "uuid \<Rightarrow> uuid \<Rightarrow> db \<Rightarrow> err + (uuid \<times> string) list" where
  "runPermissions w c d =
     (if owned_conversation d w c = None then Inl ErrInteractionNotFound
      else Inr (map (\<lambda>p. (pmID p, shown_status d p))
        (take 30 (rev (filter (\<lambda>p. pmWorkspace p = w \<and> pmConversation p = c) (permissions d))))))"

end
