(* ===== verification/Interactions.thy ===== *)
theory Interactions
  imports Permissions
begin

text \<open>
  Questions, plans and schedule proposals of a run, \<open>interactions.go\<close> of
  \<open>backend/internal/conversation\<close>.  A stored request is the record it was printed from; the
  text PostgreSQL keeps decodes to it again.  The schedule service is the record
  \<open>schedule_service\<close>: its tables are not part of the database here, so applying a schedule
  is a decision.
\<close>

record schedule_service =
  codec :: schedule_codec
  available :: bool
  prepareSchedule :: "db \<Rightarrow> uuid \<Rightarrow> uuid \<Rightarrow> json \<Rightarrow> json option"
  applySchedule :: "db \<Rightarrow> uuid \<Rightarrow> uuid \<Rightarrow> uuid \<Rightarrow> json option \<Rightarrow> bool"

definition interaction_digest :: "interaction_request \<Rightarrow> string" where
  "interaction_digest r = sha256_hex (render (interaction_json r))"

definition interaction_tool_of :: "string \<Rightarrow> string" where
  "interaction_tool_of k =
     (if k = ''plan'' then ''propose_plan'' else if k = ''automation'' then ''propose_schedule'' else ''ask_user_question'')"

definition recorded_tool_call :: "db \<Rightarrow> uuid \<Rightarrow> uuid \<Rightarrow> string \<Rightarrow> string \<Rightarrow> tool_call option" where
  "recorded_tool_call d c r i n =
     (case rev (filter (\<lambda>k. callID k = i \<and> callName k = n)
        (concat (map dmCalls (filter (\<lambda>m. dmConversation m = c \<and> dmRun m = Some r \<and> dmRole m = ''assistant'')
          (messages d))))) of [] \<Rightarrow> None | k # _ \<Rightarrow> Some k)"

text \<open>The request a durable call stands for.\<close>

definition recorded_request :: "schedule_codec \<Rightarrow> string \<Rightarrow> string \<Rightarrow> interaction_request option" where
  "recorded_request sc kind args =
     (if kind = ''automation'' then
        map_option (\<lambda>s. \<lparr>irKind = kind, irQuestions = [], irTitle = [], irSteps = [], irSchedule = Some s, irPreview = None\<rparr>)
          (Option.bind (json_unmarshal args) (scheduleOf sc))
      else map_option (\<lambda>q. q\<lparr>irKind := kind\<rparr>) (decode_interaction sc args))"

definition interaction_row :: "uuid \<Rightarrow> uuid \<Rightarrow> uuid \<Rightarrow> uuid \<Rightarrow> string \<Rightarrow> interaction_request \<Rightarrow> run_interaction" where
  "interaction_row i w c r call q =
     \<lparr>itID = i, itWorkspace = w, itConversation = c, itRun = r, itCall = call, itKind = irKind q, itRequest = q,
      itDigest = interaction_digest q, itStatus = ''pending'', itResponse = None, itRespondedBy = None\<rparr>"

definition insert_interaction :: "uuid \<Rightarrow> uuid \<Rightarrow> uuid \<Rightarrow> string \<Rightarrow> interaction_request \<Rightarrow> db \<Rightarrow> err + (run_interaction \<times> db)" where
  "insert_interaction w c r call q d =
     (if list_ex (\<lambda>x. itRun x = r \<and> itStatus x = ''pending'') (interactions d) then Inl UniqueViolation
      else (let (i, d1) = new_id d; row = interaction_row i w c r call q in
        bindr (event_append r c ''INTERACTION_REQUESTED''
                 [(''interaction_id'', JStr i), (''kind'', JStr (irKind q)), (''request_digest'', JStr (itDigest row))]
                 (d1\<lparr>interactions := interactions d1 @ [row]\<rparr>))
          (\<lambda>d2. Inr (row, d2))))"

definition createRunInteraction :: "schedule_service \<Rightarrow> (string \<Rightarrow> string) \<Rightarrow> uuid \<Rightarrow> uuid \<Rightarrow> string \<Rightarrow> interaction_request \<Rightarrow>
    db \<Rightarrow> err + (run_interaction \<times> db)" where
  "createRunInteraction sv jsonb c r call q d =
     (if \<not> Validate (codec sv) q then Inl (OtherErr ''invalid interaction'')
      else if call = [] then Inl (OtherErr ''missing trusted interaction tool call'')
      else (case (find_conversation d c, find_run d r c) of
        (Some cv, Some x) \<Rightarrow>
          if rnStatus x \<noteq> ''running'' then Inl ErrRunNotActive
          else if irKind q = ''automation'' \<and> rnExecMode x \<noteq> ''execute'' then Inl (OtherErr ''Plan mode blocks schedule proposals'')
          else if irKind q = ''plan'' \<and> rnExecMode x \<noteq> ''plan''
          then Inl (OtherErr ''normal execution is already authorized; do not request redundant Plan approval'')
          else (case recorded_tool_call d c r call (interaction_tool_of (irKind q)) of
             None \<Rightarrow> Inl (OtherErr ''interaction must originate from a durable tool call'')
           | Some k \<Rightarrow>
              (case recorded_request (codec sv) (irKind q) (jsonb (arguments k)) of
                 None \<Rightarrow> Inl (OtherErr ''invalid stored interaction arguments'')
               | Some rec \<Rightarrow>
                  if irPreview q \<noteq> None \<or> render (interaction_json rec) \<noteq> render (interaction_json q)
                  then Inl (OtherErr ''interaction parameters differ from the durable tool call'')
                  else (case List.find (\<lambda>y. itRun y = r \<and> itCall y = call) (interactions d) of
                     Some old \<Rightarrow>
                       if render (interaction_json ((itRequest old)\<lparr>irPreview := None\<rparr>)) \<noteq> render (interaction_json q)
                       then Inl ErrInteractionConflict else Inr (old, d)
                   | None \<Rightarrow>
                       if irKind q = ''automation'' then
                         (if \<not> available sv then Inl (OtherErr ''schedule service unavailable'')
                          else (case Option.bind (irSchedule q) (prepareSchedule sv d c r) of
                             None \<Rightarrow> Inl (OtherErr ''schedule preview unavailable'')
                           | Some preview \<Rightarrow>
                              (let q' = q\<lparr>irPreview := Some preview\<rparr> in
                               if \<not> Validate (codec sv) q' then Inl (OtherErr ''invalid interaction'')
                               else insert_interaction (cvWorkspace cv) c r call q' d)))
                       else insert_interaction (cvWorkspace cv) c r call q d)))
      | _ \<Rightarrow> Inl NoRows))"

text \<open>
  \<open>RespondRunInteraction\<close>.  A repeated answer is compared with the stored one by its
  printed form, which decoding and printing again does not change.
\<close>

definition RespondRunInteraction :: "schedule_service \<Rightarrow> uuid \<Rightarrow> uuid \<Rightarrow> uuid \<Rightarrow> uuid \<Rightarrow> interaction_response \<Rightarrow> db \<Rightarrow> err + db" where
  "RespondRunInteraction sv w u c i s d =
     (if \<not> member_enabled d w u \<or> owned_conversation d w c = None then Inl ErrInteractionNotFound
      else (case List.find (\<lambda>y. itID y = i \<and> itConversation y = c \<and> itWorkspace y = w) (interactions d) of
          None \<Rightarrow> Inl ErrInteractionNotFound
        | Some y \<Rightarrow>
         (case find_run d (itRun y) c of
            None \<Rightarrow> Inl NoRows
          | Some x \<Rightarrow>
             if rsDigest s \<noteq> itDigest y then Inl ErrInteractionConflict
             else (case interactionResponseStatus (itRequest y) s of
                None \<Rightarrow> Inl (OtherErr ''invalid response'')
              | Some status \<Rightarrow>
                 (let raw = render (response_json s) in
                  if itKind y = ''automation'' \<and> rnSubmittedBy x = None then Inl NoRows
                  else if itKind y = ''automation'' \<and> rnSubmittedBy x \<noteq> Some u then Inl ErrInteractionNotFound
                  else if itStatus y \<noteq> ''pending'' then
                    (if itStatus y = status \<and> itResponse y = Some raw then Inr d else Inl ErrInteractionConflict)
                  else if rnStatus x \<noteq> ''running'' \<or> (itKind y = ''plan'' \<and> rnExecMode x \<noteq> ''plan'') \<or>
                     (itKind y = ''automation'' \<and> rnExecMode x \<noteq> ''execute'' \<and> status = ''approved'')
                  then Inl ErrInteractionConflict
                  else if itKind y = ''automation'' \<and> status = ''approved'' \<and> \<not> available sv
                  then Inl (OtherErr ''schedule service unavailable'')
                  else if itKind y = ''automation'' \<and> status = ''approved'' \<and>
                     \<not> applySchedule sv d c (itRun y) u (irPreview (itRequest y))
                  then Inl ErrInteractionConflict
                  else (let d1 = (if status = ''approved'' \<and> itKind y = ''plan''
                               then on_runs (\<lambda>z. rnID z = itRun y \<and> rnStatus z = ''running'' \<and> rnExecMode z = ''plan'')
                                      (\<lambda>z. z\<lparr>rnExecMode := ''execute'', rnApprovedPlan := Some (itDigest y)\<rparr>) d
                               else d) in
                    event_append (itRun y) c ''INTERACTION_RESPONDED''
                      [(''interaction_id'', JStr i), (''kind'', JStr (itKind y)), (''status'', JStr status),
                       (''request_digest'', JStr (itDigest y))]
                      (on_interactions (\<lambda>z. itID z = i)
                        (\<lambda>z. z\<lparr>itStatus := status, itResponse := Some raw, itRespondedBy := Some u\<rparr>) d1)))))))"

section \<open>Plan mode\<close>

definition recorded_reason :: "string \<Rightarrow> string option" where
  "recorded_reason args =
     (case json_unmarshal args of
        Some (JObj kvs) \<Rightarrow> (case mget kvs ''reason'' of Some (JStr s) \<Rightarrow> Some s | _ \<Rightarrow> None)
      | _ \<Rightarrow> None)"

definition plan_change_applied :: "db \<Rightarrow> uuid \<Rightarrow> string \<Rightarrow> bool" where
  "plan_change_applied d r call =
     list_ex (\<lambda>e. evRun e = r \<and> evType e = ''EXECUTION_MODE_CHANGED'' \<and>
       mget (evPayload e) ''tool_call_id'' = Some (JStr call)) (events d)"

text \<open>The execution mode afterwards; a call enters plan mode once.\<close>

definition enterRunPlanMode :: "(string \<Rightarrow> string) \<Rightarrow> uuid \<Rightarrow> uuid \<Rightarrow> string \<Rightarrow> string \<Rightarrow> db \<Rightarrow> err + (string \<times> db)" where
  "enterRunPlanMode jsonb c r call reason d =
     (if find_conversation d c = None then Inl NoRows
      else (case find_run d r c of
          None \<Rightarrow> Inl NoRows
        | Some x \<Rightarrow>
            if rnStatus x \<noteq> ''running'' then Inl ErrRunNotActive
            else if call = [] then Inl (OtherErr ''missing trusted planning call'')
            else (case recorded_tool_call d c r call ''enter_plan_mode'' of
               None \<Rightarrow> Inl (OtherErr ''planning must originate from the exact durable tool call'')
             | Some k \<Rightarrow>
                if recorded_reason (jsonb (arguments k)) \<noteq> Some reason
                then Inl (OtherErr ''planning must originate from the exact durable tool call'')
                else if plan_change_applied d r call then Inr (rnExecMode x, d)
                else bindr (event_append r c ''EXECUTION_MODE_CHANGED''
                       [(''execution_mode'', JStr ''plan''), (''reason'', JStr reason), (''tool_call_id'', JStr call)]
                       (on_runs (\<lambda>z. rnID z = r) (\<lambda>z. z\<lparr>rnExecMode := ''plan'', rnApprovedPlan := None\<rparr>) d))
                     (\<lambda>d'. Inr (''plan'', d')))))"

text \<open>The tools the model is offered; \<open>list_files\<close> is added in plan mode.\<close>

definition modelToolsForMode :: "tool \<Rightarrow> tool list \<Rightarrow> string \<Rightarrow> tool list" where
  "modelToolsForMode listFiles ts mode =
     (let kept = filter (\<lambda>t. if mode = ''plan'' then PlanReadOnlyTool (toolName t) else toolName t \<noteq> ''propose_plan'') ts
      in if mode = ''plan'' \<and> \<not> list_ex (\<lambda>t. toolName t = ''list_files'') kept then kept @ [listFiles] else kept)"

end
