(* ===== verification/Tables.thy ===== *)
theory Tables
  imports Prelude
begin

text \<open>
  How a table changes over time.  \<open>evolves R N xs ys\<close>: the old rows are kept in place, each
  related to its new value by \<open>R\<close>, and every row added satisfies \<open>N\<close>.  The locale
  \<open>row_history\<close> is the interface of a table whose rows follow such a law; the components
  interpret it on their own rows and inherit the facts about updates, inserts and counts.
\<close>

definition evolves :: "('a \<Rightarrow> 'a \<Rightarrow> bool) \<Rightarrow> ('a \<Rightarrow> bool) \<Rightarrow> 'a list \<Rightarrow> 'a list \<Rightarrow> bool" where
  "evolves R N xs ys = (\<exists>us vs. ys = us @ vs \<and> list_all2 R xs us \<and> list_all N vs)"

lemma filter_all2_le:
  "list_all2 R xs us \<Longrightarrow> (\<And>x y. R x y \<Longrightarrow> Q y \<Longrightarrow> P x) \<Longrightarrow> length (filter Q us) \<le> length (filter P xs)"
  by (induction xs us rule: list_all2_induct) (auto intro: le_SucI)

lemma map_all2_key: "list_all2 R xs us \<Longrightarrow> (\<And>x y. R x y \<Longrightarrow> k y = k x) \<Longrightarrow> map k us = map k xs"
  by (induction xs us rule: list_all2_induct) auto

lemma list_all2_update_where:
  "(\<And>x. R x x) \<Longrightarrow> (\<And>x. x \<in> set xs \<Longrightarrow> P x \<Longrightarrow> R x (f x)) \<Longrightarrow> list_all2 R xs (update_where P f xs)"
  by (induction xs) auto

lemma update_where_none: "(\<And>x. x \<in> set xs \<Longrightarrow> \<not> P x) \<Longrightarrow> update_where P f xs = xs"
  by (induction xs) auto

lemma all2_back: "list_all2 R xs us \<Longrightarrow> y \<in> set us \<Longrightarrow> \<exists>x \<in> set xs. R x y"
  by (induction xs us rule: list_all2_induct) auto

locale row_history =
  fixes R :: "'a \<Rightarrow> 'a \<Rightarrow> bool" and N :: "'a \<Rightarrow> bool"
  assumes row_refl: "R x x"
    and row_trans: "R x y \<Longrightarrow> R y z \<Longrightarrow> R x z"
    and row_new: "N x \<Longrightarrow> R x y \<Longrightarrow> N y"
begin

lemma same: "evolves R N xs xs"
  unfolding evolves_def
  by (rule exI[of _ xs], rule exI[of _ "[]"]) (auto simp: list.rel_refl row_refl)

lemma seq:
  assumes "evolves R N xs ys" "evolves R N ys zs"
  shows "evolves R N xs zs"
proof -
  obtain us vs where 1: "ys = us @ vs" "list_all2 R xs us" "list_all N vs"
    using assms(1) by (auto simp: evolves_def)
  obtain us' vs' where 2: "zs = us' @ vs'" "list_all2 R ys us'" "list_all N vs'"
    using assms(2) by (auto simp: evolves_def)
  obtain ua ub where 3: "us' = ua @ ub" "list_all2 R us ua" "list_all2 R vs ub"
    using 2(2) by (auto simp: 1(1) list_all2_append1)
  have xa: "list_all2 R xs ua" using 1(2) 3(2) row_trans by (rule list_all2_trans[rotated]) auto
  have "list_all N ub" using 3(3) 1(3) by (induction vs ub rule: list_all2_induct) (auto intro: row_new)
  with 2(3) have nb: "list_all N (ub @ vs')" by simp
  show ?thesis unfolding evolves_def
    by (rule exI[of _ ua], rule exI[of _ "ub @ vs'"]) (use 2(1) 3(1) xa nb in simp)
qed

lemma update: "(\<And>x. x \<in> set xs \<Longrightarrow> P x \<Longrightarrow> R x (f x)) \<Longrightarrow> evolves R N xs (update_where P f xs)"
  unfolding evolves_def
  by (rule exI[of _ "update_where P f xs"], rule exI[of _ "[]"]) (auto intro: list_all2_update_where row_refl)

lemma add: "N v \<Longrightarrow> evolves R N xs (xs @ [v])"
  unfolding evolves_def by (rule exI[of _ xs], rule exI[of _ "[v]"]) (auto simp: list.rel_refl row_refl)

lemma old_row: "evolves R N xs ys \<Longrightarrow> x \<in> set xs \<Longrightarrow> \<exists>y \<in> set ys. R x y"
  by (auto simp: evolves_def list_all2_conv_all_nth in_set_conv_nth) fastforce

lemma new_row: "evolves R N xs ys \<Longrightarrow> y \<in> set ys \<Longrightarrow> (\<exists>x \<in> set xs. R x y) \<or> N y"
  by (auto simp: evolves_def list_all_iff dest: all2_back)

lemma no_more_rows: "evolves R N xs ys \<Longrightarrow> length xs \<le> length ys"
  by (auto simp: evolves_def dest: list_all2_lengthD)

lemma same_rows:
  assumes "evolves R N xs ys" "length ys = length xs"
  shows "list_all2 R xs ys"
proof -
  obtain us vs where e: "ys = us @ vs" "list_all2 R xs us" using assms(1) by (auto simp: evolves_def)
  then have "vs = []" using assms(2) by (auto dest: list_all2_lengthD)
  with e show ?thesis by simp
qed

text \<open>What no row acquires, the table does not gain.\<close>

lemma counted:
  assumes "evolves R N xs ys" "\<And>x y. R x y \<Longrightarrow> Q y \<Longrightarrow> Q x" "length ys = length xs"
  shows "length (filter Q ys) \<le> length (filter Q xs)"
  using filter_all2_le[OF same_rows[OF assms(1,3)], of Q Q] assms(2) by simp

end

text \<open>Rows with a unique key.\<close>

lemma distinct_key: "distinct (map k xs) \<Longrightarrow> x \<in> set xs \<Longrightarrow> y \<in> set xs \<Longrightarrow> k x = k y \<Longrightarrow> x = y"
  by (auto simp: distinct_map inj_on_def)

lemma find_key:
  assumes "distinct (map k xs)" "List.find P xs = Some x" "y \<in> set xs" "k y = k x"
  shows "y = x"
  using distinct_key[OF assms(1,3)] find_Some_in[OF assms(2)] assms(4) by blast

end
