(* ===== verification/ConvInvariant.thy ===== *)
theory ConvInvariant
  imports Interactions Tables
begin

text \<open>
  What holds of the conversation database in every reachable state, and how its rows may
  change.  Each table has a row law (\<open>run_ev\<close>, \<open>permission_ev\<close>, \<open>input_ev\<close>,
  \<open>interaction_ev\<close>) that says which columns never change, which states are final and that
  the row stays well formed; the locale \<open>row_history\<close> is interpreted on each.  \<open>good d d'\<close>
  is the law of all tables together, \<open>inv\<close> the invariant of the database, \<open>quiet\<close> a
  \<open>good\<close> change that starts no run.  Every write of \<open>ConvStore\<close> is shown to be quiet under
  the condition that the operations establish.
\<close>

section \<open>Row laws\<close>

definition status_le :: "string \<Rightarrow> string \<Rightarrow> bool" where
  "status_le s t = (s = t \<or> s = ''running'' \<or> (s = ''cancelling'' \<and> t = ''cancelled''))"

definition run_ok :: "run \<Rightarrow> bool" where
  "run_ok x = ((active_status (rnStatus x) \<or> terminal_status (rnStatus x)) \<and>
     rnFinished x = terminal_status (rnStatus x))"

definition run_ev :: "run \<Rightarrow> run \<Rightarrow> bool" where
  "run_ev x y = (rnID y = rnID x \<and> rnConversation y = rnConversation x \<and> rnModel y = rnModel x \<and>
     rnSubmission y = rnSubmission x \<and> rnSubmittedBy y = rnSubmittedBy x \<and> rnDigest y = rnDigest x \<and>
     rnPermRevision x \<le> rnPermRevision y \<and> status_le (rnStatus x) (rnStatus y) \<and>
     (rnStatus x \<noteq> ''running'' \<longrightarrow> rnExecMode y = rnExecMode x \<and> rnPermMode y = rnPermMode x \<and>
        rnPermRevision y = rnPermRevision x \<and> rnApprovedPlan y = rnApprovedPlan x) \<and>
     (run_ok x \<longrightarrow> run_ok y))"

definition permission_settled :: "run_permission \<Rightarrow> bool" where
  "permission_settled p = (pmConsumed p \<or> pmStatus p = ''rejected'' \<or> pmStatus p = ''cancelled'')"

definition permission_ok :: "run_permission \<Rightarrow> bool" where
  "permission_ok p =
     (pmStatus p \<in> {''pending'', ''reviewing'', ''approved'', ''rejected'', ''cancelled''} \<and>
      (pmConsumed p \<longrightarrow> pmStatus p = ''approved'') \<and>
      (pmStatus p = ''reviewing'' \<longrightarrow> pmTool p = ''bash'') \<and>
      (pmToken p \<noteq> None \<longrightarrow> pmStatus p = ''reviewing'') \<and>
      (pmStatus p = ''approved'' \<longrightarrow> pmDecision p \<noteq> None) \<and>
      (pmTool p = ''github_publish'' \<and> pmStatus p = ''approved'' \<longrightarrow> pmSource p = ''user'' \<and> pmDecision p = Some ''once'') \<and>
      (pmStatus p = ''approved'' \<and> pmSource p = ''llm'' \<longrightarrow>
         pmTool p = ''bash'' \<and> pmDecision p = Some ''once'' \<and> pmReviewDecision p = Some ''allow''))"

definition permission_ev :: "run_permission \<Rightarrow> run_permission \<Rightarrow> bool" where
  "permission_ev p q =
     (pmID q = pmID p \<and> pmWorkspace q = pmWorkspace p \<and> pmConversation q = pmConversation p \<and> pmRun q = pmRun p \<and>
      pmCall q = pmCall p \<and> pmTool q = pmTool p \<and> pmDigest q = pmDigest p \<and> pmSummary q = pmSummary p \<and>
      pmAllowRun q = pmAllowRun p \<and> (permission_settled p \<longrightarrow> q = p) \<and> (permission_ok p \<longrightarrow> permission_ok q))"

definition input_final :: "run_input \<Rightarrow> bool" where
  "input_final i = (riStatus i = ''started'' \<or> riStatus i = ''applied'' \<or> riStatus i = ''cancelled'')"

definition input_ok :: "run_input \<Rightarrow> bool" where
  "input_ok i =
     ((riKind i = ''next'' \<and> riStatus i \<in> {''queued'', ''held'', ''started'', ''cancelled''} \<or>
       riKind i = ''adjust'' \<and> riStatus i \<in> {''pending'', ''held'', ''applied'', ''cancelled''}) \<and>
      (riStatus i = ''started'' \<longleftrightarrow> riStartedRun i \<noteq> None) \<and>
      (riStatus i = ''started'' \<or> riStatus i = ''applied'' \<longleftrightarrow> riMessage i \<noteq> None))"

definition input_ev :: "run_input \<Rightarrow> run_input \<Rightarrow> bool" where
  "input_ev i j =
     (riID j = riID i \<and> riWorkspace j = riWorkspace i \<and> riConversation j = riConversation i \<and>
      riAfterRun j = riAfterRun i \<and> riSubmittedBy j = riSubmittedBy i \<and> riKind j = riKind i \<and>
      riDigest j = riDigest i \<and> riContent j = riContent i \<and> riMetadata j = riMetadata i \<and>
      riModel j = riModel i \<and> riExecMode j = riExecMode i \<and> riPermMode j = riPermMode i \<and>
      riRevision i \<le> riRevision j \<and> (input_final i \<longrightarrow> j = i) \<and> (input_ok i \<longrightarrow> input_ok j))"

definition interaction_ok :: "run_interaction \<Rightarrow> bool" where
  "interaction_ok i = (itKind i = irKind (itRequest i) \<and> itDigest i = interaction_digest (itRequest i))"

definition interaction_ev :: "run_interaction \<Rightarrow> run_interaction \<Rightarrow> bool" where
  "interaction_ev i j =
     (itID j = itID i \<and> itWorkspace j = itWorkspace i \<and> itConversation j = itConversation i \<and> itRun j = itRun i \<and>
      itCall j = itCall i \<and> itKind j = itKind i \<and> itRequest j = itRequest i \<and> itDigest j = itDigest i \<and>
      (itStatus i \<noteq> ''pending'' \<longrightarrow> j = i))"

lemma status_le_refl [simp]: "status_le s s"
  by (simp add: status_le_def)

lemma status_le_trans: "status_le s t \<Longrightarrow> status_le t u \<Longrightarrow> status_le s u"
  unfolding status_le_def by (elim disjE conjE) simp_all

lemma status_le_running: "status_le s t \<Longrightarrow> s \<noteq> ''running'' \<Longrightarrow> t \<noteq> ''running''"
  unfolding status_le_def by (elim disjE conjE) simp_all

interpretation run_rows: row_history run_ev run_ok
proof
  show "run_ev x x" for x by (simp add: run_ev_def)
  show "run_ev x z" if a: "run_ev x y" and b: "run_ev y z" for x y z
  proof -
    have "status_le (rnStatus x) (rnStatus z)"
      using a b unfolding run_ev_def by (blast intro: status_le_trans)
    moreover have "rnStatus x \<noteq> ''running'' \<Longrightarrow> rnStatus y \<noteq> ''running''"
      using a unfolding run_ev_def by (blast dest: status_le_running)
    ultimately show ?thesis using a b by (simp add: run_ev_def)
  qed
qed (simp add: run_ev_def)

interpretation permission_rows: row_history permission_ev permission_ok
  by unfold_locales (auto simp: permission_ev_def)

interpretation input_rows: row_history input_ev input_ok
  by unfold_locales (auto simp: input_ev_def)

interpretation interaction_rows: row_history interaction_ev interaction_ok
  by unfold_locales (auto simp: interaction_ev_def interaction_ok_def)

section \<open>The invariant\<close>

text \<open>A publication is approved by the user whose run it is.\<close>

definition own_approval :: "run list \<Rightarrow> run_permission \<Rightarrow> bool" where
  "own_approval rs p = (pmTool p = ''github_publish'' \<and> pmStatus p = ''approved'' \<longrightarrow>
     (\<exists>x \<in> set rs. rnID x = pmRun p \<and> rnSubmittedBy x = pmRespondedBy p \<and> pmRespondedBy p \<noteq> None))"

text \<open>A started input has its run.\<close>

definition started_run :: "run list \<Rightarrow> run_input \<Rightarrow> bool" where
  "started_run rs i = (riStatus i = ''started'' \<longrightarrow>
     (\<exists>x \<in> set rs. riStartedRun i = Some (rnID x) \<and> rnSubmission x = Some (riID i) \<and>
        rnConversation x = riConversation i \<and> rnSubmittedBy x = riSubmittedBy i))"

definition submission_key :: "run \<Rightarrow> uuid \<times> uuid option" where
  "submission_key x = (rnConversation x, rnSubmission x)"

definition waiting_for :: "uuid \<Rightarrow> run_interaction \<Rightarrow> bool" where
  "waiting_for r i = (itRun i = r \<and> itStatus i = ''pending'')"

definition generated :: "db \<Rightarrow> uuid \<Rightarrow> bool" where
  "generated d u = (\<exists>n < nextID d. u = show_nat n)"

definition runs_inv :: "db \<Rightarrow> bool" where
  "runs_inv d = (distinct (map rnID (runs d)) \<and> list_all (generated d) (map rnID (runs d)) \<and> list_all run_ok (runs d) \<and>
     distinct (filter (\<lambda>k. snd k \<noteq> None) (map submission_key (runs d))))"

definition permissions_inv :: "db \<Rightarrow> bool" where
  "permissions_inv d = (distinct (map pmID (permissions d)) \<and> list_all (generated d) (map pmID (permissions d)) \<and>
     list_all permission_ok (permissions d) \<and> list_all (own_approval (runs d)) (permissions d))"

definition inputs_inv :: "db \<Rightarrow> bool" where
  "inputs_inv d = (distinct (map riID (inputs d)) \<and> list_all input_ok (inputs d) \<and>
     list_all (started_run (runs d)) (inputs d) \<and> (\<forall>c. length (open_inputs d c) \<le> input_limit))"

definition interactions_inv :: "db \<Rightarrow> bool" where
  "interactions_inv d = (distinct (map itID (interactions d)) \<and> list_all (generated d) (map itID (interactions d)) \<and>
     list_all interaction_ok (interactions d) \<and> (\<forall>r. length (filter (waiting_for r) (interactions d)) \<le> 1))"

definition messages_inv :: "db \<Rightarrow> bool" where
  "messages_inv d = (distinct (map cvID (conversations d)) \<and>
     (\<forall>cv \<in> set (conversations d). 0 \<le> cvLastSeq cv \<and>
        map dmSeq (conversation_messages d (cvID cv)) = [1..cvLastSeq cv]))"

definition events_inv :: "db \<Rightarrow> bool" where
  "events_inv d = (sorted_wrt (<) (map evID (events d)) \<and> list_all (\<lambda>e. evID e < nextEvent d) (events d) \<and>
     distinct (outbox d) \<and> set (outbox d) \<subseteq> evID ` set (events d))"

definition inv :: "db \<Rightarrow> bool" where
  "inv d = (runs_inv d \<and> permissions_inv d \<and> inputs_inv d \<and> interactions_inv d \<and> messages_inv d \<and> events_inv d)"

text \<open>The change of all tables over a step.\<close>

definition good :: "db \<Rightarrow> db \<Rightarrow> bool" where
  "good d d' = (inv d' \<and> evolves run_ev run_ok (runs d) (runs d') \<and>
     evolves permission_ev permission_ok (permissions d) (permissions d') \<and>
     evolves input_ev input_ok (inputs d) (inputs d') \<and>
     evolves interaction_ev interaction_ok (interactions d) (interactions d') \<and>
     (\<exists>ms. messages d' = messages d @ ms) \<and> (\<exists>es. events d' = events d @ es) \<and>
     set (outbox d) \<subseteq> set (outbox d') \<and> map cvID (conversations d') = map cvID (conversations d) \<and>
     members d' = members d \<and> users d' = users d)"

definition quiet :: "db \<Rightarrow> db \<Rightarrow> bool" where
  "quiet d d' = (good d d' \<and> length (runs d') = length (runs d))"

lemma good_refl: "inv d \<Longrightarrow> good d d"
  by (simp add: good_def run_rows.same permission_rows.same input_rows.same interaction_rows.same)

lemma good_trans: "good d1 d2 \<Longrightarrow> good d2 d3 \<Longrightarrow> good d1 d3"
  by (auto simp: good_def intro: run_rows.seq permission_rows.seq input_rows.seq interaction_rows.seq)

lemma quiet_refl: "inv d \<Longrightarrow> quiet d d"
  by (simp add: quiet_def good_refl)

lemma quiet_trans: "quiet d1 d2 \<Longrightarrow> quiet d2 d3 \<Longrightarrow> quiet d1 d3"
  by (auto simp: quiet_def intro: good_trans)

lemma quiet_good: "quiet d d' \<Longrightarrow> good d d'"
  by (simp add: quiet_def)

lemma good_inv: "good d d' \<Longrightarrow> inv d'"
  by (simp add: good_def)

lemma quiet_inv: "quiet d d' \<Longrightarrow> inv d'"
  by (simp add: quiet_def good_def)

lemma distinct_image_filter:
  "distinct (filter P (map f xs)) \<Longrightarrow> x \<in> set xs \<Longrightarrow> y \<in> set xs \<Longrightarrow> f x = f y \<Longrightarrow> P (f x) \<Longrightarrow> x = y"
proof (induction xs)
  case (Cons a xs)
  have "f x \<in> f ` set xs" if "x \<in> set xs" using that by (rule imageI)
  moreover have "f y \<in> f ` set xs" if "y \<in> set xs" using that by (rule imageI)
  ultimately show ?case using Cons by (cases "x = a"; cases "y = a") (auto split: if_split_asm)
qed simp

lemma submission_unique:
  assumes "inv d" "x \<in> set (runs d)" "z \<in> set (runs d)" "rnConversation z = rnConversation x" "rnSubmission z = rnSubmission x"
    "rnSubmission x \<noteq> None"
  shows "z = x"
proof (rule distinct_image_filter[of "\<lambda>k. snd k \<noteq> None" submission_key "runs d"])
  show "distinct (filter (\<lambda>k. snd k \<noteq> None) (map submission_key (runs d)))"
    using assms(1) by (simp add: inv_def runs_inv_def)
qed (use assms in \<open>simp_all add: submission_key_def\<close>)

end
