(* ===== verification/ConvWrites.thy ===== *)
theory ConvWrites
  imports ConvInvariant
begin

text \<open>
  Every write of the conversation database is a quiet change under the condition the
  operations establish before it: the conditions are about the rows that are written only.
\<close>

section \<open>Updates of a table\<close>

lemma map_update_where_on:
  "(\<And>x. x \<in> set xs \<Longrightarrow> P x \<Longrightarrow> k (f x) = k x) \<Longrightarrow> map k (update_where P f xs) = map k xs"
  by (induction xs) auto

lemma filter_update_where_le:
  "(\<And>x. x \<in> set xs \<Longrightarrow> P x \<Longrightarrow> Q (f x) \<Longrightarrow> Q x) \<Longrightarrow> length (filter Q (update_where P f xs)) \<le> length (filter Q xs)"
  by (induction xs) (auto intro: le_SucI)

lemma list_all_update_where:
  "list_all Q xs \<Longrightarrow> (\<And>x. x \<in> set xs \<Longrightarrow> P x \<Longrightarrow> Q x \<Longrightarrow> Q (f x)) \<Longrightarrow> list_all Q (update_where P f xs)"
  by (induction xs) auto

lemma own_approval_mono:
  "own_approval rs p \<Longrightarrow> (\<And>x. x \<in> set rs \<Longrightarrow> \<exists>y \<in> set rs'. run_ev x y) \<Longrightarrow> own_approval rs' p"
  unfolding own_approval_def run_ev_def by fastforce

lemma started_run_mono:
  assumes "started_run rs i" "\<And>x. x \<in> set rs \<Longrightarrow> \<exists>y \<in> set rs'. run_ev x y"
  shows "started_run rs' i"
  unfolding started_run_def
proof
  assume "riStatus i = ''started''"
  with assms(1) obtain x where x: "x \<in> set rs" "riStartedRun i = Some (rnID x)" "rnSubmission x = Some (riID i)"
    "rnConversation x = riConversation i" "rnSubmittedBy x = riSubmittedBy i" by (auto simp: started_run_def)
  obtain y where "y \<in> set rs'" "run_ev x y" using assms(2)[OF x(1)] ..
  with x show "\<exists>x \<in> set rs'. riStartedRun i = Some (rnID x) \<and> rnSubmission x = Some (riID i) \<and>
      rnConversation x = riConversation i \<and> rnSubmittedBy x = riSubmittedBy i"
    by (intro bexI[of _ y]) (simp_all add: run_ev_def)
qed

lemma generated_mono: "generated d u \<Longrightarrow> nextID d \<le> nextID d' \<Longrightarrow> generated d' u"
  by (auto simp: generated_def intro: less_le_trans)

text \<open>The unchanged tables of a change.\<close>

lemma good_same:
  "inv d' \<Longrightarrow> runs d' = runs d \<Longrightarrow> permissions d' = permissions d \<Longrightarrow> inputs d' = inputs d \<Longrightarrow>
   interactions d' = interactions d \<Longrightarrow> messages d' = messages d \<Longrightarrow> events d' = events d \<Longrightarrow>
   outbox d' = outbox d \<Longrightarrow> conversations d' = conversations d \<Longrightarrow> members d' = members d \<Longrightarrow> users d' = users d \<Longrightarrow>
   quiet d d'"
  by (simp add: quiet_def good_def run_rows.same permission_rows.same input_rows.same interaction_rows.same)

lemmas inv_parts = inv_def runs_inv_def permissions_inv_def inputs_inv_def interactions_inv_def messages_inv_def events_inv_def

lemma inv_runs: "inv d \<Longrightarrow> distinct (map rnID (runs d)) \<and> list_all run_ok (runs d)"
  by (simp add: inv_parts)

lemma inv_permissions: "inv d \<Longrightarrow> distinct (map pmID (permissions d)) \<and> list_all permission_ok (permissions d)"
  by (simp add: inv_parts)

lemma inv_inputs: "inv d \<Longrightarrow> distinct (map riID (inputs d)) \<and> list_all input_ok (inputs d)"
  by (simp add: inv_parts)

lemma inv_interactions: "inv d \<Longrightarrow> distinct (map itID (interactions d)) \<and> list_all interaction_ok (interactions d)"
  by (simp add: inv_parts)

lemma quiet_on_runs:
  assumes i: "inv d" and f: "\<And>x. x \<in> set (runs d) \<Longrightarrow> P x \<Longrightarrow> run_ok x \<Longrightarrow> run_ev x (f x)"
  shows "quiet d (on_runs P f d)"
proof -
  let ?rs = "update_where P f (runs d)"
  have ok: "list_all run_ok (runs d)" using i by (simp add: inv_parts)
  have f': "run_ev x (f x)" if "x \<in> set (runs d)" "P x" for x
    using f[OF that] ok that(1) by (simp add: list_all_iff)
  have ev: "evolves run_ev run_ok (runs d) ?rs" by (rule run_rows.update) (rule f')
  have old: "\<exists>y \<in> set ?rs. run_ev x y" if "x \<in> set (runs d)" for x
    by (rule run_rows.old_row[OF ev that])
  have ids: "map rnID ?rs = map rnID (runs d)" "map submission_key ?rs = map submission_key (runs d)"
    by (rule map_update_where_on, use f' in \<open>simp add: run_ev_def submission_key_def\<close>)+
  have ok': "list_all run_ok ?rs"
    using ok by (rule list_all_update_where) (use f' in \<open>auto simp: run_ev_def\<close>)
  have own: "list_all (own_approval ?rs) (permissions d)" "list_all (started_run ?rs) (inputs d)"
    using i by (auto simp: inv_parts list_all_iff intro: own_approval_mono started_run_mono old)
  have "inv (on_runs P f d)"
    using i ids ok' own by (simp add: inv_parts on_runs_def generated_def[abs_def] open_inputs_def conversation_messages_def)
  then show ?thesis using ev
    by (simp add: quiet_def good_def on_runs_def permission_rows.same input_rows.same interaction_rows.same)
qed

lemma quiet_on_permissions:
  assumes i: "inv d" and f: "\<And>p. p \<in> set (permissions d) \<Longrightarrow> P p \<Longrightarrow> permission_ok p \<Longrightarrow> own_approval (runs d) p \<Longrightarrow>
     permission_ev p (f p) \<and> own_approval (runs d) (f p)"
  shows "quiet d (on_permissions P f d)"
proof -
  let ?ps = "update_where P f (permissions d)"
  have ok: "list_all permission_ok (permissions d)" "list_all (own_approval (runs d)) (permissions d)"
    using i by (simp_all add: inv_parts)
  have f': "permission_ev p (f p) \<and> own_approval (runs d) (f p)" if "p \<in> set (permissions d)" "P p" for p
    using f[OF that] ok that(1) by (simp add: list_all_iff)
  have ev: "evolves permission_ev permission_ok (permissions d) ?ps"
    by (rule permission_rows.update) (use f' in blast)
  have ids: "map pmID ?ps = map pmID (permissions d)"
    by (rule map_update_where_on) (use f' in \<open>simp add: permission_ev_def\<close>)
  have ok': "list_all permission_ok ?ps"
    using ok(1) by (rule list_all_update_where) (use f' in \<open>auto simp: permission_ev_def\<close>)
  have own: "list_all (own_approval (runs d)) ?ps"
    using ok(2) by (rule list_all_update_where) (use f' in blast)
  have "inv (on_permissions P f d)"
    using i ids ok' own
    by (simp add: inv_parts on_permissions_def generated_def[abs_def] open_inputs_def conversation_messages_def)
  then show ?thesis using ev
    by (simp add: quiet_def good_def on_permissions_def run_rows.same input_rows.same interaction_rows.same)
qed

lemma input_open_back: "input_ok x \<Longrightarrow> input_ev x y \<Longrightarrow> open_input y \<Longrightarrow> open_input x"
  by (auto simp: input_ok_def input_ev_def open_input_def input_final_def)

lemma quiet_on_inputs:
  assumes i: "inv d" and f: "\<And>x. x \<in> set (inputs d) \<Longrightarrow> P x \<Longrightarrow> input_ok x \<Longrightarrow>
     input_ev x (f x) \<and> started_run (runs d) (f x)"
  shows "quiet d (on_inputs P f d)"
proof -
  let ?is = "update_where P f (inputs d)"
  have ok: "list_all input_ok (inputs d)" "list_all (started_run (runs d)) (inputs d)"
    using i by (simp_all add: inv_parts)
  have f': "input_ev x (f x) \<and> started_run (runs d) (f x) \<and> input_ok x" if "x \<in> set (inputs d)" "P x" for x
    using f[OF that] ok that(1) by (simp add: list_all_iff)
  have ev: "evolves input_ev input_ok (inputs d) ?is"
    by (rule input_rows.update) (use f' in blast)
  have ids: "map riID ?is = map riID (inputs d)"
    by (rule map_update_where_on) (use f' in \<open>simp add: input_ev_def\<close>)
  have ok': "list_all input_ok ?is"
    using ok(1) by (rule list_all_update_where) (use f' in \<open>auto simp: input_ev_def\<close>)
  have st: "list_all (started_run (runs d)) ?is"
    using ok(2) by (rule list_all_update_where) (use f' in blast)
  have lim: "length (filter (\<lambda>i. riConversation i = c \<and> open_input i) ?is) \<le> input_limit" for c
  proof -
    have "length (filter (\<lambda>i. riConversation i = c \<and> open_input i) ?is) \<le>
        length (filter (\<lambda>i. riConversation i = c \<and> open_input i) (inputs d))"
    proof (rule filter_update_where_le)
      fix x assume x: "x \<in> set (inputs d)" "P x" "riConversation (f x) = c \<and> open_input (f x)"
      from f'[OF x(1,2)] have ev: "input_ev x (f x)" and okx: "input_ok x" by auto
      have "riConversation x = riConversation (f x)" using ev unfolding input_ev_def by simp
      with input_open_back[OF okx ev] x(3) show "riConversation x = c \<and> open_input x" by simp
    qed
    also have "\<dots> \<le> input_limit" using i by (simp add: inv_parts open_inputs_def)
    finally show ?thesis .
  qed
  have "inv (on_inputs P f d)"
    using i ids ok' st lim
    by (simp add: inv_parts on_inputs_def generated_def[abs_def] open_inputs_def conversation_messages_def)
  then show ?thesis using ev
    by (simp add: quiet_def good_def on_inputs_def run_rows.same permission_rows.same interaction_rows.same)
qed

lemma quiet_on_interactions:
  assumes i: "inv d" and f: "\<And>x. x \<in> set (interactions d) \<Longrightarrow> P x \<Longrightarrow> interaction_ev x (f x)"
  shows "quiet d (on_interactions P f d)"
proof -
  let ?is = "update_where P f (interactions d)"
  have ev: "evolves interaction_ev interaction_ok (interactions d) ?is"
    by (rule interaction_rows.update) (rule f)
  have ids: "map itID ?is = map itID (interactions d)"
    by (rule map_update_where_on) (use f in \<open>simp add: interaction_ev_def\<close>)
  have ok': "list_all interaction_ok ?is"
    by (rule list_all_update_where) (use i f in \<open>auto simp: inv_parts interaction_ev_def interaction_ok_def\<close>)
  have one: "length (filter (waiting_for r) ?is) \<le> 1" for r
  proof -
    have "length (filter (waiting_for r) ?is) \<le> length (filter (waiting_for r) (interactions d))"
    proof (rule filter_update_where_le)
      fix x assume x: "x \<in> set (interactions d)" "P x" "waiting_for r (f x)"
      then show "waiting_for r x"
        using f[OF x(1,2)] by (cases "itStatus x = ''pending''") (simp_all add: interaction_ev_def waiting_for_def)
    qed
    also have "\<dots> \<le> 1" using i by (simp add: inv_parts)
    finally show ?thesis .
  qed
  have "inv (on_interactions P f d)"
    using i ids ok' one
    by (simp add: inv_parts on_interactions_def generated_def[abs_def] open_inputs_def conversation_messages_def)
  then show ?thesis using ev
    by (simp add: quiet_def good_def on_interactions_def run_rows.same permission_rows.same input_rows.same)
qed

lemma quiet_on_requests: "inv d \<Longrightarrow> quiet d (on_requests P f d)"
  by (rule good_same)
    (simp_all add: inv_parts on_requests_def generated_def[abs_def] open_inputs_def conversation_messages_def)

lemma quiet_new_id: "inv d \<Longrightarrow> quiet d (snd (new_id d))"
  by (rule good_same)
    (auto simp: inv_parts new_id_def generated_def[abs_def] open_inputs_def conversation_messages_def list_all_iff less_Suc_eq)

section \<open>Events and messages\<close>

lemma event_append_eq:
  assumes "event_append r c kind payload d = Inr d'"
  shows "d' = d\<lparr>events := events d @ [\<lparr>evID = nextEvent d, evRun = r, evConversation = c, evType = kind, evPayload = payload\<rparr>],
       outbox := outbox d @ [nextEvent d], nextEvent := nextEvent d + 1\<rparr>"
  using assms by (auto simp: event_append_def elim!: bindrE)

lemma quiet_event_append:
  assumes i: "inv d" and e: "event_append r c kind payload d = Inr d'"
  shows "quiet d d'"
proof -
  note eq = event_append_eq[OF e]
  have "nextEvent d \<notin> set (outbox d)" using i by (force simp: inv_def events_inv_def list_all_iff)
  then have ev: "events_inv d'" using i unfolding eq
    by (auto simp: inv_def events_inv_def sorted_wrt_append list_all_iff)
  have "inv d'" using i ev unfolding eq
    by (simp add: inv_parts generated_def[abs_def] open_inputs_def conversation_messages_def)
  then show ?thesis unfolding eq
    by (auto simp: quiet_def good_def run_rows.same permission_rows.same input_rows.same interaction_rows.same)
qed

lemma insert_message_eq:
  assumes "insert_message c r m tname md d = Inr (row, d')"
  obtains cv where "find_conversation d c = Some cv" "dmID row = show_nat (nextID d)" "dmConversation row = c"
    "dmRun row = Some r" "dmRole row = role m" "dmSeq row = cvLastSeq cv + 1" "dmCalls row = toolCalls m"
    "dmCallID row = toolCallID m" "dmContent row = content m" "dmMetadata row = md" "dmToolName row = tname"
    "d' = d\<lparr>nextID := Suc (nextID d), messages := messages d @ [row],
        conversations := update_where (\<lambda>x. cvID x = c) (\<lambda>x. x\<lparr>cvLastSeq := cvLastSeq x + 1\<rparr>) (conversations d)\<rparr>"
  using assms by (auto simp: insert_message_def new_id_def Let_def split: option.splits if_splits)

lemma messages_inv_insert:
  assumes i: "messages_inv d" and cv: "find_conversation d c = Some cv" and r: "dmConversation row = c" "dmSeq row = cvLastSeq cv + 1"
  shows "messages_inv (d\<lparr>nextID := n, messages := messages d @ [row],
        conversations := update_where (\<lambda>x. cvID x = c) (\<lambda>x. x\<lparr>cvLastSeq := cvLastSeq x + 1\<rparr>) (conversations d)\<rparr>)"
proof -
  let ?f = "\<lambda>x. x\<lparr>cvLastSeq := cvLastSeq x + 1\<rparr>"
  have ids: "map cvID (update_where (\<lambda>x. cvID x = c) ?f (conversations d)) = map cvID (conversations d)"
    by (rule map_update_where_on) simp
  have num: "0 \<le> cvLastSeq y \<and> map dmSeq (conversation_messages d (cvID y)) = [1..cvLastSeq y]"
    if "y \<in> set (conversations d)" for y using i that by (auto simp: messages_inv_def)
  have same: "y = cv" if "y \<in> set (conversations d)" "cvID y = c" for y
    using i cv that by (intro find_key[of cvID "conversations d" "\<lambda>x. cvID x = c"])
      (auto simp: messages_inv_def find_conversation_def dest: find_Some_in)
  show ?thesis unfolding messages_inv_def
  proof (intro conjI ballI)
    fix y assume "y \<in> set (conversations (d\<lparr>nextID := n, messages := messages d @ [row],
        conversations := update_where (\<lambda>x. cvID x = c) ?f (conversations d)\<rparr>))"
    then obtain y0 where y0: "y0 \<in> set (conversations d)" "y = (if cvID y0 = c then ?f y0 else y0)"
      by (auto simp: set_update_where)
    note num' = num[OF y0(1)]
    show "0 \<le> cvLastSeq y" using num' y0(2) by auto
    show "map dmSeq (conversation_messages (d\<lparr>nextID := n, messages := messages d @ [row],
        conversations := update_where (\<lambda>x. cvID x = c) ?f (conversations d)\<rparr>) (cvID y)) = [1..cvLastSeq y]"
    proof (cases "cvID y0 = c")
      case True
      then have "y0 = cv" using same y0(1) by blast
      with True num' y0(2) r show ?thesis by (simp add: conversation_messages_def upto_rec2)
    next
      case False
      with num' y0(2) r show ?thesis by (auto simp: conversation_messages_def)
    qed
  qed (use i ids in \<open>simp add: messages_inv_def\<close>)
qed

lemma quiet_insert_message:
  assumes i: "inv d" and e: "insert_message c r m tname md d = Inr (row, d')"
  shows "quiet d d'"
proof -
  obtain cv where cv: "find_conversation d c = Some cv" "dmConversation row = c" "dmSeq row = cvLastSeq cv + 1"
    and eq: "d' = d\<lparr>nextID := Suc (nextID d), messages := messages d @ [row],
        conversations := update_where (\<lambda>x. cvID x = c) (\<lambda>x. x\<lparr>cvLastSeq := cvLastSeq x + 1\<rparr>) (conversations d)\<rparr>"
    by (rule insert_message_eq[OF e]) blast
  have "messages_inv d'" unfolding eq
    by (rule messages_inv_insert[OF _ cv]) (use i in \<open>simp add: inv_def\<close>)
  moreover have "runs_inv d' \<and> permissions_inv d' \<and> inputs_inv d' \<and> interactions_inv d' \<and> events_inv d'"
    using i unfolding eq
    by (auto simp: inv_def runs_inv_def permissions_inv_def inputs_inv_def interactions_inv_def events_inv_def
        generated_def[abs_def] open_inputs_def list_all_iff less_Suc_eq)
  ultimately have "inv d'" by (simp add: inv_def)
  moreover have "map cvID (conversations d') = map cvID (conversations d)"
    unfolding eq by (simp add: map_update_where_on)
  ultimately show ?thesis unfolding eq
    by (auto simp: quiet_def good_def run_rows.same permission_rows.same input_rows.same interaction_rows.same)
qed

section \<open>New rows\<close>

lemma not_generated: "inv d \<Longrightarrow> show_nat (nextID d) \<notin> rnID ` set (runs d) \<and>
    show_nat (nextID d) \<notin> pmID ` set (permissions d) \<and> show_nat (nextID d) \<notin> itID ` set (interactions d)"
  by (fastforce simp: inv_parts generated_def list_all_iff dest: show_nat_inj)

lemma quiet_insert_permission:
  assumes i: "inv d" and p: "permission_ok p" "own_approval (runs d) p" "pmID p = show_nat (nextID d)"
  shows "quiet d (d\<lparr>nextID := Suc (nextID d), permissions := permissions d @ [p]\<rparr>)" (is "quiet d ?d")
proof -
  have "permissions_inv ?d" using i p not_generated[OF i]
    by (auto simp: inv_parts generated_def list_all_iff less_Suc_eq)
  then have "inv ?d" using i
    by (auto simp: inv_parts generated_def[abs_def] open_inputs_def conversation_messages_def list_all_iff less_Suc_eq)
  then show ?thesis using p(1)
    by (simp add: quiet_def good_def run_rows.same permission_rows.add input_rows.same interaction_rows.same)
qed

lemma quiet_insert_interaction:
  assumes i: "inv d" and p: "interaction_ok p" "itID p = show_nat (nextID d)" "itStatus p = ''pending''"
    and w: "\<not> list_ex (\<lambda>x. itRun x = itRun p \<and> itStatus x = ''pending'') (interactions d)"
  shows "quiet d (d\<lparr>nextID := Suc (nextID d), interactions := interactions d @ [p]\<rparr>)" (is "quiet d ?d")
proof -
  have "length (filter (waiting_for r) (interactions d @ [p])) \<le> 1" for r
  proof (cases "waiting_for r p")
    case True
    then have "filter (waiting_for r) (interactions d) = []"
      using w by (auto simp: filter_empty_conv waiting_for_def list_ex_iff)
    then show ?thesis by simp
  next
    case False
    then show ?thesis using i by (simp add: inv_parts)
  qed
  then have "interactions_inv ?d" using i p not_generated[OF i]
    by (auto simp: inv_parts generated_def list_all_iff less_Suc_eq)
  then have "inv ?d" using i
    by (auto simp: inv_parts generated_def[abs_def] open_inputs_def conversation_messages_def list_all_iff less_Suc_eq)
  then show ?thesis using p(1)
    by (simp add: quiet_def good_def run_rows.same permission_rows.same input_rows.same interaction_rows.add)
qed

lemma quiet_insert_input:
  assumes i: "inv d" and p: "input_ok p" "riStatus p \<noteq> ''started''" "riID p \<notin> riID ` set (inputs d)"
    and l: "length (open_inputs d (riConversation p)) < input_limit"
  shows "quiet d (d\<lparr>inputs := inputs d @ [p], nextOrder := n\<rparr>)" (is "quiet d ?d")
proof -
  have "length (open_inputs ?d c) \<le> input_limit" for c
  proof (cases "riConversation p = c")
    case True
    then show ?thesis using l by (auto simp: open_inputs_def)
  next
    case False
    then show ?thesis using i by (auto simp: inv_parts open_inputs_def)
  qed
  moreover have "started_run (runs d) p" using p(2) by (simp add: started_run_def)
  ultimately have "inputs_inv ?d" using i p by (simp add: inv_parts)
  then have "inv ?d" using i
    by (simp add: inv_parts generated_def[abs_def] open_inputs_def conversation_messages_def)
  then show ?thesis using p(1)
    by (simp add: quiet_def good_def run_rows.same permission_rows.same input_rows.add interaction_rows.same)
qed

lemma good_add_run:
  assumes i: "inv d" and x: "run_ok x" "rnID x = show_nat (nextID d)"
    and s: "rnSubmission x \<noteq> None \<Longrightarrow> \<not> list_ex (\<lambda>r. rnConversation r = rnConversation x \<and> rnSubmission r = rnSubmission x) (runs d)"
  shows "good d (d\<lparr>nextID := Suc (nextID d), runs := runs d @ [x]\<rparr>)" (is "good d ?d")
proof -
  have key: "submission_key x \<notin> set (map submission_key (runs d))" if "rnSubmission x \<noteq> None"
    using s[OF that] by (auto simp: submission_key_def list_ex_iff)
  have "distinct (filter (\<lambda>k. snd k \<noteq> None) (map submission_key (runs d @ [x])))"
    using i key by (auto simp: inv_parts submission_key_def)
  then have "runs_inv ?d" using i x not_generated[OF i]
    by (auto simp: inv_parts generated_def list_all_iff less_Suc_eq)
  moreover have mono: "\<exists>y \<in> set (runs d @ [x]). run_ev z y" if "z \<in> set (runs d)" for z
    using that by (intro bexI[of _ z]) (simp_all add: run_rows.row_refl)
  have "list_all (own_approval (runs d @ [x])) (permissions d)" "list_all (started_run (runs d @ [x])) (inputs d)"
    using i by (auto simp: inv_parts list_all_iff intro: own_approval_mono[of "runs d"] started_run_mono[of "runs d"] mono)
  ultimately have "inv ?d" using i
    by (auto simp: inv_parts generated_def[abs_def] open_inputs_def conversation_messages_def list_all_iff less_Suc_eq)
  then show ?thesis using x(1)
    by (simp add: good_def run_rows.add permission_rows.same input_rows.same interaction_rows.same)
qed

end
