(* ===== verification/ConvOps.thy ===== *)
theory ConvOps
  imports ConvWrites
begin

text \<open>
  Every operation of the conversation is a \<open>good\<close> change of the database, and a
  \<open>quiet\<close> one unless it starts a run.  One lemma per operation, composed from the writes.
\<close>

named_theorems frames \<open>the tables a write leaves alone\<close>

lemma runs_frames [frames]:
  "runs (on_inputs P f d) = runs d" "runs (on_permissions P2 g d) = runs d" "runs (on_interactions P3 h d) = runs d"
  "runs (on_requests P4 k d) = runs d" "runs (snd (new_id d)) = runs d"
  by (simp_all add: on_inputs_def on_permissions_def on_interactions_def on_requests_def new_id_def)

lemma event_append_runs: "event_append r c k p d = Inr d' \<Longrightarrow> runs d' = runs d"
  by (auto dest: event_append_eq)

lemma insert_message_runs: "insert_message c r m t md d = Inr (row, d') \<Longrightarrow> runs d' = runs d"
  by (auto elim: insert_message_eq)

lemma find_run_in: "find_run d r c = Some x \<Longrightarrow> x \<in> set (runs d) \<and> rnID x = r \<and> rnConversation x = c"
  by (auto simp: find_run_def dest: find_Some_in)

lemma run_with_id_in: "run_with_id d r = Some x \<Longrightarrow> x \<in> set (runs d) \<and> rnID x = r"
  by (auto simp: run_with_id_def dest: find_Some_in)

lemma the_run: "inv d \<Longrightarrow> x \<in> set (runs d) \<Longrightarrow> y \<in> set (runs d) \<Longrightarrow> rnID y = rnID x \<Longrightarrow> y = x"
  using inv_runs distinct_key by metis

lemma the_permission:
  "inv d \<Longrightarrow> x \<in> set (permissions d) \<Longrightarrow> y \<in> set (permissions d) \<Longrightarrow> pmID y = pmID x \<Longrightarrow> y = x"
  using inv_permissions distinct_key by metis

lemma the_input: "inv d \<Longrightarrow> x \<in> set (inputs d) \<Longrightarrow> y \<in> set (inputs d) \<Longrightarrow> riID y = riID x \<Longrightarrow> y = x"
  using inv_inputs distinct_key by metis

lemma the_interaction:
  "inv d \<Longrightarrow> x \<in> set (interactions d) \<Longrightarrow> y \<in> set (interactions d) \<Longrightarrow> itID y = itID x \<Longrightarrow> y = x"
  using inv_interactions distinct_key by metis

section \<open>Ends of a run\<close>

lemma quiet_set_run_status:
  assumes i: "inv d" and x: "x \<in> set (runs d)" "status_le (rnStatus x) s" and s: "active_status s \<or> terminal_status s"
  shows "quiet d (set_run_status s (rnID x) d)"
  unfolding set_run_status_def
proof (rule quiet_on_runs[OF i])
  fix y assume "y \<in> set (runs d)" "rnID y = rnID x"
  then have "y = x" using the_run[OF i x(1)] by blast
  then show "run_ev y (y\<lparr>rnStatus := s, rnFinished := terminal_status s\<rparr>)"
    using x(2) s by (simp add: run_ev_def run_ok_def)
qed

lemma held_row:
  assumes "input_ok i" "riStatus i = ''pending'' \<or> riStatus i = ''queued''"
  shows "input_ev i (i\<lparr>riStatus := ''held'', riHeldReason := h, riRevision := riRevision i + 1\<rparr>)"
    and "started_run rs (i\<lparr>riStatus := ''held'', riHeldReason := h, riRevision := riRevision i + 1\<rparr>)"
proof -
  show "input_ev i (i\<lparr>riStatus := ''held'', riHeldReason := h, riRevision := riRevision i + 1\<rparr>)"
    using assms(2,1) by (elim disjE) (simp_all add: input_ev_def input_final_def input_ok_def)
qed (simp add: started_run_def)

lemma quiet_holdRunInputs: "inv d \<Longrightarrow> quiet d (holdRunInputs r reason d)"
  unfolding holdRunInputs_def by (rule quiet_on_inputs) (blast intro: held_row)+

lemma cancelled_row:
  assumes "permission_ok p" "pmStatus p = ''pending'' \<or> pmStatus p = ''reviewing''"
  shows "permission_ev p (p\<lparr>pmStatus := ''cancelled'', pmToken := None\<rparr>)"
    and "own_approval rs (p\<lparr>pmStatus := ''cancelled'', pmToken := None\<rparr>)"
proof -
  show "permission_ev p (p\<lparr>pmStatus := ''cancelled'', pmToken := None\<rparr>)"
    using assms(2,1) by (elim disjE) (simp_all add: permission_ev_def permission_settled_def permission_ok_def)
qed (simp add: own_approval_def)

lemma quiet_cancel_permissions: "inv d \<Longrightarrow> quiet d (cancel_permissions r d)"
  unfolding cancel_permissions_def open_permission_def
  by (rule quiet_on_permissions) (blast intro: cancelled_row)+

lemma quiet_cancel_interactions: "inv d \<Longrightarrow> quiet d (cancel_interactions r d)"
  unfolding cancel_interactions_def by (rule quiet_on_interactions) (auto simp: interaction_ev_def)

lemma quiet_close_requests: "inv d \<Longrightarrow> quiet d (close_requests r s k d)"
  unfolding close_requests_def by (rule quiet_on_requests)

lemma quiet_close_calls:
  "inv d \<Longrightarrow> close_calls r c flag text ks d = Inr d' \<Longrightarrow> quiet d d' \<and> runs d' = runs d"
proof (induction ks arbitrary: d)
  case Nil
  then show ?case by (simp add: quiet_refl)
next
  case (Cons k ks)
  from Cons.prems(2) obtain row d1
    where 1: "insert_message c r (closing_message flag text k) (callName k) [(''is_error'', JBool True), (flag, JBool True)] d = Inr (row, d1)"
      and 2: "close_calls r c flag text ks d1 = Inr d'" by (auto elim!: bindrE)
  have q: "quiet d d1" by (rule quiet_insert_message[OF Cons.prems(1) 1])
  from Cons.IH[OF quiet_inv[OF q] 2] insert_message_runs[OF 1] q show ?case
    by (auto intro: quiet_trans)
qed

text \<open>The writes that end a run, in either order of the two sources.\<close>

lemma quiet_end_run:
  assumes i: "inv d" and x: "x \<in> set (runs d)" "rnID x = r" "status_le (rnStatus x) s" "active_status s \<or> terminal_status s"
  shows "quiet d (cancel_interactions r (cancel_permissions r (holdRunInputs r reason (set_run_status s r d))))"
    and "quiet d (cancel_permissions r (cancel_interactions r (holdRunInputs r reason (set_run_status s r d))))"
    and "quiet d (cancel_interactions r (set_run_status s r d))"
proof -
  have q1: "quiet d (set_run_status s r d)" using quiet_set_run_status[OF i x(1,3,4)] x(2) by simp
  have q2: "quiet d (holdRunInputs r reason (set_run_status s r d))"
    by (rule quiet_trans[OF q1 quiet_holdRunInputs[OF quiet_inv[OF q1]]])
  have q3: "quiet d (cancel_permissions r (holdRunInputs r reason (set_run_status s r d)))"
    by (rule quiet_trans[OF q2 quiet_cancel_permissions[OF quiet_inv[OF q2]]])
  show "quiet d (cancel_interactions r (cancel_permissions r (holdRunInputs r reason (set_run_status s r d))))"
    by (rule quiet_trans[OF q3 quiet_cancel_interactions[OF quiet_inv[OF q3]]])
  have q4: "quiet d (cancel_interactions r (holdRunInputs r reason (set_run_status s r d)))"
    by (rule quiet_trans[OF q2 quiet_cancel_interactions[OF quiet_inv[OF q2]]])
  show "quiet d (cancel_permissions r (cancel_interactions r (holdRunInputs r reason (set_run_status s r d))))"
    by (rule quiet_trans[OF q4 quiet_cancel_permissions[OF quiet_inv[OF q4]]])
  show "quiet d (cancel_interactions r (set_run_status s r d))"
    by (rule quiet_trans[OF q1 quiet_cancel_interactions[OF quiet_inv[OF q1]]])
qed

lemma quiet_then_event:
  assumes "quiet d d1" "event_append r c k p d1 = Inr d'"
  shows "quiet d d'"
  by (rule quiet_trans[OF assms(1) quiet_event_append[OF quiet_inv[OF assms(1)] assms(2)]])

lemma CancelRun_cases:
  assumes "CancelRun w c r d = Inr d'"
  obtains "d' = d" "\<exists>x. find_run d r c = Some x \<and> (rnStatus x = ''cancelling'' \<or> rnStatus x = ''cancelled'')"
  | x where "find_run d r c = Some x" "rnStatus x = ''running''"
      "event_append r c ''RUN_CANCELLING'' []
         (cancel_interactions r (cancel_permissions r (holdRunInputs r ''run_cancelled'' (set_run_status ''cancelling'' r d)))) = Inr d'"
  using assms by (auto simp: CancelRun_def split: option.splits if_splits)

lemma quiet_CancelRun:
  assumes i: "inv d" and e: "CancelRun w c r d = Inr d'"
  shows "quiet d d'"
  using e
proof (cases rule: CancelRun_cases)
  case 1
  then show ?thesis using i by (simp add: quiet_refl)
next
  case (2 x)
  show ?thesis
    by (rule quiet_then_event[OF quiet_end_run(1) 2(3)])
      (use i find_run_in[OF 2(1)] 2(2) in \<open>auto simp: active_status_def status_le_def\<close>)
qed

lemma finishCancelledRun_cases:
  assumes "finishCancelledRun r c d = Inr (b, d')"
  obtains x where "find_run d r c = Some x" "\<not> active_status (rnStatus x)" "\<not> b" "d' = d"
  | x d1 where "find_run d r c = Some x" "active_status (rnStatus x)" "b"
      "close_calls r c ''cancelled'' cancelled_text (missing_calls d r c) d = Inr d1"
      "event_append r c ''RUN_CANCELLED'' [(''reason'', JStr ''user_requested'')]
              (close_requests r ''cancelled'' ''cancelled''
                (cancel_interactions r (cancel_permissions r
                  (holdRunInputs r ''run_cancelled'' (set_run_status ''cancelled'' r d1))))) = Inr d'"
  using assms by (auto simp: finishCancelledRun_def split: option.splits if_splits elim!: bindrE)

lemma quiet_finishCancelledRun:
  assumes i: "inv d" and e: "finishCancelledRun r c d = Inr (b, d')"
  shows "quiet d d'"
  using e
proof (cases rule: finishCancelledRun_cases)
  case (1 x)
  then show ?thesis using i by (simp add: quiet_refl)
next
  case (2 x d1)
  from quiet_close_calls[OF i 2(4)] have q: "quiet d d1" and rs: "runs d1 = runs d" by auto
  have x: "x \<in> set (runs d1)" "rnID x = r" using find_run_in[OF 2(1)] rs by auto
  have q1: "quiet d1 (cancel_interactions r (cancel_permissions r
      (holdRunInputs r ''run_cancelled'' (set_run_status ''cancelled'' r d1))))"
    by (rule quiet_end_run(1)[OF quiet_inv[OF q] x])
      (use 2(2) in \<open>auto simp: active_status_def terminal_status_def status_le_def\<close>)
  show ?thesis
    by (rule quiet_trans[OF q quiet_then_event[OF quiet_trans[OF q1 quiet_close_requests[OF quiet_inv[OF q1]]] 2(5)]])
qed

lemma finishFailedRun_cases:
  assumes "finishFailedRun r c reason d = Inr d'"
  obtains x where "find_run d r c = Some x" "rnStatus x \<noteq> ''running''" "d' = d"
  | x d1 where "find_run d r c = Some x" "rnStatus x = ''running''"
      "close_calls r c ''interrupted'' interrupted_text (missing_calls d r c) d = Inr d1"
      "event_append r c ''RUN_FAILED'' [(''error'', JStr reason)]
              (close_requests r ''failed'' ''interrupted''
                (cancel_permissions r (cancel_interactions r
                  (holdRunInputs r ''run_failed'' (set_run_status ''failed'' r d1))))) = Inr d'"
  using assms by (auto simp: finishFailedRun_def split: option.splits if_splits elim!: bindrE)

lemma quiet_finishFailedRun:
  assumes i: "inv d" and e: "finishFailedRun r c reason d = Inr d'"
  shows "quiet d d'"
  using e
proof (cases rule: finishFailedRun_cases)
  case (1 x)
  then show ?thesis using i by (simp add: quiet_refl)
next
  case (2 x d1)
  from quiet_close_calls[OF i 2(3)] have q: "quiet d d1" and rs: "runs d1 = runs d" by auto
  have x: "x \<in> set (runs d1)" "rnID x = r" using find_run_in[OF 2(1)] rs by auto
  have q1: "quiet d1 (cancel_permissions r (cancel_interactions r
      (holdRunInputs r ''run_failed'' (set_run_status ''failed'' r d1))))"
    by (rule quiet_end_run(2)[OF quiet_inv[OF q] x])
      (use 2(2) in \<open>auto simp: active_status_def terminal_status_def status_le_def\<close>)
  show ?thesis
    by (rule quiet_trans[OF q quiet_then_event[OF quiet_trans[OF q1 quiet_close_requests[OF quiet_inv[OF q1]]] 2(4)]])
qed

lemma finishCompletedRun_cases:
  assumes "finishCompletedRun r c d = Inr d'"
  obtains x where "find_run d r c = Some x" "rnStatus x = ''completed''" "d' = d"
  | x where "find_run d r c = Some x" "rnStatus x = ''running''"
      "\<not> list_ex (\<lambda>i. riAfterRun i = r \<and> riKind i = ''adjust'' \<and> riStatus i = ''pending'') (inputs d)"
      "event_append r c ''RUN_COMPLETED'' [] (cancel_interactions r (set_run_status ''completed'' r d)) = Inr d'"
  using assms by (auto simp: finishCompletedRun_def split: option.splits if_splits)

lemma quiet_finishCompletedRun:
  assumes i: "inv d" and e: "finishCompletedRun r c d = Inr d'"
  shows "quiet d d'"
  using e
proof (cases rule: finishCompletedRun_cases)
  case (1 x)
  then show ?thesis using i by (simp add: quiet_refl)
next
  case (2 x)
  show ?thesis
    by (rule quiet_then_event[OF quiet_end_run(3) 2(4)])
      (use i find_run_in[OF 2(1)] 2(2) in \<open>auto simp: terminal_status_def status_le_def\<close>)
qed

lemma quiet_finishExecutionError: "inv d \<Longrightarrow> finishExecutionError r c reason user d = Inr d' \<Longrightarrow> quiet d d'"
  unfolding finishExecutionError_def
  by (auto split: if_splits option.splits elim!: bindrE intro: quiet_finishCancelledRun quiet_finishFailedRun)

lemma quiet_recover_runs: "inv d \<Longrightarrow> recover_runs c xs d = (res, d') \<Longrightarrow> quiet d d'"
proof (induction xs arbitrary: d)
  case Nil
  then show ?case by (simp add: quiet_refl)
next
  case (Cons x xs)
  let ?step = "if rnStatus x = ''cancelling''
      then bindr (finishCancelledRun (rnID x) c d) (\<lambda>(ended, d'). Inr d')
      else finishFailedRun (rnID x) c interrupted_reason d"
  show ?case
  proof (cases ?step)
    case (Inl e)
    then show ?thesis using Cons.prems by (auto simp: quiet_refl)
  next
    case (Inr d1)
    then have q: "quiet d d1" using Cons.prems(1)
      by (auto split: if_splits elim!: bindrE intro: quiet_finishCancelledRun quiet_finishFailedRun)
    moreover have "recover_runs c xs d1 = (res, d')" using Cons.prems(2) Inr by simp
    ultimately show ?thesis using Cons.IH[OF quiet_inv[OF q]] by (blast intro: quiet_trans)
  qed
qed

lemma quiet_recoverInterruptedRuns: "inv d \<Longrightarrow> recoverInterruptedRuns c d = (res, d') \<Longrightarrow> quiet d d'"
  unfolding recoverInterruptedRuns_def by (rule quiet_recover_runs)

lemma quiet_appendMessageReceipt: "inv d \<Longrightarrow> appendMessageReceipt c r m t md d = Inr (m', d') \<Longrightarrow> quiet d d'"
  unfolding appendMessageReceipt_def
  by (auto simp: Let_def split: option.splits if_splits elim!: bindrE intro: quiet_insert_message)

end
