(* ===== verification/InputOps.thy ===== *)
theory InputOps
  imports ConvOps
begin

text \<open>
  The operations of \<open>RunInputs\<close> as changes of the database: accepting, applying, cancelling
  and resuming inputs are quiet; starting a queued input or a submission adds exactly one
  running run.
\<close>

section \<open>Accepting and applying\<close>

lemma check_request_kind: "check_request q = Inr x \<Longrightarrow> rqKind q = ''adjust'' \<or> rqKind q = ''next''"
  unfolding check_request_def by (auto split: if_splits)

lemma AcceptRunInput_cases:
  assumes "AcceptRunInput prepare w u c q d = Inr (item, d')"
  obtains "d' = d" "find_input d w u c (rqID q) = Some item" "riDigest item = request_digest q"
  | cv r mode perm body md d2 where
      "check_request q = Inr (mode, perm)" "find_input d w u c (rqID q) = None"
      "owned_conversation d w c = Some cv" "member_enabled d w u"
      "\<not> list_ex (\<lambda>r. rnConversation r = c \<and> rnSubmission r = Some (rqID q)) (runs d)"
      "find_run d (rqRunID q) c = Some r" "rnStatus r = ''running''"
      "length (open_inputs d c) < input_limit" "\<not> list_ex (\<lambda>x. riID x = rqID q) (inputs d)"
      "item = input_row q w u c (cvModel cv) mode perm body md d"
      "d2 = (let d1 = d\<lparr>inputs := inputs d @ [item], nextOrder := nextOrder d + 1\<rparr> in
         if rqKind q = ''adjust'' then supersede_waiting (rqRunID q) (rqID q) d1 else d1)"
      "event_append (rqRunID q) c ''RUN_INPUT_ACCEPTED''
         [(''input_id'', JStr (rqID q)), (''kind'', JStr (rqKind q)), (''status'', JStr (riStatus item))] d2 = Inr d'"
proof -
  from assms obtain mode perm where chk: "check_request q = Inr (mode, perm)"
    by (auto simp: AcceptRunInput_def elim!: bindrE)
  show ?thesis
  proof (cases "find_input d w u c (rqID q)")
    case (Some x)
    then show ?thesis using assms chk that(1) by (auto simp: AcceptRunInput_def split: if_splits)
  next
    case None
    show ?thesis
      using assms None chk
      by (auto simp: AcceptRunInput_def Let_def not_le split: option.splits if_splits elim!: bindrE
          intro: that(2)[of mode perm])
  qed
qed

lemma supersede_row: "itStatus x = ''pending'' \<Longrightarrow> interaction_ev x (x\<lparr>itStatus := s, itResponse := t\<rparr>)"
  by (simp add: interaction_ev_def)

lemma quiet_supersede_waiting: "inv d \<Longrightarrow> quiet d (supersede_waiting r i d)"
  unfolding supersede_waiting_def
  by (rule quiet_trans[OF quiet_cancel_permissions quiet_on_interactions])
    (auto intro: quiet_inv quiet_cancel_permissions supersede_row)

lemma input_row_ok:
  assumes "rqKind q = ''adjust'' \<or> rqKind q = ''next''"
  shows "input_ok (input_row q w u c model mode perm body md d)"
    and "riStatus (input_row q w u c model mode perm body md d) \<noteq> ''started''"
  using assms by (auto simp: input_ok_def input_row_def)

lemma quiet_AcceptRunInput:
  assumes i: "inv d" and e: "AcceptRunInput prepare w u c q d = Inr (item, d')"
  shows "quiet d d'"
  using e
proof (cases rule: AcceptRunInput_cases)
  case 1
  then show ?thesis using i by (simp add: quiet_refl)
next
  case (2 cv r mode perm body md d2)
  let ?d1 = "d\<lparr>inputs := inputs d @ [item], nextOrder := nextOrder d + 1\<rparr>"
  have ids: "riID item = rqID q" "riConversation item = c" by (simp_all add: 2(10) input_row_def)
  have q1: "quiet d ?d1"
    using input_row_ok[OF check_request_kind[OF 2(1)]] 2(8,9) ids
    by (intro quiet_insert_input[OF i]) (auto simp: 2(10) list_ex_iff)
  then have "quiet d d2" unfolding 2(11) Let_def
    by (auto intro: quiet_trans[OF q1 quiet_supersede_waiting[OF quiet_inv[OF q1]]])
  then show ?thesis by (rule quiet_then_event[OF _ 2(12)])
qed

lemma applied_row:
  assumes "input_ok i" "riStatus i = ''pending''"
  shows "input_ev i (i\<lparr>riStatus := ''applied'', riMessage := Some m, riRevision := riRevision i + 1\<rparr>)"
    and "started_run rs (i\<lparr>riStatus := ''applied'', riMessage := Some m, riRevision := riRevision i + 1\<rparr>)"
  using assms by (simp_all add: input_ev_def input_final_def input_ok_def started_run_def)

lemma insert_message_inputs: "insert_message c r m t md d = Inr (row, d') \<Longrightarrow> inputs d' = inputs d"
  by (auto elim: insert_message_eq)

text \<open>The rows still to apply are pending: their IDs are distinct from the ones applied.\<close>

lemma quiet_apply_items:
  assumes "inv d" "apply_items c r xs d = Inr (ms, d')" "distinct (map riID xs)"
    "\<And>x. x \<in> set xs \<Longrightarrow> x \<in> set (inputs d) \<and> riStatus x = ''pending''"
  shows "quiet d d'"
  using assms
proof (induction xs arbitrary: d ms)
  case Nil
  then show ?case by (simp add: quiet_refl)
next
  case (Cons i xs)
  let ?f = "\<lambda>m x. x\<lparr>riStatus := ''applied'', riMessage := Some m, riRevision := riRevision x + 1\<rparr>"
  from Cons.prems(2) obtain row d1 ms'
    where 1: "insert_message c r (adjustment_message i) []
          [(''run_input_id'', JStr (riID i)), (''submitted_by'', uuid_json (riSubmittedBy i)), (''input_kind'', JStr ''adjust'')] d = Inr (row, d1)"
      and 2: "apply_items c r xs (on_inputs (\<lambda>x. riID x = riID i) (?f (dmID row)) d1) = Inr (ms', d')"
    by (auto elim!: bindrE)
  let ?d2 = "on_inputs (\<lambda>x. riID x = riID i) (?f (dmID row)) d1"
  have q1: "quiet d d1" by (rule quiet_insert_message[OF Cons.prems(1) 1])
  note i1 = quiet_inv[OF q1]
  have ins: "inputs d1 = inputs d" by (rule insert_message_inputs[OF 1])
  have pend: "i \<in> set (inputs d1)" "riStatus i = ''pending''" using Cons.prems(4)[of i] ins by auto
  have q2: "quiet d1 ?d2"
  proof (rule quiet_on_inputs[OF i1])
    fix x assume x: "x \<in> set (inputs d1)" "riID x = riID i" "input_ok x"
    then have "x = i" using the_input[OF i1 pend(1)] by blast
    then show "input_ev x (?f (dmID row) x) \<and> started_run (runs d1) (?f (dmID row) x)"
      using x(3) pend(2) applied_row by blast
  qed
  have "quiet ?d2 d'"
  proof (rule Cons.IH[OF quiet_inv[OF q2] 2])
    show "distinct (map riID xs)" using Cons.prems(3) by simp
    fix x assume x: "x \<in> set xs"
    then have "riID x \<noteq> riID i" using Cons.prems(3) by (auto simp: rev_image_eqI)
    then show "x \<in> set (inputs ?d2) \<and> riStatus x = ''pending''"
      using Cons.prems(4)[of x] x ins by (auto simp: on_inputs_def set_update_where image_iff)
  qed
  then show ?case by (rule quiet_trans[OF quiet_trans[OF q1 q2]])
qed

lemma applyRunAdjustments_cases:
  assumes "applyRunAdjustments c r d = Inr (ms, d')"
  obtains x d1 where "find_run d r c = Some x" "rnStatus x = ''running''"
    "apply_items c r (pending_adjustments d c r) d = Inr (ms, d1)"
    "if pending_adjustments d c r = [] then d' = d1
     else event_append r c ''RUN_INPUT_APPLIED''
            [(''input_ids'', JArr (map (JStr \<circ> riID) (pending_adjustments d c r))),
             (''message_ids'', JArr (map (JStr \<circ> messageID) ms))] d1 = Inr d'"
  using assms by (auto simp: applyRunAdjustments_def Let_def split: option.splits if_splits elim!: bindrE)

lemma pending_adjustments_rows:
  "inv d \<Longrightarrow> distinct (map riID (pending_adjustments d c r))"
  "x \<in> set (pending_adjustments d c r) \<Longrightarrow> x \<in> set (inputs d) \<and> riStatus x = ''pending''"
  by (auto simp: pending_adjustments_def dest!: inv_inputs intro: distinct_map_filter)

lemma quiet_applyRunAdjustments:
  assumes i: "inv d" and e: "applyRunAdjustments c r d = Inr (ms, d')"
  shows "quiet d d'"
proof -
  obtain x d1 where 1: "apply_items c r (pending_adjustments d c r) d = Inr (ms, d1)"
    "if pending_adjustments d c r = [] then d' = d1
     else event_append r c ''RUN_INPUT_APPLIED''
            [(''input_ids'', JArr (map (JStr \<circ> riID) (pending_adjustments d c r))),
             (''message_ids'', JArr (map (JStr \<circ> messageID) ms))] d1 = Inr d'"
    by (rule applyRunAdjustments_cases[OF e]) blast
  have "quiet d d1" by (rule quiet_apply_items[OF i 1(1)]) (use pending_adjustments_rows i in blast)+
  with 1(2) show ?thesis by (auto split: if_splits intro: quiet_then_event)
qed

section \<open>Cancelling and resuming\<close>

lemma ChangeRunInput_cases:
  assumes "ChangeRunInput w u c i action d = Inr d'"
  obtains "d' = d"
  | x status where "find_input d w u c i = Some x" "\<not> input_final x"
      "status = ''cancelled'' \<and> action = ''cancel'' \<or> status = ''queued'' \<and> action = ''resume'' \<and> riKind x = ''next'' \<and> riStatus x = ''held''"
      "event_append (riAfterRun x) c ''RUN_INPUT_UPDATED''
         [(''input_id'', JStr i), (''status'', JStr status), (''action'', JStr action)]
         (set_input i status (action = ''resume'') d) = Inr d'"
  using assms
  by (auto simp: ChangeRunInput_def Let_def input_final_def split: option.splits if_splits)

lemma changed_row:
  assumes "input_ok i" "\<not> input_final i"
    "s = ''cancelled'' \<or> s = ''queued'' \<and> riKind i = ''next'' \<and> riStatus i = ''held''"
  shows "input_ev i (i\<lparr>riStatus := s, riResume := b, riHeldReason := None, riRevision := riRevision i + 1\<rparr>)"
    and "started_run rs (i\<lparr>riStatus := s, riResume := b, riHeldReason := None, riRevision := riRevision i + 1\<rparr>)"
proof -
  show "input_ev i (i\<lparr>riStatus := s, riResume := b, riHeldReason := None, riRevision := riRevision i + 1\<rparr>)"
    using assms(3)
  proof (elim disjE conjE)
    assume "s = ''cancelled''"
    moreover have "riStartedRun i = None" "riMessage i = None"
      using assms(1,2) by (simp_all add: input_ok_def input_final_def del: not_None_eq) blast
    moreover have "riKind i = ''next'' \<or> riKind i = ''adjust''" using assms(1) by (auto simp: input_ok_def)
    ultimately show ?thesis using assms(2) by (simp add: input_ev_def input_ok_def)
  next
    assume "s = ''queued''" "riKind i = ''next''" "riStatus i = ''held''"
    then show ?thesis using assms(1) by (simp add: input_ev_def input_final_def input_ok_def)
  qed
  show "started_run rs (i\<lparr>riStatus := s, riResume := b, riHeldReason := None, riRevision := riRevision i + 1\<rparr>)"
    using assms(3) by (elim disjE conjE) (simp_all add: started_run_def)
qed

lemma find_input_in: "find_input d w u c i = Some x \<Longrightarrow> x \<in> set (inputs d) \<and> riID x = i"
  by (auto simp: find_input_def dest: find_Some_in)

lemma quiet_ChangeRunInput:
  assumes i: "inv d" and e: "ChangeRunInput w u c n action d = Inr d'"
  shows "quiet d d'"
  using e
proof (cases rule: ChangeRunInput_cases)
  case 1
  then show ?thesis using i by (simp add: quiet_refl)
next
  case (2 x status)
  have "quiet d (set_input n status (action = ''resume'') d)"
    unfolding set_input_def
  proof (rule quiet_on_inputs[OF i])
    fix y assume y: "y \<in> set (inputs d)" "riID y = n" "input_ok y"
    then have "y = x" using the_input[OF i] find_input_in[OF 2(1)] by blast
    then show "input_ev y (y\<lparr>riStatus := status, riResume := if action = ''resume'' then True else riResume y,
          riHeldReason := None, riRevision := riRevision y + 1\<rparr>) \<and>
        started_run (runs d) (y\<lparr>riStatus := status, riResume := if action = ''resume'' then True else riResume y,
          riHeldReason := None, riRevision := riRevision y + 1\<rparr>)"
      using changed_row[OF y(3)] 2(2,3) by blast
  qed
  then show ?thesis by (rule quiet_then_event[OF _ 2(4)])
qed

section \<open>Starting a run\<close>

lemma insert_run_cases:
  assumes "insert_run c model sub actor digest mode perm body md d = Inr (r, m, d')"
  obtains d1 row where
    "sub \<noteq> None \<Longrightarrow> \<not> list_ex (\<lambda>r. rnConversation r = c \<and> rnSubmission r = sub) (runs d)"
    "r = show_nat (nextID d)" "m = dmID row"
    "insert_message c r (user_message body) [] md
       (d\<lparr>nextID := Suc (nextID d), runs := runs d @ [run_row r c model sub actor digest mode perm]\<rparr>) = Inr (row, d1)"
    "d' = on_runs (\<lambda>x. rnID x = r) (\<lambda>x. x\<lparr>rnInputMessage := Some m\<rparr>) d1"
  using assms by (auto simp: insert_run_def new_id_def split: if_splits elim!: bindrE)

lemma good_insert_run:
  assumes i: "inv d" and e: "insert_run c model sub actor digest mode perm body md d = Inr (r, m, d')"
  shows "good d d'"
    and "runs d' = runs d @ [(run_row r c model sub actor digest mode perm)\<lparr>rnInputMessage := Some m\<rparr>]"
    and "inputs d' = inputs d" and "r \<notin> rnID ` set (runs d)"
proof -
  let ?x = "run_row r c model sub actor digest mode perm"
  let ?d0 = "d\<lparr>nextID := Suc (nextID d), runs := runs d @ [?x]\<rparr>"
  let ?f = "\<lambda>x. x\<lparr>rnInputMessage := Some m\<rparr>"
  obtain d1 row where s: "sub \<noteq> None \<Longrightarrow> \<not> list_ex (\<lambda>r. rnConversation r = c \<and> rnSubmission r = sub) (runs d)"
    and r: "r = show_nat (nextID d)" and m: "m = dmID row"
    and im: "insert_message c r (user_message body) [] md ?d0 = Inr (row, d1)"
    and d': "d' = on_runs (\<lambda>x. rnID x = r) ?f d1"
    by (rule insert_run_cases[OF e]) blast
  have g0: "good d ?d0"
    by (rule good_add_run[OF i]) (use s r in \<open>auto simp: run_row_def run_ok_def active_status_def terminal_status_def\<close>)
  have q1: "quiet ?d0 d1" by (rule quiet_insert_message[OF good_inv[OF g0] im])
  have q2: "quiet d1 d'" unfolding d'
    by (rule quiet_on_runs[OF quiet_inv[OF q1]]) (simp add: run_ev_def run_ok_def)
  show "good d d'"
    by (rule good_trans[OF good_trans[OF g0 quiet_good[OF q1]] quiet_good[OF q2]])
  show fresh: "r \<notin> rnID ` set (runs d)" using not_generated[OF i] r by simp
  have rs: "runs d1 = runs d @ [?x]" using insert_message_runs[OF im] by simp
  have "update_where (\<lambda>x. rnID x = r) ?f (runs d) = runs d"
    by (rule update_where_none) (use fresh in auto)
  then show "runs d' = runs d @ [?x\<lparr>rnInputMessage := Some m\<rparr>]"
    by (simp add: d' on_runs_def rs run_row_def)
  show "inputs d' = inputs d" using insert_message_inputs[OF im] by (simp add: d' on_runs_def)
qed

text \<open>\<open>starts c r d d'\<close>: the change adds the run \<open>r\<close> of the conversation and no other.\<close>

definition starts :: "uuid \<Rightarrow> uuid \<Rightarrow> db \<Rightarrow> db \<Rightarrow> bool" where
  "starts c r d d' = (good d d' \<and> (\<exists>x. runs d' = runs d @ [x] \<and> rnID x = r \<and> rnConversation x = c \<and> rnStatus x = ''running''))"

lemma start_submission_starts:
  assumes i: "inv d" and e: "start_submission prepare w u c s digest mode perm d = Inr (r, d')"
  shows "starts c r d d'"
proof -
  from e obtain model body md m d1 sub where
    1: "insert_run c model sub (Some u) digest mode perm body md d = Inr (r, m, d1)"
    and 2: "event_append r c ''RUN_STARTED'' [(''input_message_id'', JStr m)] d1 = Inr d'"
    by (auto simp: start_submission_def split: option.splits if_splits elim!: bindrE)
  note g = good_insert_run[OF i 1]
  have "good d d'" by (rule good_trans[OF g(1) quiet_good[OF quiet_event_append[OF good_inv[OF g(1)] 2]]])
  then show ?thesis using g(2) event_append_runs[OF 2] by (simp add: starts_def run_row_def)
qed

text \<open>What starting a queued input does to its row.\<close>

definition started_row :: "uuid \<Rightarrow> uuid \<Rightarrow> run_input \<Rightarrow> run_input" where
  "started_row m r x = x\<lparr>riStatus := ''started'', riMessage := Some m, riStartedRun := Some r, riRevision := riRevision x + 1\<rparr>"

lemma claimQueuedInput_cases:
  assumes "claimQueuedInput w c d = Inr (res, d')"
  obtains "res = None" "d' = d"
  | i reason where "res = None" "List.find (\<lambda>i. riWorkspace i = w \<and> queued_next c i) (inputs d) = Some i"
      "held_event (riAfterRun i) c (riID i) (hold_input (riID i) reason d) = Inr d'"
  | i u r m d1 d2 where "List.find (\<lambda>i. riWorkspace i = w \<and> queued_next c i) (inputs d) = Some i"
      "active_runs d c = []" "riSubmittedBy i = Some u" "member_enabled d w u"
      "\<exists>prev. find_run d (riAfterRun i) c = Some prev \<and> (rnStatus prev = ''completed'' \<or> riResume i)"
      "insert_run c (riModel i) (Some (riID i)) (riSubmittedBy i) (riDigest i) (riExecMode i) (riPermMode i)
                        (riContent i) (riMetadata i @ [(''run_input_id'', JStr (riID i)), (''input_kind'', JStr ''next'')]) d = Inr (r, m, d1)"
      "event_append r c ''RUN_STARTED'' [(''input_id'', JStr (riID i)), (''input_message_id'', JStr m)]
                        (on_inputs (\<lambda>x. riID x = riID i) (started_row m r) d1) = Inr d2"
      "event_append r c ''RUN_INPUT_STARTED'' [(''input_id'', JStr (riID i)), (''status'', JStr ''started'')] d2 = Inr d'"
      "res = Some r"
proof -
  consider "List.find (\<lambda>i. riWorkspace i = w \<and> queued_next c i) (inputs d) = None"
    | i where "List.find (\<lambda>i. riWorkspace i = w \<and> queued_next c i) (inputs d) = Some i" by fastforce
  then show ?thesis
  proof cases
    case 1
    then show ?thesis using assms that(1) by (auto simp: claimQueuedInput_def split: if_splits)
  next
    case (2 i)
    from assms 2 obtain prev where prev: "find_run d (riAfterRun i) c = Some prev"
      by (auto simp: claimQueuedInput_def split: if_splits option.splits)
    have act: "active_runs d c = []" using assms by (auto simp: claimQueuedInput_def split: if_splits)
    have own: "owned_conversation d w c \<noteq> None" using assms by (auto simp: claimQueuedInput_def split: if_splits)
    show ?thesis
    proof (cases "rnStatus prev \<noteq> ''completed'' \<and> \<not> riResume i")
      case True
      then show ?thesis using assms 2 prev act own that(1) that(2)[of i]
        by (auto simp: claimQueuedInput_def split: if_splits elim!: bindrE)
    next
      case False
      show ?thesis
      proof (cases "case riSubmittedBy i of None \<Rightarrow> True | Some u \<Rightarrow> \<not> member_enabled d w u")
        case True
        then show ?thesis using assms 2 prev act own False that(2)[of i]
          by (auto simp: claimQueuedInput_def elim!: bindrE)
      next
        case no: False
        then obtain u where u: "riSubmittedBy i = Some u" "member_enabled d w u" by (auto split: option.splits)
        show ?thesis
          using assms 2 prev act own False no u that(3)[of i u]
          by (auto simp: claimQueuedInput_def started_row_def[abs_def] elim!: bindrE)
      qed
    qed
  qed
qed

lemma started_row_ok:
  assumes "input_ok x" "queued_next c x" "rnSubmission y = Some (riID x)" "rnID y = r" "rnConversation y = riConversation x"
    "rnSubmittedBy y = riSubmittedBy x" "y \<in> set rs"
  shows "input_ev x (started_row m r x)" "started_run rs (started_row m r x)"
  using assms by (auto simp: input_ev_def input_final_def input_ok_def queued_next_def started_row_def started_run_def)

lemma queued_found: "List.find (\<lambda>i. riWorkspace i = w \<and> queued_next c i) (inputs d) = Some i \<Longrightarrow>
    i \<in> set (inputs d) \<and> queued_next c i"
  by (auto dest: find_Some_in)

lemma quiet_hold_input:
  assumes i: "inv d" and x: "x \<in> set (inputs d)" "riStatus x = ''pending'' \<or> riStatus x = ''queued''"
  shows "quiet d (hold_input (riID x) reason d)"
  unfolding hold_input_def
proof (rule quiet_on_inputs[OF i])
  fix y assume y: "y \<in> set (inputs d)" "riID y = riID x" "input_ok y"
  then have "y = x" using the_input[OF i x(1)] by blast
  then show "input_ev y (y\<lparr>riStatus := ''held'', riHeldReason := Some reason, riRevision := riRevision y + 1\<rparr>) \<and>
      started_run (runs d) (y\<lparr>riStatus := ''held'', riHeldReason := Some reason, riRevision := riRevision y + 1\<rparr>)"
    using held_row[OF y(3)] x(2) by blast
qed

lemma claimQueuedInput_good:
  assumes i: "inv d" and e: "claimQueuedInput w c d = Inr (res, d')"
  shows "case res of None \<Rightarrow> quiet d d' | Some r \<Rightarrow> starts c r d d'"
  using e
proof (cases rule: claimQueuedInput_cases)
  case 1
  then show ?thesis using i by (simp add: quiet_refl)
next
  case (2 x reason)
  from queued_found[OF 2(2)] have x: "x \<in> set (inputs d)" "riStatus x = ''queued''" by (auto simp: queued_next_def)
  have "quiet d d'"
    by (rule quiet_then_event[OF quiet_hold_input[OF i x(1)] 2(3)[unfolded held_event_def]]) (simp add: x(2))
  then show ?thesis using 2(1) by simp
next
  case (3 x u r m d1 d2)
  let ?y = "(run_row r c (riModel x) (Some (riID x)) (riSubmittedBy x) (riDigest x) (riExecMode x) (riPermMode x))\<lparr>rnInputMessage := Some m\<rparr>"
  let ?d2 = "on_inputs (\<lambda>z. riID z = riID x) (started_row m r) d1"
  from queued_found[OF 3(1)] have x: "x \<in> set (inputs d)" "queued_next c x" by auto
  note g = good_insert_run[OF i 3(6)]
  note i1 = good_inv[OF g(1)]
  have q: "quiet d1 ?d2"
  proof (rule quiet_on_inputs[OF i1])
    fix z assume z: "z \<in> set (inputs d1)" "riID z = riID x" "input_ok z"
    then have "z = x" using the_input[OF i x(1)] g(3) by simp
    then show "input_ev z (started_row m r z) \<and> started_run (runs d1) (started_row m r z)"
      using started_row_ok[OF z(3), of c ?y r "runs d1" m] x(2) g(2) by (auto simp: run_row_def queued_next_def)
  qed
  have q2: "quiet d1 d2" by (rule quiet_then_event[OF q 3(7)])
  have q3: "quiet d1 d'" by (rule quiet_then_event[OF q2 3(8)])
  have rs: "runs d' = runs d1" using event_append_runs[OF 3(7)] event_append_runs[OF 3(8)] by (simp add: frames)
  have "good d d'" by (rule good_trans[OF g(1) quiet_good[OF q3]])
  then show ?thesis using g(2) 3(9) rs by (simp add: starts_def run_row_def)
qed

end
