(* ===== verification/ApprovalOps.thy ===== *)
theory ApprovalOps
  imports InputOps
begin

text \<open>
  The operations of \<open>Permissions\<close> and \<open>Interactions\<close> as quiet changes of the database:
  what each does to the row it is about, and that the row law allows it.
\<close>

lemmas permission_laws = permission_ev_def permission_settled_def permission_ok_def

section \<open>Asking for a permission\<close>

lemma authorize_request_cases:
  assumes "authorize_request tabs jsonb c r call n0 args d = Inr (res, d')"
  obtains "res = None" "d' = d"
  | x p digest ws d2 where "find_run d r c = Some x" "rnStatus x = ''running''" "fst (needsPermission tabs (rnPermMode x) (permissionTool n0) args)"
      "permissionDigest (permissionTool n0) args = Some digest"
      "\<exists>k. recorded_call d c r call = Some k \<and> permissionDigest (callName k) (jsonb (arguments k)) = Some digest"
      "find_permission d2 r call = Some p" "pmDigest p = digest" "res = Some (pmID p, digest)"
      "d2 = (if find_permission d r call \<noteq> None then snd (new_id d)
             else d\<lparr>nextID := Suc (nextID d), permissions := permissions d @ [permission_row (show_nat (nextID d)) ws c r call
                    (permissionTool n0) digest (permissionSummary (permissionTool n0) args)
                    (snd (needsPermission tabs (rnPermMode x) (permissionTool n0) args)) (rnPermRevision x)
                    (if rnPermMode x = ''auto'' \<and> permissionTool n0 = ''bash'' then ''reviewing'' else ''pending'')]\<rparr>)"
      "if pmStatus p = ''pending'' then event_append r c ''PERMISSION_REQUESTED'' [(''permission_id'', JStr (pmID p)), (''tool'', JStr (permissionTool n0))] d2 = Inr d'
       else d' = d2"
proof -
  obtain needed allowRun x where x: "find_run d r c = Some x" "rnStatus x = ''running''"
    and nd: "needsPermission tabs (rnPermMode x) (permissionTool n0) args = (needed, allowRun)"
    using assms by (auto simp: authorize_request_def Let_def split: option.splits if_splits prod.splits)
  show ?thesis
  proof (cases needed)
    case False
    then show ?thesis using assms x nd that(1) by (auto simp: authorize_request_def)
  next
    case True
    obtain digest and cv :: conversation and k and ws where dg: "permissionDigest (permissionTool n0) args = Some digest" "find_conversation d c = Some cv" "cvWorkspace cv = ws"
      and k: "recorded_call d c r call = Some k" "permissionDigest (callName k) (jsonb (arguments k)) = Some digest"
      using assms x nd True by (auto simp: authorize_request_def Let_def split: option.splits if_splits)
    let ?d2 = "if find_permission d r call \<noteq> None then snd (new_id d)
             else d\<lparr>nextID := Suc (nextID d), permissions := permissions d @ [permission_row (show_nat (nextID d)) ws c r call
                    (permissionTool n0) digest (permissionSummary (permissionTool n0) args) allowRun (rnPermRevision x)
                    (if rnPermMode x = ''auto'' \<and> permissionTool n0 = ''bash'' then ''reviewing'' else ''pending'')]\<rparr>"
    consider "res = None \<and> d' = d" | p where "find_permission ?d2 r call = Some p" "pmDigest p = digest" "res = Some (pmID p, digest)"
       "if pmStatus p = ''pending'' then event_append r c ''PERMISSION_REQUESTED'' [(''permission_id'', JStr (pmID p)), (''tool'', JStr (permissionTool n0))] ?d2 = Inr d'
       else d' = ?d2"
      using assms x nd True dg k
      by (auto simp: authorize_request_def new_id_def Let_def simp del: not_None_eq split: option.splits if_split_asm elim!: bindrE)
    then show ?thesis
    proof cases
      case 1
      then show ?thesis using that(1) by blast
    next
      case (2 p)
      then show ?thesis using that(2)[of x digest ?d2 p ws] x nd True dg k by simp
    qed
  qed
qed

lemma permission_row_ok:
  assumes "st = ''pending'' \<or> st = ''reviewing'' \<and> n = ''bash''"
  shows "permission_ok (permission_row p w c r call n dg sm al vsn st)"
    and "own_approval rs (permission_row p w c r call n dg sm al vsn st)"
  using assms by (auto simp: permission_row_def permission_ok_def own_approval_def)

lemma quiet_authorize_request:
  assumes i: "inv d" and e: "authorize_request tabs jsonb c r call n0 args d = Inr (res, d')"
  shows "quiet d d'"
  using e
proof (cases rule: authorize_request_cases)
  case 1
  then show ?thesis using i by (simp add: quiet_refl)
next
  case (2 x p digest ws d2)
  have "quiet d d2"
  proof (cases "find_permission d r call \<noteq> None")
    case True
    then show ?thesis using 2(9) quiet_new_id[OF i] by simp
  next
    case False
    then show ?thesis unfolding 2(9)
      by (auto intro!: quiet_insert_permission[OF i] permission_row_ok) (simp_all add: permission_row_def)
  qed
  with 2(10) show ?thesis by (auto split: if_splits intro: quiet_then_event)
qed

lemma quiet_abandon_permission: "inv d \<Longrightarrow> quiet d (abandon_permission p d)"
  unfolding abandon_permission_def by (rule quiet_on_permissions) (blast intro: cancelled_row)+

section \<open>Using a permission\<close>

lemma consumePermission_cases:
  assumes "consumePermission c r p digest d = Inr (b, d')"
  obtains "\<not> b" "d' = d"
  | x q where "find_run d r c = Some x" "rnStatus x = ''running''" "q \<in> set (permissions d)" "pmID q = p" "pmRun q = r"
      "pmDigest q = digest" "pmRevision q = rnPermRevision x" "pmStatus q = ''approved''" "\<not> pmConsumed q"
      "pmTool q = ''github_publish'' \<Longrightarrow> pmSource q = ''user'' \<and> pmDecision q = Some ''once''"
      "rnExecMode x = ''plan'' \<Longrightarrow> PlanReadOnlyTool (pmTool q)"
      "b" "d' = on_permission p (\<lambda>y. y\<lparr>pmConsumed := True\<rparr>) d"
proof -
  consider "\<not> b \<and> d' = d" | x q where "find_run d r c = Some x" "rnStatus x = ''running''"
      "List.find (\<lambda>q. pmID q = p \<and> pmRun q = r) (permissions d) = Some q"
      "pmDigest q = digest" "pmRevision q = rnPermRevision x" "pmStatus q = ''approved''" "\<not> pmConsumed q"
      "pmTool q = ''github_publish'' \<Longrightarrow> pmSource q = ''user'' \<and> pmDecision q = Some ''once''"
      "rnExecMode x = ''plan'' \<Longrightarrow> PlanReadOnlyTool (pmTool q)"
      "b" "d' = on_permission p (\<lambda>y. y\<lparr>pmConsumed := True\<rparr>) d"
    using assms unfolding consumePermission_def
    by (simp split: option.splits if_split_asm)
  then show ?thesis
  proof cases
    case 1
    then show ?thesis using that(1) by blast
  next
    case (2 x q)
    from find_Some_in[OF 2(3)] have "q \<in> set (permissions d)" "pmID q = p" "pmRun q = r" by auto
    with 2 show ?thesis by (intro that(2)[of x q])
  qed
qed

lemma consumed_row:
  assumes "permission_ok q" "pmStatus q = ''approved''" "\<not> pmConsumed q"
  shows "permission_ev q (q\<lparr>pmConsumed := True\<rparr>)"
    and "own_approval rs q \<Longrightarrow> own_approval rs (q\<lparr>pmConsumed := True\<rparr>)"
  using assms by (simp_all add: permission_laws own_approval_def)

lemma quiet_consumePermission:
  assumes i: "inv d" and e: "consumePermission c r p digest d = Inr (b, d')"
  shows "quiet d d'"
  using e
proof (cases rule: consumePermission_cases)
  case 1
  then show ?thesis using i by (simp add: quiet_refl)
next
  case (2 x q)
  show ?thesis unfolding 2(13) on_permission_def
  proof (rule quiet_on_permissions[OF i])
    fix y assume y: "y \<in> set (permissions d)" "pmID y = p" "permission_ok y" "own_approval (runs d) y"
    have "y = q" using the_permission[OF i 2(3) y(1)] y(2) 2(4) by simp
    then show "permission_ev y (y\<lparr>pmConsumed := True\<rparr>) \<and> own_approval (runs d) (y\<lparr>pmConsumed := True\<rparr>)"
      using consumed_row[OF y(3)] y(4) 2(8,9) by blast
  qed
qed

lemma authorize_poll_cases:
  assumes "authorize_poll c r n p digest d = Inr (res, d')"
  obtains "res \<noteq> PollGranted" "d' = d"
  | b where "authorizeRunTool c r n d = Inr ()" "consumePermission c r p digest d = Inr (b, d')"
      "res = (if b then PollGranted else PollWait)"
  using assms by (auto simp: authorize_poll_def split: option.splits if_splits elim!: bindrE)

lemma quiet_authorize_poll: "inv d \<Longrightarrow> authorize_poll c r n p digest d = Inr (res, d') \<Longrightarrow> quiet d d'"
  by (erule authorize_poll_cases) (auto intro: quiet_refl quiet_consumePermission)

section \<open>Changing the mode\<close>

lemma mode_row:
  assumes ok: "permission_ok p" and u: "undecided r p"
  shows "permission_ev p (mode_change actor mode vsn p)"
    and "own_approval rs (mode_change actor mode vsn p)"
    and "\<not> permission_settled p"
    and "\<not> pmConsumed (mode_change actor mode vsn p)" "pmToken (mode_change actor mode vsn p) = None"
proof -
  have st: "pmStatus p = ''pending'' \<or> pmStatus p = ''reviewing'' \<or> pmStatus p = ''approved'' \<and> \<not> pmConsumed p"
    using u by (simp add: undecided_def)
  have nc: "\<not> pmConsumed p" using st ok by (elim disjE conjE) (simp_all add: permission_ok_def)
  show ns: "\<not> permission_settled p"
    using st nc by (elim disjE conjE) (simp_all add: permission_settled_def)
  have "permission_ok (mode_change actor mode vsn p)"
  proof (cases "pmTool p = ''github_publish''")
    case True
    then show ?thesis using nc by (simp add: mode_change_def permission_ok_def)
  next
    case False
    then show ?thesis using nc by (simp add: mode_change_def permission_ok_def Let_def)
  qed
  then show "permission_ev p (mode_change actor mode vsn p)"
    using ns by (simp add: permission_ev_def mode_change_def Let_def)
  show "own_approval rs (mode_change actor mode vsn p)"
    by (simp add: own_approval_def mode_change_def Let_def)
  show "\<not> pmConsumed (mode_change actor mode vsn p)" "pmToken (mode_change actor mode vsn p) = None"
    using nc by (simp_all add: mode_change_def Let_def)
qed

lemma quiet_setRunPermissionModeTx:
  assumes i: "inv d" and x: "x \<in> set (runs d)" "rnStatus x = ''running''" "rnPermRevision x \<le> vsn"
  shows "quiet d (setRunPermissionModeTx (rnID x) actor mode vsn d)"
proof -
  let ?d1 = "on_runs (\<lambda>y. rnID y = rnID x) (\<lambda>y. y\<lparr>rnPermMode := mode, rnPermRevision := vsn\<rparr>) d"
  have q: "quiet d ?d1"
  proof (rule quiet_on_runs[OF i])
    fix y assume y: "y \<in> set (runs d)" "rnID y = rnID x"
    then have "y = x" using the_run[OF i x(1)] by blast
    then show "run_ev y (y\<lparr>rnPermMode := mode, rnPermRevision := vsn\<rparr>)"
      using x(2,3) by (simp add: run_ev_def run_ok_def)
  qed
  have "quiet ?d1 (on_permissions (undecided (rnID x)) (mode_change actor mode vsn) ?d1)"
    by (rule quiet_on_permissions[OF quiet_inv[OF q]]) (blast intro: mode_row)
  then show ?thesis unfolding setRunPermissionModeTx_def by (rule quiet_trans[OF q])
qed

lemma changeRunPermissionMode_cases:
  assumes "changeRunPermissionMode w actor c r mode expected d = Inr (vsn, d')"
  obtains x where "find_run d r c = Some x" "rnStatus x = ''running''" "rnPermRevision x = expected" "rnPermMode x = mode" "vsn = expected" "d' = d"
  | x where "find_run d r c = Some x" "rnStatus x = ''running''" "rnPermRevision x = expected" "rnPermMode x \<noteq> mode" "vsn = expected + 1"
      "member_enabled d w actor" "permissionMode mode = Some mode"
      "event_append r c ''PERMISSION_MODE_CHANGED'' (mode_event mode (expected + 1) actor)
                   (setRunPermissionModeTx r actor mode (expected + 1) d) = Inr d'"
  using assms
  by (auto simp: changeRunPermissionMode_def permissionMode_def Let_def split: option.splits if_splits elim!: bindrE)

lemma quiet_changeRunPermissionMode:
  assumes i: "inv d" and e: "changeRunPermissionMode w actor c r mode expected d = Inr (vsn, d')"
  shows "quiet d d'"
  using e
proof (cases rule: changeRunPermissionMode_cases)
  case (1 x)
  then show ?thesis using i by (simp add: quiet_refl)
next
  case (2 x)
  note x = find_run_in[OF 2(1)]
  have "quiet d (setRunPermissionModeTx r actor mode (expected + 1) d)"
    using quiet_setRunPermissionModeTx[OF i, of x "expected + 1"] x 2(2,3) by simp
  then show ?thesis by (rule quiet_then_event[OF _ 2(8)])
qed

section \<open>Answers\<close>

lemma respondPermission_cases:
  assumes "respondPermission w u c p digest decision d = Inr d'"
  obtains "d' = d"
  | q x d1 d3 where "q \<in> set (permissions d)" "pmID q = p" "pmWorkspace q = w" "pmConversation q = c"
      "run_with_id d (pmRun q) = Some x" "rnStatus x = ''running''" "pmStatus q = ''pending''" "digest = pmDigest q"
      "pmTool q = ''github_publish'' \<Longrightarrow> own_verified d w u x \<and> (decision = ''once'' \<or> decision = ''reject'')"
      "decision = ''run'' \<Longrightarrow> pmAllowRun q"
      "rnExecMode x = ''plan'' \<Longrightarrow> PlanReadOnlyTool (pmTool q)"
      "member_enabled d w u"
      "d1 = (if decision = ''full'' then setRunPermissionModeTx (rnID x) u ''full'' (rnPermRevision x + 1) d else d)"
      "if decision = ''full''
       then event_append (rnID x) c ''PERMISSION_MODE_CHANGED'' (mode_event ''full'' (rnPermRevision x + 1) u)
             (answer_permission p (if decision = ''reject'' then ''rejected'' else ''approved'') decision u d1) = Inr d3
       else d3 = answer_permission p (if decision = ''reject'' then ''rejected'' else ''approved'') decision u d1"
      "event_append (rnID x) c ''PERMISSION_RESPONDED''
         [(''permission_id'', JStr p), (''status'', JStr (if decision = ''reject'' then ''rejected'' else ''approved''))] d3 = Inr d'"
proof -
  obtain q x where q: "List.find (\<lambda>q. pmID q = p \<and> pmWorkspace q = w \<and> pmConversation q = c) (permissions d) = Some q"
    and x: "run_with_id d (pmRun q) = Some x" and m: "member_enabled d w u"
    and pub: "pmTool q = ''github_publish'' \<Longrightarrow> own_verified d w u x \<and> (decision = ''once'' \<or> decision = ''reject'')"
    and dg: "digest = pmDigest q" "decision = ''run'' \<Longrightarrow> pmAllowRun q"
    using assms unfolding respondPermission_def by (auto simp: Let_def split: option.splits if_split_asm)
  note qin = find_Some_in[OF q]
  show ?thesis
  proof (cases "pmStatus q = ''pending''")
    case False
    then show ?thesis using assms q x m pub dg that(1) unfolding respondPermission_def
      by (auto simp: Let_def split: if_split_asm)
  next
    case True
    have run: "rnStatus x = ''running''" "rnExecMode x = ''plan'' \<Longrightarrow> PlanReadOnlyTool (pmTool q)"
      using assms q x m pub dg True unfolding respondPermission_def by (auto simp: Let_def split: if_split_asm)
    let ?t = "if decision = ''reject'' then ''rejected'' else ''approved''"
    let ?d1 = "if decision = ''full'' then setRunPermissionModeTx (rnID x) u ''full'' (rnPermRevision x + 1) d else d"
    have "bindr (if decision = ''full'' then event_append (rnID x) c ''PERMISSION_MODE_CHANGED'' (mode_event ''full'' (rnPermRevision x + 1) u)
             (answer_permission p ?t decision u ?d1) else Inr (answer_permission p ?t decision u ?d1))
          (\<lambda>d3. event_append (rnID x) c ''PERMISSION_RESPONDED'' [(''permission_id'', JStr p), (''status'', JStr ?t)] d3) = Inr d'"
      using assms q x m pub dg True run unfolding respondPermission_def
      by (cases "decision = ''full''") (simp_all add: Let_def split: if_split_asm)
    then obtain d3 where "(if decision = ''full'' then event_append (rnID x) c ''PERMISSION_MODE_CHANGED'' (mode_event ''full'' (rnPermRevision x + 1) u)
             (answer_permission p ?t decision u ?d1) else Inr (answer_permission p ?t decision u ?d1)) = Inr d3"
      "event_append (rnID x) c ''PERMISSION_RESPONDED'' [(''permission_id'', JStr p), (''status'', JStr ?t)] d3 = Inr d'"
      by (rule bindrE)
    then show ?thesis using that(2)[of q x ?d1 d3] qin x m pub dg True run by (auto split: if_splits)
  qed
qed

lemma answered_row:
  assumes "permission_ok y" "\<not> permission_settled y" "pmToken y = None" "t = ''approved'' \<or> t = ''rejected''"
    "pmTool y = ''github_publish'' \<Longrightarrow> t = ''approved'' \<Longrightarrow> decision = ''once''"
  shows "permission_ev y (y\<lparr>pmStatus := t, pmDecision := Some decision, pmSource := ''user'', pmRespondedBy := Some u\<rparr>)"
proof -
  have "\<not> pmConsumed y" using assms(2) by (simp add: permission_settled_def)
  then show ?thesis using assms(4,3,2,5)
    by (elim disjE) (simp_all add: permission_ev_def permission_ok_def)
qed

lemma answered_target:
  assumes i: "inv d" and q: "q \<in> set (permissions d)" "pmStatus q = ''pending''" and x: "x \<in> set (runs d)" "rnID x = pmRun q"
    and y: "y \<in> set (permissions (if full then setRunPermissionModeTx (rnID x) u mode rv d else d))" "pmID y = pmID q"
  shows "\<not> permission_settled y" "pmToken y = None" "pmTool y = pmTool q" "pmRun y = pmRun q"
proof -
  have ok: "permission_ok q" using inv_permissions[OF i] q(1) by (simp add: list_all_iff)
  have u: "undecided (rnID x) q" using q(2) x(2) by (simp add: undecided_def)
  have settled: "\<not> permission_settled q \<and> pmToken q = None" using q(2) ok by (simp add: permission_settled_def permission_ok_def)
  have "y = (if full then mode_change u mode rv q else q)"
  proof (cases full)
    case True
    with y(1) obtain z where z: "z \<in> set (permissions d)" "y = (if undecided (rnID x) z then mode_change u mode rv z else z)"
      by (auto simp: setRunPermissionModeTx_def on_permissions_def on_runs_def set_update_where)
    then have "pmID z = pmID q" using y(2) by (simp add: mode_change_def Let_def split: if_splits)
    then have "z = q" using the_permission[OF i q(1) z(1)] by simp
    with z u True show ?thesis by simp
  next
    case False
    then have "y \<in> set (permissions d)" using y(1) by simp
    from the_permission[OF i q(1) this y(2)] False show ?thesis by simp
  qed
  moreover have "\<not> permission_settled (mode_change u mode rv q)"
    using mode_row(4)[OF ok u] by (simp add: permission_settled_def mode_change_def Let_def)
  ultimately show "\<not> permission_settled y" "pmToken y = None" "pmTool y = pmTool q" "pmRun y = pmRun q"
    using settled mode_row(5)[OF ok u, of u mode rv] by (simp_all add: mode_change_def Let_def)
qed

lemma quiet_respondPermission:
  assumes i: "inv d" and e: "respondPermission w u c p digest decision d = Inr d'"
  shows "quiet d d'"
  using e
proof (cases rule: respondPermission_cases)
  case 1
  then show ?thesis using i by (simp add: quiet_refl)
next
  case (2 q x d1 d3)
  let ?t = "if decision = ''reject'' then ''rejected'' else ''approved''"
  note x = run_with_id_in[OF 2(5)]
  have q1: "quiet d d1" unfolding 2(13)
    using quiet_setRunPermissionModeTx[OF i, of x "rnPermRevision x + 1" u "''full''"] x 2(6) quiet_refl[OF i] by simp
  note i1 = quiet_inv[OF q1]
  have q2: "quiet d1 (answer_permission p ?t decision u d1)"
    unfolding answer_permission_def on_permission_def
  proof (rule quiet_on_permissions[OF i1])
    fix y assume y: "y \<in> set (permissions d1)" "pmID y = p" "permission_ok y" "own_approval (runs d1) y"
    have y': "y \<in> set (permissions (if decision = ''full'' then setRunPermissionModeTx (rnID x) u ''full'' (rnPermRevision x + 1) d else d))"
      "pmID y = pmID q" using y(1,2) 2(2) unfolding 2(13) by simp_all
    note t = answered_target[OF i 2(1,7) conjunct1[OF x] conjunct2[OF x] y']
    let ?y = "y\<lparr>pmStatus := ?t, pmDecision := Some decision, pmSource := ''user'', pmRespondedBy := Some u\<rparr>"
    have "permission_ev y ?y"
      by (rule answered_row[OF y(3) t(1,2)]) (use 2(9) t(3) in auto)
    moreover have "own_approval (runs d1) ?y" unfolding own_approval_def
    proof
      assume a: "pmTool ?y = ''github_publish'' \<and> pmStatus ?y = ''approved''"
      then have v: "own_verified d w u x" "decision = ''once'' \<or> decision = ''reject''" using 2(9) t(3) by simp_all
      then have "d1 = d" unfolding 2(13) by (elim disjE) simp_all
      then show "\<exists>z \<in> set (runs d1). rnID z = pmRun ?y \<and> rnSubmittedBy z = pmRespondedBy ?y \<and> pmRespondedBy ?y \<noteq> None"
        using x t(4) v(1) by (intro bexI[of _ x]) (simp_all add: own_verified_def)
    qed
    ultimately show "permission_ev y ?y \<and> own_approval (runs d1) ?y" ..
  qed
  have "quiet d d3"
    using 2(14) quiet_trans[OF q1 q2] by (auto split: if_splits intro: quiet_then_event)
  then show ?thesis by (rule quiet_then_event[OF _ 2(15)])
qed

section \<open>Reviews\<close>

lemma claimPermissionReview_cases:
  assumes "claimPermissionReview c r p d = Inr (tok, vsn, d')"
  obtains "tok = None" "d' = d" | "tok = None" "d' = snd (new_id d)"
  | x where "find_run d r c = Some x" "rnPermMode x = ''auto''" "rnStatus x = ''running''" "vsn = rnPermRevision x"
      "tok = Some (show_nat (nextID d))" "list_ex (claimable p r vsn) (permissions d)"
      "event_append r c ''PERMISSION_REVIEW_STARTED'' [(''permission_id'', JStr p)]
                   (on_permissions (claimable p r vsn)
                     (\<lambda>y. y\<lparr>pmStatus := ''reviewing'', pmToken := tok\<rparr>) (snd (new_id d))) = Inr d'"
proof -
  obtain x where x: "find_run d r c = Some x"
    using assms unfolding claimPermissionReview_def by (cases "find_run d r c") simp_all
  show ?thesis
  proof (cases "rnPermMode x \<noteq> ''auto'' \<or> rnStatus x \<noteq> ''running''")
    case True
    then show ?thesis using assms x that(1) unfolding claimPermissionReview_def by simp
  next
    case auto: False
    show ?thesis
    proof (cases "list_ex (claimable p r (rnPermRevision x)) (permissions d)")
      case False
      then show ?thesis using assms x auto that(2) unfolding claimPermissionReview_def
        by (simp add: new_id_def Let_def)
    next
      case True
      then show ?thesis using assms x auto that(3)[of x] unfolding claimPermissionReview_def
        by (simp add: new_id_def Let_def) (erule bindrE, simp)
    qed
  qed
qed

lemma quiet_claimPermissionReview:
  assumes i: "inv d" and e: "claimPermissionReview c r p d = Inr (tok, vsn, d')"
  shows "quiet d d'"
  using e
proof (cases rule: claimPermissionReview_cases)
  case 1
  then show ?thesis using i by (simp add: quiet_refl)
next
  case 2
  then show ?thesis using quiet_new_id[OF i] by simp
next
  case (3 x)
  let ?d1 = "snd (new_id d)"
  note q1 = quiet_new_id[OF i]
  have "quiet ?d1 (on_permissions (claimable p r vsn) (\<lambda>y. y\<lparr>pmStatus := ''reviewing'', pmToken := tok\<rparr>) ?d1)"
  proof (rule quiet_on_permissions[OF quiet_inv[OF q1]])
    fix y assume y: "claimable p r vsn y" "permission_ok y"
    have "pmTool y = ''bash''" "pmStatus y = ''pending'' \<or> pmStatus y = ''reviewing''" using y(1) by (auto simp: claimable_def)
    then show "permission_ev y (y\<lparr>pmStatus := ''reviewing'', pmToken := tok\<rparr>) \<and>
        own_approval (runs ?d1) (y\<lparr>pmStatus := ''reviewing'', pmToken := tok\<rparr>)"
      using y(2) by (elim disjE) (simp_all add: permission_laws own_approval_def)
  qed
  then show ?thesis by (rule quiet_then_event[OF quiet_trans[OF q1] 3(7)])
qed

definition reviewed_row :: "command_review \<Rightarrow> uuid option \<Rightarrow> run_permission \<Rightarrow> run_permission" where
  "reviewed_row review reviewer y =
     y\<lparr>pmStatus := review_status (rvDecision review), pmDecision := review_receipt (rvDecision review), pmSource := ''llm'',
       pmReviewDecision := Some (rvDecision review), pmReviewReason := rvReason review, pmReviewer := reviewer, pmToken := None\<rparr>"

lemma finish_review_cases:
  assumes "finish_review c r p token revision digest review reviewer d = Inr d'"
  obtains "d' = d"
  | x d2 where "find_run d r c = Some x" "rnPermMode x = ''auto''" "rnStatus x = ''running''" "rnPermRevision x = revision"
      "list_ex (under_review p r token revision digest) (permissions d)"
      "event_append r c ''PERMISSION_REVIEW_COMPLETED''
         [(''permission_id'', JStr p), (''decision'', JStr (rvDecision review)), (''reviewer_model_deployment_id'', uuid_json reviewer)]
         (on_permissions (under_review p r token revision digest) (reviewed_row review reviewer) d) = Inr d2"
      "if review_status (rvDecision review) = ''pending''
       then event_append r c ''PERMISSION_REQUESTED'' [(''permission_id'', JStr p), (''tool'', JStr ''bash'')] d2 = Inr d'
       else d' = d2"
  using assms
  by (auto simp: finish_review_def Let_def reviewed_row_def[abs_def] split: option.splits if_splits elim!: bindrE)

lemma reviewed_row_law:
  assumes "permission_ok y" "pmStatus y = ''reviewing''"
  shows "permission_ev y (reviewed_row review reviewer y)" "own_approval rs (reviewed_row review reviewer y)"
proof -
  have t: "pmTool y = ''bash''" "\<not> permission_settled y" "\<not> pmConsumed y"
    using assms by (auto simp: permission_ok_def permission_settled_def)
  show "permission_ev y (reviewed_row review reviewer y)"
    using t by (simp add: permission_ev_def reviewed_row_def permission_ok_def review_status_def review_receipt_def)
  show "own_approval rs (reviewed_row review reviewer y)"
    using t by (simp add: own_approval_def reviewed_row_def)
qed

lemma quiet_finish_review:
  assumes i: "inv d" and e: "finish_review c r p token revision digest review reviewer d = Inr d'"
  shows "quiet d d'"
  using e
proof (cases rule: finish_review_cases)
  case 1
  then show ?thesis using i by (simp add: quiet_refl)
next
  case (2 x d2)
  have "quiet d (on_permissions (under_review p r token revision digest) (reviewed_row review reviewer) d)"
    by (rule quiet_on_permissions[OF i]) (simp add: under_review_def reviewed_row_law)
  then have "quiet d d2" by (rule quiet_then_event[OF _ 2(6)])
  with 2(7) show ?thesis by (auto split: if_splits intro: quiet_then_event)
qed

lemma quiet_note_reviewer: "inv d \<Longrightarrow> quiet d (note_reviewer p token reviewer d)"
  unfolding note_reviewer_def
  by (rule quiet_on_permissions) (auto simp: permission_laws own_approval_def)

section \<open>Questions, plans and schedules\<close>

lemma insert_interaction_quiet:
  assumes i: "inv d" and e: "insert_interaction w c r call q d = Inr (row, d')"
  shows "quiet d d'"
proof -
  let ?row = "interaction_row (show_nat (nextID d)) w c r call q"
  from e have w: "\<not> list_ex (\<lambda>x. itRun x = r \<and> itStatus x = ''pending'') (interactions d)"
    and ev: "event_append r c ''INTERACTION_REQUESTED''
                 [(''interaction_id'', JStr (show_nat (nextID d))), (''kind'', JStr (irKind q)), (''request_digest'', JStr (itDigest ?row))]
                 (d\<lparr>nextID := Suc (nextID d), interactions := interactions d @ [?row]\<rparr>) = Inr d'"
    by (auto simp: insert_interaction_def new_id_def Let_def split: if_splits elim!: bindrE)
  have "quiet d (d\<lparr>nextID := Suc (nextID d), interactions := interactions d @ [?row]\<rparr>)"
    by (rule quiet_insert_interaction[OF i]) (use w in \<open>simp_all add: interaction_row_def interaction_ok_def\<close>)
  then show ?thesis by (rule quiet_then_event[OF _ ev])
qed

lemma createRunInteraction_cases:
  assumes "createRunInteraction sv jsonb c r call q d = Inr (row, d')"
  obtains "d' = d" "row \<in> set (interactions d)" "itRun row = r" "itCall row = call"
  | w q' where "insert_interaction w c r call q' d = Inr (row, d')" "irKind q' = irKind q"
proof -
  show ?thesis
    using assms that unfolding createRunInteraction_def
    by (auto simp: Let_def split: option.splits if_split_asm dest!: find_Some_in)
qed

lemma quiet_createRunInteraction:
  "inv d \<Longrightarrow> createRunInteraction sv jsonb c r call q d = Inr (row, d') \<Longrightarrow> quiet d d'"
  by (erule createRunInteraction_cases) (auto intro: quiet_refl insert_interaction_quiet)

definition answered_interaction :: "string \<Rightarrow> string \<Rightarrow> uuid \<Rightarrow> run_interaction \<Rightarrow> run_interaction" where
  "answered_interaction status raw u z = z\<lparr>itStatus := status, itResponse := Some raw, itRespondedBy := Some u\<rparr>"

definition leave_plan :: "uuid \<Rightarrow> string \<Rightarrow> db \<Rightarrow> db" where
  "leave_plan r digest = on_runs (\<lambda>z. rnID z = r \<and> rnStatus z = ''running'' \<and> rnExecMode z = ''plan'')
     (\<lambda>z. z\<lparr>rnExecMode := ''execute'', rnApprovedPlan := Some digest\<rparr>)"

lemma RespondRunInteraction_cases:
  assumes "RespondRunInteraction sv w u c i s d = Inr d'"
  obtains y where "d' = d" "y \<in> set (interactions d)" "itID y = i" "itStatus y \<noteq> ''pending''"
  | y x status d1 where "y \<in> set (interactions d)" "itID y = i" "itConversation y = c" "itWorkspace y = w"
      "find_run d (itRun y) c = Some x" "rnStatus x = ''running''" "rsDigest s = itDigest y" "member_enabled d w u"
      "interactionResponseStatus (itRequest y) s = Some status" "itStatus y = ''pending''"
      "itKind y = ''plan'' \<Longrightarrow> rnExecMode x = ''plan''"
      "itKind y = ''automation'' \<Longrightarrow> rnSubmittedBy x = Some u"
      "itKind y = ''automation'' \<Longrightarrow> status = ''approved'' \<Longrightarrow>
         rnExecMode x = ''execute'' \<and> available sv \<and> applySchedule sv d c (itRun y) u (irPreview (itRequest y))"
      "d1 = (if status = ''approved'' \<and> itKind y = ''plan'' then leave_plan (itRun y) (itDigest y) d else d)"
      "event_append (itRun y) c ''INTERACTION_RESPONDED''
         [(''interaction_id'', JStr i), (''kind'', JStr (itKind y)), (''status'', JStr status), (''request_digest'', JStr (itDigest y))]
         (on_interactions (\<lambda>z. itID z = i) (answered_interaction status (render (response_json s)) u) d1) = Inr d'"
proof -
  obtain y x status where y: "List.find (\<lambda>y. itID y = i \<and> itConversation y = c \<and> itWorkspace y = w) (interactions d) = Some y"
    and x: "find_run d (itRun y) c = Some x" and m: "member_enabled d w u" and dg: "rsDigest s = itDigest y"
    and st: "interactionResponseStatus (itRequest y) s = Some status"
    and sub: "itKind y = ''automation'' \<Longrightarrow> rnSubmittedBy x = Some u"
    using assms unfolding RespondRunInteraction_def by (auto simp: Let_def split: option.splits if_split_asm)
  note yin = find_Some_in[OF y]
  show ?thesis
  proof (cases "itStatus y = ''pending''")
    case False
    then show ?thesis using assms y x m dg st sub that(1)[of y] yin unfolding RespondRunInteraction_def
      by (auto simp: Let_def split: if_split_asm option.splits)
  next
    case True
    have g: "rnStatus x = ''running''" "itKind y = ''plan'' \<Longrightarrow> rnExecMode x = ''plan''"
      "itKind y = ''automation'' \<Longrightarrow> status = ''approved'' \<Longrightarrow>
         rnExecMode x = ''execute'' \<and> available sv \<and> applySchedule sv d c (itRun y) u (irPreview (itRequest y))"
      using assms y x m dg st sub True unfolding RespondRunInteraction_def by (auto simp: Let_def split: if_split_asm)
    have "event_append (itRun y) c ''INTERACTION_RESPONDED''
         [(''interaction_id'', JStr i), (''kind'', JStr (itKind y)), (''status'', JStr status), (''request_digest'', JStr (itDigest y))]
         (on_interactions (\<lambda>z. itID z = i) (answered_interaction status (render (response_json s)) u)
           (if status = ''approved'' \<and> itKind y = ''plan'' then leave_plan (itRun y) (itDigest y) d else d)) = Inr d'"
      using assms y x m dg st sub True g unfolding RespondRunInteraction_def answered_interaction_def[abs_def] leave_plan_def
      by (cases "status = ''approved'' \<and> itKind y = ''plan''") (auto simp: Let_def split: if_split_asm)
    then show ?thesis using that(2)[of y x status] yin x m dg st sub True g by simp
  qed
qed

lemma quiet_leave_plan: "inv d \<Longrightarrow> quiet d (leave_plan r digest d)"
  unfolding leave_plan_def by (rule quiet_on_runs) (auto simp: run_ev_def run_ok_def)

lemma quiet_RespondRunInteraction:
  assumes i: "inv d" and e: "RespondRunInteraction sv w u c n s d = Inr d'"
  shows "quiet d d'"
  using e
proof (cases rule: RespondRunInteraction_cases)
  case 1
  then show ?thesis using i by (simp add: quiet_refl)
next
  case (2 y x status d1)
  have q1: "quiet d d1" unfolding 2(14) using quiet_leave_plan[OF i] quiet_refl[OF i] by simp
  have its: "interactions d1 = interactions d" unfolding 2(14) by (simp add: leave_plan_def on_runs_def)
  have "quiet d1 (on_interactions (\<lambda>z. itID z = n) (answered_interaction status (render (response_json s)) u) d1)"
  proof (rule quiet_on_interactions[OF quiet_inv[OF q1]])
    fix z assume z: "z \<in> set (interactions d1)" "itID z = n"
    then have "z = y" using the_interaction[OF i 2(1), of z] 2(2) its by simp
    then show "interaction_ev z (answered_interaction status (render (response_json s)) u z)"
      using 2(10) by (simp add: interaction_ev_def answered_interaction_def)
  qed
  then show ?thesis by (rule quiet_then_event[OF quiet_trans[OF q1] 2(15)])
qed

lemma enterRunPlanMode_cases:
  assumes "enterRunPlanMode jsonb c r call reason d = Inr (mode, d')"
  obtains x where "find_run d r c = Some x" "mode = rnExecMode x" "d' = d" "plan_change_applied d r call"
  | x k where "find_run d r c = Some x" "rnStatus x = ''running''" "mode = ''plan''" "\<not> plan_change_applied d r call"
      "recorded_tool_call d c r call ''enter_plan_mode'' = Some k" "recorded_reason (jsonb (arguments k)) = Some reason"
      "event_append r c ''EXECUTION_MODE_CHANGED''
         [(''execution_mode'', JStr ''plan''), (''reason'', JStr reason), (''tool_call_id'', JStr call)]
         (on_runs (\<lambda>z. rnID z = r) (\<lambda>z. z\<lparr>rnExecMode := ''plan'', rnApprovedPlan := None\<rparr>) d) = Inr d'"
  using assms unfolding enterRunPlanMode_def
  by (auto split: option.splits if_split_asm elim!: bindrE)

lemma quiet_enterRunPlanMode:
  assumes i: "inv d" and e: "enterRunPlanMode jsonb c r call reason d = Inr (mode, d')"
  shows "quiet d d'"
  using e
proof (cases rule: enterRunPlanMode_cases)
  case (1 x)
  then show ?thesis using i by (simp add: quiet_refl)
next
  case (2 x k)
  have "quiet d (on_runs (\<lambda>z. rnID z = r) (\<lambda>z. z\<lparr>rnExecMode := ''plan'', rnApprovedPlan := None\<rparr>) d)"
  proof (rule quiet_on_runs[OF i])
    fix z assume z: "z \<in> set (runs d)" "rnID z = r"
    then have "z = x" using the_run[OF i, of x z] find_run_in[OF 2(1)] by simp
    then show "run_ev z (z\<lparr>rnExecMode := ''plan'', rnApprovedPlan := None\<rparr>)"
      using 2(2) by (simp add: run_ev_def run_ok_def)
  qed
  then show ?thesis by (rule quiet_then_event[OF _ 2(7)])
qed

end
