(* ===== verification/ModelRequests.thy ===== *)
theory ModelRequests
  imports ConvOps Checkpoint
begin

text \<open>
  The records the executor keeps of its model requests: \<open>model_usage.go\<close>,
  \<open>context_checkpoints.go\<close> and \<open>event\<close> of \<open>service.go\<close> (all in
  \<open>backend/internal/conversation\<close>).  A request is registered before it is sent and closed
  with its usage; a checkpoint is stored when nobody stored one in between and its sources
  are durable.  Every operation is a quiet change of the database.
\<close>

section \<open>Usage rows\<close>

definition int_json :: "int \<Rightarrow> json" where
  "int_json n = JNum (show_int n)"

definition usage_json :: "usage \<Rightarrow> json" where
  "usage_json u = JObj (
     [(''provider'', JStr (uProvider u)), (''source'', JStr (uSource u)), (''input_tokens'', int_json (uInput u)),
      (''output_tokens'', int_json (uOutput u)), (''cache_read_input_tokens'', int_json (uCacheRead u)),
      (''cache_creation_input_tokens'', int_json (uCacheCreation u)), (''cached_included'', JBool (uCachedIncluded u)),
      (''input_reported'', JBool (uInputReported u)), (''output_reported'', JBool (uOutputReported u))]
     @ (if uRaw u = [] then [] else [(''raw'', JObj (go_map (map (\<lambda>(k, n). (k, int_json n)) (uRaw u))))]))"

definition no_usage :: usage where
  "no_usage = \<lparr>uProvider = [], uSource = ''missing'', uInput = 0, uOutput = 0, uCacheRead = 0, uCacheCreation = 0,
     uCachedIncluded = False, uInputReported = False, uOutputReported = False, uRaw = []\<rparr>"

text \<open>The next index of a run's requests; the table refuses an estimate that is not positive.\<close>

definition next_index :: "db \<Rightarrow> uuid \<Rightarrow> int" where
  "next_index d r = foldl max 0 (map muIndex (filter (\<lambda>m. muRun m = r) (modelRequests d))) + 1"

definition startModelRequest :: "uuid \<Rightarrow> string \<Rightarrow> budget \<Rightarrow> db \<Rightarrow> err + (int \<times> db)" where
  "startModelRequest r purpose b d =
     (if run_with_id d r = None \<or> estimatedInput b \<le> 0 then Inl (OtherErr ''model_request_usage'')
      else (let i = next_index d r in
        Inr (i, d\<lparr>modelRequests := modelRequests d @
          [\<lparr>muRun = r, muIndex = i, muPurpose = purpose, muStatus = ''started'', muEstimated = estimatedInput b,
            muUsage = None, muErrorKind = None\<rparr>]\<rparr>)))"

definition request_status :: "go_error option \<Rightarrow> string" where
  "request_status e =
     (if e = None then ''completed'' else if error_kind_of e = ''cancelled'' then ''cancelled'' else ''failed'')"

definition finishModelRequest :: "uuid \<Rightarrow> int \<Rightarrow> usage option \<Rightarrow> go_error option \<Rightarrow> db \<Rightarrow> db" where
  "finishModelRequest r i us e =
     on_requests (\<lambda>m. muRun m = r \<and> muIndex m = i)
       (\<lambda>m. m\<lparr>muStatus := request_status e,
              muUsage := Some (marshal (usage_json (case us of None \<Rightarrow> no_usage | Some u \<Rightarrow> u))),
              muErrorKind := (if error_kind_of e = [] then None else Some (error_kind_of e))\<rparr>)"

section \<open>Events outside a transaction\<close>

text \<open>\<open>Service.event\<close>: an event that cannot be written is logged and lost.\<close>

definition emit :: "uuid \<Rightarrow> uuid \<Rightarrow> string \<Rightarrow> gomap \<Rightarrow> db \<Rightarrow> db" where
  "emit r c kind payload d = (case event_append r c kind payload d of Inl e \<Rightarrow> d | Inr d' \<Rightarrow> d')"

section \<open>Stored checkpoints\<close>

definition latest_checkpoint :: "db \<Rightarrow> uuid \<Rightarrow> checkpoint_row option" where
  "latest_checkpoint d c =
     (case rev (sort_key ckCount (filter (\<lambda>k. ckConversation k = c) (checkpoints d))) of [] \<Rightarrow> None | k # _ \<Rightarrow> Some k)"

text \<open>\<open>jsonb\<close> is the text PostgreSQL gives back for a stored document.\<close>

definition stored_checkpoint :: "(string \<Rightarrow> string) \<Rightarrow> checkpoint_row \<Rightarrow> checkpoint" where
  "stored_checkpoint jsonb k =
     \<lparr>cpID = ckID k, throughSeq = ckThrough k, retainedIDs = ckRetained k, cpSummary = jsonb (ckSummary k),
      sourceDigest = ckDigest k, sourceCount = ckCount k, cpModel = ckModel k\<rparr>"

definition loadContextCheckpoint :: "(string \<Rightarrow> string) \<Rightarrow> uuid \<Rightarrow> uuid \<Rightarrow> db \<Rightarrow> err + checkpoint option" where
  "loadContextCheckpoint jsonb c r d =
     (case (find_conversation d c, find_run d r c) of
        (Some cv, Some x) \<Rightarrow>
          if rnStatus x \<noteq> ''running'' then Inr None
          else (case latest_checkpoint d c of
              None \<Rightarrow> Inr None
            | Some k \<Rightarrow>
                if ckWorkspace k \<noteq> cvWorkspace cv then Inr None
                else (case ValidateSummary (jsonb (ckSummary k)) of
                    Inl e \<Rightarrow> Inl (OtherErr ''summary'')
                  | Inr s \<Rightarrow> Inr (Some (stored_checkpoint jsonb k))))
      | _ \<Rightarrow> Inr None)"

text \<open>The sources that are messages of the conversation up to the boundary.\<close>

definition durable_sources :: "db \<Rightarrow> uuid \<Rightarrow> plan \<Rightarrow> db_message list" where
  "durable_sources d c pl =
     filter (\<lambda>m. dmConversation m = c \<and> dmID m \<in> set (plSourceIDs pl) \<and> dmSeq m \<le> plThroughSeq pl \<and>
       \<not> metadata_true (dmMetadata m) ''incomplete'') (messages d)"

definition checkpoint_of :: "uuid \<Rightarrow> plan \<Rightarrow> string \<Rightarrow> string \<Rightarrow> checkpoint" where
  "checkpoint_of i pl summary model =
     \<lparr>cpID = i, throughSeq = plThroughSeq pl, retainedIDs = plRetainedIDs pl, cpSummary = summary,
      sourceDigest = plDigest pl, sourceCount = plSourceCount pl, cpModel = model\<rparr>"

definition checkpoint_row_of :: "uuid \<Rightarrow> uuid \<Rightarrow> uuid \<Rightarrow> checkpoint option \<Rightarrow> plan \<Rightarrow> checkpoint \<Rightarrow> int \<Rightarrow> int \<Rightarrow> checkpoint_row" where
  "checkpoint_row_of w c r previous pl cp was now =
     \<lparr>ckID = cpID cp, ckWorkspace = w, ckConversation = c, ckRun = r, ckPrevious = map_option cpID previous,
      ckThrough = throughSeq cp, ckRetained = retainedIDs cp, ckSources = plSourceIDs pl, ckDigest = sourceDigest cp,
      ckCount = sourceCount cp, ckModel = cpModel cp, ckSummary = cpSummary cp, ckBefore = was, ckAfter = now\<rparr>"

definition compacted_event :: "checkpoint \<Rightarrow> int \<Rightarrow> int \<Rightarrow> gomap" where
  "compacted_event cp was now =
     [(''checkpoint_id'', JStr (cpID cp)), (''through_seq'', int_json (throughSeq cp)), (''source_count'', int_json (sourceCount cp)),
      (''estimated_before'', int_json was), (''estimated_after'', int_json now), (''source'', JStr ''estimated'')]"

definition saveContextCheckpoint :: "uuid \<Rightarrow> uuid \<Rightarrow> checkpoint option \<Rightarrow> plan \<Rightarrow> string \<Rightarrow> string \<Rightarrow> int \<Rightarrow> int \<Rightarrow>
    db \<Rightarrow> err + (checkpoint \<times> db)" where
  "saveContextCheckpoint c r previous pl summary model was now d =
     (case find_conversation d c of
        None \<Rightarrow> Inl NoRows
      | Some cv \<Rightarrow>
       (case find_run d r c of
          None \<Rightarrow> Inl NoRows
        | Some x \<Rightarrow>
           if rnStatus x \<noteq> ''running'' then Inl ErrRunNotActive
           else if map_option ckID (latest_checkpoint d c) \<noteq> map_option cpID previous
           then Inl (OtherErr ''context checkpoint changed before commit'')
           else if length (durable_sources d c pl) \<noteq> length (plSourceIDs pl)
           then Inl (OtherErr ''context checkpoint sources are not durable conversation messages'')
           else if plThroughSeq pl \<le> 0 \<or> plSourceIDs pl = [] \<or> plSourceCount pl \<le> 0 \<or> was \<le> 0 \<or> now \<le> 0 \<or> was \<le> now
           then Inl (OtherErr ''conversation_context_checkpoints'')
           else (let (i, d1) = new_id d; cp = checkpoint_of i pl summary model in
             bindr (event_append r c ''CONTEXT_COMPACTED'' (compacted_event cp was now)
                      (d1\<lparr>checkpoints := checkpoints d1 @ [checkpoint_row_of (cvWorkspace cv) c r previous pl cp was now]\<rparr>))
               (\<lambda>d2. Inr (cp, d2)))))"

section \<open>They are quiet\<close>

lemma quiet_requests: "inv d \<Longrightarrow> quiet d (d\<lparr>modelRequests := ms\<rparr>)"
  by (rule good_same) (simp_all add: inv_parts generated_def[abs_def] open_inputs_def conversation_messages_def)

lemma quiet_checkpoints: "inv d \<Longrightarrow> quiet d (d\<lparr>checkpoints := ks\<rparr>)"
  by (rule good_same) (simp_all add: inv_parts generated_def[abs_def] open_inputs_def conversation_messages_def)

lemma startModelRequest_eq:
  "startModelRequest r p b d = Inr (i, d') \<Longrightarrow> \<exists>ms. d' = d\<lparr>modelRequests := ms\<rparr>"
  by (auto simp: startModelRequest_def Let_def split: if_split_asm)

lemma quiet_startModelRequest: "inv d \<Longrightarrow> startModelRequest r p b d = Inr (i, d') \<Longrightarrow> quiet d d'"
  by (auto dest!: startModelRequest_eq intro: quiet_requests)

lemma quiet_finishModelRequest: "inv d \<Longrightarrow> quiet d (finishModelRequest r i us e d)"
  unfolding finishModelRequest_def by (rule quiet_on_requests)

lemma emit_cases:
  obtains "emit r c k p d = d" | "event_append r c k p d = Inr (emit r c k p d)"
  by (cases "event_append r c k p d") (simp_all add: emit_def)

lemma quiet_emit: "inv d \<Longrightarrow> quiet d (emit r c k p d)"
  by (cases rule: emit_cases[of r c k p d]) (auto intro: quiet_refl quiet_event_append)

lemma saveContextCheckpoint_cases:
  assumes "saveContextCheckpoint c r previous pl summary model was now d = Inr (cp, d')"
  obtains cv x where "find_conversation d c = Some cv" "find_run d r c = Some x" "rnStatus x = ''running''"
    "map_option ckID (latest_checkpoint d c) = map_option cpID previous"
    "length (durable_sources d c pl) = length (plSourceIDs pl)" "0 < now" "now < was"
    "cp = checkpoint_of (show_nat (nextID d)) pl summary model"
    "event_append r c ''CONTEXT_COMPACTED'' (compacted_event cp was now)
      (snd (new_id d)\<lparr>checkpoints := checkpoints d @ [checkpoint_row_of (cvWorkspace cv) c r previous pl cp was now]\<rparr>) = Inr d'"
  using assms by (auto simp: saveContextCheckpoint_def new_id_def Let_def split: option.splits if_split_asm elim!: bindrE)

lemma quiet_saveContextCheckpoint:
  assumes i: "inv d" and e: "saveContextCheckpoint c r previous pl summary model was now d = Inr (cp, d')"
  shows "quiet d d'"
  using e
proof (cases rule: saveContextCheckpoint_cases)
  case (1 cv x)
  have "quiet d (snd (new_id d))" by (rule quiet_new_id[OF i])
  with 1(9) show ?thesis by (blast intro: quiet_then_event quiet_trans quiet_checkpoints quiet_inv)
qed

end
