(* ===== verification/Traces.thy ===== *)
theory Traces
  imports Main
begin

text \<open>
  Runs of a labelled step relation, and the interface of what may happen once.  The locale
  \<open>labelled_system\<close> is a step relation with an invariant; \<open>one_shot\<close> extends it by a kind
  of label that uses something up.  Its clients are the permissions that authorize one call,
  the queued inputs that start one run, the interactions that are answered once and the runs
  that end once.
\<close>

inductive path :: "('s \<Rightarrow> 'a \<Rightarrow> 's \<Rightarrow> bool) \<Rightarrow> 's \<Rightarrow> 'a list \<Rightarrow> 's \<Rightarrow> bool" for step where
  path_nil: "path step s [] s"
| path_cons: "step s a s1 \<Longrightarrow> path step s1 as s2 \<Longrightarrow> path step s (a # as) s2"

inductive_cases path_NilE: "path step s [] s'"
inductive_cases path_ConsE: "path step s (a # as) s'"
inductive_simps path_Nil_iff: "path step s [] s'"
inductive_simps path_Cons_iff: "path step s (a # as) s'"

lemma path_append: "path step s as s1 \<Longrightarrow> path step s1 bs s2 \<Longrightarrow> path step s (as @ bs) s2"
  by (induction rule: path.induct) (auto intro: path_cons)

lemma path_one: "step s a s' \<Longrightarrow> path step s [a] s'"
  by (auto intro: path.intros)

locale labelled_system =
  fixes step :: "'s \<Rightarrow> 'a \<Rightarrow> 's \<Rightarrow> bool" and inv :: "'s \<Rightarrow> bool"
  assumes step_inv: "step s a s' \<Longrightarrow> inv s \<Longrightarrow> inv s'"
begin

lemma path_inv: "path step s as s' \<Longrightarrow> inv s \<Longrightarrow> inv s'"
  by (induction rule: path.induct) (auto dest: step_inv)

text \<open>A reflexive and transitive law of the steps is a law of the paths.\<close>

lemma path_law:
  assumes "path step s as s'" "inv s" "\<And>x. inv x \<Longrightarrow> R x x" "\<And>x y z. R x y \<Longrightarrow> R y z \<Longrightarrow> R x z"
    "\<And>x a y. step x a y \<Longrightarrow> inv x \<Longrightarrow> R x y"
  shows "R s s'"
  using assms(1,2)
proof (induction rule: path.induct)
  case (path_nil s)
  then show ?case by (rule assms(3))
next
  case (path_cons s a s1 as s2)
  then have "inv s1" by (blast dest: step_inv)
  with path_cons show ?case by (blast intro: assms(4,5))
qed

end

locale one_shot = labelled_system step inv
  for step :: "'s \<Rightarrow> 'a \<Rightarrow> 's \<Rightarrow> bool" and inv :: "'s \<Rightarrow> bool" +
  fixes fires :: "'a \<Rightarrow> bool" and used :: "'s \<Rightarrow> bool"
  assumes stays_used: "step s a s' \<Longrightarrow> inv s \<Longrightarrow> used s \<Longrightarrow> used s'"
    and fires_fresh: "step s a s' \<Longrightarrow> inv s \<Longrightarrow> fires a \<Longrightarrow> \<not> used s"
    and fires_uses: "step s a s' \<Longrightarrow> inv s \<Longrightarrow> fires a \<Longrightarrow> used s'"
begin

lemma used_never_fires: "path step s as s' \<Longrightarrow> inv s \<Longrightarrow> used s \<Longrightarrow> filter fires as = []"
proof (induction rule: path.induct)
  case (path_cons s a s1 as s2)
  then show ?case using fires_fresh stays_used step_inv by auto
qed simp

theorem at_most_once: "path step s as s' \<Longrightarrow> inv s \<Longrightarrow> length (filter fires as) \<le> 1"
proof (induction rule: path.induct)
  case (path_cons s a s1 as s2)
  show ?case
  proof (cases "fires a")
    case True
    with path_cons have "used s1" "inv s1" by (blast dest: fires_uses step_inv)+
    with path_cons have "filter fires as = []" by (blast dest: used_never_fires)
    with True show ?thesis by simp
  next
    case False
    with path_cons show ?thesis by (auto dest: step_inv)
  qed
qed simp

end

end
