(* ===== verification/ConvSessions.thy ===== *)
theory ConvSessions
  imports ApprovalOps ModelRequests Traces
begin

text \<open>
  The conversation service as a step relation: every transaction of every API process is one
  step, in any order.  The state is the database and, per conversation, what the session that
  holds its advisory lock is doing (\<open>acquireRun\<close> of \<open>transcript.go\<close>): it has just locked,
  it is ending the runs a dead process left (\<open>recoverInterruptedRuns\<close>: the runs it read and
  has still to end), or it executes a run.  \<open>Unlock\<close> is always possible: the session may
  crash.  A label says what a step did.
\<close>

record conv_env =
  envPrepare :: prepare
  envJsonb :: "string \<Rightarrow> string"
  envSchedules :: schedule_service
  envTables :: unicode_tables

datatype phase = Fresh | Recovering "run list" | Executing uuid

record session =
  store :: db
  held :: "uuid \<Rightarrow> phase option"

datatype act =
    Locked uuid
  | Selected uuid
  | Recovered uuid uuid
  | Submitted uuid uuid
  | QueueIdle uuid
  | StartedInput uuid uuid uuid
  | Unlocked uuid
  | Cancelling uuid
  | Ended uuid string
  | NotEnded uuid
  | Appended uuid
  | Accepted uuid
  | Adjusted uuid
  | ChangedInput uuid string
  | Asked uuid
  | Consumed uuid
  | Polled uuid
  | Abandoned uuid
  | ModeChanged uuid string
  | Answered uuid uuid string
  | ReviewClaimed uuid
  | ReviewFinished uuid
  | Reviewer uuid
  | Interacted uuid
  | Responded uuid
  | Responding uuid
  | Planned uuid string
  | Emitted uuid string
  | RequestStarted uuid int
  | RequestEnded uuid int
  | Compacted uuid uuid
  | Flushed nat

text \<open>A transaction that holds no conversation lock.\<close>

inductive db_op :: "conv_env \<Rightarrow> db \<Rightarrow> act \<Rightarrow> db \<Rightarrow> bool" for env where
  op_cancel: "CancelRun w c r d = Inr d' \<Longrightarrow> db_op env d (Cancelling r) d'"
| op_cancelled: "finishCancelledRun r c d = Inr (b, d') \<Longrightarrow> db_op env d (if b then Ended r ''cancelled'' else NotEnded r) d'"
| op_failed: "finishFailedRun r c reason d = Inr d' \<Longrightarrow> find_run d r c = Some x \<Longrightarrow>
    db_op env d (if rnStatus x = ''running'' then Ended r ''failed'' else NotEnded r) d'"
| op_completed: "finishCompletedRun r c d = Inr d' \<Longrightarrow> find_run d r c = Some x \<Longrightarrow>
    db_op env d (if rnStatus x = ''running'' then Ended r ''completed'' else NotEnded r) d'"
| op_append: "appendMessageReceipt c r m t md d = Inr (m', d') \<Longrightarrow> db_op env d (Appended r) d'"
| op_accept: "AcceptRunInput (envPrepare env) w u c q d = Inr (item, d') \<Longrightarrow> db_op env d (Accepted (riID item)) d'"
| op_adjust: "applyRunAdjustments c r d = Inr (ms, d') \<Longrightarrow> db_op env d (Adjusted r) d'"
| op_change: "ChangeRunInput w u c i action d = Inr d' \<Longrightarrow> db_op env d (ChangedInput i action) d'"
| op_ask: "authorize_request (envTables env) (envJsonb env) c r call n args d = Inr (res, d') \<Longrightarrow> db_op env d (Asked r) d'"
| op_poll: "authorize_poll c r n p digest d = Inr (res, d') \<Longrightarrow>
    db_op env d (if res = PollGranted then Consumed p else Polled p) d'"
| op_abandon: "db_op env d (Abandoned p) (abandon_permission p d)"
| op_mode: "changeRunPermissionMode w u c r mode expected d = Inr (vsn, d') \<Longrightarrow> db_op env d (ModeChanged r mode) d'"
| op_answer: "respondPermission w u c p digest decision d = Inr d' \<Longrightarrow> db_op env d (Answered p u decision) d'"
| op_claim_review: "claimPermissionReview c r p d = Inr (tok, vsn, d') \<Longrightarrow> db_op env d (ReviewClaimed p) d'"
| op_finish_review: "finish_review c r p token vsn digest review reviewer d = Inr d' \<Longrightarrow> db_op env d (ReviewFinished p) d'"
| op_reviewer: "db_op env d (Reviewer p) (note_reviewer p token reviewer d)"
| op_interact: "createRunInteraction (envSchedules env) (envJsonb env) c r call q d = Inr (row, d') \<Longrightarrow>
    db_op env d (Interacted (itID row)) d'"
| op_respond: "RespondRunInteraction (envSchedules env) w u c i s d = Inr d' \<Longrightarrow>
    db_op env d (if list_ex (\<lambda>y. itID y = i \<and> itStatus y = ''pending'') (interactions d) then Responded i else Responding i) d'"
| op_emit: "db_op env d (Emitted r kind) (emit r c kind payload d)"
| op_request: "startModelRequest r purpose b d = Inr (i, d') \<Longrightarrow> db_op env d (RequestStarted r i) d'"
| op_answer_request: "db_op env d (RequestEnded r i) (finishModelRequest r i us e d)"
| op_checkpoint: "saveContextCheckpoint c r previous pl summary model before after d = Inr (cp, d') \<Longrightarrow>
    db_op env d (Compacted r (cpID cp)) d'"
| op_plan: "enterRunPlanMode (envJsonb env) c r call reason d = Inr (mode, d') \<Longrightarrow> db_op env d (Planned r call) d'"

inductive session_step :: "conv_env \<Rightarrow> session \<Rightarrow> act \<Rightarrow> session \<Rightarrow> bool" for env where
  ss_op: "db_op env (store s) a d' \<Longrightarrow> session_step env s a (s\<lparr>store := d'\<rparr>)"
| ss_flush: "event_flush publish (store s) = (Inr n, log, d') \<Longrightarrow> session_step env s (Flushed n) (s\<lparr>store := d'\<rparr>)"
| ss_lock: "held s c = None \<Longrightarrow> session_step env s (Locked c) (s\<lparr>held := (held s)(c := Some Fresh)\<rparr>)"
| ss_select: "held s c = Some Fresh \<Longrightarrow>
    session_step env s (Selected c) (s\<lparr>held := (held s)(c := Some (Recovering (active_runs (store s) c)))\<rparr>)"
| ss_recover: "held s c = Some (Recovering (x # xs)) \<Longrightarrow>
    (if rnStatus x = ''cancelling'' then bindr (finishCancelledRun (rnID x) c (store s)) (\<lambda>(ended, d'). Inr d')
     else finishFailedRun (rnID x) c interrupted_reason (store s)) = Inr d' \<Longrightarrow>
    session_step env s (Recovered c (rnID x)) (s\<lparr>store := d', held := (held s)(c := Some (Recovering xs))\<rparr>)"
| ss_submit: "held s c = Some (Recovering []) \<Longrightarrow>
    start_submission (envPrepare env) w u c sub digest mode perm (store s) = Inr (r, d') \<Longrightarrow>
    session_step env s (Submitted c r) (s\<lparr>store := d', held := (held s)(c := Some (Executing r))\<rparr>)"
| ss_idle: "held s c = Some (Recovering []) \<Longrightarrow> claimQueuedInput w c (store s) = Inr (None, d') \<Longrightarrow>
    session_step env s (QueueIdle c) (s\<lparr>store := d'\<rparr>)"
| ss_start: "held s c = Some (Recovering []) \<Longrightarrow> claimQueuedInput w c (store s) = Inr (Some r, d') \<Longrightarrow>
    List.find (\<lambda>i. riWorkspace i = w \<and> queued_next c i) (inputs (store s)) = Some i \<Longrightarrow>
    session_step env s (StartedInput c (riID i) r) (s\<lparr>store := d', held := (held s)(c := Some (Executing r))\<rparr>)"
| ss_unlock: "session_step env s (Unlocked c) (s\<lparr>held := (held s)(c := None)\<rparr>)"

section \<open>The invariant of the sessions\<close>

definition running_runs :: "db \<Rightarrow> uuid \<Rightarrow> run list" where
  "running_runs d c = filter (\<lambda>x. rnConversation x = c \<and> rnStatus x = ''running'') (runs d)"

definition session_inv :: "session \<Rightarrow> bool" where
  "session_inv s = (inv (store s) \<and> (\<forall>c. length (running_runs (store s) c) \<le> 1) \<and>
     (\<forall>c xs. held s c = Some (Recovering xs) \<longrightarrow> rnID ` set (running_runs (store s) c) \<subseteq> rnID ` set xs))"

lemma session_invI:
  "inv (store s) \<Longrightarrow> (\<And>c. length (running_runs (store s) c) \<le> 1) \<Longrightarrow>
   (\<And>c xs. held s c = Some (Recovering xs) \<Longrightarrow> rnID ` set (running_runs (store s) c) \<subseteq> rnID ` set xs) \<Longrightarrow> session_inv s"
  unfolding session_inv_def by blast

lemma session_invD:
  assumes "session_inv s"
  shows "inv (store s)" "length (running_runs (store s) c) \<le> 1"
    "held s c = Some (Recovering xs) \<Longrightarrow> rnID ` set (running_runs (store s) c) \<subseteq> rnID ` set xs"
  using assms unfolding session_inv_def by blast+

lemma db_op_quiet: "db_op env d a d' \<Longrightarrow> inv d \<Longrightarrow> quiet d d'"
  by (induction rule: db_op.induct)
    (simp_all add: quiet_CancelRun quiet_finishCancelledRun quiet_finishFailedRun quiet_finishCompletedRun
      quiet_appendMessageReceipt quiet_AcceptRunInput quiet_applyRunAdjustments quiet_ChangeRunInput
      quiet_authorize_request quiet_authorize_poll quiet_abandon_permission quiet_changeRunPermissionMode
      quiet_respondPermission quiet_claimPermissionReview quiet_finish_review quiet_note_reviewer
      quiet_createRunInteraction quiet_RespondRunInteraction quiet_enterRunPlanMode
      quiet_emit quiet_startModelRequest quiet_finishModelRequest quiet_saveContextCheckpoint)

lemma quiet_running:
  assumes "quiet d d'"
  shows "length (running_runs d' c) \<le> length (running_runs d c)"
    and "rnID ` set (running_runs d' c) \<subseteq> rnID ` set (running_runs d c)"
proof -
  have ev: "evolves run_ev run_ok (runs d) (runs d')" and len: "length (runs d') = length (runs d)"
    using assms by (auto simp: quiet_def good_def)
  have bwd: "rnConversation x = c \<and> rnStatus x = ''running''"
    if "run_ev x y" "rnConversation y = c \<and> rnStatus y = ''running''" for x y
    using that status_le_running[of "rnStatus x" "rnStatus y"] by (auto simp: run_ev_def)
  show "length (running_runs d' c) \<le> length (running_runs d c)"
    unfolding running_runs_def by (rule run_rows.counted[OF ev bwd len])
  have l2: "list_all2 run_ev (runs d) (runs d')"
    by (rule run_rows.same_rows[OF ev len])
  show "rnID ` set (running_runs d' c) \<subseteq> rnID ` set (running_runs d c)"
  proof
    fix r assume "r \<in> rnID ` set (running_runs d' c)"
    then obtain y where y: "y \<in> set (runs d')" "rnConversation y = c \<and> rnStatus y = ''running''" "r = rnID y"
      by (auto simp: running_runs_def)
    from all2_back[OF l2 y(1)] obtain x where x: "x \<in> set (runs d)" "run_ev x y" ..
    have "rnID x = r" using x(2) y(3) by (simp add: run_ev_def)
    with x(1) bwd[OF x(2) y(2)] show "r \<in> rnID ` set (running_runs d c)"
      by (auto simp: running_runs_def)
  qed
qed

lemma end_frames:
  "runs (cancel_permissions r d) = runs d" "runs (cancel_interactions r d) = runs d"
  "runs (holdRunInputs r reason d) = runs d" "runs (close_requests r st k d) = runs d"
  by (simp_all add: cancel_permissions_def cancel_interactions_def holdRunInputs_def close_requests_def frames)

lemma set_run_status_runs:
  "runs (set_run_status st r d) = update_where (\<lambda>x. rnID x = r) (\<lambda>x. x\<lparr>rnStatus := st, rnFinished := terminal_status st\<rparr>) (runs d)"
  by (simp add: set_run_status_def on_runs_def)

lemma status_written:
  "y \<in> set (update_where (\<lambda>x. rnID x = r) (\<lambda>x. x\<lparr>rnStatus := st, rnFinished := b\<rparr>) xs) \<Longrightarrow> rnID y = r \<Longrightarrow> rnStatus y = st"
proof -
  assume "y \<in> set (update_where (\<lambda>x. rnID x = r) (\<lambda>x. x\<lparr>rnStatus := st, rnFinished := b\<rparr>) xs)" and r: "rnID y = r"
  then obtain x where "y = (if rnID x = r then x\<lparr>rnStatus := st, rnFinished := b\<rparr> else x)"
    unfolding set_update_where by blast
  with r show "rnStatus y = st" by (cases "rnID x = r") simp_all
qed

text \<open>A recovery step ends its run, or finds it no longer running.\<close>

lemma failed_not_running:
  assumes i: "inv d" and e: "finishFailedRun r c reason d = Inr d'" and y: "y \<in> set (runs d')" "rnID y = r"
  shows "rnStatus y \<noteq> ''running''"
  using e
proof (cases rule: finishFailedRun_cases)
  case (1 x)
  then have "y = x" using the_run[OF i, of x y] find_run_in[OF 1(1)] y by simp
  with 1(2) show ?thesis by simp
next
  case (2 x d1)
  have "runs d1 = runs d" using quiet_close_calls[OF i 2(3)] by blast
  then have "y \<in> set (update_where (\<lambda>x. rnID x = r) (\<lambda>x. x\<lparr>rnStatus := ''failed'', rnFinished := terminal_status ''failed''\<rparr>) (runs d))"
    using y(1) event_append_runs[OF 2(4)] by (simp only: end_frames set_run_status_runs)
  then have "rnStatus y = ''failed''" using y(2) by (rule status_written)
  then show ?thesis by simp
qed

lemma cancelled_not_running:
  assumes i: "inv d" and e: "finishCancelledRun r c d = Inr (b, d')" and y: "y \<in> set (runs d')" "rnID y = r"
  shows "rnStatus y \<noteq> ''running''"
  using e
proof (cases rule: finishCancelledRun_cases)
  case (1 x)
  then have "y = x" using the_run[OF i, of x y] find_run_in[OF 1(1)] y by simp
  with 1(2) show ?thesis by (auto simp: active_status_def)
next
  case (2 x d1)
  have "runs d1 = runs d" using quiet_close_calls[OF i 2(4)] by blast
  then have "y \<in> set (update_where (\<lambda>x. rnID x = r) (\<lambda>x. x\<lparr>rnStatus := ''cancelled'', rnFinished := terminal_status ''cancelled''\<rparr>) (runs d))"
    using y(1) event_append_runs[OF 2(5)] by (simp only: end_frames set_run_status_runs)
  then have "rnStatus y = ''cancelled''" using y(2) by (rule status_written)
  then show ?thesis by simp
qed

lemma event_flush_cases:
  assumes "event_flush publish d = (res, log, d')"
  obtains "d' = d" "\<exists>e. res = Inl e"
  | "d' = d\<lparr>outbox := filter (\<lambda>i. i \<notin> evID ` fst ` set (pending_events d)) (outbox d)\<rparr>" "res = Inr (length (pending_events d))"
      "publish_all publish (event_deliveries (pending_events d)) = (True, log)"
proof (cases "publish_all publish (event_deliveries (pending_events d))")
  case (Pair ok l)
  show ?thesis
  proof (cases ok)
    case True
    with assms Pair show ?thesis by (intro that(2)) (simp_all add: event_flush_def Let_def)
  next
    case False
    with assms Pair show ?thesis by (intro that(1)) (auto simp: event_flush_def Let_def)
  qed
qed

lemma inv_outbox:
  assumes "inv d"
  shows "inv (d\<lparr>outbox := filter P (outbox d)\<rparr>)"
proof -
  have "events_inv (d\<lparr>outbox := filter P (outbox d)\<rparr>)" using assms by (auto simp: inv_def events_inv_def)
  with assms show ?thesis
    by (simp add: inv_def runs_inv_def permissions_inv_def inputs_inv_def interactions_inv_def messages_inv_def
        generated_def[abs_def] open_inputs_def conversation_messages_def)
qed

lemma quiet_flush:
  assumes "inv d" "event_flush publish d = (res, log, d')"
  obtains os where "inv d'" "d' = d\<lparr>outbox := os\<rparr>"
  using assms(2)
proof (cases rule: event_flush_cases)
  case 1
  then show ?thesis using assms(1) that[of "outbox d"] by simp
next
  case 2
  then show ?thesis using inv_outbox[OF assms(1)] that by blast
qed

lemma session_inv_quiet:
  assumes s: "session_inv s" and q: "quiet (store s) d'"
  shows "session_inv (s\<lparr>store := d'\<rparr>)"
proof (rule session_invI)
  show "inv (store (s\<lparr>store := d'\<rparr>))" using quiet_inv[OF q] by simp
  show "length (running_runs (store (s\<lparr>store := d'\<rparr>)) c) \<le> 1" for c
    using le_trans[OF quiet_running(1)[OF q, of c] session_invD(2)[OF s]] by simp
  show "rnID ` set (running_runs (store (s\<lparr>store := d'\<rparr>)) c) \<subseteq> rnID ` set xs"
    if "held (s\<lparr>store := d'\<rparr>) c = Some (Recovering xs)" for c xs
    using subset_trans[OF quiet_running(2)[OF q, of c] session_invD(3)[OF s, of c xs]] that by simp
qed

lemma session_inv_starts:
  assumes s: "session_inv s" and h: "held s c = Some (Recovering [])" and st: "starts c r (store s) d'"
  shows "session_inv (s\<lparr>store := d', held := (held s)(c := Some (Executing r))\<rparr>)"
proof -
  obtain x where g: "good (store s) d'" and rs: "runs d' = runs (store s) @ [x]"
    and x: "rnConversation x = c" "rnStatus x = ''running''" using st by (auto simp: starts_def)
  have none: "running_runs (store s) c = []" using session_invD(3)[OF s h] by simp
  have eq: "running_runs d' c' = (if c' = c then [x] else running_runs (store s) c')" for c'
    using none rs x by (simp add: running_runs_def)
  show ?thesis
  proof (rule session_invI)
    fix c' xs assume "held (s\<lparr>store := d', held := (held s)(c := Some (Executing r))\<rparr>) c' = Some (Recovering xs)"
    then have "c' \<noteq> c" "held s c' = Some (Recovering xs)" by (simp_all split: if_split_asm)
    with session_invD(3)[OF s, of c' xs] eq[of c']
    show "rnID ` set (running_runs (store (s\<lparr>store := d', held := (held s)(c := Some (Executing r))\<rparr>)) c') \<subseteq> rnID ` set xs"
      by simp
  qed (use good_inv[OF g] eq session_invD(2)[OF s] in simp_all)
qed

text \<open>A lock step changes what one conversation's session does.\<close>

lemma session_inv_held:
  assumes s: "session_inv s"
    and p: "\<And>xs. p = Some (Recovering xs) \<Longrightarrow> rnID ` set (running_runs (store s) c) \<subseteq> rnID ` set xs"
  shows "session_inv (s\<lparr>held := (held s)(c := p)\<rparr>)"
proof (rule session_invI)
  fix c' xs assume h: "held (s\<lparr>held := (held s)(c := p)\<rparr>) c' = Some (Recovering xs)"
  show "rnID ` set (running_runs (store (s\<lparr>held := (held s)(c := p)\<rparr>)) c') \<subseteq> rnID ` set xs"
  proof (cases "c' = c")
    case True
    with h p[of xs] show ?thesis by simp
  next
    case False
    with h session_invD(3)[OF s, of c' xs] show ?thesis by simp
  qed
qed (use session_invD(1,2)[OF s] in simp_all)

lemma session_step_inv: "session_step env s a s' \<Longrightarrow> session_inv s \<Longrightarrow> session_inv s'"
proof (induction rule: session_step.induct)
  case (ss_op s a d')
  show ?case
    by (rule session_inv_quiet[OF ss_op(2) db_op_quiet[OF ss_op(1) session_invD(1)[OF ss_op(2)]]])
next
  case (ss_flush publish s n log d')
  obtain os where d': "inv d'" "d' = (store s)\<lparr>outbox := os\<rparr>"
    by (rule quiet_flush[OF session_invD(1)[OF ss_flush(2)] ss_flush(1)])
  then have "running_runs d' c = running_runs (store s) c" for c by (simp add: running_runs_def)
  then show ?case using d'(1) session_invD(2,3)[OF ss_flush(2)] by (intro session_invI) simp_all
next
  case (ss_lock s c)
  then show ?case by (intro session_inv_held) simp_all
next
  case (ss_select s c)
  have "rnID ` set (running_runs (store s) c) \<subseteq> rnID ` set (active_runs (store s) c)"
    by (auto simp: running_runs_def active_runs_def active_status_def)
  then show ?case using ss_select(2) by (intro session_inv_held) simp_all
next
  case (ss_recover s c x xs d')
  note i = session_invD(1)[OF ss_recover(3)]
  have q: "quiet (store s) d'" and n: "\<And>y. y \<in> set (runs d') \<Longrightarrow> rnID y = rnID x \<Longrightarrow> rnStatus y \<noteq> ''running''"
    using ss_recover(2) quiet_finishCancelledRun[OF i] quiet_finishFailedRun[OF i]
      failed_not_running[OF i] cancelled_not_running[OF i]
    by (auto split: if_split_asm elim!: bindrE)
  have "rnID ` set (running_runs d' c) \<subseteq> rnID ` set xs"
  proof
    fix k assume k: "k \<in> rnID ` set (running_runs d' c)"
    have "k \<in> rnID ` set (x # xs)"
      using k quiet_running(2)[OF q, of c] session_invD(3)[OF ss_recover(3,1)] by blast
    moreover have "k \<noteq> rnID x" using k n by (auto simp: running_runs_def)
    ultimately show "k \<in> rnID ` set xs" by simp
  qed
  then have "session_inv (s\<lparr>store := d', held := (held (s\<lparr>store := d'\<rparr>))(c := Some (Recovering xs))\<rparr>)"
    using session_inv_held[OF session_inv_quiet[OF ss_recover(3) q], of "Some (Recovering xs)" c] by simp
  then show ?case by simp
next
  case (ss_submit s c w u sub digest mode perm r d')
  show ?case
    by (rule session_inv_starts[OF ss_submit(3,1) start_submission_starts[OF session_invD(1)[OF ss_submit(3)] ss_submit(2)]])
next
  case (ss_idle s c w d')
  have "quiet (store s) d'" using claimQueuedInput_good[OF session_invD(1)[OF ss_idle(3)] ss_idle(2)] by simp
  then show ?case by (rule session_inv_quiet[OF ss_idle(3)])
next
  case (ss_start s c w r d' i)
  have "starts c r (store s) d'" using claimQueuedInput_good[OF session_invD(1)[OF ss_start(4)] ss_start(2)] by simp
  then show ?case by (rule session_inv_starts[OF ss_start(4,1)])
next
  case (ss_unlock s c)
  then show ?case by (intro session_inv_held) simp_all
qed

interpretation conv: labelled_system "session_step env" session_inv for env
  by unfold_locales (rule session_step_inv)

end
