(* ===== verification/ConvOnce.thy ===== *)
theory ConvOnce
  imports ConvSessions
begin

text \<open>
  What the tables keep over the steps of the sessions, and what can happen once: \<open>one_shot\<close>
  of \<open>Traces\<close> is interpreted on the consumption of a permission, the start of a queued input,
  the answer to an interaction and the end of a run.
\<close>

section \<open>What every step keeps\<close>

definition grows :: "db \<Rightarrow> db \<Rightarrow> bool" where
  "grows d d' = (evolves run_ev run_ok (runs d) (runs d') \<and>
     evolves permission_ev permission_ok (permissions d) (permissions d') \<and>
     evolves input_ev input_ok (inputs d) (inputs d') \<and>
     evolves interaction_ev interaction_ok (interactions d) (interactions d') \<and>
     (\<exists>ms. messages d' = messages d @ ms) \<and> (\<exists>es. events d' = events d @ es))"

lemma good_grows: "good d d' \<Longrightarrow> grows d d'"
  by (simp add: good_def grows_def)

lemma grows_refl: "grows d d"
  by (simp add: grows_def run_rows.same permission_rows.same input_rows.same interaction_rows.same)

lemma grows_trans: "grows d1 d2 \<Longrightarrow> grows d2 d3 \<Longrightarrow> grows d1 d3"
  by (auto simp: grows_def intro: run_rows.seq permission_rows.seq input_rows.seq interaction_rows.seq)

lemma step_grows: "session_step env s a s' \<Longrightarrow> session_inv s \<Longrightarrow> grows (store s) (store s')"
proof (induction rule: session_step.induct)
  case (ss_op s a d')
  show ?case using quiet_good[OF db_op_quiet[OF ss_op(1) session_invD(1)[OF ss_op(2)]]] by (simp add: good_grows)
next
  case (ss_flush publish s n log d')
  obtain os where d': "d' = (store s)\<lparr>outbox := os\<rparr>"
    by (rule quiet_flush[OF session_invD(1)[OF ss_flush(2)] ss_flush(1)])
  have "grows (store s) (store s)" by (rule grows_refl)
  then show ?case by (simp add: d' grows_def)
next
  case (ss_recover s c x xs d')
  note i = session_invD(1)[OF ss_recover(3)]
  have "quiet (store s) d'"
    using ss_recover(2) quiet_finishCancelledRun[OF i] quiet_finishFailedRun[OF i]
    by (auto split: if_split_asm elim!: bindrE)
  then show ?case by (simp add: quiet_good good_grows)
next
  case (ss_submit s c w u sub digest mode perm r d')
  show ?case using start_submission_starts[OF session_invD(1)[OF ss_submit(3)] ss_submit(2)]
    by (simp add: starts_def good_grows)
next
  case (ss_idle s c w d')
  show ?case using claimQueuedInput_good[OF session_invD(1)[OF ss_idle(3)] ss_idle(2)]
    by (simp add: quiet_good good_grows)
next
  case (ss_start s c w r d' i)
  show ?case using claimQueuedInput_good[OF session_invD(1)[OF ss_start(4)] ss_start(2)]
    by (simp add: starts_def good_grows)
qed (simp_all add: grows_refl)

lemma path_grows:
  assumes "path (session_step env) s as s'" "session_inv s"
  shows "grows (store s) (store s')"
  by (rule conv.path_law[OF assms, of "\<lambda>x y. grows (store x) (store y)"])
    (blast intro: grows_refl grows_trans step_grows)+

section \<open>Permissions\<close>

definition permission_used :: "uuid \<Rightarrow> session \<Rightarrow> bool" where
  "permission_used p s = (\<exists>q \<in> set (permissions (store s)). pmID q = p \<and> pmConsumed q)"

lemma consumed_step:
  assumes "session_step env s (Consumed p) s'"
  obtains c r n digest where "authorize_poll c r n p digest (store s) = Inr (PollGranted, store s')"
  using assms
proof (cases rule: session_step.cases)
  case (ss_op d')
  from ss_op(2) show ?thesis
  proof (cases rule: db_op.cases)
    case (op_poll c r n p' digest res)
    then show ?thesis using that[of c r n digest] ss_op(1) by (cases "res = PollGranted") simp_all
  qed (simp_all split: if_split_asm)
qed

lemma poll_granted:
  assumes "authorize_poll c r n p digest d = Inr (PollGranted, d')"
  obtains x q where "find_run d r c = Some x" "rnStatus x = ''running''" "q \<in> set (permissions d)" "pmID q = p" "pmRun q = r"
      "pmDigest q = digest" "pmRevision q = rnPermRevision x" "pmStatus q = ''approved''" "\<not> pmConsumed q"
      "pmTool q = ''github_publish'' \<Longrightarrow> pmSource q = ''user'' \<and> pmDecision q = Some ''once''"
      "rnExecMode x = ''plan'' \<Longrightarrow> PlanReadOnlyTool (pmTool q) \<and> PlanReadOnlyTool n"
      "d' = on_permission p (\<lambda>y. y\<lparr>pmConsumed := True\<rparr>) d"
  using assms
proof (cases rule: authorize_poll_cases)
  case (2 b)
  have b: "b" using 2(3) by (cases b) simp_all
  from 2(2) b show ?thesis
  proof (cases rule: consumePermission_cases)
    case (2 x q)
    have "rnExecMode x = ''plan'' \<Longrightarrow> PlanReadOnlyTool n"
      using \<open>authorizeRunTool c r n d = Inr ()\<close> 2(1,2) by (simp add: authorizeRunTool_def split: if_split_asm)
    with 2 show ?thesis by (intro that[of x q]) simp_all
  qed simp
qed simp

interpretation consume: one_shot "session_step env" session_inv "(=) (Consumed p)" "permission_used p" for env p
proof
  fix s a s'
  assume st: "session_step env s a s'" and i: "session_inv s"
  show "permission_used p s'" if "permission_used p s"
  proof -
    from that obtain q where q: "q \<in> set (permissions (store s))" "pmID q = p" "pmConsumed q" by (auto simp: permission_used_def)
    have "evolves permission_ev permission_ok (permissions (store s)) (permissions (store s'))"
      using step_grows[OF st i] by (simp add: grows_def)
    from permission_rows.old_row[OF this q(1)] obtain q' where "q' \<in> set (permissions (store s'))" "permission_ev q q'" ..
    with q show ?thesis by (auto simp: permission_used_def permission_ev_def permission_settled_def)
  qed
  assume f: "Consumed p = a"
  from st obtain c r n digest where e: "authorize_poll c r n p digest (store s) = Inr (PollGranted, store s')"
    unfolding f[symmetric] by (rule consumed_step)
  from e obtain x q where q: "q \<in> set (permissions (store s))" "pmID q = p" "\<not> pmConsumed q"
      and d': "store s' = on_permission p (\<lambda>y. y\<lparr>pmConsumed := True\<rparr>) (store s)"
    by (rule poll_granted) blast
  show "\<not> permission_used p s"
    using the_permission[OF session_invD(1)[OF i] q(1)] q(2,3) by (auto simp: permission_used_def)
  have "q\<lparr>pmConsumed := True\<rparr> \<in> set (permissions (store s'))"
    using q(1,2) by (auto simp: d' on_permission_def on_permissions_def set_update_where image_iff)
  then show "permission_used p s'" unfolding permission_used_def
    by (rule bexI[rotated]) (simp add: q(2))
qed

section \<open>Queued inputs\<close>

definition input_started :: "uuid \<Rightarrow> session \<Rightarrow> bool" where
  "input_started i s = (\<exists>x \<in> set (inputs (store s)). riID x = i \<and> riStatus x = ''started'')"

definition starts_input :: "uuid \<Rightarrow> act \<Rightarrow> bool" where
  "starts_input i a = (case a of StartedInput c j r \<Rightarrow> j = i | _ \<Rightarrow> False)"

lemma started_step:
  assumes "session_step env s (StartedInput c i r) s'"
  obtains w x where "claimQueuedInput w c (store s) = Inr (Some r, store s')"
    "List.find (\<lambda>i. riWorkspace i = w \<and> queued_next c i) (inputs (store s)) = Some x" "i = riID x"
  using assms
proof (cases rule: session_step.cases)
  case (ss_op d')
  from ss_op(2) show ?thesis by (cases rule: db_op.cases) (simp_all split: if_split_asm)
next
  case (ss_start w d' i')
  then show ?thesis using that[of w i'] by simp
qed

lemma claim_started:
  assumes "claimQueuedInput w c d = Inr (Some r, d')" "List.find (\<lambda>i. riWorkspace i = w \<and> queued_next c i) (inputs d) = Some x" "inv d"
  shows "\<exists>y \<in> set (inputs d'). riID y = riID x \<and> riStatus y = ''started'' \<and> riStartedRun y = Some r"
  using assms(1)
proof (cases rule: claimQueuedInput_cases)
  case (3 i u r' m d1 d2)
  have ix: "i = x" and r': "r' = r" using 3(1,9) assms(2) by simp_all
  have "inputs d' = update_where (\<lambda>z. riID z = riID x) (started_row m r) (inputs d)"
    using event_append_eq[OF 3(7)] event_append_eq[OF 3(8)] good_insert_run(3)[OF assms(3) 3(6)] ix r'
    by (simp add: on_inputs_def)
  moreover have "x \<in> set (inputs d)" using find_Some_in[OF assms(2)] by simp
  ultimately show ?thesis
    by (intro bexI[of _ "started_row m r x"]) (auto simp: started_row_def set_update_where)
qed simp_all

interpretation start_once: one_shot "session_step env" session_inv "starts_input i" "input_started i" for env i
proof
  fix s a s'
  assume st: "session_step env s a s'" and inv: "session_inv s"
  show "input_started i s'" if "input_started i s"
  proof -
    from that obtain x where x: "x \<in> set (inputs (store s))" "riID x = i" "riStatus x = ''started''" by (auto simp: input_started_def)
    have "evolves input_ev input_ok (inputs (store s)) (inputs (store s'))"
      using step_grows[OF st inv] by (simp add: grows_def)
    from input_rows.old_row[OF this x(1)] obtain y where y: "y \<in> set (inputs (store s'))" "input_ev x y" ..
    then have "y = x" using x(3) by (simp add: input_ev_def input_final_def)
    with x y show ?thesis by (auto simp: input_started_def)
  qed
  assume "starts_input i a"
  then obtain c r where a: "a = StartedInput c i r" by (auto simp: starts_input_def split: act.splits)
  from st obtain w x where cl: "claimQueuedInput w c (store s) = Inr (Some r, store s')"
    "List.find (\<lambda>i. riWorkspace i = w \<and> queued_next c i) (inputs (store s)) = Some x" and ix: "i = riID x"
    unfolding a by (rule started_step)
  have x: "x \<in> set (inputs (store s))" "riStatus x = ''queued''" using find_Some_in[OF cl(2)] by (simp_all add: queued_next_def)
  show "\<not> input_started i s"
  proof
    assume "input_started i s"
    then obtain y where y: "y \<in> set (inputs (store s))" "riID y = i" "riStatus y = ''started''" by (auto simp: input_started_def)
    have "y = x" using the_input[OF session_invD(1)[OF inv] x(1) y(1)] y(2) ix by simp
    with x(2) y(3) show False by simp
  qed
  show "input_started i s'"
    using claim_started[OF cl session_invD(1)[OF inv]] ix by (auto simp: input_started_def)
qed

section \<open>Interactions\<close>

definition interaction_done :: "uuid \<Rightarrow> session \<Rightarrow> bool" where
  "interaction_done i s = (\<exists>x \<in> set (interactions (store s)). itID x = i \<and> itStatus x \<noteq> ''pending'')"

lemma responded_step:
  assumes "session_step env s (Responded i) s'"
  obtains w u c r where "RespondRunInteraction (envSchedules env) w u c i r (store s) = Inr (store s')"
    "list_ex (\<lambda>y. itID y = i \<and> itStatus y = ''pending'') (interactions (store s))"
  using assms
proof (cases rule: session_step.cases)
  case (ss_op d')
  from ss_op(2) show ?thesis
  proof (cases rule: db_op.cases)
    case (op_respond w u c j r)
    then show ?thesis using that[of w u c r] ss_op(1)
      by (cases "list_ex (\<lambda>y. itID y = j \<and> itStatus y = ''pending'') (interactions (store s))") simp_all
  qed (simp_all split: if_split_asm)
qed

lemma response_status: "interactionResponseStatus q s = Some st \<Longrightarrow> st \<noteq> ''pending''"
  by (auto simp: interactionResponseStatus_def split: if_split_asm)

lemma respond_pending:
  assumes "RespondRunInteraction sv w u c i r d = Inr d'" "list_ex (\<lambda>y. itID y = i \<and> itStatus y = ''pending'') (interactions d)" "inv d"
  shows "\<exists>y \<in> set (interactions d'). itID y = i \<and> itStatus y \<noteq> ''pending''"
  using assms(1)
proof (cases rule: RespondRunInteraction_cases)
  case (1 y)
  from assms(2) obtain z where z: "z \<in> set (interactions d)" "itID z = i" "itStatus z = ''pending''" by (auto simp: list_ex_iff)
  have "z = y" using the_interaction[OF assms(3) 1(2) z(1)] z(2) 1(3) by simp
  with 1(4) z(3) show ?thesis by simp
next
  case (2 y x status d1)
  have its: "interactions d1 = interactions d" unfolding 2(14) by (simp add: leave_plan_def on_runs_def)
  have "interactions d' = update_where (\<lambda>z. itID z = i) (answered_interaction status (render (response_json r)) u) (interactions d)"
    using event_append_eq[OF 2(15)] its by (simp add: on_interactions_def)
  then show ?thesis using 2(1,2) response_status[OF 2(9)]
    by (intro bexI[of _ "answered_interaction status (render (response_json r)) u y"])
      (auto simp: answered_interaction_def set_update_where)
qed

interpretation respond_once: one_shot "session_step env" session_inv "(=) (Responded i)" "interaction_done i" for env i
proof
  fix s a s'
  assume st: "session_step env s a s'" and inv: "session_inv s"
  show "interaction_done i s'" if "interaction_done i s"
  proof -
    from that obtain x where x: "x \<in> set (interactions (store s))" "itID x = i" "itStatus x \<noteq> ''pending''" by (auto simp: interaction_done_def)
    have "evolves interaction_ev interaction_ok (interactions (store s)) (interactions (store s'))"
      using step_grows[OF st inv] by (simp add: grows_def)
    from interaction_rows.old_row[OF this x(1)] obtain y where y: "y \<in> set (interactions (store s'))" "interaction_ev x y" ..
    then have "y = x" using x(3) by (simp add: interaction_ev_def)
    with x y show ?thesis by (auto simp: interaction_done_def)
  qed
  assume f: "Responded i = a"
  from st obtain w u c r where e: "RespondRunInteraction (envSchedules env) w u c i r (store s) = Inr (store s')"
    and p: "list_ex (\<lambda>y. itID y = i \<and> itStatus y = ''pending'') (interactions (store s))"
    unfolding f[symmetric] by (rule responded_step)
  show "\<not> interaction_done i s"
  proof
    assume "interaction_done i s"
    then obtain y where y: "y \<in> set (interactions (store s))" "itID y = i" "itStatus y \<noteq> ''pending''" by (auto simp: interaction_done_def)
    from p obtain z where z: "z \<in> set (interactions (store s))" "itID z = i" "itStatus z = ''pending''" by (auto simp: list_ex_iff)
    have "y = z" using the_interaction[OF session_invD(1)[OF inv] z(1) y(1)] y(2) z(2) by simp
    with y(3) z(3) show False by simp
  qed
  show "interaction_done i s'"
    using respond_pending[OF e p session_invD(1)[OF inv]] by (simp add: interaction_done_def)
qed

section \<open>Ends of runs\<close>

definition run_ended :: "uuid \<Rightarrow> session \<Rightarrow> bool" where
  "run_ended r s = (\<exists>x \<in> set (runs (store s)). rnID x = r \<and> terminal_status (rnStatus x))"

definition ends_run :: "uuid \<Rightarrow> act \<Rightarrow> bool" where
  "ends_run r a = (case a of Ended r' k \<Rightarrow> r' = r | _ \<Rightarrow> False)"

definition ends_to :: "uuid \<Rightarrow> db \<Rightarrow> string \<Rightarrow> db \<Rightarrow> bool" where
  "ends_to r d st d' = (\<exists>x \<in> set (runs d). rnID x = r \<and> active_status (rnStatus x) \<and> terminal_status st \<and>
     runs d' = update_where (\<lambda>x. rnID x = r) (\<lambda>x. x\<lparr>rnStatus := st, rnFinished := terminal_status st\<rparr>) (runs d))"

lemma ended_op:
  assumes "db_op env d (Ended r k) d'" "inv d"
  shows "ends_to r d k d'"
  using assms(1)
proof (cases rule: db_op.cases)
  case (op_cancelled r' c b)
  then have b: "b" "r' = r" "k = ''cancelled''" by (simp_all split: if_split_asm)
  from op_cancelled(2)[unfolded b(2)] show ?thesis
  proof (cases rule: finishCancelledRun_cases)
    case (2 x d1)
    have "runs d1 = runs d" using quiet_close_calls[OF assms(2) 2(4)] by blast
    then show ?thesis using find_run_in[OF 2(1)] 2(2) event_append_runs[OF 2(5)] b(3)
      by (auto simp: ends_to_def end_frames set_run_status_runs terminal_status_def)
  qed (use b in simp)
next
  case (op_failed r' c reason x)
  then have b: "rnStatus x = ''running''" "r' = r" "k = ''failed''" by (simp_all split: if_split_asm)
  from op_failed(2)[unfolded b(2)] show ?thesis
  proof (cases rule: finishFailedRun_cases)
    case (2 x d1)
    have "runs d1 = runs d" using quiet_close_calls[OF assms(2) 2(3)] by blast
    then show ?thesis using find_run_in[OF 2(1)] 2(2) event_append_runs[OF 2(4)] b(3)
      by (auto simp: ends_to_def end_frames set_run_status_runs terminal_status_def active_status_def)
  qed (use b op_failed(3) in simp)
next
  case (op_completed r' c x)
  then have b: "rnStatus x = ''running''" "r' = r" "k = ''completed''" by (simp_all split: if_split_asm)
  from op_completed(2)[unfolded b(2)] show ?thesis
  proof (cases rule: finishCompletedRun_cases)
    case (2 x)
    then show ?thesis using find_run_in[OF 2(1)] 2(2) event_append_runs[OF 2(4)] b(3)
      by (auto simp: ends_to_def end_frames set_run_status_runs terminal_status_def active_status_def)
  qed (use b op_completed(3) in simp)
qed (simp_all split: if_split_asm)

interpretation end_once: one_shot "session_step env" session_inv "ends_run r" "run_ended r" for env r
proof
  fix s a s'
  assume st: "session_step env s a s'" and inv: "session_inv s"
  show "run_ended r s'" if "run_ended r s"
  proof -
    from that obtain x where x: "x \<in> set (runs (store s))" "rnID x = r" "terminal_status (rnStatus x)" by (auto simp: run_ended_def)
    have "evolves run_ev run_ok (runs (store s)) (runs (store s'))"
      using step_grows[OF st inv] by (simp add: grows_def)
    from run_rows.old_row[OF this x(1)] obtain y where y: "y \<in> set (runs (store s'))" "run_ev x y" ..
    then have "rnStatus y = rnStatus x" using x(3) by (auto simp: run_ev_def status_le_def terminal_status_def)
    with x y show ?thesis by (auto simp: run_ended_def run_ev_def)
  qed
  assume "ends_run r a"
  then obtain k where a: "a = Ended r k" by (auto simp: ends_run_def split: act.splits)
  have "db_op env (store s) (Ended r k) (store s')"
    using st unfolding a by (cases rule: session_step.cases) simp_all
  from ended_op[OF this session_invD(1)[OF inv]] obtain x where x: "x \<in> set (runs (store s))" "rnID x = r" "active_status (rnStatus x)"
    "terminal_status k" and rs: "runs (store s') = update_where (\<lambda>x. rnID x = r) (\<lambda>x. x\<lparr>rnStatus := k, rnFinished := terminal_status k\<rparr>) (runs (store s))"
    by (auto simp: ends_to_def)
  show "\<not> run_ended r s"
  proof
    assume "run_ended r s"
    then obtain y where y: "y \<in> set (runs (store s))" "rnID y = r" "terminal_status (rnStatus y)" by (auto simp: run_ended_def)
    have "y = x" using the_run[OF session_invD(1)[OF inv] x(1) y(1)] y(2) x(2) by simp
    with x(3) y(3) show False by (auto simp: active_status_def terminal_status_def)
  qed
  have "x\<lparr>rnStatus := k, rnFinished := terminal_status k\<rparr> \<in> set (runs (store s'))"
    unfolding rs set_update_where using x(1,2) by (auto simp: image_iff)
  then show "run_ended r s'" unfolding run_ended_def
    by (rule bexI[rotated]) (use x(2,4) in simp)
qed

end
