(* ===== verification/ConvDemo.thy ===== *)
theory ConvDemo
  imports ConvOnce
begin

text \<open>
  The initial state of the sessions and one concrete trace, at which the properties of the
  conversation are instantiated: a user submits a message, the model calls \<open>bash\<close>, the
  operation is asked for, approved once by the user and consumed, the result is recorded, the
  run completes and a queued input starts the next run.
\<close>

section \<open>Initial states\<close>

definition fresh_db :: "conversation list \<Rightarrow> (uuid \<times> uuid) list \<Rightarrow> user list \<Rightarrow> db" where
  "fresh_db cs ms us = \<lparr>conversations = cs, members = ms, users = us, runs = [], inputs = [], permissions = [],
     interactions = [], messages = [], events = [], outbox = [], modelRequests = [], checkpoints = [], nextID = 0, nextEvent = 1,
     nextOrder = 1\<rparr>"

definition fresh_session :: "conversation list \<Rightarrow> (uuid \<times> uuid) list \<Rightarrow> user list \<Rightarrow> session" where
  "fresh_session cs ms us = \<lparr>store = fresh_db cs ms us, held = (\<lambda>_. None)\<rparr>"

text \<open>A state reached by a trace from an initial state with empty conversations.\<close>

definition conv_trace :: "conv_env \<Rightarrow> act list \<Rightarrow> session \<Rightarrow> bool" where
  "conv_trace env as s = (\<exists>cs ms us. distinct (map cvID cs) \<and> (\<forall>cv \<in> set cs. cvLastSeq cv = 0) \<and>
     path (session_step env) (fresh_session cs ms us) as s)"

lemma fresh_inv:
  assumes "distinct (map cvID cs)" "\<forall>cv \<in> set cs. cvLastSeq cv = 0"
  shows "session_inv (fresh_session cs ms us)"
proof (rule session_invI)
  show "inv (store (fresh_session cs ms us))"
    using assms by (simp add: fresh_session_def fresh_db_def inv_parts open_inputs_def conversation_messages_def)
qed (simp_all add: fresh_session_def fresh_db_def running_runs_def)

lemma trace_inv:
  assumes "conv_trace env as s"
  shows "session_inv s"
proof -
  obtain cs ms us where "session_inv (fresh_session cs ms us)" "path (session_step env) (fresh_session cs ms us) as s"
    using assms fresh_inv unfolding conv_trace_def by blast
  then show ?thesis by (blast intro: conv.path_inv)
qed

lemma trace_step: "conv_trace env as s \<Longrightarrow> session_step env s a s' \<Longrightarrow> conv_trace env (as @ [a]) s'"
  unfolding conv_trace_def by (blast intro: path_append path_one)

section \<open>A concrete trace\<close>

definition demo_env :: conv_env where
  "demo_env = \<lparr>envPrepare = (\<lambda>d w u c s atts ctxs rs. Some (s, [])), envJsonb = (\<lambda>s. s),
     envSchedules = \<lparr>codec = \<lparr>scheduleValid = (\<lambda>_. True), scheduleOf = Some, previewOf = Some\<rparr>, available = False,
       prepareSchedule = (\<lambda>d c r j. None), applySchedule = (\<lambda>d c r u j. False)\<rparr>,
     envTables = \<lparr>lower = (\<lambda>n. n), east_asian = (\<lambda>n. False)\<rparr>\<rparr>"

definition demo_conversation :: conversation where
  "demo_conversation = \<lparr>cvID = ''c'', cvWorkspace = ''w'', cvModel = None, cvLastSeq = 0\<rparr>"

definition demo_user :: user where
  "demo_user = \<lparr>usID = ''u'', usDisabled = False, usMustVerify = False, usVerified = True\<rparr>"

definition demo_submission :: submission where
  "demo_submission = \<lparr>smID = uuid_nil, smContent = ''hi'', smAttachments = [], smContexts = [], smReferences = [],
     smExecMode = [], smPermMode = []\<rparr>"

definition demo_call :: tool_call where
  "demo_call = \<lparr>callID = ''k'', callName = ''bash'', arguments = ''{}'', callIndex = 0\<rparr>"

definition demo_run :: "string \<Rightarrow> run" where
  "demo_run st = \<lparr>rnID = ''0'', rnConversation = ''c'', rnStatus = st, rnModel = None, rnSubmission = None,
     rnSubmittedBy = Some ''u'', rnDigest = ''h'', rnExecMode = ''execute'', rnPermMode = ''standard'', rnPermRevision = 0,
     rnApprovedPlan = None, rnInputMessage = Some ''1'', rnFinished = terminal_status st\<rparr>"

definition demo_row :: "string \<Rightarrow> string \<Rightarrow> string \<Rightarrow> tool_call list \<Rightarrow> string \<Rightarrow> string \<Rightarrow> int \<Rightarrow> db_message" where
  "demo_row i rl body ks cid tn n = \<lparr>dmID = i, dmConversation = ''c'', dmRun = Some ''0'', dmRole = rl, dmContent = body,
     dmMetadata = [], dmCalls = ks, dmCallID = cid, dmToolName = tn, dmSeq = n\<rparr>"

definition demo_event :: "int \<Rightarrow> string \<Rightarrow> gomap \<Rightarrow> run_event" where
  "demo_event i k pl = \<lparr>evID = i, evRun = ''0'', evConversation = ''c'', evType = k, evPayload = pl\<rparr>"

definition demo_digest :: string where
  "demo_digest = sha256_hex (''bash'' @ CHR 0x00 # ''{}'')"

definition demo_permission :: "string \<Rightarrow> string option \<Rightarrow> uuid option \<Rightarrow> bool \<Rightarrow> run_permission" where
  "demo_permission st dec by cons = \<lparr>pmID = ''3'', pmWorkspace = ''w'', pmConversation = ''c'', pmRun = ''0'', pmCall = ''k'',
     pmTool = ''bash'', pmDigest = demo_digest, pmSummary = permissionSummary ''bash'' ''{}'', pmAllowRun = False, pmStatus = st,
     pmDecision = dec, pmSource = ''user'', pmReviewDecision = None, pmReviewReason = [], pmReviewer = None, pmRevision = 0,
     pmToken = None, pmConsumed = cons, pmRespondedBy = by\<rparr>"

definition demo0 :: db where
  "demo0 = fresh_db [demo_conversation] [(''w'', ''u'')] [demo_user]"

definition demo1 :: db where
  "demo1 = demo0\<lparr>conversations := [demo_conversation\<lparr>cvLastSeq := 1\<rparr>], runs := [demo_run ''running''],
     messages := [demo_row ''1'' ''user'' ''hi'' [] [] [] 1],
     events := [demo_event 1 ''RUN_STARTED'' [(''input_message_id'', JStr ''1'')]], outbox := [1], nextID := 2, nextEvent := 2\<rparr>"

definition demo2 :: db where
  "demo2 = demo1\<lparr>conversations := [demo_conversation\<lparr>cvLastSeq := 2\<rparr>],
     messages := messages demo1 @ [demo_row ''2'' ''assistant'' [] [demo_call] [] [] 2], nextID := 3\<rparr>"

definition demo3 :: db where
  "demo3 = demo2\<lparr>permissions := [demo_permission ''pending'' None None False],
     events := events demo2 @ [demo_event 2 ''PERMISSION_REQUESTED'' [(''permission_id'', JStr ''3''), (''tool'', JStr ''bash'')]],
     outbox := [1, 2], nextID := 4, nextEvent := 3\<rparr>"

definition demo4 :: db where
  "demo4 = demo3\<lparr>permissions := [demo_permission ''approved'' (Some ''once'') (Some ''u'') False],
     events := events demo3 @ [demo_event 3 ''PERMISSION_RESPONDED'' [(''permission_id'', JStr ''3''), (''status'', JStr ''approved'')]],
     outbox := [1, 2, 3], nextEvent := 4\<rparr>"

definition demo5 :: db where
  "demo5 = demo4\<lparr>permissions := [demo_permission ''approved'' (Some ''once'') (Some ''u'') True]\<rparr>"

definition demo6 :: db where
  "demo6 = demo5\<lparr>conversations := [demo_conversation\<lparr>cvLastSeq := 3\<rparr>],
     messages := messages demo5 @ [demo_row ''4'' ''tool'' ''ok'' [] ''k'' ''bash'' 3], nextID := 5\<rparr>"

lemma show_digits: "show_nat 0 = ''0''" "show_nat (Suc 0) = ''1''" "show_nat 2 = ''2''" "show_nat 3 = ''3''" "show_nat 4 = ''4''"
    "show_nat 5 = ''5''" "show_nat 6 = ''6''" "show_nat 7 = ''7''"
  by code_simp+

lemmas demo_defs = demo_env_def demo_conversation_def demo_user_def demo_submission_def demo_call_def demo_run_def demo_row_def
  demo_event_def fresh_db_def demo0_def demo1_def demo2_def demo3_def demo4_def demo5_def demo6_def demo_permission_def

lemmas db_eval = owned_conversation_def new_id_def insert_message_def find_conversation_def find_run_def event_append_def
  on_runs_def on_inputs_def on_permissions_def on_interactions_def on_permission_def run_row_def user_message_def show_digits Let_def
  member_enabled_def run_with_id_def permission_with_id_def active_runs_def active_status_def terminal_status_def

lemma demo_submit: "start_submission (envPrepare demo_env) ''w'' ''u'' ''c'' demo_submission ''h'' ''execute'' ''standard'' demo0 = Inr (''0'', demo1)"
  by (simp add: demo_defs db_eval start_submission_def queuedInputHasPriority_def insert_run_def numeral_2_eq_2)

definition demo_assistant :: message where
  "demo_assistant = \<lparr>role = ''assistant'', content = [], toolCallID = [], toolCalls = [demo_call], msgRunID = [], messageID = [], msgSeq = 0\<rparr>"

definition demo_result :: message where
  "demo_result = \<lparr>role = ''tool'', content = ''ok'', toolCallID = ''k'', toolCalls = [], msgRunID = [], messageID = [], msgSeq = 0\<rparr>"

lemma demo_call_appended:
  "appendMessageReceipt ''c'' ''0'' demo_assistant [] [] demo1 = Inr (demo_assistant\<lparr>messageID := ''2'', msgSeq := 2, msgRunID := ''0''\<rparr>, demo2)"
  by (simp add: demo_defs db_eval appendMessageReceipt_def receipt_def demo_assistant_def)

lemma demo_permission_digest: "permissionDigest ''bash'' ''{}'' = Some demo_digest"
  by (simp add: permissionDigest_def permissionTool_def demo_digest_def json_unmarshal_def go_json_defs jrun.simps go_text_defs char_of_eq_iff go_map_def)

lemma demo_needs: "needsPermission (envTables demo_env) ''standard'' ''bash'' ''{}'' = (True, False)"
  by (simp add: needsPermission_def permissionTool_def permission_target_def struct_pairs_def str_field_def sensitive_path_def sensitive_part_def
      unasked_tools_def Let_def json_unmarshal_def go_json_defs jrun.simps go_text_defs char_of_eq_iff)

lemma demo_asked:
  "authorize_request (envTables demo_env) (envJsonb demo_env) ''c'' ''0'' ''k'' ''bash'' ''{}'' demo2 = Inr (Some (''3'', demo_digest), demo3)"
proof -
  have t: "permissionTool ''bash'' = ''bash''" by (simp add: permissionTool_def)
  have n: "needsPermission (envTables demo_env) (rnPermMode (demo_run ''running'')) ''bash'' ''{}'' = (True, False)"
    using demo_needs by (simp add: demo_run_def)
  have f: "find_run demo2 ''0'' ''c'' = Some (demo_run ''running'')" by (simp add: demo_defs find_run_def)
  have r: "rnStatus (demo_run ''running'') = ''running''" "rnPermMode (demo_run ''running'') \<noteq> ''auto''" by (simp_all add: demo_run_def)
  have v: "find_conversation demo2 ''c'' = Some (demo_conversation\<lparr>cvLastSeq := 2\<rparr>)" by (simp add: demo_defs find_conversation_def)
  have k: "recorded_call demo2 ''c'' ''0'' ''k'' = Some demo_call" by (simp add: demo_defs recorded_call_def)
  have d: "permissionDigest (callName demo_call) (envJsonb demo_env (arguments demo_call)) = Some demo_digest"
    using demo_permission_digest by (simp add: demo_call_def demo_env_def)
  show ?thesis
    unfolding authorize_request_def t f
    by (simp add: n r v k d demo_permission_digest)
      (simp add: demo_defs db_eval permission_row_def find_permission_def)
qed

lemma demo_answered: "respondPermission ''w'' ''u'' ''c'' ''3'' demo_digest ''once'' demo3 = Inr demo4"
  by (simp add: demo_defs db_eval respondPermission_def answer_permission_def)

lemma demo_polled: "authorize_poll ''c'' ''0'' ''bash'' ''3'' demo_digest demo4 = Inr (PollGranted, demo5)"
  by (simp add: demo_defs db_eval authorize_poll_def authorizeRunTool_def consumePermission_def)

lemma demo_result_appended:
  "appendMessageReceipt ''c'' ''0'' demo_result ''bash'' [] demo5 = Inr (demo_result\<lparr>messageID := ''4'', msgSeq := 3, msgRunID := ''0''\<rparr>, demo6)"
  by (simp add: demo_defs db_eval appendMessageReceipt_def receipt_def demo_result_def)

definition demo_request :: input_request where
  "demo_request = \<lparr>rqID = ''q'', rqRunID = ''0'', rqKind = ''next'', rqContent = ''more'', rqAttachments = [], rqContexts = [],
     rqReferences = [], rqExecMode = [], rqPermMode = []\<rparr>"

definition demo_input :: run_input where
  "demo_input = \<lparr>riID = ''q'', riWorkspace = ''w'', riConversation = ''c'', riAfterRun = ''0'', riSubmittedBy = Some ''u'',
     riKind = ''next'', riRequest = marshal (request_json demo_request), riDigest = request_digest demo_request,
     riContent = ''more'', riMetadata = [], riModel = None, riExecMode = ''execute'', riStatus = ''queued'',
     riPermMode = ''standard'', riOrder = 1, riRevision = 1, riMessage = None, riStartedRun = None, riResume = False,
     riHeldReason = None\<rparr>"

definition demo7 :: db where
  "demo7 = demo6\<lparr>inputs := [demo_input], nextOrder := 2,
     events := events demo6 @ [demo_event 4 ''RUN_INPUT_ACCEPTED'' [(''input_id'', JStr ''q''), (''kind'', JStr ''next''), (''status'', JStr ''queued'')]],
     outbox := [1, 2, 3, 4], nextEvent := 5\<rparr>"

definition demo8 :: db where
  "demo8 = demo7\<lparr>runs := [demo_run ''completed''], events := events demo7 @ [demo_event 5 ''RUN_COMPLETED'' []],
     outbox := [1, 2, 3, 4, 5], nextEvent := 6\<rparr>"

definition demo_next_run :: run where
  "demo_next_run = \<lparr>rnID = ''5'', rnConversation = ''c'', rnStatus = ''running'', rnModel = None, rnSubmission = Some ''q'',
     rnSubmittedBy = Some ''u'', rnDigest = request_digest demo_request, rnExecMode = ''execute'', rnPermMode = ''standard'',
     rnPermRevision = 0, rnApprovedPlan = None, rnInputMessage = Some ''6'', rnFinished = False\<rparr>"

definition demo9 :: db where
  "demo9 = demo8\<lparr>conversations := [demo_conversation\<lparr>cvLastSeq := 4\<rparr>], runs := [demo_run ''completed'', demo_next_run],
     inputs := [demo_input\<lparr>riStatus := ''started'', riMessage := Some ''6'', riStartedRun := Some ''5'', riRevision := 2\<rparr>],
     messages := messages demo8 @ [\<lparr>dmID = ''6'', dmConversation = ''c'', dmRun = Some ''5'', dmRole = ''user'', dmContent = ''more'',
       dmMetadata = [(''run_input_id'', JStr ''q''), (''input_kind'', JStr ''next'')], dmCalls = [], dmCallID = [], dmToolName = [], dmSeq = 4\<rparr>],
     events := events demo8 @
       [\<lparr>evID = 6, evRun = ''5'', evConversation = ''c'', evType = ''RUN_STARTED'', evPayload = [(''input_id'', JStr ''q''), (''input_message_id'', JStr ''6'')]\<rparr>,
        \<lparr>evID = 7, evRun = ''5'', evConversation = ''c'', evType = ''RUN_INPUT_STARTED'', evPayload = [(''input_id'', JStr ''q''), (''status'', JStr ''started'')]\<rparr>],
     outbox := [1, 2, 3, 4, 5, 6, 7], nextID := 7, nextEvent := 8\<rparr>"

lemma demo_accepted:
  "AcceptRunInput (envPrepare demo_env) ''w'' ''u'' ''c'' demo_request demo6 = Inr (demo_input, demo7)"
proof -
  have c: "check_request demo_request = Inr (''execute'', ''standard'')"
    by (simp add: check_request_def demo_request_def permissionMode_def uuid_nil_def rune_count_def go_text_defs)
  have r: "input_row demo_request ''w'' ''u'' ''c'' None ''execute'' ''standard'' ''more'' [] demo6 = demo_input"
    by (simp add: input_row_def demo_input_def demo_request_def demo_defs)
  have q: "rqID demo_request = ''q''" "rqRunID demo_request = ''0''" "rqKind demo_request = ''next''" "rqContent demo_request = ''more''"
    by (simp_all add: demo_request_def)
  have i: "riStatus demo_input = ''queued''" by (simp add: demo_input_def)
  have p: "envPrepare demo_env demo6 ''w'' ''u'' ''c'' ''more'' (rqAttachments demo_request) (rqContexts demo_request) (rqReferences demo_request) = Some (''more'', [])"
    by (simp add: demo_env_def)
  have o: "owned_conversation demo6 ''w'' ''c'' = Some (demo_conversation\<lparr>cvLastSeq := 3\<rparr>)"
    "member_enabled demo6 ''w'' ''u''" "find_run demo6 ''0'' ''c'' = Some (demo_run ''running'')" "inputs demo6 = []"
    "cvModel demo_conversation = None" "runs demo6 = [demo_run ''running'']" "rnStatus (demo_run ''running'') = ''running''"
    "rnSubmission (demo_run ''running'') = None"
    by (simp_all add: demo_defs db_eval)
  show ?thesis unfolding AcceptRunInput_def c q
    by (simp add: o p r i find_input_def open_inputs_def input_limit_def)
      (simp add: demo7_def event_append_def find_conversation_def find_run_def demo_defs)
qed

lemma demo_completed: "finishCompletedRun ''0'' ''c'' demo7 = Inr demo8"
  by (simp add: demo8_def demo7_def demo_input_def demo_defs db_eval finishCompletedRun_def cancel_interactions_def set_run_status_def)

lemma demo_claimed: "claimQueuedInput ''w'' ''c'' demo8 = Inr (Some ''5'', demo9)"
  by (simp add: demo9_def demo8_def demo7_def demo_input_def demo_next_run_def demo_defs db_eval claimQueuedInput_def queued_next_def insert_run_def)

section \<open>The trace\<close>

definition demo_session :: "db \<Rightarrow> phase option \<Rightarrow> session" where
  "demo_session d p = \<lparr>store = d, held = (\<lambda>_. None)(''c'' := p)\<rparr>"

definition demo_acts :: "act list" where
  "demo_acts = [Locked ''c'', Selected ''c'', Submitted ''c'' ''0'', Appended ''0'', Asked ''0'', Answered ''3'' ''u'' ''once'',
     Consumed ''3'', Appended ''0'']"

definition demo_all_acts :: "act list" where
  "demo_all_acts = demo_acts @ [Accepted ''q'', Ended ''0'' ''completed'', Unlocked ''c'', Locked ''c'', Selected ''c'',
     StartedInput ''c'' ''q'' ''5'']"

lemma demo_op: "conv_trace demo_env as (demo_session d p) \<Longrightarrow> db_op demo_env d a d' \<Longrightarrow> conv_trace demo_env (as @ [a]) (demo_session d' p)"
  using trace_step[OF _ ss_op, of demo_env as "demo_session d p" a d'] by (simp add: demo_session_def)

lemma demo_lock:
  assumes "conv_trace demo_env as (demo_session d None)" "active_runs d ''c'' = []"
  shows "conv_trace demo_env (as @ [Locked ''c'', Selected ''c'']) (demo_session d (Some (Recovering [])))"
proof -
  have "conv_trace demo_env (as @ [Locked ''c'']) (demo_session d (Some Fresh))"
    using trace_step[OF assms(1) ss_lock, of "''c''"] by (simp add: demo_session_def)
  from trace_step[OF this ss_select, of "''c''"] assms(2) show ?thesis by (simp add: demo_session_def)
qed

lemma demo_submitted_trace:
  "conv_trace demo_env [Locked ''c'', Selected ''c'', Submitted ''c'' ''0''] (demo_session demo1 (Some (Executing ''0'')))"
proof -
  have "conv_trace demo_env [] (demo_session demo0 None)"
    unfolding conv_trace_def
    by (rule exI[of _ "[demo_conversation]"], rule exI[of _ "[(''w'', ''u'')]"], rule exI[of _ "[demo_user]"])
      (simp add: fresh_session_def demo_session_def demo0_def demo_conversation_def path_nil)
  from demo_lock[OF this] have "conv_trace demo_env [Locked ''c'', Selected ''c''] (demo_session demo0 (Some (Recovering [])))"
    by (simp add: active_runs_def demo0_def fresh_db_def)
  moreover have "session_step demo_env (demo_session demo0 (Some (Recovering []))) (Submitted ''c'' ''0'')
      ((demo_session demo0 (Some (Recovering [])))\<lparr>store := demo1,
        held := (held (demo_session demo0 (Some (Recovering []))))(''c'' := Some (Executing ''0''))\<rparr>)"
    by (rule ss_submit) (use demo_submit in \<open>simp_all add: demo_session_def\<close>)
  ultimately have "conv_trace demo_env ([Locked ''c'', Selected ''c''] @ [Submitted ''c'' ''0''])
      ((demo_session demo0 (Some (Recovering [])))\<lparr>store := demo1,
        held := (held (demo_session demo0 (Some (Recovering []))))(''c'' := Some (Executing ''0''))\<rparr>)"
    by (rule trace_step)
  then show ?thesis by (simp add: demo_session_def)
qed

lemma demo_answer_trace:
  "conv_trace demo_env [Locked ''c'', Selected ''c'', Submitted ''c'' ''0'', Appended ''0'', Asked ''0'', Answered ''3'' ''u'' ''once'']
     (demo_session demo4 (Some (Executing ''0'')))"
proof -
  from demo_op[OF demo_submitted_trace op_append[OF demo_call_appended]]
  have "conv_trace demo_env [Locked ''c'', Selected ''c'', Submitted ''c'' ''0'', Appended ''0''] (demo_session demo2 (Some (Executing ''0'')))"
    by simp
  from demo_op[OF this op_ask[OF demo_asked]]
  have "conv_trace demo_env [Locked ''c'', Selected ''c'', Submitted ''c'' ''0'', Appended ''0'', Asked ''0''] (demo_session demo3 (Some (Executing ''0'')))"
    by simp
  from demo_op[OF this op_answer[OF demo_answered]] show ?thesis by simp
qed

lemma demo_trace: "conv_trace demo_env demo_acts (demo_session demo6 (Some (Executing ''0'')))"
  using demo_op[OF demo_op[OF demo_answer_trace op_poll[OF demo_polled]] op_append[OF demo_result_appended]]
  by (simp add: demo_acts_def)

lemma demo_all_trace: "conv_trace demo_env demo_all_acts (demo_session demo9 (Some (Executing ''5'')))"
proof -
  have f: "find_run demo7 ''0'' ''c'' = Some (demo_run ''running'')" by (simp add: demo7_def demo_defs find_run_def)
  have t1: "conv_trace demo_env (demo_acts @ [Accepted ''q'']) (demo_session demo7 (Some (Executing ''0'')))"
    using demo_op[OF demo_trace op_accept[OF demo_accepted]] by (simp add: demo_input_def)
  have t2: "conv_trace demo_env (demo_acts @ [Accepted ''q'', Ended ''0'' ''completed'']) (demo_session demo8 (Some (Executing ''0'')))"
    using demo_op[OF t1 op_completed[OF demo_completed f]] by (simp add: demo_run_def)
  have t3: "conv_trace demo_env (demo_acts @ [Accepted ''q'', Ended ''0'' ''completed'', Unlocked ''c'']) (demo_session demo8 None)"
    using trace_step[OF t2 ss_unlock, of "''c''"] by (simp add: demo_session_def)
  have "active_runs demo8 ''c'' = []" by (simp add: active_runs_def active_status_def demo8_def demo_run_def)
  from demo_lock[OF t3 this] have t4: "conv_trace demo_env (demo_acts @ [Accepted ''q'', Ended ''0'' ''completed'', Unlocked ''c'', Locked ''c'', Selected ''c''])
      (demo_session demo8 (Some (Recovering [])))" by simp
  have q: "List.find (\<lambda>i. riWorkspace i = ''w'' \<and> queued_next ''c'' i) (inputs demo8) = Some demo_input"
    by (simp add: demo8_def demo7_def demo_input_def queued_next_def)
  have "session_step demo_env (demo_session demo8 (Some (Recovering []))) (StartedInput ''c'' (riID demo_input) ''5'')
      ((demo_session demo8 (Some (Recovering [])))\<lparr>store := demo9,
        held := (held (demo_session demo8 (Some (Recovering []))))(''c'' := Some (Executing ''5''))\<rparr>)"
    by (rule ss_start) (use demo_claimed q in \<open>simp_all add: demo_session_def\<close>)
  from trace_step[OF t4 this] show ?thesis by (simp add: demo_all_acts_def demo_session_def demo_input_def)
qed

end
