(* ===== verification/ConvClaims.thy ===== *)
theory ConvClaims
  imports ConvDemo
begin

text \<open>
  Properties of the conversation service over all its traces: mutual exclusion of runs, one-shot
  authority, final states, bounded queues and the numbering of the transcript.  Every property
  is instantiated at the concrete trace of \<open>ConvDemo\<close>.
\<close>

lemma publish_all_ok: "publish_all publish xs = (True, log) \<Longrightarrow> log = xs \<and> list_all publish log"
  by (induction xs arbitrary: log) (auto split: if_split_asm prod.splits)

lemma pending_event_rows:
  assumes "(e, cv) \<in> set (pending_events d)"
  shows "e \<in> set (events d) \<and> cv \<in> set (conversations d) \<and> cvID cv = evConversation e"
proof -
  from assms obtain i where "(case List.find (\<lambda>e. evID e = i) (events d) of None \<Rightarrow> None
        | Some e \<Rightarrow> map_option (\<lambda>c. (e, c)) (find_conversation d (evConversation e))) = Some (e, cv)"
    unfolding pending_events_def by (auto dest!: in_set_takeD simp: List.map_filter_def)
  then show ?thesis
    by (auto simp: find_conversation_def split: option.splits dest!: find_Some_in)
qed

section \<open>Runs\<close>

text \<open>C1. In every state any interleaving of transactions, crashes and lock handovers can reach, a
  conversation has at most one running run.\<close>

theorem one_running_run:
  assumes "conv_trace env as s"
  shows "length (running_runs (store s) c) \<le> 1"
  by (rule session_invD(2)[OF trace_inv[OF assms]])

theorem one_running_run_witness:
  "length (running_runs demo9 ''c'') \<le> 1 \<and> running_runs demo9 ''c'' = [demo_next_run]"
proof
  show "length (running_runs demo9 ''c'') \<le> 1"
    using one_running_run[OF demo_all_trace, of "''c''"] by (simp add: demo_session_def)
  show "running_runs demo9 ''c'' = [demo_next_run]"
    by (simp add: running_runs_def demo9_def demo_run_def demo_next_run_def)
qed

text \<open>C13. A run that has ended keeps its status, its execution and permission modes, its permission
  revision and its approved plan for ever, and a run being cancelled can only become cancelled;
  rows are never removed.\<close>

theorem ended_run_is_final:
  assumes "conv_trace env as s" "path (session_step env) s bs s'" "x \<in> set (runs (store s))"
  shows "\<exists>y \<in> set (runs (store s')). rnID y = rnID x \<and> rnSubmittedBy y = rnSubmittedBy x \<and>
    (terminal_status (rnStatus x) \<longrightarrow> rnStatus y = rnStatus x \<and> rnExecMode y = rnExecMode x \<and>
       rnPermMode y = rnPermMode x \<and> rnPermRevision y = rnPermRevision x \<and> rnApprovedPlan y = rnApprovedPlan x) \<and>
    (rnStatus x = ''cancelling'' \<longrightarrow> rnStatus y = ''cancelling'' \<or> rnStatus y = ''cancelled'')"
proof -
  have "evolves run_ev run_ok (runs (store s)) (runs (store s'))"
    using path_grows[OF assms(2) trace_inv[OF assms(1)]] by (simp add: grows_def)
  from run_rows.old_row[OF this assms(3)] obtain y where y: "y \<in> set (runs (store s'))" "run_ev x y" ..
  show ?thesis
    by (rule bexI[OF _ y(1)]) (use y(2) in \<open>auto simp: run_ev_def status_le_def terminal_status_def\<close>)
qed

lemma demo_tail: "path (session_step env) s [] s"
  by (rule path_nil)

theorem ended_run_is_final_witness:
  "\<exists>y \<in> set (runs demo9). rnID y = ''0'' \<and> rnStatus y = ''completed''"
  using ended_run_is_final[OF demo_all_trace demo_tail, of "demo_run ''completed''"]
  by (simp add: demo_session_def demo9_def demo_run_def terminal_status_def)



section \<open>Permissions\<close>



text \<open>C2. Whenever a waiting call is granted, in any reachable state: its run is running and not
  blocked by plan mode, the permission is approved, unused, of the run's current revision and of
  the digest of this call, an approval by the reviewer model is for \<open>bash\<close> with an explicit
  allow, and a publication was approved once, by the user who submitted the run.\<close>

theorem granted_call_is_approved:
  assumes "conv_trace env as s" "authorize_poll c r n p digest (store s) = Inr (PollGranted, d')"
  shows "\<exists>q \<in> set (permissions (store s)). \<exists>x \<in> set (runs (store s)).
    pmID q = p \<and> pmRun q = r \<and> rnID x = r \<and> rnStatus x = ''running'' \<and> pmStatus q = ''approved'' \<and> \<not> pmConsumed q \<and>
    pmDigest q = digest \<and> pmRevision q = rnPermRevision x \<and> (rnExecMode x = ''plan'' \<longrightarrow> PlanReadOnlyTool n) \<and>
    (pmSource q = ''llm'' \<longrightarrow> pmTool q = ''bash'' \<and> pmReviewDecision q = Some ''allow'') \<and>
    (pmTool q = ''github_publish'' \<longrightarrow> pmSource q = ''user'' \<and> pmDecision q = Some ''once'' \<and>
       rnSubmittedBy x \<noteq> None \<and> pmRespondedBy q = rnSubmittedBy x)"
proof -
  note i = session_invD(1)[OF trace_inv[OF assms(1)]]
  obtain x q where x: "find_run (store s) r c = Some x" "rnStatus x = ''running''" and q: "q \<in> set (permissions (store s))"
      "pmID q = p" "pmRun q = r" "pmDigest q = digest" "pmRevision q = rnPermRevision x" "pmStatus q = ''approved''" "\<not> pmConsumed q"
      "rnExecMode x = ''plan'' \<Longrightarrow> PlanReadOnlyTool (pmTool q) \<and> PlanReadOnlyTool n"
    by (rule poll_granted[OF assms(2)]) blast
  have ok: "permission_ok q" "own_approval (runs (store s)) q"
    using i q(1) by (simp_all add: inv_def permissions_inv_def list_all_iff)
  have own: "rnSubmittedBy x \<noteq> None \<and> pmRespondedBy q = rnSubmittedBy x" if pub: "pmTool q = ''github_publish''"
  proof -
    obtain z where z: "z \<in> set (runs (store s))" "rnID z = pmRun q" "rnSubmittedBy z = pmRespondedBy q" "pmRespondedBy q \<noteq> None"
      using ok(2) pub q(6) by (auto simp: own_approval_def)
    have "z = x" using the_run[OF i, of x z] find_run_in[OF x(1)] z(1,2) q(3) by simp
    with z(3,4) show ?thesis by simp
  qed
  show ?thesis
    by (rule bexI[OF _ q(1)], rule bexI[OF _ conjunct1[OF find_run_in[OF x(1)]]])
      (use x q own ok(1) find_run_in[OF x(1)] in \<open>simp add: permission_ok_def\<close>)
qed

theorem granted_call_is_approved_witness:
  "\<exists>q \<in> set (permissions demo4). pmID q = ''3'' \<and> pmStatus q = ''approved'' \<and> \<not> pmConsumed q"
  using granted_call_is_approved[OF demo_answer_trace, of "''c''" "''0''" "''bash''" "''3''" demo_digest demo5] demo_polled
  by (auto simp: demo_session_def)

section \<open>Inputs and interactions\<close>

text \<open>C14. A queued input starts at most one run over every trace; a started input names its run, which
  belongs to the same conversation and user and carries the input's identity, and no other run of
  the conversation does.\<close>

theorem input_starts_one_run:
  assumes "conv_trace env as s"
  shows "length (filter (starts_input i) as) \<le> 1 \<and>
    (\<forall>x \<in> set (inputs (store s)). riStatus x = ''started'' \<longrightarrow>
      (\<exists>y. riStartedRun x = Some (rnID y) \<and> rnSubmittedBy y = riSubmittedBy x \<and>
        {z \<in> set (runs (store s)). rnConversation z = riConversation x \<and> rnSubmission z = Some (riID x)} = {y}))"
proof (intro conjI ballI impI)
  obtain cs ms us where "session_inv (fresh_session cs ms us)" "path (session_step env) (fresh_session cs ms us) as s"
    using assms fresh_inv unfolding conv_trace_def by blast
  then show "length (filter (starts_input i) as) \<le> 1" by (blast intro: start_once.at_most_once)
  note inv = session_invD(1)[OF trace_inv[OF assms]]
  fix x assume x: "x \<in> set (inputs (store s))" "riStatus x = ''started''"
  then have "started_run (runs (store s)) x" using inv by (simp add: inv_def inputs_inv_def list_all_iff)
  with x(2) obtain y where y: "y \<in> set (runs (store s))" "riStartedRun x = Some (rnID y)" "rnSubmission y = Some (riID x)"
        "rnSubmittedBy y = riSubmittedBy x" "rnConversation y = riConversation x"
    by (auto simp: started_run_def)
  have "{z \<in> set (runs (store s)). rnConversation z = riConversation x \<and> rnSubmission z = Some (riID x)} = {y}"
  proof (intro equalityI subsetI)
    fix z assume "z \<in> {z \<in> set (runs (store s)). rnConversation z = riConversation x \<and> rnSubmission z = Some (riID x)}"
    then have "z = y" using submission_unique[OF inv y(1), of z] y(3,5) by simp
    then show "z \<in> {y}" by simp
  qed (use y in simp)
  with y show "\<exists>y. riStartedRun x = Some (rnID y) \<and> rnSubmittedBy y = riSubmittedBy x \<and>
        {z \<in> set (runs (store s)). rnConversation z = riConversation x \<and> rnSubmission z = Some (riID x)} = {y}"
    by (intro exI[of _ y]) simp
qed

theorem input_starts_one_run_witness:
  "length (filter (starts_input ''q'') demo_all_acts) \<le> 1 \<and> StartedInput ''c'' ''q'' ''5'' \<in> set demo_all_acts"
  using input_starts_one_run[OF demo_all_trace, of "''q''"] by (simp add: demo_all_acts_def)

text \<open>C16. A conversation never holds more than twenty open inputs (pending, queued or held).\<close>

theorem open_inputs_bounded:
  assumes "conv_trace env as s"
  shows "length (open_inputs (store s) c) \<le> 20"
  using session_invD(1)[OF trace_inv[OF assms]] by (simp add: inv_def inputs_inv_def input_limit_def)

theorem open_inputs_bounded_witness:
  "length (open_inputs demo9 ''c'') \<le> 20"
  using open_inputs_bounded[OF demo_all_trace, of "''c''"] by (simp add: demo_session_def)



section \<open>The transcript and the event log\<close>

text \<open>C17. The messages of a conversation are numbered 1, 2, 3, ... without a gap in the order they were
  written, and a later state only appends messages and events; event IDs are strictly increasing.\<close>

theorem transcript_is_numbered:
  assumes "conv_trace env as s" "path (session_step env) s bs s'"
  shows "(\<forall>cv \<in> set (conversations (store s)).
      map dmSeq (conversation_messages (store s) (cvID cv)) = [1..cvLastSeq cv]) \<and>
    (\<exists>ms. messages (store s') = messages (store s) @ ms) \<and> (\<exists>es. events (store s') = events (store s) @ es) \<and>
    sorted_wrt (<) (map evID (events (store s')))"
proof -
  note i = trace_inv[OF assms(1)]
  have "sorted_wrt (<) (map evID (events (store s')))"
    using session_invD(1)[OF conv.path_inv[OF assms(2) i]] by (simp add: inv_def events_inv_def)
  then show ?thesis
    using session_invD(1)[OF i] path_grows[OF assms(2) i] by (simp add: inv_def messages_inv_def grows_def)
qed

theorem transcript_is_numbered_witness:
  "map dmSeq (conversation_messages demo9 ''c'') = [1..4]"
  using transcript_is_numbered[OF demo_all_trace demo_tail]
  by (simp add: demo_session_def demo9_def demo8_def demo7_def demo_defs)

text \<open>Delivery is at least once: a delivery intent leaves the outbox only when its event has been
  published on the conversation's and on the workspace's channel; a failed publication keeps every
  intent, and the events published are the oldest, in event order.\<close>

theorem flush_delivers:
  assumes "event_flush publish d = (res, log, d')" "i \<in> set (outbox d)" "i \<notin> set (outbox d')"
  shows "\<exists>e cv. evID e = i \<and> cv \<in> set (conversations d) \<and> cvID cv = evConversation e \<and> e \<in> set (events d) \<and>
    (''conversation:'' @ evConversation e, e) \<in> set log \<and> (''workspace:'' @ cvWorkspace cv, e) \<in> set log \<and>
    list_all publish log \<and> log = event_deliveries (pending_events d)"
  using assms(1)
proof (cases rule: event_flush_cases)
  case 1
  then show ?thesis using assms(2,3) by simp
next
  case 2
  have all: "log = event_deliveries (pending_events d)" "list_all publish log"
    using publish_all_ok[OF 2(3)] by auto
  have "i \<in> evID ` fst ` set (pending_events d)" using 2(1) assms(2,3) by auto
  then obtain e cv where e: "(e, cv) \<in> set (pending_events d)" "evID e = i" by auto
  have p: "e \<in> set (events d)" "cv \<in> set (conversations d)" "cvID cv = evConversation e"
    using pending_event_rows[OF e(1)] by auto
  have "(ch, e) \<in> set log" if "ch \<in> set (event_channels e cv)" for ch
    using e(1) that all(1) by (force simp: event_deliveries_def)
  then show ?thesis using e p all
    by (intro exI[of _ e], intro exI[of _ cv]) (simp add: event_channels_def)
qed

theorem flush_delivers_witness:
  "1 \<in> set (outbox demo1) \<and> 1 \<notin> set (outbox (snd (snd (event_flush (\<lambda>_. True) demo1)))) \<and>
   (\<exists>e. evID e = 1 \<and> (''conversation:c'', e) \<in> set (fst (snd (event_flush (\<lambda>_. True) demo1))))"
proof -
  let ?e = "demo_event 1 ''RUN_STARTED'' [(''input_message_id'', JStr ''1'')]"
  have f: "event_flush (\<lambda>_. True) demo1 = (Inr 1, [(''conversation:c'', ?e), (''workspace:w'', ?e)], demo1\<lparr>outbox := []\<rparr>)"
    by (simp add: event_flush_def pending_events_def demo_defs find_conversation_def event_deliveries_def event_channels_def Let_def)
  have o: "1 \<in> set (outbox demo1)" by (simp add: demo1_def)
  from flush_delivers[OF f o] have "\<exists>e cv. evID e = 1 \<and> (''conversation:'' @ evConversation e, e) \<in> set [(''conversation:c'', ?e), (''workspace:w'', ?e)]"
    by fastforce
  then show ?thesis unfolding f using o by auto
qed

end
