(* ===== verification/Executor.thy ===== *)
theory Executor
  imports ModelRequests ToolProjection Interactions
begin

text \<open>
  The run executor, \<open>executor.go\<close> and \<open>compactContext\<close> of \<open>context_checkpoints.go\<close>
  (\<open>backend/internal/conversation\<close>): load the transcript, and then, turn by turn, take the
  user's adjustments, build a bounded request, stream the model's answer, record it, run its
  tool calls one after the other and record each result.

  Between two transactions any other process may write, so the executor is a machine: a phase
  says which transaction or outside call is next, \<open>exec_step\<close> does it.  An \<open>exec_input\<close> is
  what comes from outside: a stream, a summary, a tool result, the end of the context, or a
  failing database (\<open>Fault\<close>).  Events are queued in \<open>exEmits\<close>, as each is written in a
  transaction of its own.  Prompt composition, the provider client, the computer and the
  tools themselves are behind the inputs; the texts for command tasks and reviewed files,
  whose tables are not in this database, and the texts of errors are arguments (\<open>exec_env\<close>).
\<close>

section \<open>State\<close>

datatype exec_failure =
    CtxEnded
  | LoadFailed string
  | DatabaseFailed err
  | BuildFailed exchange_error
  | StateFailed
  | BudgetFailed budget_error
  | BuildContext exec_failure
  | OverBudget
  | StreamFailed go_error
  | CallsFailed err
  | EmptyAnswer
  | ResultFailed

text \<open>Where a compaction was asked for: the budget loop, or after a refused request.\<close>

datatype continuation = Attempt nat | Retry go_error

datatype exec_phase =
    Loading
  | Preparing "message list"
  | LoadingCheckpoint
  | Turn
  | Building nat
  | Ready request projection budget
  | Compacting continuation request projection budget
  | Summarizing continuation request projection budget plan int
  | SavingCheckpoint continuation request projection budget plan string int
  | Waiting request projection budget
  | Partial string assembler exec_failure bool
  | Answering request budget string "tool_call list" "usage option"
  | Completing
  | Batch "tool_call list"
  | Running tool_call "tool_call list"
  | Giving exec_failure bool
  | Closing exec_failure bool
  | Stopped

record executor =
  exConv :: uuid
  exRun :: uuid
  exRequest :: request
  exCheckpoint :: "checkpoint option"
  exEstimator :: estimator
  exConfig :: budget_config
  exIndex :: int
  exRecoveries :: nat
  exNoCompaction :: bool
  exTurn :: nat
  exPhase :: exec_phase
  exEmits :: "(string \<times> gomap) list"

record summary_answer =
  smText :: string
  smHasCalls :: bool
  smUsage :: "usage option"

text \<open>A tool returns a Go value; a \<open>map[string]any\<close> is told from every other value.\<close>

datatype tool_value = GoMap gomap | GoValue json

datatype exec_input =
    Go
  | Fault
  | CtxDone bool
  | Prepared string "tool list" string budget_config bool
  | Summary "summary_answer option" "go_error option"
  | Delta string
  | Answered "event list"
  | Refused go_error
  | Interrupted bool "event list"
  | ToolDone tool_value "string option"
  | ToolLost bool "tool_value option"

record exec_env =
  xTables :: unicode_tables
  xJsonb :: "string \<Rightarrow> string"
  xShown :: "db_message \<Rightarrow> string"
  xTaskState :: "db \<Rightarrow> uuid \<Rightarrow> uuid \<Rightarrow> string option"
  xFileFacts :: "db \<Rightarrow> uuid \<Rightarrow> uuid \<Rightarrow> string option"
  xListFiles :: tool
  xText :: "exec_failure \<Rightarrow> string"

definition empty_request :: request where
  "empty_request = \<lparr>reqModel = [], reqSystem = [], reqMessages = [], reqTools = [], reqMaxTokens = 0,
     reqTemperature = None, reqResponseSchema = None\<rparr>"

text \<open>What \<open>start\<close> hands to a new execution.\<close>

definition start_executor :: "uuid \<Rightarrow> uuid \<Rightarrow> executor" where
  "start_executor c r = \<lparr>exConv = c, exRun = r, exRequest = empty_request, exCheckpoint = None, exEstimator = (0, 0),
     exConfig = \<lparr>contextWindow = 0, cfgOutputReserve = 0, cfgPolicyWindow = 0\<rparr>, exIndex = 0, exRecoveries = 0,
     exNoCompaction = False, exTurn = 0, exPhase = Loading, exEmits = []\<rparr>"

definition at :: "exec_phase \<Rightarrow> executor \<Rightarrow> executor" where
  "at p e = e\<lparr>exPhase := p\<rparr>"

definition say :: "string \<Rightarrow> gomap \<Rightarrow> executor \<Rightarrow> executor" where
  "say kind payload e = e\<lparr>exEmits := exEmits e @ [(kind, payload)]\<rparr>"

definition next_turn :: "executor \<Rightarrow> executor" where
  "next_turn e = e\<lparr>exTurn := exTurn e + 1, exPhase := Turn\<rparr>"

definition append_messages :: "message list \<Rightarrow> executor \<Rightarrow> executor" where
  "append_messages ms e = e\<lparr>exRequest := (exRequest e)\<lparr>reqMessages := reqMessages (exRequest e) @ ms\<rparr>\<rparr>"

text \<open>A transaction, unless the database fails.\<close>

definition attempt :: "exec_input \<Rightarrow> err + 'a \<Rightarrow> err + 'a" where
  "attempt i x = (if i = Fault then Inl (OtherErr ''database'') else x)"

section \<open>What the events carry\<close>

definition stats_json :: "stats \<Rightarrow> json" where
  "stats_json s = JObj
     [(''policy_version'', JStr ''tool-context-v1''), (''recent_full'', int_json (int (stRecentFull s))),
      (''full'', int_json (int (stFull s))), (''reference'', int_json (int (stReference s))),
      (''evicted'', int_json (int (stEvicted s))), (''pinned'', int_json (int (stPinned s))),
      (''before_characters'', int_json (int (stBefore s))), (''after_characters'', int_json (int (stAfter s)))]"

definition budget_json :: "budget \<Rightarrow> json" where
  "budget_json b = JObj
     [(''source'', JStr (bgSource b)), (''estimated_input_tokens'', int_json (estimatedInput b)),
      (''model_window'', int_json (modelWindow b)), (''model_window_known'', JBool (modelWindowKnown b)),
      (''policy_window'', int_json (policyWindow b)), (''output_reserve'', int_json (outputReserve b)),
      (''input_limit'', int_json (inputLimit b)), (''should_compact'', JBool (shouldCompact b)),
      (''exceeded'', JBool (exceeded b))]"

section \<open>Loading\<close>

text \<open>
  \<open>execute\<close>: the transcript as it is in the database, then what the composition of the
  prompt gives (\<open>Prepared\<close>: system prompt, tools, model, budgets, and whether this is the
  designer agent, the only one with \<open>save_agent\<close>).  \<open>saveRunContext\<close> refuses a run that is
  not running.
\<close>

definition step_loading :: "exec_env \<Rightarrow> exec_input \<Rightarrow> executor \<Rightarrow> db \<Rightarrow> (executor \<times> db) option" where
  "step_loading env i e d =
     (case i of
        Go \<Rightarrow> if find_conversation d (exConv e) = None then Some (at (Giving (LoadFailed ''conversation'') False) e, d)
              else Some (at (Preparing (modelHistory (xShown env) (conversation_messages d (exConv e)))) e, d)
      | CtxDone u \<Rightarrow> Some (at (Giving CtxEnded u) e, d)
      | Fault \<Rightarrow> Some (at (Giving (LoadFailed ''conversation'') False) e, d)
      | _ \<Rightarrow> None)"

definition saveRunContext :: "db \<Rightarrow> uuid \<Rightarrow> bool" where
  "saveRunContext d r = list_ex (\<lambda>x. rnID x = r \<and> rnStatus x = ''running'') (runs d)"

definition executor_tools :: "bool \<Rightarrow> tool list \<Rightarrow> tool list" where
  "executor_tools designer ts = (if designer then ts else filter (\<lambda>t. toolName t \<noteq> ''save_agent'') ts)"

definition step_preparing :: "exec_input \<Rightarrow> message list \<Rightarrow> executor \<Rightarrow> db \<Rightarrow> (executor \<times> db) option" where
  "step_preparing i h e d =
     (case i of
        Prepared system ts model cfg designer \<Rightarrow>
          (let e' = e\<lparr>exRequest := empty_request\<lparr>reqModel := model, reqSystem := system, reqMessages := h,
                        reqTools := executor_tools designer ts\<rparr>, exConfig := cfg\<rparr>
           in Some (at (if saveRunContext d (exRun e) then LoadingCheckpoint
                        else Giving (LoadFailed ''run is no longer active'') False) e', d))
      | CtxDone u \<Rightarrow> Some (at (Giving CtxEnded u) e, d)
      | Fault \<Rightarrow> Some (at (Giving (LoadFailed ''preparation'') False) e, d)
      | _ \<Rightarrow> None)"

definition step_checkpoint :: "exec_env \<Rightarrow> exec_input \<Rightarrow> executor \<Rightarrow> db \<Rightarrow> (executor \<times> db) option" where
  "step_checkpoint env i e d =
     (if i \<noteq> Go \<and> i \<noteq> Fault then None
      else (case attempt i (loadContextCheckpoint (xJsonb env) (exConv e) (exRun e) d) of
          Inl x \<Rightarrow> Some (at (Giving (DatabaseFailed x) False) e, d)
        | Inr cp \<Rightarrow> Some (at Turn (e\<lparr>exCheckpoint := cp\<rparr>), d)))"

section \<open>Building a request\<close>

definition permission_note :: "string \<Rightarrow> string" where
  "permission_note p = [CHR 0x0A, CHR 0x0A] @ ''<permissions>Active task permission mode: '' @ p @ ''. The server checks every tool. It displays operation approvals automatically when required; do not ask redundant questions for those approvals. Plan approval never changes this permission mode. A rejected operation is not permission to retry it with another command, tool or path. Full access stays within the authorized Computer and platform scope; it never grants host access or enables external network access.</permissions>''"

definition plan_mode_note :: string where
  "plan_mode_note = [CHR 0x0A, CHR 0x0A] @ ''<execution_mode>Plan mode is read-only. Use list_files to discover paths, then read tools to inspect files and clarify requirements when necessary. Bash, file edits/writes, publication and other changes are blocked by the server. Use propose_plan for exact user review. Only an explicit approval of that active plan version enables execution; question answers, summaries and historical agreement do not grant approval.</execution_mode>''"

definition approved_plan_note :: "string \<Rightarrow> string" where
  "approved_plan_note p = [CHR 0x0A, CHR 0x0A] @ ''<execution_mode>The user approved this exact plan version for this active run. Normal tool execution is enabled within that agreed scope; do not ask for the same approval again. Publication still requires the user'' @ [CHR 0x27] @ ''s actual publication request. User adjustments and current state checks remain authoritative. The following platform-restored plan is the approved scope, not permission granted by a summary:'' @ [CHR 0x0A] @ p @ [CHR 0x0A] @ ''</execution_mode>''"

definition runModeContext :: "(string \<Rightarrow> string) \<Rightarrow> uuid \<Rightarrow> uuid \<Rightarrow> db \<Rightarrow> err + (string \<times> string)" where
  "runModeContext jsonb c r d =
     (case find_run d r c of
        None \<Rightarrow> Inl NoRows
      | Some x \<Rightarrow>
          if rnStatus x \<noteq> ''running'' then Inl ErrRunNotActive
          else if rnExecMode x = ''plan'' then Inr (''plan'', permission_note (rnPermMode x) @ plan_mode_note)
          else (case rnApprovedPlan x of
              None \<Rightarrow> Inr (rnExecMode x, permission_note (rnPermMode x))
            | Some g \<Rightarrow>
               (case List.find (\<lambda>y. itRun y = r \<and> itConversation y = c \<and> itKind y = ''plan'' \<and> itStatus y = ''approved'' \<and>
                        itDigest y = g) (interactions d) of
                  None \<Rightarrow> Inl (OtherErr ''approved plan record unavailable'')
                | Some y \<Rightarrow> Inr (rnExecMode x, permission_note (rnPermMode x)
                      @ approved_plan_note (jsonb (render (interaction_json (itRequest y))))))))"

text \<open>The complete transcript stays in \<open>exRequest\<close>; only the copy that is sent is projected.\<close>

definition build_request :: "exec_env \<Rightarrow> executor \<Rightarrow> db \<Rightarrow> exec_failure + (request \<times> projection \<times> budget)" where
  "build_request env e d =
     (case Build (ApplyCheckpoint (reqMessages (exRequest e)) (exCheckpoint e)) of
        Inl x \<Rightarrow> Inl (BuildFailed x)
      | Inr pr \<Rightarrow>
         (case runModeContext (xJsonb env) (exConv e) (exRun e) d of
            Inl x \<Rightarrow> Inl (DatabaseFailed x)
          | Inr (mode, note) \<Rightarrow>
             (case (xTaskState env d (exConv e) (exRun e), xFileFacts env d (exConv e) (exRun e)) of
                (Some tasks, Some files) \<Rightarrow>
                  (let rq = (exRequest e)\<lparr>reqSystem := reqSystem (exRequest e) @ note @ tasks @ files,
                              reqMessages := prMessages pr,
                              reqTools := modelToolsForMode (xListFiles env) (reqTools (exRequest e)) mode\<rparr>
                   in (case Evaluate (xTables env) (exEstimator e) rq (exConfig e) of
                         Inl x \<Rightarrow> Inl (BudgetFailed x)
                       | Inr b \<Rightarrow> Inr (rq, pr, b)))
              | _ \<Rightarrow> Inl StateFailed)))"

text \<open>The top of the loop: the user's adjustments join the transcript.\<close>

definition step_turn :: "exec_input \<Rightarrow> executor \<Rightarrow> db \<Rightarrow> (executor \<times> db) option" where
  "step_turn i e d =
     (case i of
        CtxDone u \<Rightarrow> Some (at (Giving CtxEnded u) e, d)
      | _ \<Rightarrow>
         if i \<noteq> Go \<and> i \<noteq> Fault then None
         else (case attempt i (applyRunAdjustments (exConv e) (exRun e) d) of
             Inl x \<Rightarrow> Some (at (Giving (DatabaseFailed x) False) e, d)
           | Inr (ms, d') \<Rightarrow> Some (at (Building 0) (append_messages ms e), d')))"

text \<open>At most two compactions before a request, none after one that failed.\<close>

definition step_building :: "exec_env \<Rightarrow> exec_input \<Rightarrow> nat \<Rightarrow> executor \<Rightarrow> db \<Rightarrow> (executor \<times> db) option" where
  "step_building env i n e d =
     (if i \<noteq> Go \<and> i \<noteq> Fault then None
      else (case (if i = Fault then Inl StateFailed else build_request env e d) of
          Inl f \<Rightarrow> Some (at (Giving (if n = 0 then BuildContext f else f) False) e, d)
        | Inr (rq, pr, b) \<Rightarrow>
            if shouldCompact b \<and> \<not> exNoCompaction e \<and> n < 2 then Some (at (Compacting (Attempt n) rq pr b) e, d)
            else Some (at (Ready rq pr b) e, d)))"

definition started_event :: "executor \<Rightarrow> int \<Rightarrow> projection \<Rightarrow> budget \<Rightarrow> gomap" where
  "started_event e i pr b =
     [(''turn'', int_json (int (exTurn e) + 1)), (''request_index'', int_json i),
      (''tool_context'', stats_json (prStats pr)), (''context_budget'', budget_json b)]"

definition step_ready :: "exec_input \<Rightarrow> request \<Rightarrow> projection \<Rightarrow> budget \<Rightarrow> executor \<Rightarrow> db \<Rightarrow> (executor \<times> db) option" where
  "step_ready i rq pr b e d =
     (case i of
        CtxDone u \<Rightarrow> Some (at (Giving CtxEnded u) e, d)
      | _ \<Rightarrow>
         if i \<noteq> Go \<and> i \<noteq> Fault then None
         else if exceeded b then Some (at (Giving OverBudget False) e, d)
         else (case attempt i (startModelRequest (exRun e) ''execution'' b d) of
             Inl x \<Rightarrow> Some (at (Giving (DatabaseFailed x) False) e, d)
           | Inr (k, d') \<Rightarrow> Some (say ''MODEL_STARTED'' (started_event e k pr b) (at (Waiting rq pr b) (e\<lparr>exIndex := k\<rparr>)), d')))"

section \<open>Compaction\<close>

definition compaction_base :: "executor \<Rightarrow> request \<Rightarrow> request" where
  "compaction_base e rq = (exRequest e)\<lparr>reqSystem := reqSystem rq, reqTools := reqTools rq\<rparr>"

definition compaction_tokens :: "budget \<Rightarrow> int" where
  "compaction_tokens b0 = min 2048 (outputReserve b0)"

text \<open>The plan and the budget of its summarization request.\<close>

definition plan_compaction :: "exec_env \<Rightarrow> executor \<Rightarrow> request \<Rightarrow> budget \<Rightarrow> go_error + (plan \<times> budget)" where
  "plan_compaction env e rq b0 =
     (let mx = compaction_tokens b0; cfg = (exConfig e)\<lparr>cfgOutputReserve := mx\<rparr>; base = compaction_base e rq in
      (case PlanCompaction (xTables env) (reqMessages base) (exCheckpoint e) (reqModel base) (exEstimator e) cfg mx of
         Inl x \<Rightarrow> Inl (OtherError ''plan'')
       | Inr pl \<Rightarrow>
          (case Evaluate (xTables env) (exEstimator e)
                  (CompactionRequest (reqModel base) (plSources pl) (exCheckpoint e) mx) cfg of
             Inl x \<Rightarrow> Inl (OtherError ''compaction request exceeds its own context budget'')
           | Inr b \<Rightarrow> if exceeded b then Inl (OtherError ''compaction request exceeds its own context budget'')
                      else Inr (pl, b))))"

text \<open>A failed compaction opens the circuit; the previous boundary stays.\<close>

definition compaction_failed :: "continuation \<Rightarrow> request \<Rightarrow> projection \<Rightarrow> budget \<Rightarrow> go_error \<Rightarrow> executor \<Rightarrow> executor" where
  "compaction_failed k rq pr b err e =
     say ''CONTEXT_COMPACTION_FAILED''
       [(''error_kind'', JStr (error_kind_of (Some err))), (''prior_checkpoint_preserved'', JBool True)]
       (at (case k of Attempt n \<Rightarrow> Ready rq pr b | Retry x \<Rightarrow> Giving (StreamFailed x) False) (e\<lparr>exNoCompaction := True\<rparr>))"

definition step_compacting :: "exec_env \<Rightarrow> exec_input \<Rightarrow> continuation \<Rightarrow> request \<Rightarrow> projection \<Rightarrow> budget \<Rightarrow> executor \<Rightarrow> db \<Rightarrow>
    (executor \<times> db) option" where
  "step_compacting env i k rq pr b e d =
     (if i \<noteq> Go \<and> i \<noteq> Fault then None
      else (case plan_compaction env e rq b of
          Inl x \<Rightarrow> Some (compaction_failed k rq pr b x e, d)
        | Inr (pl, b2) \<Rightarrow>
           (case attempt i (startModelRequest (exRun e) ''compaction'' b2 d) of
              Inl x \<Rightarrow> Some (compaction_failed k rq pr b (OtherError ''model_request_usage'') e, d)
            | Inr (n, d') \<Rightarrow> Some (say ''CONTEXT_COMPACTING'' [(''request_index'', int_json n)]
                               (at (Summarizing k rq pr b pl n) (e\<lparr>exIndex := n\<rparr>)), d'))))"

definition summary_of :: "summary_answer option \<Rightarrow> go_error option \<Rightarrow> go_error + string" where
  "summary_of resp err =
     (case err of Some x \<Rightarrow> Inl x
      | None \<Rightarrow>
         (case resp of
            None \<Rightarrow> Inl (OtherError ''compaction returned no summary or attempted a tool call'')
          | Some a \<Rightarrow> if smHasCalls a then Inl (OtherError ''compaction returned no summary or attempted a tool call'')
                      else (case ValidateSummary (smText a) of Inl x \<Rightarrow> Inl (OtherError ''summary'') | Inr s \<Rightarrow> Inr s)))"

text \<open>The summary must make the complete request smaller by a twentieth.\<close>

definition candidate :: "plan \<Rightarrow> string \<Rightarrow> checkpoint" where
  "candidate pl s = \<lparr>cpID = [], throughSeq = plThroughSeq pl, retainedIDs = plRetainedIDs pl, cpSummary = s,
     sourceDigest = [], sourceCount = 0, cpModel = []\<rparr>"

definition judge_summary :: "exec_env \<Rightarrow> executor \<Rightarrow> request \<Rightarrow> budget \<Rightarrow> plan \<Rightarrow> string \<Rightarrow> go_error + int" where
  "judge_summary env e rq b0 pl s =
     (let base = compaction_base e rq in
      (case Build (ApplyCheckpoint (reqMessages base) (Some (candidate pl s))) of
         Inl x \<Rightarrow> Inl (OtherError ''projection'')
       | Inr pr \<Rightarrow>
          (case Evaluate (xTables env) (exEstimator e) (base\<lparr>reqMessages := prMessages pr\<rparr>) (exConfig e) of
             Inl x \<Rightarrow> Inl (OtherError ''budget'')
           | Inr after \<Rightarrow>
               if estimatedInput b0 - estimatedInput b0 div 20 \<le> estimatedInput after
               then Inl (OtherError ''compaction did not sufficiently reduce the complete request'')
               else Inr (estimatedInput after))))"

definition step_summarizing :: "exec_env \<Rightarrow> exec_input \<Rightarrow> continuation \<Rightarrow> request \<Rightarrow> projection \<Rightarrow> budget \<Rightarrow> plan \<Rightarrow> int \<Rightarrow>
    executor \<Rightarrow> db \<Rightarrow> (executor \<times> db) option" where
  "step_summarizing env i k rq pr b pl n e d =
     (case i of
        Summary resp err \<Rightarrow>
          (let us = (case resp of None \<Rightarrow> None | Some a \<Rightarrow> smUsage a);
               done = (\<lambda>x. finishModelRequest (exRun e) n us x d) in
           (case summary_of resp err of
              Inl x \<Rightarrow> Some (compaction_failed k rq pr b x e, done (Some x))
            | Inr s \<Rightarrow>
               (case judge_summary env e rq b pl s of
                  Inl x \<Rightarrow> Some (compaction_failed k rq pr b x e, done None)
                | Inr after \<Rightarrow> Some (at (SavingCheckpoint k rq pr b pl s after) e, done None))))
      | Fault \<Rightarrow> Some (compaction_failed k rq pr b (OtherError ''database'') e, d)
      | _ \<Rightarrow> None)"

definition step_saving :: "exec_input \<Rightarrow> continuation \<Rightarrow> request \<Rightarrow> projection \<Rightarrow> budget \<Rightarrow> plan \<Rightarrow> string \<Rightarrow> int \<Rightarrow>
    executor \<Rightarrow> db \<Rightarrow> (executor \<times> db) option" where
  "step_saving i k rq pr b pl s after e d =
     (if i \<noteq> Go \<and> i \<noteq> Fault then None
      else (case attempt i (saveContextCheckpoint (exConv e) (exRun e) (exCheckpoint e) pl s (reqModel (exRequest e))
                   (estimatedInput b) after d) of
          Inl x \<Rightarrow> Some (compaction_failed k rq pr b (OtherError ''checkpoint'') e, d)
        | Inr (cp, d') \<Rightarrow>
            (let e' = e\<lparr>exCheckpoint := Some cp\<rparr>
             in Some (case k of Attempt n \<Rightarrow> at (Building (n + 1)) e' | Retry x \<Rightarrow> next_turn e', d'))))"

section \<open>The model's answer\<close>

text \<open>The stream up to its end or its error: text, calls, usage.\<close>

fun read_stream :: "string \<Rightarrow> assembler \<Rightarrow> usage option \<Rightarrow> event list \<Rightarrow> string \<times> assembler \<times> usage option \<times> go_error option" where
  "read_stream text cs us [] = (text, cs, us, None)"
| "read_stream text cs us (ev # evs) =
     (let us' = (case evUsage ev of None \<Rightarrow> us | Some u \<Rightarrow> Some u) in
      (case evErr ev of
         Some x \<Rightarrow> (text, cs, us', Some x)
       | None \<Rightarrow> read_stream (text @ evDelta ev) (add_event cs ev) us' evs))"

text \<open>\<open>recoverContext\<close>: one compaction for a request the provider found too large.\<close>

definition recoverable :: "executor \<Rightarrow> go_error \<Rightarrow> bool \<Rightarrow> bool" where
  "recoverable e err hasPartial = (\<not> hasPartial \<and> \<not> exNoCompaction e \<and> exRecoveries e < 1 \<and>
     error_kind_of (Some err) = ''context_length_exceeded'')"

definition give_up :: "string \<Rightarrow> assembler \<Rightarrow> exec_failure \<Rightarrow> bool \<Rightarrow> executor \<Rightarrow> executor" where
  "give_up text cs f user e = at (if text = [] \<and> cs = [] then Giving f user else Partial text cs f user) e"

definition refused :: "go_error \<Rightarrow> string \<Rightarrow> assembler \<Rightarrow> request \<Rightarrow> projection \<Rightarrow> budget \<Rightarrow> executor \<Rightarrow> executor" where
  "refused err text cs rq pr b e =
     (if recoverable e err (text \<noteq> [] \<or> cs \<noteq> [])
      then at (Compacting (Retry err) rq pr b) (e\<lparr>exRecoveries := exRecoveries e + 1\<rparr>)
      else give_up text cs (StreamFailed err) False e)"

definition step_waiting :: "exec_env \<Rightarrow> exec_input \<Rightarrow> request \<Rightarrow> projection \<Rightarrow> budget \<Rightarrow> executor \<Rightarrow> db \<Rightarrow> (executor \<times> db) option" where
  "step_waiting env i rq pr b e d =
     (let done = (\<lambda>us x. finishModelRequest (exRun e) (exIndex e) us x d) in
      (case i of
         Delta s \<Rightarrow> Some (say ''MODEL_DELTA'' [(''delta'', JStr s)] e, d)
       | Refused err \<Rightarrow> Some (refused err [] [] rq pr b e, done None (Some err))
       | Interrupted user evs \<Rightarrow>
           (case read_stream [] [] None evs of (text, cs, us, err) \<Rightarrow>
              Some (give_up text cs CtxEnded user e, done us (Some (case err of None \<Rightarrow> CtxCanceled | Some x \<Rightarrow> x))))
       | Answered evs \<Rightarrow>
           (case read_stream [] [] None evs of
              (text, cs, us, Some err) \<Rightarrow> Some (refused err text cs rq pr b e, done us (Some err))
            | (text, cs, us, None) \<Rightarrow>
               (case assembledToolCalls cs of
                  Inl x \<Rightarrow> Some (give_up text cs (CallsFailed x) False e, done us (Some (OtherError ''calls'')))
                | Inr ks \<Rightarrow>
                    if ks = [] \<and> trim_space text = []
                    then Some (at (Giving EmptyAnswer False) e, done us (Some (ProviderError ''protocol'' 0 False None)))
                    else Some (at (Answering rq b text ks us)
                           (e\<lparr>exEstimator := Observe (exEstimator e) (int (EstimateInput (xTables env) rq)) us,
                              exRecoveries := 0\<rparr>), done us None)))
       | Fault \<Rightarrow> Some (at (Giving (DatabaseFailed (OtherErr ''database'')) False) e, d)
       | _ \<Rightarrow> None))"

text \<open>\<open>savePartialResponse\<close>: kept for the user, never shown to a model.\<close>

definition fragments_json :: "assembler \<Rightarrow> json" where
  "fragments_json cs = JObj (go_map (map (\<lambda>(n, k). (show_int n, JObj (go_map
     [(''id'', JStr (callID k)), (''name'', JStr (callName k)), (''arguments_fragment'', JStr (arguments k))]))) cs))"

definition assistant_message :: "string \<Rightarrow> tool_call list \<Rightarrow> uuid \<Rightarrow> message" where
  "assistant_message text ks r = empty_message\<lparr>role := ''assistant'', content := text, toolCalls := ks, msgRunID := r\<rparr>"

definition savePartialResponse :: "uuid \<Rightarrow> uuid \<Rightarrow> string \<Rightarrow> assembler \<Rightarrow> db \<Rightarrow> db" where
  "savePartialResponse c r text cs d =
     (case appendMessageReceipt c r (assistant_message text [] []) []
             [(''incomplete'', JBool True), (''tool_call_fragments'', fragments_json cs)] d of
        Inl x \<Rightarrow> d
      | Inr (m, d') \<Rightarrow> d')"

definition step_partial :: "exec_input \<Rightarrow> string \<Rightarrow> assembler \<Rightarrow> exec_failure \<Rightarrow> bool \<Rightarrow> executor \<Rightarrow> db \<Rightarrow> (executor \<times> db) option" where
  "step_partial i text cs f user e d =
     (if i = Go then Some (at (Giving f user) e, savePartialResponse (exConv e) (exRun e) text cs d)
      else if i = Fault then Some (at (Giving f user) e, d)
      else None)"

definition completed_event :: "int \<Rightarrow> message \<Rightarrow> usage option \<Rightarrow> budget \<Rightarrow> gomap" where
  "completed_event n m us b =
     [(''request_index'', int_json n), (''message_id'', JStr (messageID m)),
      (''usage'', usage_json (case us of None \<Rightarrow> no_usage | Some u \<Rightarrow> u)), (''context_budget'', budget_json b)]"

definition step_answering :: "exec_input \<Rightarrow> budget \<Rightarrow> string \<Rightarrow> tool_call list \<Rightarrow> usage option \<Rightarrow> executor \<Rightarrow> db \<Rightarrow> (executor \<times> db) option" where
  "step_answering i b text ks us e d =
     (if i \<noteq> Go \<and> i \<noteq> Fault then None
      else (case attempt i (appendMessageReceipt (exConv e) (exRun e) (assistant_message text ks (exRun e)) [] [] d) of
          Inl x \<Rightarrow> Some (at (Giving (DatabaseFailed x) False) e, d)
        | Inr (m, d') \<Rightarrow>
            Some (say ''MODEL_COMPLETED'' (completed_event (exIndex e) m us b)
                   (at (if ks = [] then Completing else Batch ks) (append_messages [m] e)), d')))"

text \<open>Adjustments that arrived in the meantime keep the run going.\<close>

definition step_completing :: "exec_input \<Rightarrow> executor \<Rightarrow> db \<Rightarrow> (executor \<times> db) option" where
  "step_completing i e d =
     (if i \<noteq> Go \<and> i \<noteq> Fault then None
      else (case attempt i (finishCompletedRun (exRun e) (exConv e) d) of
          Inr d' \<Rightarrow> Some (at Stopped e, d')
        | Inl x \<Rightarrow> Some (if x = ErrPendingRunInputs then next_turn e else at (Giving (DatabaseFailed x) False) e, d)))"

section \<open>Tools\<close>

definition zero_number :: "string \<Rightarrow> bool" where
  "zero_number s = list_all (\<lambda>ch. ch \<in> set ''-0.'') (takeWhile (\<lambda>ch. ch \<noteq> CHR ''e'' \<and> ch \<noteq> CHR ''E'') s)"

text \<open>A command can fail without an error of the tool; only its status in the log changes.\<close>

definition commandResultFailed :: "string \<Rightarrow> tool_value \<Rightarrow> bool" where
  "commandResultFailed t v =
     (if t \<noteq> ''bash'' \<and> t \<noteq> ''computer_exec'' then False
      else (case v of
        GoValue j \<Rightarrow> False
      | GoMap m \<Rightarrow>
          if mget m ''status'' \<in> Some ` JStr ` set [''timed_out'', ''cancelled'', ''unknown''] then True
          else if mget m ''exit_code_known'' = Some (JBool False) then False
          else (case mget m ''exit_code'' of Some (JNum s) \<Rightarrow> \<not> zero_number s | _ \<Rightarrow> False)))"

definition value_json :: "tool_value \<Rightarrow> json" where
  "value_json v = (case v of GoMap m \<Rightarrow> JObj (go_map m) | GoValue j \<Rightarrow> j)"

definition with_error :: "tool_value \<Rightarrow> string option \<Rightarrow> json" where
  "with_error v err =
     (case err of
        None \<Rightarrow> value_json v
      | Some t \<Rightarrow>
         (case v of
            GoMap m \<Rightarrow> JObj (go_map (m @ [(''error'', JStr t)]))
          | GoValue j \<Rightarrow> JObj (go_map [(''error'', JStr t), (''observed_result'', j)])))"

definition tool_message :: "tool_call \<Rightarrow> string \<Rightarrow> message" where
  "tool_message k raw = empty_message\<lparr>role := ''tool'', content := raw, toolCallID := callID k\<rparr>"

definition step_batch :: "exec_input \<Rightarrow> tool_call list \<Rightarrow> executor \<Rightarrow> db \<Rightarrow> (executor \<times> db) option" where
  "step_batch i ks e d =
     (case (i, ks) of
        (CtxDone u, _) \<Rightarrow> Some (at (Giving CtxEnded u) e, d)
      | (Go, k # rest) \<Rightarrow>
          Some (say ''TOOL_STARTED''
                  [(''tool'', JStr (callName k)), (''tool_call_id'', JStr (callID k)), (''arguments'', JStr (arguments k))]
                  (at (Running k rest) e), d)
      | _ \<Rightarrow> None)"

definition tool_event :: "tool_call \<Rightarrow> string \<Rightarrow> string option \<Rightarrow> gomap" where
  "tool_event k raw err =
     [(''tool'', JStr (callName k)), (''tool_call_id'', JStr (callID k)), (''result'', JRaw raw)]
     @ (case err of None \<Rightarrow> [] | Some t \<Rightarrow> [(''error'', JStr t)])"

text \<open>The result is recorded; an encoding error of the result ends the run.\<close>

definition finish_tool :: "exec_input \<Rightarrow> tool_call \<Rightarrow> tool_call list \<Rightarrow> tool_value \<Rightarrow> string option \<Rightarrow> executor \<Rightarrow> db \<Rightarrow> executor \<times> db" where
  "finish_tool i k rest v err e d =
     (let bad = (err \<noteq> None \<or> commandResultFailed (callName k) v); raw = marshal (with_error v err) in
      if raw = [] then (at (Giving ResultFailed False) e, d)
      else (case attempt i (appendMessageReceipt (exConv e) (exRun e) (tool_message k raw) (callName k)
                   (if bad then [(''is_error'', JBool True)] else []) d) of
          Inl x \<Rightarrow> (at (Giving (DatabaseFailed x) False) e, d)
        | Inr (m, d') \<Rightarrow>
            (let e' = say (if bad then ''TOOL_FAILED'' else ''TOOL_COMPLETED'') (tool_event k raw err) (append_messages [m] e)
             in (if rest = [] then next_turn e' else at (Batch rest) e', d'))))"

text \<open>
  A tool that had answered when the user cancelled the run: the observed result is kept as the
  result of the call.
\<close>

definition cancelled_notice :: string where
  "cancelled_notice = ''The turn was cancelled. This result was observed; inspect its status and current state before continuing.''"

definition cancelled_envelope :: "tool_value \<Rightarrow> json" where
  "cancelled_envelope v =
     (let fields = (case json_unmarshal (marshal (value_json v)) of
          Some (JObj kvs) \<Rightarrow> map (\<lambda>(k, x). (k, go_any x)) kvs
        | _ \<Rightarrow> [(''observed_result'', JRaw (marshal (value_json v)))])
      in JObj (go_map (fields @ [(''cancelled'', JBool True), (''error'', JStr cancelled_notice)])))"

definition observe_cancelled :: "tool_call \<Rightarrow> tool_value \<Rightarrow> executor \<Rightarrow> db \<Rightarrow> db" where
  "observe_cancelled k v e d =
     (if marshal (value_json v) = [] \<or> marshal (cancelled_envelope v) = [] then d
      else (case appendMessageReceipt (exConv e) (exRun e) (tool_message k (marshal (cancelled_envelope v))) (callName k)
                   [(''is_error'', JBool True), (''cancelled'', JBool True)] d of
          Inl x \<Rightarrow> d
        | Inr (m, d') \<Rightarrow> d'))"

definition step_running :: "exec_input \<Rightarrow> tool_call \<Rightarrow> tool_call list \<Rightarrow> executor \<Rightarrow> db \<Rightarrow> (executor \<times> db) option" where
  "step_running i k rest e d =
     (case i of
        ToolDone v err \<Rightarrow> Some (finish_tool Go k rest v err e d)
      | ToolLost user v \<Rightarrow>
          Some (at (Giving CtxEnded user) e,
            (case v of Some x \<Rightarrow> if user then observe_cancelled k x e d else d | None \<Rightarrow> d))
      | Fault \<Rightarrow> Some (at (Giving (DatabaseFailed (OtherErr ''database'')) False) e, d)
      | _ \<Rightarrow> None)"

section \<open>Giving up\<close>

text \<open>
  \<open>finishContext\<close> and \<open>finishExecutionError\<close>: a user's cancellation, seen by this process or
  read from the database, ends the run as cancelled, everything else as failed.  The read and
  the end are two transactions.  An error here is logged; recovery ends the run later.
\<close>

definition step_giving :: "exec_input \<Rightarrow> exec_failure \<Rightarrow> bool \<Rightarrow> executor \<Rightarrow> db \<Rightarrow> (executor \<times> db) option" where
  "step_giving i f user e d =
     (case i of
        Go \<Rightarrow> Some (at (Closing f (user \<or> (case find_run d (exRun e) (exConv e) of None \<Rightarrow> False
                  | Some x \<Rightarrow> rnStatus x = ''cancelling'' \<or> rnStatus x = ''cancelled''))) e, d)
      | CtxDone u \<Rightarrow> Some (at (Giving f (user \<or> u)) e, d)
      | Fault \<Rightarrow> Some (at (Closing f user) e, d)
      | _ \<Rightarrow> None)"

definition step_closing :: "exec_env \<Rightarrow> exec_input \<Rightarrow> exec_failure \<Rightarrow> bool \<Rightarrow> executor \<Rightarrow> db \<Rightarrow> (executor \<times> db) option" where
  "step_closing env i f user e d =
     (if i \<noteq> Go \<and> i \<noteq> Fault then None
      else Some (at Stopped e,
        (case attempt i (if user then bindr (finishCancelledRun (exRun e) (exConv e) d) (\<lambda>(ended, d'). Inr d')
                         else finishFailedRun (exRun e) (exConv e) (xText env f) d) of
           Inl x \<Rightarrow> d
         | Inr d' \<Rightarrow> d')))"

section \<open>The machine\<close>

definition exec_step :: "exec_env \<Rightarrow> exec_input \<Rightarrow> executor \<Rightarrow> db \<Rightarrow> (executor \<times> db) option" where
  "exec_step env i e d =
     (case exEmits e of
        (kind, payload) # es \<Rightarrow>
          if i = Go then Some (e\<lparr>exEmits := es\<rparr>, emit (exRun e) (exConv e) kind payload d)
          else if i = Fault then Some (e\<lparr>exEmits := es\<rparr>, d)
          else None
      | [] \<Rightarrow>
         (case exPhase e of
            Loading \<Rightarrow> step_loading env i e d
          | Preparing h \<Rightarrow> step_preparing i h e d
          | LoadingCheckpoint \<Rightarrow> step_checkpoint env i e d
          | Turn \<Rightarrow> step_turn i e d
          | Building n \<Rightarrow> step_building env i n e d
          | Ready rq pr b \<Rightarrow> step_ready i rq pr b e d
          | Compacting k rq pr b \<Rightarrow> step_compacting env i k rq pr b e d
          | Summarizing k rq pr b pl n \<Rightarrow> step_summarizing env i k rq pr b pl n e d
          | SavingCheckpoint k rq pr b pl s after \<Rightarrow> step_saving i k rq pr b pl s after e d
          | Waiting rq pr b \<Rightarrow> step_waiting env i rq pr b e d
          | Partial text cs f user \<Rightarrow> step_partial i text cs f user e d
          | Answering rq b text ks us \<Rightarrow> step_answering i b text ks us e d
          | Completing \<Rightarrow> step_completing i e d
          | Batch ks \<Rightarrow> step_batch i ks e d
          | Running k rest \<Rightarrow> step_running i k rest e d
          | Giving f user \<Rightarrow> step_giving i f user e d
          | Closing f user \<Rightarrow> step_closing env i f user e d
          | Stopped \<Rightarrow> None))"

end
