(* ===== verification/Transcript.thy ===== *)
theory Transcript
  imports ConvSessions ToolExchanges
begin

text \<open>
  The transcript of a conversation over the writes of the database.  \<open>tail_open h ks\<close> says
  that \<open>h\<close> is well batched but for its last batch, whose calls \<open>ks\<close> have no result yet.  A
  write either leaves transcripts and run statuses alone (\<open>still\<close>), or appends one row, or
  ends a run; ending a run gives its open calls a result.
\<close>

section \<open>Open batches\<close>

definition tail_open :: "message list \<Rightarrow> tool_call list \<Rightarrow> bool" where
  "tail_open h ks =
     (if ks = [] then well_batched h
      else (\<exists>pre m rs done. h = pre @ m # rs \<and> well_batched pre \<and> batch_head m \<and> toolCalls m = done @ ks \<and>
              map toolCallID rs = map callID done \<and> (\<forall>x \<in> set rs. result_message x)))"

lemma tail_open_Nil [simp]: "tail_open h [] = well_batched h"
  by (simp add: tail_open_def)

lemma well_batched_append: "well_batched h \<Longrightarrow> well_batched h' \<Longrightarrow> well_batched (h @ h')"
proof (induction rule: well_batched.induct)
  case (wb_batch m rs ms)
  then show ?case using well_batched.wb_batch[of m rs "ms @ h'"] by simp
qed (auto intro: well_batched.intros)

lemma well_batched_plain: "plain_message m \<Longrightarrow> well_batched [m]"
  by (intro wb_plain wb_nil)

lemma tail_plain: "well_batched h \<Longrightarrow> plain_message m \<Longrightarrow> well_batched (h @ [m])"
  by (intro well_batched_append well_batched_plain)

lemma tail_head: "well_batched h \<Longrightarrow> batch_head m \<Longrightarrow> tail_open (h @ [m]) (toolCalls m)"
proof -
  assume "well_batched h" and m: "batch_head m"
  then have "h @ [m] = h @ m # [] \<and> well_batched h \<and> batch_head m \<and> toolCalls m = [] @ toolCalls m \<and>
      map toolCallID [] = map callID [] \<and> (\<forall>x \<in> set []. result_message x)" by simp
  moreover have "toolCalls m \<noteq> []" using m by (simp add: batch_head_def)
  ultimately show ?thesis unfolding tail_open_def by (metis (no_types))
qed

lemma tail_result:
  assumes t: "tail_open h (k # ks)" and x: "result_message x" "toolCallID x = callID k"
  shows "tail_open (h @ [x]) ks"
proof -
  obtain pre m rs done' where h: "h = pre @ m # rs" "well_batched pre" "batch_head m"
    "toolCalls m = done' @ k # ks" "map toolCallID rs = map callID done'" "\<forall>y \<in> set rs. result_message y"
    using t by (auto simp: tail_open_def)
  have rs: "map toolCallID (rs @ [x]) = map callID (done' @ [k])" "\<forall>y \<in> set (rs @ [x]). result_message y"
    using h(5,6) x by auto
  show ?thesis
  proof (cases "ks = []")
    case True
    have "mset (map toolCallID (rs @ [x])) = mset (map callID (toolCalls m))"
      unfolding rs(1) h(4) True by simp
    then have "results_of m (rs @ [x])"
      using rs(2) by (simp add: results_of_def)
    from wb_batch[OF h(3) this wb_nil] h(1,2) True show ?thesis
      using well_batched_append[OF h(2), of "m # rs @ [x]"] by simp
  next
    case False
    have "h @ [x] = pre @ m # (rs @ [x]) \<and> well_batched pre \<and> batch_head m \<and> toolCalls m = (done' @ [k]) @ ks \<and>
        map toolCallID (rs @ [x]) = map callID (done' @ [k]) \<and> (\<forall>y \<in> set (rs @ [x]). result_message y)"
      using h rs by simp
    then show ?thesis unfolding tail_open_def if_not_P[OF False] by blast
  qed
qed

lemma tail_distinct: "tail_open h ks \<Longrightarrow> distinct (map callID ks) \<and> (\<forall>k \<in> set ks. callID k \<noteq> [] \<and> callName k \<noteq> [])"
  by (cases "ks = []") (auto simp: tail_open_def batch_head_def)

section \<open>Rows of a conversation\<close>

definition history :: "(db_message \<Rightarrow> string) \<Rightarrow> db \<Rightarrow> uuid \<Rightarrow> message list" where
  "history shown d c = modelHistory shown (conversation_messages d c)"

definition adds_row :: "db_message \<Rightarrow> db \<Rightarrow> db \<Rightarrow> bool" where
  "adds_row row d d' = (messages d' = messages d @ [row] \<and> runs d' = runs d)"

lemma insert_message_adds:
  assumes "insert_message c r m tname md d = Inr (row, d')"
  shows "adds_row row d d'" "dmConversation row = c" "dmRun row = Some r" "dmRole row = role m" "dmCalls row = toolCalls m"
    "dmCallID row = toolCallID m" "dmContent row = content m" "dmMetadata row = md"
    "\<exists>x. find_run d r c = Some x"
proof -
  show "\<exists>x. find_run d r c = Some x"
    using assms by (auto simp: insert_message_def split: option.splits if_split_asm)
  from assms show "adds_row row d d'" "dmConversation row = c" "dmRun row = Some r" "dmRole row = role m"
    "dmCalls row = toolCalls m" "dmCallID row = toolCallID m" "dmContent row = content m" "dmMetadata row = md"
    by (rule insert_message_eq, simp add: adds_row_def)+
qed

lemma history_add:
  "adds_row row d d' \<Longrightarrow> history shown d' c =
    (if dmConversation row = c \<and> \<not> metadata_true (dmMetadata row) ''incomplete'' then history shown d c @ [model_message shown row]
     else history shown d c)"
  by (simp add: adds_row_def history_def modelHistory_def conversation_messages_def)

lemma missing_add:
  assumes "adds_row row d d'"
  shows "missing_calls d' r c =
    filter (\<lambda>k. \<not> (callID k \<noteq> [] \<and> dmRun row = Some r \<and> dmRole row = ''tool'' \<and> dmCallID row = callID k)) (missing_calls d r c)
    @ (if dmRun row = Some r \<and> dmConversation row = c \<and> dmRole row = ''assistant''
       then filter (\<lambda>k. \<not> has_result (messages d) r (callID k)) (dmCalls row) else [])"
proof -
  have m: "messages d' = messages d @ [row]" using assms by (simp add: adds_row_def)
  have hr: "has_result (messages d @ [row]) r i =
      (has_result (messages d) r i \<or> i \<noteq> [] \<and> dmRun row = Some r \<and> dmRole row = ''tool'' \<and> dmCallID row = i)" for i
    by (auto simp: has_result_def)
  show ?thesis
  proof (cases "dmRun row = Some r \<and> dmConversation row = c \<and> dmRole row = ''assistant''")
    case True
    then have nt: "dmRole row \<noteq> ''tool''" by simp
    from True nt show ?thesis unfolding missing_calls_def m hr by simp
  next
    case False
    then have "filter (\<lambda>m. dmRun m = Some r \<and> dmConversation m = c \<and> dmRole m = ''assistant'') (messages d @ [row]) =
      filter (\<lambda>m. dmRun m = Some r \<and> dmConversation m = c \<and> dmRole m = ''assistant'') (messages d)" by simp
    with False show ?thesis unfolding missing_calls_def m hr filter_filter
      by (simp only: if_False append_Nil2 de_Morgan_disj)
  qed
qed

lemma missing_run: "missing_calls d r c \<noteq> [] \<Longrightarrow> \<exists>m \<in> set (messages d). dmRun m = Some r"
  by (auto simp: missing_calls_def filter_empty_conv)

section \<open>Writes that leave transcripts alone\<close>

definition run_state :: "run \<Rightarrow> uuid \<times> uuid \<times> string" where
  "run_state x = (rnID x, rnConversation x, rnStatus x)"

definition run_states :: "db \<Rightarrow> (uuid \<times> uuid \<times> string) list" where
  "run_states d = map run_state (runs d)"

definition still :: "db \<Rightarrow> db \<Rightarrow> bool" where
  "still d d' = (messages d' = messages d \<and> run_states d' = run_states d)"

lemma still_refl: "still d d"
  by (simp add: still_def)

lemma still_trans: "still d1 d2 \<Longrightarrow> still d2 d3 \<Longrightarrow> still d1 d3"
  by (simp add: still_def)

lemma run_state_update: "(\<And>x. run_state (f x) = run_state x) \<Longrightarrow> map run_state (update_where P f xs) = map run_state xs"
  by (rule map_update_where_on)

lemma still_writes:
  "still d (on_inputs P1 f1 d)" "still d (on_permissions P2 f2 d)" "still d (on_interactions P3 f3 d)"
  "still d (on_requests P4 f4 d)" "still d (snd (new_id d))"
  by (simp_all add: still_def run_states_def on_inputs_def on_permissions_def on_interactions_def on_requests_def new_id_def)

lemma still_on_runs: "(\<And>x. run_state (f x) = run_state x) \<Longrightarrow> still d (on_runs P f d)"
  by (simp add: still_def run_states_def on_runs_def run_state_update)

lemma still_event: "still d d1 \<Longrightarrow> event_append r c k p d1 = Inr d' \<Longrightarrow> still d d'"
  by (auto dest!: event_append_eq simp: still_def run_states_def)

lemma still_emit: "still d (emit r c k p d)"
  by (cases rule: emit_cases[of r c k p d]) (auto intro: still_refl still_event)

lemma still_mode: "still d (setRunPermissionModeTx r actor mode vsn d)"
  unfolding setRunPermissionModeTx_def
  by (rule still_trans[OF still_on_runs still_writes(2)]) (simp add: run_state_def)

lemma still_supersede: "still d (supersede_waiting r i d)"
  unfolding supersede_waiting_def cancel_permissions_def by (rule still_trans[OF still_writes(2) still_writes(3)])

lemma still_AcceptRunInput:
  assumes "AcceptRunInput prep w u c q d = Inr (item, d')"
  shows "still d d'"
  using assms
proof (cases rule: AcceptRunInput_cases)
  case 1
  then show ?thesis by (simp add: still_refl)
next
  case (2 cv r mode perm body md d2)
  have "still d (d\<lparr>inputs := inputs d @ [item], nextOrder := nextOrder d + 1\<rparr>)" by (simp add: still_def run_states_def)
  then have "still d d2" unfolding 2(11) Let_def by (auto intro: still_trans still_supersede)
  then show ?thesis by (rule still_event[OF _ 2(12)])
qed

lemma still_ChangeRunInput: "ChangeRunInput w u c i action d = Inr d' \<Longrightarrow> still d d'"
  by (erule ChangeRunInput_cases)
    (auto simp: set_input_def intro: still_refl still_event still_writes)

lemma still_authorize_request:
  assumes "authorize_request tabs jsonb c r call n args d = Inr (res, d')"
  shows "still d d'"
  using assms
proof (cases rule: authorize_request_cases)
  case 1
  then show ?thesis by (simp add: still_refl)
next
  case (2 x p digest ws d2)
  have "still d d2" unfolding 2(9) using still_writes(5)[of d] by (auto simp: still_def run_states_def)
  with 2(10) show ?thesis by (cases "pmStatus p = ''pending''") (auto intro: still_event)
qed

lemma still_authorize_poll: "authorize_poll c r n p digest d = Inr (res, d') \<Longrightarrow> still d d'"
proof (erule authorize_poll_cases)
  fix b assume "consumePermission c r p digest d = Inr (b, d')"
  then show ?thesis
    by (rule consumePermission_cases) (simp_all add: still_refl on_permission_def still_writes)
qed (simp add: still_refl)

lemma still_changeRunPermissionMode: "changeRunPermissionMode w u c r mode vsn d = Inr (n, d') \<Longrightarrow> still d d'"
  by (erule changeRunPermissionMode_cases) (auto intro: still_refl still_event still_mode)

lemma still_respondPermission:
  assumes "respondPermission w u c p digest decision d = Inr d'"
  shows "still d d'"
  using assms
proof (cases rule: respondPermission_cases)
  case 1
  then show ?thesis by (simp add: still_refl)
next
  case (2 q x d1 d3)
  let ?t = "if decision = ''reject'' then ''rejected'' else ''approved''"
  have "still d d1" unfolding 2(13) by (simp add: still_refl still_mode)
  then have "still d (answer_permission p ?t decision u d1)"
    unfolding answer_permission_def on_permission_def by (rule still_trans[OF _ still_writes(2)])
  then have "still d d3" using 2(14) by (auto split: if_split_asm intro: still_event)
  then show ?thesis by (rule still_event[OF _ 2(15)])
qed

lemma still_claimPermissionReview:
  assumes "claimPermissionReview c r p d = Inr (tok, vsn, d')"
  shows "still d d'"
  using assms
proof (cases rule: claimPermissionReview_cases)
  case (3 x)
  show ?thesis by (rule still_event[OF still_trans[OF still_writes(5) still_writes(2)] 3(7)])
qed (simp_all add: still_refl still_writes)

lemma still_finish_review:
  assumes "finish_review c r p token vsn digest review reviewer d = Inr d'"
  shows "still d d'"
  using assms
proof (cases rule: finish_review_cases)
  case (2 x d2)
  have "still d d2" by (rule still_event[OF still_writes(2) 2(6)])
  with 2(7) show ?thesis by (auto split: if_split_asm intro: still_event)
qed (simp add: still_refl)

lemma still_createRunInteraction:
  assumes "createRunInteraction sv jsonb c r call q d = Inr (row, d')"
  shows "still d d'"
  using assms
proof (cases rule: createRunInteraction_cases)
  case (2 w q')
  from 2(1) obtain k p x where "event_append r c k p (d\<lparr>nextID := Suc (nextID d), interactions := interactions d @ [x]\<rparr>) = Inr d'"
    by (auto simp: insert_interaction_def new_id_def Let_def split: if_split_asm elim!: bindrE)
  then show ?thesis by (rule still_event[rotated]) (simp add: still_def run_states_def)
qed (simp add: still_refl)

lemma still_RespondRunInteraction:
  assumes "RespondRunInteraction sv w u c i s d = Inr d'"
  shows "still d d'"
  using assms
proof (cases rule: RespondRunInteraction_cases)
  case (2 y x status d1)
  have "still d d1" unfolding 2(14) leave_plan_def by (auto simp: run_state_def intro: still_refl still_on_runs)
  then show ?thesis by (rule still_event[OF still_trans[OF _ still_writes(3)] 2(15)])
qed (simp add: still_refl)

lemma still_enterRunPlanMode:
  assumes "enterRunPlanMode jsonb c r call reason d = Inr (mode, d')"
  shows "still d d'"
  using assms
proof (cases rule: enterRunPlanMode_cases)
  case (2 x k)
  show ?thesis by (rule still_event[OF still_on_runs 2(7)]) (simp add: run_state_def)
qed (simp add: still_refl)

lemma still_startModelRequest: "startModelRequest r p b d = Inr (i, d') \<Longrightarrow> still d d'"
  by (auto dest!: startModelRequest_eq simp: still_def run_states_def)

lemma still_saveContextCheckpoint:
  assumes "saveContextCheckpoint c r previous pl summary model b0 b1 d = Inr (cp, d')"
  shows "still d d'"
  using assms
proof (cases rule: saveContextCheckpoint_cases)
  case (1 cv x)
  show ?thesis by (rule still_event[OF _ 1(9)]) (simp add: still_def run_states_def new_id_def)
qed

text \<open>The transactions that move transcripts or statuses are few.\<close>

definition moves :: "act \<Rightarrow> bool" where
  "moves a = (case a of Cancelling r \<Rightarrow> True | Ended r k \<Rightarrow> True | NotEnded r \<Rightarrow> True | Appended r \<Rightarrow> True
     | Adjusted r \<Rightarrow> True | _ \<Rightarrow> False)"

lemma still_db_op: "db_op env d a d' \<Longrightarrow> \<not> moves a \<Longrightarrow> still d d'"
  by (induction rule: db_op.induct)
    (simp_all add: moves_def still_AcceptRunInput still_ChangeRunInput still_authorize_request still_authorize_poll
      still_changeRunPermissionMode still_respondPermission still_claimPermissionReview still_finish_review
      still_createRunInteraction still_RespondRunInteraction still_enterRunPlanMode still_startModelRequest
      still_saveContextCheckpoint still_emit still_writes finishModelRequest_def abandon_permission_def note_reviewer_def
      split: if_split_asm)

end
