(* ===== verification/TranscriptInvariant.thy ===== *)
theory TranscriptInvariant
  imports Transcript
begin

text \<open>
  What holds of the transcripts of a database while executors run: a conversation has at most
  one active run, its transcript is well batched when it has none, and otherwise well batched
  but for the calls of that run that have no result (\<open>missing_calls\<close>).  One lemma per kind
  of write: rows of the run that is active, its end, and the start of the next one.
\<close>

definition active :: "db \<Rightarrow> uuid \<Rightarrow> uuid \<Rightarrow> bool" where
  "active d c r = (\<exists>s. (r, c, s) \<in> set (run_states d) \<and> active_status s)"

definition known_runs :: "db \<Rightarrow> bool" where
  "known_runs d = (\<forall>m \<in> set (messages d). \<forall>r. dmRun m = Some r \<longrightarrow> r \<in> fst ` set (run_states d))"

definition transcript_inv :: "(db_message \<Rightarrow> string) \<Rightarrow> db \<Rightarrow> bool" where
  "transcript_inv shown d = (known_runs d \<and> distinct (map fst (run_states d)) \<and>
     (\<forall>c r r'. active d c r \<longrightarrow> active d c r' \<longrightarrow> r' = r) \<and>
     (\<forall>c. (\<forall>r. \<not> active d c r) \<longrightarrow> well_batched (history shown d c)) \<and>
     (\<forall>c r. active d c r \<longrightarrow> tail_open (history shown d c) (missing_calls d r c)))"

lemma transcript_invI:
  "known_runs d \<Longrightarrow> distinct (map fst (run_states d)) \<Longrightarrow>
   (\<And>c r r'. active d c r \<Longrightarrow> active d c r' \<Longrightarrow> r' = r) \<Longrightarrow>
   (\<And>c. (\<And>r. \<not> active d c r) \<Longrightarrow> well_batched (history shown d c)) \<Longrightarrow>
   (\<And>c r. active d c r \<Longrightarrow> tail_open (history shown d c) (missing_calls d r c)) \<Longrightarrow> transcript_inv shown d"
  unfolding transcript_inv_def by blast

lemma transcript_invD:
  assumes "transcript_inv shown d"
  shows "known_runs d" "distinct (map fst (run_states d))"
    "active d c r \<Longrightarrow> active d c r' \<Longrightarrow> r' = r"
    "(\<And>r. \<not> active d c r) \<Longrightarrow> well_batched (history shown d c)"
    "active d c r \<Longrightarrow> tail_open (history shown d c) (missing_calls d r c)"
  using assms unfolding transcript_inv_def by blast+

lemma active_run: "active d c r \<longleftrightarrow> (\<exists>x \<in> set (runs d). rnID x = r \<and> rnConversation x = c \<and> active_status (rnStatus x))"
  by (auto simp: active_def run_states_def run_state_def)

lemma active_runs_set: "active d c r \<longleftrightarrow> r \<in> rnID ` set (active_runs d c)"
  by (auto simp: active_run active_runs_def)

lemma active_conversation: "distinct (map fst (run_states d)) \<Longrightarrow> active d c r \<Longrightarrow> active d c' r \<Longrightarrow> c' = c"
  unfolding active_def by (metis eq_key_imp_eq_value prod.inject)

lemma find_run_state: "find_run d r c = Some x \<Longrightarrow> (r, c, rnStatus x) \<in> set (run_states d)"
  using find_run_in[of d r c x] by (auto simp: run_states_def run_state_def image_iff intro!: bexI[of _ x])

lemma find_run_active: "find_run d r c = Some x \<Longrightarrow> active_status (rnStatus x) \<Longrightarrow> active d c r"
  using find_run_state[of d r c x] by (auto simp: active_def)

lemma find_run_status:
  assumes "distinct (map fst (run_states d))" "find_run d r c = Some x"
  shows "active d c r \<longleftrightarrow> active_status (rnStatus x)"
  using assms find_run_state[OF assms(2)] find_run_active[OF assms(2)]
  by (metis active_def eq_key_imp_eq_value prod.inject)

section \<open>Writes that leave transcripts alone\<close>

lemma history_still: "still d d' \<Longrightarrow> history shown d' c = history shown d c"
  by (simp add: still_def history_def conversation_messages_def)

lemma missing_still: "still d d' \<Longrightarrow> missing_calls d' r c = missing_calls d r c"
  by (simp add: still_def missing_calls_def)

lemma active_still: "still d d' \<Longrightarrow> active d' c r = active d c r"
  by (simp add: still_def active_def)

lemma inv_still: "still d d' \<Longrightarrow> transcript_inv shown d \<Longrightarrow> transcript_inv shown d'"
  unfolding transcript_inv_def known_runs_def
  by (simp add: history_still missing_still active_still) (simp add: still_def)

section \<open>Rows of the active run\<close>

lemma active_add: "adds_row row d d' \<Longrightarrow> active d' c r = active d c r"
  by (simp add: adds_row_def active_def run_states_def)

lemma inv_add_row:
  assumes t: "transcript_inv shown d" and a: "adds_row row d d'" and r: "dmRun row = Some r" "dmConversation row = c" "active d c r"
    and tail: "tail_open (history shown d' c) (missing_calls d' r c)"
  shows "transcript_inv shown d'"
proof (rule transcript_invI)
  have rs: "runs d' = runs d" "messages d' = messages d @ [row]" using a by (simp_all add: adds_row_def)
  have rss: "run_states d' = run_states d" using rs(1) by (simp add: run_states_def)
  have "r \<in> fst ` set (run_states d)" using r(3) by (force simp: active_def)
  then show "known_runs d'" using transcript_invD(1)[OF t] r(1) rs(2) rss by (auto simp: known_runs_def)
  show "distinct (map fst (run_states d'))" using transcript_invD(2)[OF t] rss by simp
  fix c' show "r1 = r2" if "active d' c' r2" "active d' c' r1" for r1 r2
    using that transcript_invD(3)[OF t] active_add[OF a] by simp
  show "well_batched (history shown d' c')" if "\<And>r. \<not> active d' c' r"
  proof -
    have "c' \<noteq> c" using that r(3) active_add[OF a] by auto
    then show ?thesis using that transcript_invD(4)[OF t, of c'] active_add[OF a] history_add[OF a, of shown c'] r(2) by simp
  qed
  fix r' assume r': "active d' c' r'"
  show "tail_open (history shown d' c') (missing_calls d' r' c')"
  proof (cases "c' = c")
    case True
    then have "r' = r" using transcript_invD(3)[OF t r(3), of r'] r' active_add[OF a] by simp
    with tail True show ?thesis by simp
  next
    case False
    have "r' \<noteq> r" using False active_conversation[OF transcript_invD(2)[OF t] r(3), of c'] r' active_add[OF a] by auto
    then have "missing_calls d' r' c' = missing_calls d r' c'" using missing_add[OF a, of r' c'] r(1) by simp
    moreover have "history shown d' c' = history shown d c'" using history_add[OF a, of shown c'] r(2) False by simp
    ultimately show ?thesis using transcript_invD(5)[OF t, of c' r'] r' active_add[OF a] by simp
  qed
qed

text \<open>The rows an executor writes, by the calls that are open before and after.\<close>

lemma row_plain:
  assumes t: "transcript_inv shown d" and a: "adds_row row d d'" and r: "dmRun row = Some r" "dmConversation row = c" "active d c r"
    and m: "missing_calls d r c = []" and row: "dmRole row \<noteq> ''tool''" "dmCalls row = []" "dmCallID row = []"
  shows "transcript_inv shown d'" "missing_calls d' r c = []"
proof -
  show mis: "missing_calls d' r c = []" using missing_add[OF a, of r c] m row by simp
  have w: "well_batched (history shown d c)" using transcript_invD(5)[OF t r(3)] m by simp
  have "plain_message (model_message shown row)" using row by (simp add: plain_message_def model_message_def)
  then have "well_batched (history shown d' c)"
    using w tail_plain by (simp add: history_add[OF a])
  then show "transcript_inv shown d'" using mis by (intro inv_add_row[OF t a r]) simp
qed

lemma row_incomplete:
  assumes t: "transcript_inv shown d" and a: "adds_row row d d'" and r: "dmRun row = Some r" "dmConversation row = c" "active d c r"
    and row: "dmRole row \<noteq> ''tool''" "dmCalls row = []" "metadata_true (dmMetadata row) ''incomplete''"
  shows "transcript_inv shown d'" "missing_calls d' r c = missing_calls d r c"
proof -
  show mis: "missing_calls d' r c = missing_calls d r c" using missing_add[OF a, of r c] row by simp
  then have "tail_open (history shown d' c) (missing_calls d' r c)"
    using transcript_invD(5)[OF t r(3)] row(3) by (simp add: history_add[OF a])
  then show "transcript_inv shown d'" by (rule inv_add_row[OF t a r])
qed

lemma row_head:
  assumes t: "transcript_inv shown d" and a: "adds_row row d d'" and r: "dmRun row = Some r" "dmConversation row = c" "active d c r"
    and m: "missing_calls d r c = []" and row: "batch_head (model_message shown row)" "\<not> metadata_true (dmMetadata row) ''incomplete''"
    and fresh: "\<forall>k \<in> set (dmCalls row). \<not> has_result (messages d) r (callID k)"
  shows "transcript_inv shown d'" "missing_calls d' r c = dmCalls row"
proof -
  have role: "dmRole row = ''assistant''" using row(1) by (simp add: batch_head_def model_message_def)
  show mis: "missing_calls d' r c = dmCalls row"
    using missing_add[OF a, of r c] m role fresh r(1,2) by simp
  have "tail_open (history shown d c @ [model_message shown row]) (toolCalls (model_message shown row))"
    using transcript_invD(5)[OF t r(3)] m row(1) by (intro tail_head) simp_all
  then have "tail_open (history shown d' c) (missing_calls d' r c)"
    using mis row(2) r(2) by (simp add: history_add[OF a] model_message_def)
  then show "transcript_inv shown d'" by (rule inv_add_row[OF t a r])
qed

lemma row_result:
  assumes t: "transcript_inv shown d" and a: "adds_row row d d'" and r: "dmRun row = Some r" "dmConversation row = c" "active d c r"
    and m: "missing_calls d r c = k # ks" and row: "dmRole row = ''tool''" "dmCalls row = []" "dmCallID row = callID k"
    "\<not> metadata_true (dmMetadata row) ''incomplete''"
  shows "transcript_inv shown d'" "missing_calls d' r c = ks"
proof -
  have open_tail: "tail_open (history shown d c) (k # ks)" using transcript_invD(5)[OF t r(3)] m by simp
  have "filter (\<lambda>j. \<not> (callID j \<noteq> [] \<and> dmRun row = Some r \<and> dmRole row = ''tool'' \<and> dmCallID row = callID j)) (k # ks) = ks"
    using tail_distinct[OF open_tail] r(1) row(1,3) by (auto intro: filter_True simp: image_iff)
  then show mis: "missing_calls d' r c = ks" using missing_add[OF a, of r c] m row(1) by simp
  have "tail_open (history shown d c @ [model_message shown row]) ks"
    by (rule tail_result[OF open_tail]) (use row in \<open>simp_all add: result_message_def model_message_def\<close>)
  then have "tail_open (history shown d' c) (missing_calls d' r c)"
    using mis row(4) r(2) by (simp add: history_add[OF a])
  then show "transcript_inv shown d'" by (rule inv_add_row[OF t a r])
qed

section \<open>What a run leaves to the others\<close>

text \<open>The change touches no other run's open calls and transcript, starts none and cancels none.\<close>

definition own :: "uuid \<Rightarrow> db \<Rightarrow> db \<Rightarrow> bool" where
  "own r d d' = ((\<forall>r' c'. r' \<noteq> r \<longrightarrow> missing_calls d' r' c' = missing_calls d r' c') \<and>
     (\<forall>c'. \<not> active d c' r \<longrightarrow> conversation_messages d' c' = conversation_messages d c') \<and>
     (\<forall>r' c'. active d' c' r' \<longrightarrow> active d c' r') \<and>
     (\<forall>r' c'. (r', c', ''cancelling'') \<in> set (run_states d') \<longrightarrow> (r', c', ''cancelling'') \<in> set (run_states d)))"

lemma own_refl: "own r d d"
  by (simp add: own_def)

lemma own_trans: "own r d1 d2 \<Longrightarrow> own r d2 d3 \<Longrightarrow> own r d1 d3"
  unfolding own_def by metis

lemma own_still: "still d d' \<Longrightarrow> own r d d'"
  unfolding own_def by (simp add: missing_still active_still) (simp add: still_def conversation_messages_def)

lemma own_row: "adds_row row d d' \<Longrightarrow> dmRun row = Some r \<Longrightarrow> dmConversation row = c \<Longrightarrow> active d c r \<Longrightarrow> own r d d'"
  unfolding own_def using missing_add[of row d d'] active_add[of row d d']
  by (auto simp: adds_row_def run_states_def conversation_messages_def)

section \<open>Ends of runs\<close>

lemma closing_metadata: "flag \<noteq> ''incomplete'' \<Longrightarrow> \<not> metadata_true [(''is_error'', JBool True), (flag, JBool True)] ''incomplete''"
  by (simp add: metadata_true_def mget_def)

lemma inv_close_calls:
  assumes "transcript_inv shown d" "active d c r" "missing_calls d r c = ks" "close_calls r c flag text ks d = Inr d'" "flag \<noteq> ''incomplete''"
  shows "transcript_inv shown d' \<and> missing_calls d' r c = [] \<and> run_states d' = run_states d \<and> own r d d'"
  using assms
proof (induction ks arbitrary: d)
  case Nil
  then show ?case by (simp add: own_refl)
next
  case (Cons k ks)
  from Cons.prems(4) obtain row d1
    where 1: "insert_message c r (closing_message flag text k) (callName k) [(''is_error'', JBool True), (flag, JBool True)] d = Inr (row, d1)"
      and 2: "close_calls r c flag text ks d1 = Inr d'" by (auto elim!: bindrE)
  note a = insert_message_adds[OF 1]
  have "transcript_inv shown d1" "missing_calls d1 r c = ks"
    using row_result[OF Cons.prems(1) a(1,3,2) Cons.prems(2,3)] a closing_metadata[OF Cons.prems(5)]
    by (simp_all add: closing_message_def)
  moreover have "active d1 c r" "runs d1 = runs d" using Cons.prems(2) active_add[OF a(1)] a(1) by (simp_all add: adds_row_def)
  moreover have "run_states d1 = run_states d" using \<open>runs d1 = runs d\<close> by (simp add: run_states_def)
  ultimately show ?case using Cons.IH[OF _ _ _ 2 Cons.prems(5)] own_trans[OF own_row[OF a(1,3,2) Cons.prems(2)]] by simp
qed

definition set_state :: "uuid \<Rightarrow> string \<Rightarrow> (uuid \<times> uuid \<times> string) \<Rightarrow> (uuid \<times> uuid \<times> string)" where
  "set_state r s x = (if fst x = r then (fst x, fst (snd x), s) else x)"

lemma run_state_set_status: "run_states (set_run_status s r d) = map (set_state r s) (run_states d)"
proof -
  have "map run_state (update_where (\<lambda>x. rnID x = r) (\<lambda>x. x\<lparr>rnStatus := s, rnFinished := terminal_status s\<rparr>) xs) =
      map (set_state r s) (map run_state xs)" for xs
    by (induction xs) (auto simp: set_state_def run_state_def)
  then show ?thesis by (simp add: set_run_status_runs run_states_def)
qed

text \<open>\<open>moved r s d d'\<close>: the run takes the status, the transcripts stay.\<close>

definition moved :: "uuid \<Rightarrow> string \<Rightarrow> db \<Rightarrow> db \<Rightarrow> bool" where
  "moved r s d d' = (messages d' = messages d \<and> run_states d' = map (set_state r s) (run_states d))"

lemma moved_still: "moved r s d d1 \<Longrightarrow> still d1 d2 \<Longrightarrow> moved r s d d2"
  by (simp add: moved_def still_def)

lemma moved_set: "moved r s d (set_run_status s r d)"
  unfolding moved_def run_state_set_status
  by (rule conjI[OF _ refl]) (simp add: set_run_status_def on_runs_def)

lemma history_moved: "moved r s d d' \<Longrightarrow> history shown d' c = history shown d c"
  by (simp add: moved_def history_def conversation_messages_def)

lemma missing_moved: "moved r s d d' \<Longrightarrow> missing_calls d' r' c = missing_calls d r' c"
  by (simp add: moved_def missing_calls_def)

lemma fst_set_state [simp]: "fst (set_state r s x) = fst x"
  by (simp add: set_state_def)

lemma moved_ids: "moved r s d d' \<Longrightarrow> map fst (run_states d') = map fst (run_states d)"
  unfolding moved_def by (simp add: comp_def)

lemma moved_known: "moved r s d d' \<Longrightarrow> known_runs d \<Longrightarrow> known_runs d'"
  using moved_ids[of r s d d'] unfolding known_runs_def by (metis list.set_map moved_def)

lemma active_moved:
  assumes "moved r s d d'"
  shows "active d' c r' \<longleftrightarrow> (if r' = r then active_status s \<and> (\<exists>t. (r, c, t) \<in> set (run_states d)) else active d c r')"
proof -
  have e: "(r', c, t) \<in> set (run_states d') \<longleftrightarrow>
      (if r' = r then t = s \<and> (\<exists>t. (r, c, t) \<in> set (run_states d)) else (r', c, t) \<in> set (run_states d))" for t
    using assms by (force simp: moved_def set_state_def split: if_split_asm)
  show ?thesis unfolding active_def e by auto
qed

lemma own_moved:
  assumes "moved r s d d'" "terminal_status s"
  shows "own r d d'"
proof -
  have "s \<noteq> ''cancelling''" "\<not> active_status s" using assms(2) by (auto simp: terminal_status_def active_status_def)
  then show ?thesis unfolding own_def using assms(1)
    by (auto simp: missing_moved active_moved moved_def set_state_def conversation_messages_def split: if_split_asm)
qed

lemma inv_cancelling:
  assumes t: "transcript_inv shown d" and m: "moved r s d d'" and a: "active d c r" and s: "active_status s"
  shows "transcript_inv shown d'"
proof -
  have "active d' c' r' = active d c' r'" for c' r'
  proof (cases "r' = r")
    case True
    have "(\<exists>t. (r, c', t) \<in> set (run_states d)) = active d c' r"
      using a transcript_invD(2)[OF t] unfolding active_def by (metis eq_key_imp_eq_value prod.inject)
    then show ?thesis using True s by (simp add: active_moved[OF m])
  qed (simp add: active_moved[OF m])
  then show ?thesis using t moved_known[OF m] moved_ids[OF m]
    by (simp add: transcript_inv_def history_moved[OF m] missing_moved[OF m])
qed

lemma inv_ended:
  assumes t: "transcript_inv shown d" and m: "moved r s d d'" and s: "terminal_status s"
    and z: "\<And>c. active d c r \<Longrightarrow> missing_calls d r c = []"
  shows "transcript_inv shown d'"
proof -
  have na: "\<not> active_status s" using s by (auto simp: terminal_status_def active_status_def)
  have act: "active d' c r' \<longleftrightarrow> r' \<noteq> r \<and> active d c r'" for c r' using na by (simp add: active_moved[OF m])
  show ?thesis
  proof (rule transcript_invI)
    show "known_runs d'" by (rule moved_known[OF m transcript_invD(1)[OF t]])
    show "distinct (map fst (run_states d'))" using transcript_invD(2)[OF t] moved_ids[OF m] by simp
    fix c show "r2 = r1" if "active d' c r1" "active d' c r2" for r1 r2
      using that act by (blast intro: transcript_invD(3)[OF t])
    show "tail_open (history shown d' c) (missing_calls d' r' c)" if "active d' c r'" for r'
      using that transcript_invD(5)[OF t] act by (simp add: history_moved[OF m] missing_moved[OF m])
    show "well_batched (history shown d' c)" if none: "\<And>r. \<not> active d' c r"
    proof (cases "active d c r")
      case True
      then show ?thesis using z[OF True] transcript_invD(5)[OF t True] by (simp add: history_moved[OF m])
    next
      case False
      then have "\<And>r'. \<not> active d c r'" using none act by metis
      then show ?thesis using transcript_invD(4)[OF t] by (simp add: history_moved[OF m])
    qed
  qed
qed

section \<open>The operations that end runs\<close>

lemma still_end:
  "still d (holdRunInputs r reason d)" "still d (cancel_permissions r d)" "still d (cancel_interactions r d)"
  "still d (close_requests r st k d)"
  by (simp_all add: holdRunInputs_def cancel_permissions_def cancel_interactions_def close_requests_def still_writes)

lemma moved_end:
  "moved r s d (cancel_interactions r (cancel_permissions r (holdRunInputs r reason (set_run_status s r d))))"
  "moved r s d (cancel_permissions r (cancel_interactions r (holdRunInputs r reason (set_run_status s r d))))"
  "moved r s d (cancel_interactions r (set_run_status s r d))"
  by (rule moved_still[OF moved_set], blast intro: still_trans still_end)+

lemma CancelRun_moved:
  assumes "CancelRun w c r d = Inr d'"
  obtains "d' = d" | x where "find_run d r c = Some x" "rnStatus x = ''running''" "moved r ''cancelling'' d d'"
  using assms
proof (cases rule: CancelRun_cases)
  case (2 x)
  then show ?thesis using that(2) moved_still[OF moved_end(1) still_event[OF still_refl 2(3)]] by blast
qed (use that in blast)

lemma inv_CancelRun:
  assumes t: "transcript_inv shown d" and e: "CancelRun w c r d = Inr d'"
  shows "transcript_inv shown d'"
  using e
proof (cases rule: CancelRun_moved)
  case (2 x)
  then show ?thesis using find_run_active[OF 2(1)] by (intro inv_cancelling[OF t 2(3)]) (auto simp: active_status_def)
qed (use t in simp)

lemma inv_finishCancelledRun:
  assumes t: "transcript_inv shown d" and e: "finishCancelledRun r c d = Inr (b, d')"
  shows "transcript_inv shown d'" "\<not> active d' c r"
    and "own r d d'"
proof -
  have "transcript_inv shown d' \<and> \<not> active d' c r \<and> own r d d'"
    using e
  proof (cases rule: finishCancelledRun_cases)
    case (1 x)
    then show ?thesis using t find_run_status[OF transcript_invD(2)[OF t] 1(1)] by (simp add: own_refl)
  next
    case (2 x d1)
    have c1: "transcript_inv shown d1 \<and> missing_calls d1 r c = [] \<and> run_states d1 = run_states d \<and> own r d d1"
      by (rule inv_close_calls[OF t find_run_active[OF 2(1,2)] refl 2(4)]) simp
    have m: "moved r ''cancelled'' d1 d'"
      by (rule moved_still[OF moved_still[OF moved_end(1) still_end(4)] still_event[OF still_refl 2(5)]])
    have a1: "active d1 c r" using find_run_active[OF 2(1,2)] c1 by (simp add: active_def)
    have "transcript_inv shown d'"
    proof (rule inv_ended[OF conjunct1[OF c1] m])
      show "missing_calls d1 r c' = []" if "active d1 c' r" for c'
        using that active_conversation[OF transcript_invD(2)[OF conjunct1[OF c1]] a1 that] c1 by simp
    qed (simp add: terminal_status_def)
    moreover have "\<not> active d' c r" by (simp add: active_moved[OF m] active_status_def)
    ultimately show ?thesis using c1 own_trans[OF _ own_moved[OF m]] by (simp add: terminal_status_def)
  qed
  then show "transcript_inv shown d'" "\<not> active d' c r"
    "own r d d'" by auto
qed

lemma inv_finishFailedRun:
  assumes t: "transcript_inv shown d" and e: "finishFailedRun r c reason d = Inr d'"
  shows "transcript_inv shown d'" and "(r, c, ''cancelling'') \<notin> set (run_states d) \<Longrightarrow> \<not> active d' c r"
    and "own r d d'"
proof -
  have "transcript_inv shown d' \<and> ((r, c, ''cancelling'') \<notin> set (run_states d) \<longrightarrow> \<not> active d' c r) \<and>
      own r d d'"
    using e
  proof (cases rule: finishFailedRun_cases)
    case (1 x)
    have "\<not> active d c r" if "(r, c, ''cancelling'') \<notin> set (run_states d)"
      using find_run_status[OF transcript_invD(2)[OF t] 1(1)] find_run_state[OF 1(1)] 1(2) that
      by (auto simp: active_status_def)
    then show ?thesis using t 1 by (simp add: own_refl)
  next
    case (2 x d1)
    have ax: "active d c r" using find_run_active[OF 2(1)] 2(2) by (simp add: active_status_def)
    have c1: "transcript_inv shown d1 \<and> missing_calls d1 r c = [] \<and> run_states d1 = run_states d \<and> own r d d1"
      by (rule inv_close_calls[OF t ax refl 2(3)]) simp
    have m: "moved r ''failed'' d1 d'"
      by (rule moved_still[OF moved_still[OF moved_end(2) still_end(4)] still_event[OF still_refl 2(4)]])
    have a1: "active d1 c r" using ax c1 by (simp add: active_def)
    have "transcript_inv shown d'"
    proof (rule inv_ended[OF conjunct1[OF c1] m])
      show "missing_calls d1 r c' = []" if "active d1 c' r" for c'
        using that active_conversation[OF transcript_invD(2)[OF conjunct1[OF c1]] a1 that] c1 by simp
    qed (simp add: terminal_status_def)
    moreover have "\<not> active d' c r" by (simp add: active_moved[OF m] active_status_def)
    ultimately show ?thesis using c1 own_trans[OF _ own_moved[OF m]] by (simp add: terminal_status_def)
  qed
  then show "transcript_inv shown d'" "(r, c, ''cancelling'') \<notin> set (run_states d) \<Longrightarrow> \<not> active d' c r"
    "own r d d'" by auto
qed

lemma inv_finishCompletedRun:
  assumes t: "transcript_inv shown d" and e: "finishCompletedRun r c d = Inr d'"
    and z: "active d c r \<Longrightarrow> missing_calls d r c = []"
  shows "transcript_inv shown d'" "\<not> active d' c r" "own r d d'"
proof -
  have "transcript_inv shown d' \<and> \<not> active d' c r \<and> own r d d'"
    using e
  proof (cases rule: finishCompletedRun_cases)
    case (1 x)
    then show ?thesis using t find_run_status[OF transcript_invD(2)[OF t] 1(1)] by (simp add: active_status_def own_refl)
  next
    case (2 x)
    have ax: "active d c r" using find_run_active[OF 2(1)] 2(2) by (simp add: active_status_def)
    have m: "moved r ''completed'' d d'"
      by (rule moved_still[OF moved_end(3) still_event[OF still_refl 2(4)]])
    have "transcript_inv shown d'"
    proof (rule inv_ended[OF t m])
      show "missing_calls d r c' = []" if "active d c' r" for c'
        using that active_conversation[OF transcript_invD(2)[OF t] ax that] z ax by simp
    qed (simp add: terminal_status_def)
    moreover have "\<not> active d' c r" by (simp add: active_moved[OF m] active_status_def)
    ultimately show ?thesis using own_moved[OF m] by (simp add: terminal_status_def)
  qed
  then show "transcript_inv shown d'" "\<not> active d' c r" "own r d d'"
    by auto
qed

section \<open>What the other runs see\<close>

text \<open>The change leaves the run's open calls and transcript as they were, while it is active.\<close>

definition kept :: "(db_message \<Rightarrow> string) \<Rightarrow> db \<Rightarrow> db \<Rightarrow> uuid \<Rightarrow> bool" where
  "kept shown d d' r = (\<forall>c. active d' c r \<longrightarrow> active d c r \<and> missing_calls d' r c = missing_calls d r c \<and>
     history shown d' c = history shown d c)"

lemma kept_still: "still d d' \<Longrightarrow> kept shown d d' r"
  by (simp add: kept_def active_still missing_still history_still)

lemma kept_own:
  assumes t: "transcript_inv shown d" and o: "own r d d'" and n: "r' \<noteq> r"
  shows "kept shown d d' r'"
  unfolding kept_def
proof (intro allI impI)
  fix c assume a: "active d' c r'"
  have ad: "active d c r'" using o a by (simp add: own_def)
  have "\<not> active d c r" using transcript_invD(3)[OF t ad, of r] n by blast
  then have "history shown d' c = history shown d c" using o by (simp add: own_def history_def)
  moreover have "missing_calls d' r' c = missing_calls d r' c" using o n by (simp add: own_def)
  ultimately show "active d c r' \<and> missing_calls d' r' c = missing_calls d r' c \<and> history shown d' c = history shown d c"
    using ad by simp
qed

lemma run_conversation: "distinct (map fst (run_states d)) \<Longrightarrow> find_run d r c = Some x \<Longrightarrow> active d c' r \<Longrightarrow> c' = c"
  using find_run_state[of d r c x] unfolding active_def by (metis eq_key_imp_eq_value prod.inject)

lemma kept_finish:
  assumes t: "transcript_inv shown d" and o: "own r d d'" and x: "find_run d r c = Some x" and n: "d' = d \<or> \<not> active d' c r"
  shows "kept shown d d' r'"
proof (cases "r' = r")
  case True
  show ?thesis
  proof (cases "d' = d")
    case False
    have "\<not> active d' c' r" for c'
      using o n False run_conversation[OF transcript_invD(2)[OF t] x, of c'] by (auto simp: own_def)
    then show ?thesis using True by (simp add: kept_def)
  qed (simp add: kept_def)
qed (rule kept_own[OF t o])

lemma kept_finishCancelledRun:
  assumes t: "transcript_inv shown d" and e: "finishCancelledRun r c d = Inr (b, d')"
  shows "kept shown d d' r'"
proof -
  obtain x where "find_run d r c = Some x" using e by (cases "find_run d r c") (auto simp: finishCancelledRun_def)
  then show ?thesis using inv_finishCancelledRun[OF t e] by (intro kept_finish[OF t]) auto
qed

lemma kept_finishFailedRun:
  assumes t: "transcript_inv shown d" and e: "finishFailedRun r c reason d = Inr d'"
  shows "kept shown d d' r'"
proof -
  obtain x where x: "find_run d r c = Some x" using e by (cases "find_run d r c") (auto simp: finishFailedRun_def)
  have "d' = d" if "rnStatus x \<noteq> ''running''" using e x that by (simp add: finishFailedRun_def)
  moreover have "(r, c, ''cancelling'') \<notin> set (run_states d)" if "rnStatus x = ''running''"
    using find_run_state[OF x] that transcript_invD(2)[OF t] by (auto dest: eq_key_imp_eq_value)
  ultimately have "d' = d \<or> \<not> active d' c r" using inv_finishFailedRun(2)[OF t e] by blast
  then show ?thesis using inv_finishFailedRun(3)[OF t e] by (intro kept_finish[OF t _ x])
qed

lemma kept_CancelRun:
  assumes t: "transcript_inv shown d" and e: "CancelRun w c r d = Inr d'"
  shows "kept shown d d' r'"
  using e
proof (cases rule: CancelRun_moved)
  case (2 x)
  have ax: "active d c r" by (rule find_run_active[OF 2(1)]) (simp add: 2(2) active_status_def)
  have "active d c' r" if "(r, c', s) \<in> set (run_states d)" for c' s
    using that find_run_state[OF 2(1)] transcript_invD(2)[OF t] ax by (auto dest: eq_key_imp_eq_value)
  then show ?thesis unfolding kept_def by (auto simp: active_moved[OF 2(3)] missing_moved[OF 2(3)] history_moved[OF 2(3)])
qed (simp add: kept_def)

section \<open>Starts of runs\<close>

lemma known_missing: "known_runs d \<Longrightarrow> r \<notin> fst ` set (run_states d) \<Longrightarrow> missing_calls d r c = []"
  using missing_run unfolding known_runs_def by blast

lemma inv_insert_run:
  assumes t: "transcript_inv shown d" and i: "inv d" and e: "insert_run c model sub actor digest mode perm body md d = Inr (r, m, d')"
    and none: "\<And>r. \<not> active d c r"
  shows "transcript_inv shown d'" "run_states d' = run_states d @ [(r, c, ''running'')]" "missing_calls d' r c = []"
    "r' \<noteq> r \<Longrightarrow> kept shown d d' r'"
proof -
  let ?x = "run_row r c model sub actor digest mode perm"
  let ?d0 = "d\<lparr>nextID := Suc (nextID d), runs := runs d @ [?x]\<rparr>"
  obtain d1 row where im: "insert_message c r (user_message body) [] md ?d0 = Inr (row, d1)"
    and d': "d' = on_runs (\<lambda>x. rnID x = r) (\<lambda>x. x\<lparr>rnInputMessage := Some m\<rparr>) d1"
    by (rule insert_run_cases[OF e]) blast
  note a = insert_message_adds[OF im]
  have fresh: "r \<notin> fst ` set (run_states d)"
    using good_insert_run(4)[OF i e] by (auto simp: run_states_def run_state_def)
  have rs0: "run_states ?d0 = run_states d @ [(r, c, ''running'')]" by (simp add: run_states_def run_state_def run_row_def)
  have h0: "history shown ?d0 c' = history shown d c'" "missing_calls ?d0 r' c' = missing_calls d r' c'" for r' c'
    by (simp_all add: history_def conversation_messages_def missing_calls_def)
  have act0: "active ?d0 c' r' \<longleftrightarrow> (r' = r \<and> c' = c) \<or> active d c' r'" for c' r'
    unfolding active_def rs0 by (auto simp: active_status_def)
  have nr: "\<not> active d c' r" for c' using fresh by (force simp: active_def)
  have m0: "missing_calls d r c' = []" for c' by (rule known_missing[OF transcript_invD(1)[OF t] fresh])
  have t0: "transcript_inv shown ?d0"
  proof (rule transcript_invI)
    show "known_runs ?d0" using transcript_invD(1)[OF t] rs0 by (auto simp: known_runs_def)
    show "distinct (map fst (run_states ?d0))" using transcript_invD(2)[OF t] fresh rs0 by simp
    fix c' show "r2 = r1" if "active ?d0 c' r1" "active ?d0 c' r2" for r1 r2
      using that none act0 transcript_invD(3)[OF t] by metis
    show "well_batched (history shown ?d0 c')" if n: "\<And>r. \<not> active ?d0 c' r"
      unfolding h0(1) by (rule transcript_invD(4)[OF t]) (use n act0 in blast)
    show "tail_open (history shown ?d0 c') (missing_calls ?d0 r' c')" if "active ?d0 c' r'" for r'
    proof (cases "r' = r \<and> c' = c")
      case True
      then show ?thesis unfolding h0 using m0 transcript_invD(4)[OF t none] by simp
    next
      case False
      then have "active d c' r'" using that act0 by blast
      then show ?thesis unfolding h0 by (rule transcript_invD(5)[OF t])
    qed
  qed
  have a0: "active ?d0 c r" using act0 by blast
  have "transcript_inv shown d1 \<and> missing_calls d1 r c = []"
    using row_plain[OF t0 a(1,3,2) a0] m0[of c] a by (simp add: h0 user_message_def)
  moreover have st: "still d1 d'" unfolding d' by (rule still_on_runs) (simp add: run_state_def)
  moreover have "run_states d1 = run_states ?d0" using a(1) by (simp add: adds_row_def run_states_def)
  ultimately show "transcript_inv shown d'" "run_states d' = run_states d @ [(r, c, ''running'')]" "missing_calls d' r c = []"
    using rs0 inv_still[OF st] missing_still[OF st] by (simp_all add: still_def)
  show "kept shown d d' r'" if n: "r' \<noteq> r"
  proof -
    have "kept shown ?d0 d1 r'" by (rule kept_own[OF t0 own_row[OF a(1,3,2) a0] n])
    moreover have "kept shown d1 d' r'" by (rule kept_still[OF st])
    ultimately show ?thesis unfolding kept_def using act0 n h0 by simp
  qed
qed

lemma inv_starts:
  assumes t: "transcript_inv shown d" and i: "inv d" and none: "\<And>r. \<not> active d c r"
    and e: "start_submission prep w u c sub digest mode perm d = Inr (r, d') \<or> claimQueuedInput w c d = Inr (Some r, d')"
  shows "transcript_inv shown d'" "run_states d' = run_states d @ [(r, c, ''running'')]" "missing_calls d' r c = []"
    "r' \<noteq> r \<Longrightarrow> kept shown d d' r'"
proof -
  obtain model s u' digest' mode' perm' body md m d1 where
    1: "insert_run c model s u' digest' mode' perm' body md d = Inr (r, m, d1)" and st: "still d1 d'"
  proof -
    from e show ?thesis
    proof
      assume "start_submission prep w u c sub digest mode perm d = Inr (r, d')"
      then obtain model body md m d1 s where
        1: "insert_run c model s (Some u) digest mode perm body md d = Inr (r, m, d1)"
        and 2: "event_append r c ''RUN_STARTED'' [(''input_message_id'', JStr m)] d1 = Inr d'"
        by (auto simp: start_submission_def split: option.splits if_splits elim!: bindrE)
      show ?thesis by (rule that[OF 1 still_event[OF still_refl 2]])
    next
      assume "claimQueuedInput w c d = Inr (Some r, d')"
      then show ?thesis
      proof (cases rule: claimQueuedInput_cases)
        case (3 x u r' m d1 d2)
        then have r': "r' = r" by simp
        show ?thesis by (rule that[OF 3(6)[unfolded r'] still_event[OF still_event[OF still_writes(1) 3(7)] 3(8)]])
      qed simp_all
    qed
  qed
  note g = inv_insert_run[OF t i 1 none]
  show "transcript_inv shown d'" "run_states d' = run_states d @ [(r, c, ''running'')]" "missing_calls d' r c = []"
    using g(1-3) inv_still[OF st] missing_still[OF st] st by (simp_all add: still_def)
  show "kept shown d d' r'" if "r' \<noteq> r"
    using g(4)[OF that] kept_still[OF st, of shown r'] by (simp add: kept_def)
qed

lemma still_idle: "claimQueuedInput w c d = Inr (None, d') \<Longrightarrow> still d d'"
proof (erule claimQueuedInput_cases)
  fix i reason assume "held_event (riAfterRun i) c (riID i) (hold_input (riID i) reason d) = Inr d'"
  then show ?thesis unfolding held_event_def hold_input_def by (rule still_event[OF still_writes(1)])
qed (simp_all add: still_refl)

end
