(* ===== verification/ExecutorSteps.thy ===== *)
theory ExecutorSteps
  imports Executor TranscriptInvariant
begin

text \<open>
  What one step of an executor does to the transcripts.  \<open>linked\<close> is what ties an executor to
  the database while its run is active: the calls without a result are those its phase has
  still to run, and its copy of the transcript is the stored one, up to the arguments of calls
  (the database stores them as \<open>jsonb\<close>).  \<open>effect\<close> collects what a step keeps; there is one
  lemma per phase.
\<close>

section \<open>The executor and the database\<close>

definition phase_calls :: "exec_phase \<Rightarrow> tool_call list option" where
  "phase_calls p = (case p of Batch ks \<Rightarrow> Some ks | Running k ks \<Rightarrow> Some (k # ks) | Partial t cs f u \<Rightarrow> None
     | Giving f u \<Rightarrow> None | Closing f u \<Rightarrow> None | Stopped \<Rightarrow> None | _ \<Rightarrow> Some [])"

definition transcript_copy :: "executor \<Rightarrow> message list option" where
  "transcript_copy e = (case exPhase e of Loading \<Rightarrow> None | Preparing h \<Rightarrow> Some h | _ \<Rightarrow> Some (reqMessages (exRequest e)))"

definition outline :: "message \<Rightarrow> string \<times> string \<times> string \<times> (string \<times> string) list \<times> string \<times> string \<times> int" where
  "outline m = (role m, content m, toolCallID m, map (\<lambda>k. (callID k, callName k)) (toolCalls m), msgRunID m, messageID m, msgSeq m)"

text \<open>The text a model reads is the stored one, but for a user's references and attachments.\<close>

definition plain_shown :: "(db_message \<Rightarrow> string) \<Rightarrow> bool" where
  "plain_shown shown = (\<forall>x. (dmRole x = ''user'' \<longrightarrow>
      (\<forall>k \<in> set [''conversations'', ''skills'', ''contexts'', ''attachments'']. mget (dmMetadata x) k = None)) \<longrightarrow> shown x = dmContent x)"

definition calls_ok :: "executor \<Rightarrow> bool" where
  "calls_ok e = (case exPhase e of
     Answering rq b text ks us \<Rightarrow> distinct (map callID ks) \<and> (\<forall>k \<in> set ks. callID k \<noteq> [] \<and> callName k \<noteq> []) | _ \<Rightarrow> True)"

definition linked :: "(db_message \<Rightarrow> string) \<Rightarrow> executor \<Rightarrow> db \<Rightarrow> bool" where
  "linked shown e d = (active d (exConv e) (exRun e) \<longrightarrow> (case phase_calls (exPhase e) of None \<Rightarrow> True
     | Some ks \<Rightarrow> missing_calls d (exRun e) (exConv e) = ks \<and>
         (case transcript_copy e of None \<Rightarrow> True
          | Some ms \<Rightarrow> map outline ms = map outline (history shown d (exConv e)))))"

definition effect :: "(db_message \<Rightarrow> string) \<Rightarrow> executor \<Rightarrow> db \<Rightarrow> executor \<Rightarrow> db \<Rightarrow> bool" where
  "effect shown e d e' d' = (transcript_inv shown d' \<and> own (exRun e) d d' \<and> linked shown e' d' \<and> calls_ok e' \<and>
     exRun e' = exRun e \<and> exConv e' = exConv e)"

definition keeps :: "executor \<Rightarrow> executor \<Rightarrow> bool" where
  "keeps e e' = (exRun e' = exRun e \<and> exConv e' = exConv e \<and> calls_ok e' \<and>
     (phase_calls (exPhase e') = None \<or>
      phase_calls (exPhase e') = phase_calls (exPhase e) \<and> transcript_copy e' = transcript_copy e))"

lemmas phase_defs = phase_calls_def transcript_copy_def calls_ok_def at_def say_def next_turn_def append_messages_def

lemma linked_still: "linked shown e d \<Longrightarrow> still d d' \<Longrightarrow> keeps e e' \<Longrightarrow> linked shown e' d'"
  unfolding linked_def keeps_def
  by (auto simp: active_still missing_still history_still split: option.splits)

lemma effect_still:
  assumes "transcript_inv shown d" "linked shown e d" "still d d'" "keeps e e'"
  shows "effect shown e d e' d'"
  using assms inv_still own_still linked_still by (simp add: effect_def keeps_def)

text \<open>An executor that gives up has no claim on the transcript.\<close>

lemma effect_give_up:
  "transcript_inv shown d' \<Longrightarrow> own (exRun e) d d' \<Longrightarrow> phase_calls (exPhase e') = None \<Longrightarrow>
   exRun e' = exRun e \<Longrightarrow> exConv e' = exConv e \<Longrightarrow> effect shown e d e' d'"
  by (auto simp: effect_def linked_def calls_ok_def phase_calls_def split: exec_phase.splits)

section \<open>Appending rows\<close>

lemma outline_receipt:
  assumes p: "plain_shown shown" and e: "insert_message c r m t md d = Inr (row, d')"
    and u: "role m = ''user'' \<Longrightarrow> \<forall>k \<in> set [''conversations'', ''skills'', ''contexts'', ''attachments'']. mget md k = None"
  shows "outline (model_message shown row) = outline (receipt m row)"
proof -
  note a = insert_message_adds[OF e]
  have "shown row = content m" using p a(4,7,8) u by (simp add: plain_shown_def)
  then show ?thesis using a by (simp add: outline_def model_message_def receipt_def)
qed

lemma appendMessageReceipt_cases:
  assumes "appendMessageReceipt c r m t md d = Inr (m', d')"
  obtains x row where "find_run d r c = Some x" "active_status (rnStatus x)" "insert_message c r m t md d = Inr (row, d')"
    "m' = receipt m row"
    "rnStatus x = ''cancelling'' \<Longrightarrow> role m = ''assistant'' \<and> toolCalls m = [] \<and> metadata_true md ''incomplete'' \<or>
       role m = ''tool'' \<and> toolCallID m \<noteq> [] \<and> metadata_true md ''cancelled''"
proof -
  let ?ok = "role m = ''assistant'' \<and> toolCalls m = [] \<and> metadata_true md ''incomplete'' \<or>
       role m = ''tool'' \<and> toolCallID m \<noteq> [] \<and> metadata_true md ''cancelled''"
  from assms obtain x row where x: "find_run d r c = Some x"
    "rnStatus x = ''running'' \<or> (rnStatus x = ''cancelling'' \<and> ?ok)"
    and ins: "insert_message c r m t md d = Inr (row, d')" "m' = receipt m row"
    by (auto simp: appendMessageReceipt_def Let_def split: option.splits if_split_asm elim!: bindrE)
  have "active_status (rnStatus x)" using x(2) by (auto simp: active_status_def)
  moreover have "?ok" if "rnStatus x = ''cancelling''" using x(2) that by simp
  ultimately show ?thesis using that x(1) ins by blast
qed

section \<open>Adjustments\<close>

lemma adjustment_metadata:
  "\<not> metadata_true [(''run_input_id'', JStr i), (''submitted_by'', u), (''input_kind'', JStr ''adjust'')] ''incomplete''"
  "\<forall>k \<in> set [''conversations'', ''skills'', ''contexts'', ''attachments''].
     mget [(''run_input_id'', JStr i), (''submitted_by'', u), (''input_kind'', JStr ''adjust'')] k = None"
  by (simp_all add: metadata_true_def mget_def)

lemma inv_apply_items:
  assumes "transcript_inv shown d" "active d c r" "missing_calls d r c = []" "apply_items c r is d = Inr (ms, d')" "plain_shown shown"
  shows "transcript_inv shown d' \<and> missing_calls d' r c = [] \<and> own r d d' \<and> active d' c r \<and>
    map outline (history shown d' c) = map outline (history shown d c) @ map outline ms"
  using assms(1-4)
proof (induction "is" arbitrary: d ms)
  case Nil
  then show ?case by (simp add: own_refl)
next
  case (Cons i "is")
  from Cons.prems(4) obtain row d1 ms2
    where 1: "insert_message c r (adjustment_message i) []
              [(''run_input_id'', JStr (riID i)), (''submitted_by'', uuid_json (riSubmittedBy i)), (''input_kind'', JStr ''adjust'')] d = Inr (row, d1)"
      and 2: "apply_items c r is (on_inputs (\<lambda>x. riID x = riID i)
              (\<lambda>x. x\<lparr>riStatus := ''applied'', riMessage := Some (dmID row), riRevision := riRevision x + 1\<rparr>) d1) = Inr (ms2, d')"
      and ms: "ms = receipt (adjustment_message i) row # ms2" by (auto elim!: bindrE)
  let ?d2 = "on_inputs (\<lambda>x. riID x = riID i)
              (\<lambda>x. x\<lparr>riStatus := ''applied'', riMessage := Some (dmID row), riRevision := riRevision x + 1\<rparr>) d1"
  note a = insert_message_adds[OF 1]
  have st: "still d1 ?d2" by (rule still_writes)
  have t1: "transcript_inv shown d1" "missing_calls d1 r c = []"
    using row_plain[OF Cons.prems(1) a(1,3,2) Cons.prems(2,3)] a by (simp_all add: adjustment_message_def)
  have o1: "own r d ?d2" by (rule own_trans[OF own_row[OF a(1,3,2) Cons.prems(2)] own_still[OF st]])
  have h1: "history shown ?d2 c = history shown d c @ [model_message shown row]"
    using history_add[OF a(1), of shown c] a(2,8) adjustment_metadata(1) by (simp add: history_still[OF st])
  have ol: "outline (model_message shown row) = outline (receipt (adjustment_message i) row)"
    by (rule outline_receipt[OF assms(5) 1]) (use adjustment_metadata(2) in simp)
  have "active ?d2 c r" using Cons.prems(2) by (simp add: active_still[OF st] active_add[OF a(1)])
  from Cons.IH[OF inv_still[OF st t1(1)] this _ 2] t1(2) h1 ol o1 ms show ?case
    by (auto simp: missing_still[OF st] intro: own_trans)
qed

lemma inv_applyRunAdjustments:
  assumes "transcript_inv shown d" "active d c r \<Longrightarrow> missing_calls d r c = []" "applyRunAdjustments c r d = Inr (ms, d')" "plain_shown shown"
  shows "transcript_inv shown d' \<and> missing_calls d' r c = [] \<and> own r d d' \<and> active d c r \<and>
    map outline (history shown d' c) = map outline (history shown d c) @ map outline ms"
  using assms(3)
proof (cases rule: applyRunAdjustments_cases)
  case (1 x d1)
  have a: "active d c r" by (rule find_run_active[OF 1(1)]) (use 1(2) in \<open>simp add: active_status_def\<close>)
  note i = inv_apply_items[OF assms(1) a assms(2)[OF a] 1(3) assms(4)]
  have st: "still d1 d'" using 1(4) by (auto split: if_split_asm intro: still_refl still_event)
  show ?thesis using i a by (auto simp: missing_still[OF st] history_still[OF st] intro: inv_still[OF st] own_trans own_still[OF st])
qed

section \<open>The phases that write no row\<close>

lemma effect_same: "transcript_inv shown d \<Longrightarrow> linked shown e d \<Longrightarrow> keeps e e' \<Longrightarrow> effect shown e d e' d"
  by (rule effect_still[OF _ _ still_refl])

lemma keeps_at: "phase_calls p = None \<Longrightarrow> keeps e (at p e)"
  by (auto simp: keeps_def at_def calls_ok_def phase_calls_def split: exec_phase.splits)

lemma keeps_giving: "keeps e (at (Giving f u) e)" "keeps e (at (Closing f u) e)" "keeps e (at Stopped e)" "keeps e (at (Partial t cs f u) e)"
  by (rule keeps_at, simp add: phase_calls_def)+

text \<open>Inside a turn, before the answer is recorded, no call is open.\<close>

definition between_calls :: "exec_phase \<Rightarrow> bool" where
  "between_calls p = (case p of Turn \<Rightarrow> True | LoadingCheckpoint \<Rightarrow> True | Building n \<Rightarrow> True | Ready rq pr b \<Rightarrow> True
     | Compacting k rq pr b \<Rightarrow> True | Summarizing k rq pr b pl n \<Rightarrow> True | SavingCheckpoint k rq pr b pl s n \<Rightarrow> True
     | Waiting rq pr b \<Rightarrow> True | Completing \<Rightarrow> True | _ \<Rightarrow> False)"

lemma between_phase: "between_calls p \<Longrightarrow> phase_calls p = Some []"
  by (cases p) (simp_all add: between_calls_def phase_calls_def)

lemma between_copy: "between_calls (exPhase e) \<Longrightarrow> transcript_copy e = Some (reqMessages (exRequest e))"
  by (cases "exPhase e") (simp_all add: between_calls_def transcript_copy_def)

lemma between_ok: "between_calls (exPhase e) \<Longrightarrow> calls_ok e"
  by (cases "exPhase e") (simp_all add: between_calls_def calls_ok_def)

lemma keeps_between:
  "between_calls (exPhase e) \<Longrightarrow> between_calls (exPhase e') \<Longrightarrow> exRun e' = exRun e \<Longrightarrow> exConv e' = exConv e \<Longrightarrow>
   exRequest e' = exRequest e \<Longrightarrow> keeps e e'"
  by (simp add: keeps_def between_phase between_copy between_ok)

lemma loading_effect:
  assumes t: "transcript_inv shown d" and l: "linked shown e d" and p: "exPhase e = Loading" and x: "shown = xShown env"
    and s: "step_loading env i e d = Some (e', d')"
  shows "effect shown e d e' d'"
proof -
  have "effect shown e d (at (Preparing (history shown d (exConv e))) e) d"
    using t l p by (simp add: effect_def own_refl linked_def phase_defs)
  then show ?thesis using s t l x
    by (auto simp: step_loading_def history_def intro: effect_same keeps_giving split: exec_input.splits if_split_asm)
qed

lemma preparing_effect:
  assumes t: "transcript_inv shown d" and l: "linked shown e d" and p: "exPhase e = Preparing h"
    and s: "step_preparing i h e d = Some (e', d')"
  shows "effect shown e d e' d'"
proof -
  have k: "keeps e e'" using s p
    by (auto simp: step_preparing_def keeps_def phase_defs Let_def empty_request_def split: exec_input.splits if_split_asm)
  have "d' = d" using s by (auto simp: step_preparing_def Let_def split: exec_input.splits)
  with k t l show ?thesis by (simp add: effect_same)
qed

lemma checkpoint_effect:
  assumes t: "transcript_inv shown d" and l: "linked shown e d" and p: "exPhase e = LoadingCheckpoint"
    and s: "step_checkpoint env i e d = Some (e', d')"
  shows "effect shown e d e' d'"
  using s t l p
  by (auto simp: step_checkpoint_def between_calls_def at_def intro!: effect_same keeps_giving[unfolded at_def] keeps_between
      split: if_split_asm sum.splits)

lemma building_effect:
  assumes t: "transcript_inv shown d" and l: "linked shown e d" and p: "exPhase e = Building n"
    and s: "step_building env i n e d = Some (e', d')"
  shows "effect shown e d e' d'"
  using s t l p
  by (auto simp: step_building_def between_calls_def at_def intro!: effect_same keeps_giving[unfolded at_def] keeps_between
      split: if_split_asm sum.splits)

lemma ready_effect:
  assumes t: "transcript_inv shown d" and l: "linked shown e d" and p: "exPhase e = Ready rq pr b"
    and s: "step_ready i rq pr b e d = Some (e', d')"
  shows "effect shown e d e' d'"
  using s t l p
  by (auto simp: step_ready_def attempt_def between_calls_def at_def say_def
      intro!: effect_same effect_still[OF t l still_startModelRequest] keeps_giving[unfolded at_def] keeps_between
      split: exec_input.splits if_split_asm sum.splits)

lemma keeps_failed:
  assumes "between_calls (exPhase e)"
  shows "keeps e (compaction_failed k rq pr b err e)"
proof (cases k)
  case (Attempt n)
  then show ?thesis using assms by (intro keeps_between) (simp_all add: compaction_failed_def say_def at_def between_calls_def)
next
  case (Retry x)
  then show ?thesis by (simp add: keeps_def compaction_failed_def phase_defs)
qed

lemma compacting_effect:
  assumes t: "transcript_inv shown d" and l: "linked shown e d" and p: "exPhase e = Compacting k rq pr b"
    and s: "step_compacting env i k rq pr b e d = Some (e', d')"
  shows "effect shown e d e' d'"
proof -
  have bt: "between_calls (exPhase e)" using p by (simp add: between_calls_def)
  have "keeps e (say a pl2 (at (Summarizing k rq pr b pl n) (e\<lparr>exIndex := n\<rparr>)))" for a pl2 pl n
    by (rule keeps_between[OF bt]) (simp_all add: say_def at_def between_calls_def)
  then have "still d d' \<and> keeps e e'" using s keeps_failed[OF bt]
    by (auto simp: step_compacting_def attempt_def still_refl dest: still_startModelRequest split: if_split_asm sum.splits)
  then show ?thesis using effect_still[OF t l] by blast
qed

lemma summarizing_effect:
  assumes t: "transcript_inv shown d" and l: "linked shown e d" and p: "exPhase e = Summarizing k rq pr b pl n"
    and s: "step_summarizing env i k rq pr b pl n e d = Some (e', d')"
  shows "effect shown e d e' d'"
proof -
  have bt: "between_calls (exPhase e)" using p by (simp add: between_calls_def)
  have st: "still d (finishModelRequest r n us x d)" for r us x by (simp add: finishModelRequest_def still_writes)
  have "keeps e (at (SavingCheckpoint k rq pr b pl sm after) e)" for sm after
    by (rule keeps_between[OF bt]) (simp_all add: at_def between_calls_def)
  then show ?thesis using s t l keeps_failed[OF bt] st
    by (auto simp: step_summarizing_def Let_def intro: effect_same effect_still split: exec_input.splits sum.splits)
qed

lemma saving_effect:
  assumes t: "transcript_inv shown d" and l: "linked shown e d" and p: "exPhase e = SavingCheckpoint k rq pr b pl sm after"
    and s: "step_saving i k rq pr b pl sm after e d = Some (e', d')"
  shows "effect shown e d e' d'"
proof -
  have bt: "between_calls (exPhase e)" using p by (simp add: between_calls_def)
  have "keeps e (at (Building n) (e\<lparr>exCheckpoint := cp\<rparr>))" "keeps e (next_turn (e\<lparr>exCheckpoint := cp\<rparr>))" for n cp
    by (rule keeps_between[OF bt], simp_all add: at_def next_turn_def between_calls_def)+
  then show ?thesis using s t l keeps_failed[OF bt]
    by (auto simp: step_saving_def attempt_def Let_def intro: effect_same effect_still[OF t l still_saveContextCheckpoint]
        split: if_split_asm sum.splits continuation.splits)
qed

lemma batch_effect:
  assumes t: "transcript_inv shown d" and l: "linked shown e d" and p: "exPhase e = Batch ks"
    and s: "step_batch i ks e d = Some (e', d')"
  shows "effect shown e d e' d'"
proof -
  have "keeps e (say a pl (at (Running k rest) e))" if "ks = k # rest" for a pl k rest
    using p that by (simp add: keeps_def phase_defs)
  then show ?thesis using s t l
    by (auto simp: step_batch_def intro: effect_same keeps_giving split: exec_input.splits list.splits)
qed

lemma giving_effect:
  "transcript_inv shown d \<Longrightarrow> linked shown e d \<Longrightarrow> step_giving i f u e d = Some (e', d') \<Longrightarrow> effect shown e d e' d'"
  by (auto simp: step_giving_def intro: effect_same keeps_giving split: exec_input.splits)

section \<open>The phases that write rows\<close>

lemma turn_effect:
  assumes t: "transcript_inv shown d" and l: "linked shown e d" and p: "exPhase e = Turn" and sh: "plain_shown shown"
    and s: "step_turn i e d = Some (e', d')"
  shows "effect shown e d e' d'"
proof -
  have m: "missing_calls d (exRun e) (exConv e) = []" "map outline (reqMessages (exRequest e)) = map outline (history shown d (exConv e))"
    if "active d (exConv e) (exRun e)" using l p that by (simp_all add: linked_def phase_defs)
  have "effect shown e d (at (Building 0) (append_messages ms e)) d'" if a: "applyRunAdjustments (exConv e) (exRun e) d = Inr (ms, d')" for ms
  proof -
    note r = inv_applyRunAdjustments[OF t m(1) a sh]
    then show ?thesis using m(2) by (simp add: effect_def linked_def phase_defs)
  qed
  then show ?thesis using s t l
    by (auto simp: step_turn_def attempt_def intro: effect_same keeps_giving split: exec_input.splits sum.splits if_split_asm)
qed

lemma check_calls_ok:
  "check_calls seen xs = Inr ks \<Longrightarrow> distinct (map callID ks) \<and> set (map callID ks) \<inter> set seen = {} \<and>
     (\<forall>k \<in> set ks. callID k \<noteq> [] \<and> callName k \<noteq> [])"
proof (induction xs arbitrary: seen ks)
  case Nil
  then show ?case by simp
next
  case (Cons x xs)
  let ?x = "if arguments x = [] then x\<lparr>arguments := ''{}''\<rparr> else x"
  from Cons.prems obtain rest where r: "callID x \<noteq> []" "callName x \<noteq> []" "callID x \<notin> set seen"
    "check_calls (callID x # seen) xs = Inr rest" "ks = ?x\<lparr>callIndex := 0\<rparr> # rest"
    by (auto simp: Let_def split: if_split_asm elim!: bindrE)
  from Cons.IH[OF r(4)] r show ?case by auto
qed

lemma assembled_ok: "assembledToolCalls cs = Inr ks \<Longrightarrow> distinct (map callID ks) \<and> (\<forall>k \<in> set ks. callID k \<noteq> [] \<and> callName k \<noteq> [])"
  unfolding assembledToolCalls_def by (drule check_calls_ok) simp

lemma waiting_effect:
  assumes t: "transcript_inv shown d" and l: "linked shown e d" and p: "exPhase e = Waiting rq pr b"
    and s: "step_waiting env i rq pr b e d = Some (e', d')"
  shows "effect shown e d e' d'"
proof -
  have bt: "between_calls (exPhase e)" using p by (simp add: between_calls_def)
  have st: "still d (finishModelRequest r n us x d)" for r n us x by (simp add: finishModelRequest_def still_writes)
  have kg: "keeps e (give_up tx cs f u e)" for tx cs f u by (simp add: give_up_def keeps_giving)
  have kr: "keeps e (refused err tx cs rq pr b e)" for err tx cs
  proof (cases "recoverable e err (tx \<noteq> [] \<or> cs \<noteq> [])")
    case True
    then show ?thesis by (intro keeps_between[OF bt]) (simp_all add: refused_def at_def between_calls_def)
  qed (simp add: refused_def kg)
  have ka: "keeps e (at (Answering rq b tx ks us) (e\<lparr>exEstimator := z, exRecoveries := 0\<rparr>))"
    if "assembledToolCalls cs = Inr ks" for tx ks us z cs
    using assembled_ok[OF that] between_phase[OF bt] between_copy[OF bt]
    by (simp add: keeps_def at_def calls_ok_def phase_calls_def transcript_copy_def)
  have kd: "keeps e (say a pl e)" for a pl by (rule keeps_between[OF bt]) (use bt in \<open>simp_all add: say_def\<close>)
  have "still d d' \<and> keeps e e'"
  proof (cases i)
    case (Answered evs)
    obtain tx cs us err where rs: "read_stream [] [] None evs = (tx, cs, us, err)" by (rule prod_cases4)
    show ?thesis
    proof (cases err)
      case (Some x)
      then show ?thesis using s Answered rs kr st by (auto simp: step_waiting_def)
    next
      case None
      show ?thesis
      proof (cases "assembledToolCalls cs")
        case (Inl x)
        then show ?thesis using s Answered rs None kg st by (auto simp: step_waiting_def)
      next
        case (Inr ks)
        have "keeps e (at (Answering rq b tx ks us)
            (e\<lparr>exEstimator := Observe (exEstimator e) (int (EstimateInput (xTables env) rq)) us, exRecoveries := 0\<rparr>))"
          by (rule ka[OF Inr])
        then show ?thesis using s Answered rs None Inr keeps_giving st
          by (auto simp: step_waiting_def Let_def split: if_split_asm)
      qed
    qed
  next
    case (Interrupted u evs)
    obtain tx cs us err where rs: "read_stream [] [] None evs = (tx, cs, us, err)" by (rule prod_cases4)
    then show ?thesis using s Interrupted kg st by (auto simp: step_waiting_def)
  qed (use s kd kr keeps_giving st in \<open>auto simp: step_waiting_def still_refl\<close>)
  then show ?thesis using effect_still[OF t l] by blast
qed

lemma partial_effect:
  assumes t: "transcript_inv shown d" and s: "step_partial i tx cs f u e d = Some (e', d')"
  shows "effect shown e d e' d'"
proof -
  let ?md = "[(''incomplete'', JBool True), (''tool_call_fragments'', fragments_json cs)]"
  have "transcript_inv shown (savePartialResponse (exConv e) (exRun e) tx cs d) \<and>
      own (exRun e) d (savePartialResponse (exConv e) (exRun e) tx cs d)"
  proof (cases "appendMessageReceipt (exConv e) (exRun e) (assistant_message tx [] []) [] ?md d")
    case (Inl x)
    then show ?thesis using t by (simp add: savePartialResponse_def own_refl)
  next
    case (Inr res)
    obtain m d1 where res: "res = (m, d1)" by (cases res)
    from Inr have "appendMessageReceipt (exConv e) (exRun e) (assistant_message tx [] []) [] ?md d = Inr (m, d1)" by (simp add: res)
    then show ?thesis
    proof (cases rule: appendMessageReceipt_cases)
      case (1 x row)
      note a = insert_message_adds[OF 1(3)]
      have "metadata_true ?md ''incomplete''" by (simp add: metadata_true_def mget_def)
      then have "transcript_inv shown d1"
        by (intro row_incomplete[OF t a(1,3,2) find_run_active[OF 1(1,2)]]) (simp_all add: a assistant_message_def empty_message_def)
      then show ?thesis using Inr res own_row[OF a(1,3,2) find_run_active[OF 1(1,2)]] by (simp add: savePartialResponse_def)
    qed
  qed
  then show ?thesis using s t
    by (auto simp: step_partial_def at_def own_refl phase_calls_def intro: effect_give_up split: if_split_asm)
qed

lemma shown_assistant: "plain_shown shown \<Longrightarrow> insert_message c r m t md d = Inr (row, d') \<Longrightarrow> role m \<noteq> ''user'' \<Longrightarrow>
    outline (model_message shown row) = outline (receipt m row)"
  by (rule outline_receipt) simp_all

lemma answering_effect:
  assumes t: "transcript_inv shown d" and l: "linked shown e d" and p: "exPhase e = Answering rq b tx ks us" and sh: "plain_shown shown"
    and ok: "calls_ok e" and fresh: "\<forall>k \<in> set ks. \<not> has_result (messages d) (exRun e) (callID k)"
    and s: "step_answering i b tx ks us e d = Some (e', d')"
  shows "effect shown e d e' d'"
proof -
  let ?m = "assistant_message tx ks (exRun e)"
  let ?e = "\<lambda>m. say ''MODEL_COMPLETED'' (completed_event (exIndex e) m us b)
                   (at (if ks = [] then Completing else Batch ks) (append_messages [m] e))"
  have m: "missing_calls d (exRun e) (exConv e) = []" "map outline (reqMessages (exRequest e)) = map outline (history shown d (exConv e))"
    if "active d (exConv e) (exRun e)" using l p that by (simp_all add: linked_def phase_defs)
  have "effect shown e d (?e m') d1" if a: "appendMessageReceipt (exConv e) (exRun e) ?m [] [] d = Inr (m', d1)" for m' d1
    using a
  proof (cases rule: appendMessageReceipt_cases)
    case (1 x row)
    note r = insert_message_adds[OF 1(3)]
    have act: "active d (exConv e) (exRun e)" by (rule find_run_active[OF 1(1,2)])
    have nm: "\<not> metadata_true (dmMetadata row) ''incomplete''" using r(8) by (simp add: metadata_true_def mget_def)
    have h: "history shown d1 (exConv e) = history shown d (exConv e) @ [model_message shown row]"
      using history_add[OF r(1), of shown "exConv e"] r(2) nm by simp
    have ol: "outline (model_message shown row) = outline m'"
      unfolding 1(4) by (rule shown_assistant[OF sh 1(3)]) (simp add: assistant_message_def)
    have tr: "transcript_inv shown d1 \<and> missing_calls d1 (exRun e) (exConv e) = ks"
    proof (cases "ks = []")
      case True
      then show ?thesis using row_plain[OF t r(1,3,2) act m(1)[OF act]] r
        by (simp add: assistant_message_def empty_message_def)
    next
      case False
      have "batch_head (model_message shown row)"
        using ok p False r by (simp add: batch_head_def model_message_def assistant_message_def empty_message_def calls_ok_def)
      then show ?thesis using row_head[OF t r(1,3,2) act m(1)[OF act] _ nm] fresh r by (simp add: assistant_message_def)
    qed
    have "own (exRun e) d d1" by (rule own_row[OF r(1,3,2) act])
    then show ?thesis using tr h ol m(2)[OF act] by (cases "ks = []") (simp_all add: effect_def linked_def phase_defs)
  qed
  then show ?thesis using s t l
    by (auto simp: step_answering_def attempt_def intro: effect_same keeps_giving split: sum.splits if_split_asm)
qed

lemma completing_effect:
  assumes t: "transcript_inv shown d" and l: "linked shown e d" and p: "exPhase e = Completing"
    and s: "step_completing i e d = Some (e', d')"
  shows "effect shown e d e' d'"
proof -
  have bt: "between_calls (exPhase e)" using p by (simp add: between_calls_def)
  have m: "missing_calls d (exRun e) (exConv e) = []" if "active d (exConv e) (exRun e)"
    using l p that by (simp add: linked_def phase_defs)
  have "effect shown e d (at Stopped e) d1" if "finishCompletedRun (exRun e) (exConv e) d = Inr d1" for d1
    using inv_finishCompletedRun[OF t that m] by (intro effect_give_up) (simp_all add: at_def phase_calls_def)
  moreover have "effect shown e d (next_turn e) d"
    by (rule effect_same[OF t l keeps_between[OF bt]]) (simp_all add: next_turn_def between_calls_def)
  ultimately show ?thesis using s t l
    by (auto simp: step_completing_def attempt_def intro: effect_same keeps_giving split: sum.splits if_split_asm)
qed

lemma tool_rows:
  assumes a: "appendMessageReceipt c r (tool_message k raw) n md d = Inr (m', d')" and md: "\<not> metadata_true md ''incomplete''"
    and t: "transcript_inv shown d" and sh: "plain_shown shown"
    and m: "active d c r \<Longrightarrow> missing_calls d r c = k # ks"
  shows "transcript_inv shown d'" "missing_calls d' r c = ks" "own r d d'" "active d c r"
    "map outline (history shown d' c) = map outline (history shown d c) @ [outline m']"
proof -
  from a obtain x row where 1: "find_run d r c = Some x" "active_status (rnStatus x)"
    "insert_message c r (tool_message k raw) n md d = Inr (row, d')" "m' = receipt (tool_message k raw) row"
    by (rule appendMessageReceipt_cases)
  note r = insert_message_adds[OF 1(3)]
  show act: "active d c r" by (rule find_run_active[OF 1(1,2)])
  have nm: "\<not> metadata_true (dmMetadata row) ''incomplete''" using r(8) md by simp
  show "transcript_inv shown d'" "missing_calls d' r c = ks"
    using row_result[OF t r(1,3,2) act m[OF act] _ _ _ nm] r by (simp_all add: tool_message_def empty_message_def)
  show "own r d d'" by (rule own_row[OF r(1,3,2) act])
  have "outline (model_message shown row) = outline m'"
    unfolding 1(4) by (rule shown_assistant[OF sh 1(3)]) (simp add: tool_message_def)
  then show "map outline (history shown d' c) = map outline (history shown d c) @ [outline m']"
    using history_add[OF r(1), of shown c] r(2) nm by simp
qed

lemma running_effect:
  assumes t: "transcript_inv shown d" and l: "linked shown e d" and p: "exPhase e = Running k rest" and sh: "plain_shown shown"
    and s: "step_running i k rest e d = Some (e', d')"
  shows "effect shown e d e' d'"
proof -
  have m: "missing_calls d (exRun e) (exConv e) = k # rest" "map outline (reqMessages (exRequest e)) = map outline (history shown d (exConv e))"
    if "active d (exConv e) (exRun e)" using l p that by (simp_all add: linked_def phase_defs)
  have md: "\<not> metadata_true (if b then [(''is_error'', JBool True)] else []) ''incomplete''"
    "\<not> metadata_true [(''is_error'', JBool True), (''cancelled'', JBool True)] ''incomplete''" for b
    by (simp_all add: metadata_true_def mget_def)
  have fin: "effect shown e d e1 d1" if f: "finish_tool Go k rest v err e d = (e1, d1)" for v err e1 d1
  proof -
    let ?raw = "marshal (with_error v err)" and ?bad = "err \<noteq> None \<or> commandResultFailed (callName k) v"
    show ?thesis
    proof (cases "?raw = []")
      case True
      then show ?thesis using f t l by (auto simp: finish_tool_def intro: effect_same keeps_giving)
    next
      case False
      show ?thesis
      proof (cases "appendMessageReceipt (exConv e) (exRun e) (tool_message k ?raw) (callName k)
                   (if ?bad then [(''is_error'', JBool True)] else []) d")
        case (Inl x)
        then show ?thesis using f False t l by (auto simp: finish_tool_def attempt_def Let_def intro: effect_same keeps_giving)
      next
        case (Inr res)
        obtain m' d2 where res: "res = (m', d2)" by (cases res)
        note ap = Inr[unfolded res]
        note r = tool_rows[OF ap md(1) t sh m(1)]
        have "e1 = (if rest = [] then next_turn else at (Batch rest))
            (say (if ?bad then ''TOOL_FAILED'' else ''TOOL_COMPLETED'') (tool_event k ?raw err) (append_messages [m'] e))"
          "d1 = d2" using f False ap by (auto simp: finish_tool_def attempt_def Let_def)
        then show ?thesis using r m(2)[OF r(4)] by (cases "rest = []") (simp_all add: effect_def linked_def phase_defs)
      qed
    qed
  qed
  have lost: "transcript_inv shown (observe_cancelled k v e d) \<and> own (exRun e) d (observe_cancelled k v e d)" for v
  proof (cases "appendMessageReceipt (exConv e) (exRun e) (tool_message k (marshal (cancelled_envelope v))) (callName k)
                   [(''is_error'', JBool True), (''cancelled'', JBool True)] d")
    case (Inl x)
    then show ?thesis using t by (simp add: observe_cancelled_def own_refl)
  next
    case (Inr res)
    obtain m' d2 where res: "res = (m', d2)" by (cases res)
    show ?thesis using tool_rows(1,3)[OF Inr[unfolded res] md(2) t sh m(1)] Inr res t by (simp add: observe_cancelled_def own_refl)
  qed
  have "effect shown e d (at (Giving CtxEnded u) e) (observe_cancelled k v e d)" for u v
    using lost by (intro effect_give_up) (simp_all add: at_def phase_calls_def)
  then show ?thesis using s t l fin
    by (auto simp: step_running_def intro: effect_same keeps_giving split: exec_input.splits option.splits if_split_asm)
qed

lemma closing_effect:
  assumes t: "transcript_inv shown d" and s: "step_closing env i f u e d = Some (e', d')"
  shows "effect shown e d e' d'"
proof -
  have "transcript_inv shown d1 \<and> own (exRun e) d d1"
    if "(if u then bindr (finishCancelledRun (exRun e) (exConv e) d) (\<lambda>(ended, d'). Inr d')
         else finishFailedRun (exRun e) (exConv e) (xText env f) d) = Inr d1" for d1
    using that inv_finishCancelledRun[OF t] inv_finishFailedRun[OF t] by (auto split: if_split_asm elim!: bindrE)
  then have "transcript_inv shown d' \<and> own (exRun e) d d'"
    using s t by (auto simp: step_closing_def attempt_def own_refl split: if_split_asm sum.splits)
  moreover have "e' = at Stopped e" using s by (auto simp: step_closing_def split: if_split_asm)
  ultimately show ?thesis by (intro effect_give_up) (simp_all add: at_def phase_calls_def)
qed

section \<open>The machine\<close>

text \<open>What the provider promises: the calls of an answer have IDs the run has not used.\<close>

definition unused_calls :: "executor \<Rightarrow> db \<Rightarrow> bool" where
  "unused_calls e d = (case exPhase e of
     Answering rq b text ks us \<Rightarrow> (\<forall>k \<in> set ks. \<not> has_result (messages d) (exRun e) (callID k)) | _ \<Rightarrow> True)"

lemma exec_step_effect:
  assumes t: "transcript_inv (xShown env) d" and l: "linked (xShown env) e d" and ok: "calls_ok e" and sh: "plain_shown (xShown env)"
    and u: "unused_calls e d" and s: "exec_step env i e d = Some (e', d')"
  shows "effect (xShown env) e d e' d'"
proof (cases "exEmits e")
  case (Cons kp es)
  obtain k pl where kp: "kp = (k, pl)" by (cases kp)
  have "keeps e (e\<lparr>exEmits := es\<rparr>)" using ok
    by (cases "exPhase e") (simp_all add: keeps_def calls_ok_def transcript_copy_def)
  moreover have "still d d'" "e' = e\<lparr>exEmits := es\<rparr>"
    using s Cons kp by (auto simp: exec_step_def still_emit still_refl split: if_split_asm)
  ultimately show ?thesis using effect_still[OF t l] by simp
next
  case Nil
  note st = s[unfolded exec_step_def Nil list.case]
  show ?thesis
  proof (cases "exPhase e")
    case (Answering rq b tx ks us)
    with u have "\<forall>k \<in> set ks. \<not> has_result (messages d) (exRun e) (callID k)" by (simp add: unused_calls_def)
    with st Answering show ?thesis by (simp add: answering_effect[OF t l Answering sh ok])
  qed (use st in \<open>simp_all add: loading_effect[OF t l _ refl] preparing_effect[OF t l] checkpoint_effect[OF t l]
    turn_effect[OF t l _ sh] building_effect[OF t l] ready_effect[OF t l] compacting_effect[OF t l] summarizing_effect[OF t l]
    saving_effect[OF t l] waiting_effect[OF t l] partial_effect[OF t] completing_effect[OF t l] batch_effect[OF t l]
    running_effect[OF t l _ sh] giving_effect[OF t l] closing_effect[OF t]\<close>)
qed

end
