(* ===== verification/ExecutorSystem.thy ===== *)
theory ExecutorSystem
  imports ExecutorSteps
begin

text \<open>
  All processes together: the sessions of \<open>ConvSessions\<close> and the executors of their runs.  A
  session step that starts a run launches its executor; an executor goes on when its session
  has lost the lock (a stale process notices within a second).  \<open>system_step\<close> is the relation
  of every such interleaving; appends, adjustments and completions are the executors' own.
  Every executor step is a transaction of the session relation (\<open>exec_step_op\<close>), so what is
  proved of sessions holds of the system.

  \<open>calm\<close> names what the transcripts rest on beyond the code: a provider that gives each call
  of a run a new ID, and no cancellation of a run that recovery has read as running and not
  yet ended.
\<close>

section \<open>The relation\<close>

record system =
  sess :: session
  execs :: "uuid \<Rightarrow> executor option"

datatype sys_act = Session act | Exec uuid exec_input

definition launched :: "act \<Rightarrow> (uuid \<Rightarrow> executor option) \<Rightarrow> uuid \<Rightarrow> executor option" where
  "launched a X = (case a of Submitted c r \<Rightarrow> X(r := Some (start_executor c r))
     | StartedInput c i r \<Rightarrow> X(r := Some (start_executor c r)) | _ \<Rightarrow> X)"

definition of_executor :: "act \<Rightarrow> bool" where
  "of_executor a = (case a of Appended r \<Rightarrow> True | Adjusted r \<Rightarrow> True | Ended r k \<Rightarrow> k = ''completed'' | _ \<Rightarrow> False)"

inductive system_step :: "conv_env \<Rightarrow> exec_env \<Rightarrow> system \<Rightarrow> sys_act \<Rightarrow> system \<Rightarrow> bool" for cenv env where
  sys_session: "session_step cenv (sess s) a t \<Longrightarrow> \<not> of_executor a \<Longrightarrow>
    system_step cenv env s (Session a) (s\<lparr>sess := t, execs := launched a (execs s)\<rparr>)"
| sys_exec: "execs s r = Some e \<Longrightarrow> exec_step env i e (store (sess s)) = Some (e', d') \<Longrightarrow>
    system_step cenv env s (Exec r i) (s\<lparr>sess := (sess s)\<lparr>store := d'\<rparr>, execs := (execs s)(r := Some e')\<rparr>)"

inductive_cases system_stepE: "system_step cenv env s a s'"

definition calm :: "system \<Rightarrow> sys_act \<Rightarrow> bool" where
  "calm s a = (case a of
     Session (Cancelling r) \<Rightarrow> (\<forall>c xs. held (sess s) c = Some (Recovering xs) \<longrightarrow> r \<notin> rnID ` set xs)
   | Session b \<Rightarrow> True
   | Exec r i \<Rightarrow> (case execs s r of None \<Rightarrow> True | Some e \<Rightarrow> unused_calls e (store (sess s))))"

definition calm_step :: "conv_env \<Rightarrow> exec_env \<Rightarrow> system \<Rightarrow> sys_act \<Rightarrow> system \<Rightarrow> bool" where
  "calm_step cenv env s a s' = (system_step cenv env s a s' \<and> calm s a)"

section \<open>Executor steps are transactions\<close>

lemma append_op: "appendMessageReceipt c r m t md d = Inr (m', d') \<Longrightarrow> \<exists>a. db_op cenv d a d'"
  by (blast intro: op_append)

lemma failed_op:
  assumes "finishFailedRun r c reason d = Inr d'"
  shows "\<exists>a. db_op cenv d a d'"
proof -
  obtain x where "find_run d r c = Some x" using assms by (cases "find_run d r c") (auto simp: finishFailedRun_def)
  with assms show ?thesis by (blast intro: op_failed)
qed

lemma completed_op:
  assumes "finishCompletedRun r c d = Inr d'"
  shows "\<exists>a. db_op cenv d a d'"
proof -
  obtain x where "find_run d r c = Some x" using assms by (cases "find_run d r c") (auto simp: finishCompletedRun_def)
  with assms show ?thesis by (blast intro: op_completed)
qed

lemma cancelled_op: "finishCancelledRun r c d = Inr (b, d') \<Longrightarrow> \<exists>a. db_op cenv d a d'"
  by (blast intro: op_cancelled)

lemma usage_op: "\<exists>a. db_op cenv d a (finishModelRequest r i us x d)"
  by (blast intro: op_answer_request)

definition op_or_same :: "conv_env \<Rightarrow> db \<Rightarrow> db \<Rightarrow> bool" where
  "op_or_same cenv d d' = (d' = d \<or> (\<exists>a. db_op cenv d a d'))"

lemma op_sameI: "\<exists>a. db_op cenv d a d' \<Longrightarrow> op_or_same cenv d d'" "op_or_same cenv d d"
  by (simp_all add: op_or_same_def)

lemma finish_tool_op: "finish_tool i k rest v err e d = (e', d') \<Longrightarrow> op_or_same cenv d d'"
  by (auto simp: finish_tool_def attempt_def Let_def intro: op_sameI append_op split: if_split_asm sum.splits)

lemma observe_op: "op_or_same cenv d (observe_cancelled k v e d)"
  by (auto simp: observe_cancelled_def intro: op_sameI append_op split: sum.splits)

lemma partial_op: "op_or_same cenv d (savePartialResponse c r text cs d)"
  by (auto simp: savePartialResponse_def intro: op_sameI append_op split: sum.splits)

lemma exec_step_op:
  assumes s: "exec_step env i e d = Some (e', d')"
  shows "op_or_same cenv d d'"
proof (cases "exEmits e")
  case (Cons kp es)
  have "\<exists>a. db_op cenv d a (emit (exRun e) (exConv e) (fst kp) (snd kp) d)" by (blast intro: op_emit)
  then show ?thesis using s Cons by (cases kp) (auto simp: exec_step_def intro: op_sameI split: if_split_asm)
next
  case Nil
  note st = s[unfolded exec_step_def Nil list.case]
  show ?thesis
  proof (cases "exPhase e")
    case Turn
    with st show ?thesis
      by (auto simp: step_turn_def attempt_def intro: op_sameI op_sameI(1)[OF exI, OF op_adjust] split: exec_input.splits sum.splits if_split_asm)
  next
    case (Ready rq pr b)
    with st show ?thesis
      by (auto simp: step_ready_def attempt_def intro: op_sameI op_sameI(1)[OF exI, OF op_request] split: exec_input.splits sum.splits if_split_asm)
  next
    case (Compacting k rq pr b)
    with st show ?thesis
      by (auto simp: step_compacting_def attempt_def intro: op_sameI op_sameI(1)[OF exI, OF op_request] split: sum.splits if_split_asm)
  next
    case (Summarizing k rq pr b pl n)
    with st show ?thesis
      by (auto simp: step_summarizing_def Let_def intro: op_sameI op_sameI(1)[OF usage_op] split: exec_input.splits sum.splits)
  next
    case (SavingCheckpoint k rq pr b pl sm n)
    with st show ?thesis
      by (auto simp: step_saving_def attempt_def Let_def intro: op_sameI op_sameI(1)[OF exI, OF op_checkpoint] split: sum.splits if_split_asm)
  next
    case (Waiting rq pr b)
    have "d' = d \<or> (\<exists>us x. d' = finishModelRequest (exRun e) (exIndex e) us x d)"
      using st Waiting by (auto simp: step_waiting_def Let_def split: exec_input.splits prod.splits option.splits sum.splits if_split_asm)
    then show ?thesis by (auto intro: op_sameI op_sameI(1)[OF usage_op])
  next
    case (Partial tx cs f u)
    with st show ?thesis by (auto simp: step_partial_def intro: op_sameI(2) partial_op split: if_split_asm)
  next
    case (Answering rq b tx ks us)
    with st show ?thesis
      by (auto simp: step_answering_def attempt_def intro: op_sameI append_op split: sum.splits if_split_asm)
  next
    case Completing
    with st show ?thesis
      by (auto simp: step_completing_def attempt_def intro: op_sameI completed_op split: sum.splits if_split_asm)
  next
    case (Running k rest)
    with st show ?thesis
      by (auto simp: step_running_def intro: op_sameI(2) finish_tool_op observe_op split: exec_input.splits option.splits if_split_asm)
  next
    case (Closing f u)
    with st show ?thesis
      by (auto simp: step_closing_def attempt_def intro: op_sameI failed_op cancelled_op split: sum.splits if_split_asm elim!: bindrE)
  qed (use st in \<open>auto simp: step_loading_def step_preparing_def step_checkpoint_def step_building_def step_batch_def step_giving_def Let_def
      intro: op_sameI(2) split: exec_input.splits sum.splits list.splits if_split_asm\<close>)
qed

text \<open>So a system step is a step of the sessions, or none.\<close>

lemma system_session:
  assumes "system_step cenv env s a s'"
  shows "sess s' = sess s \<or> (\<exists>b. session_step cenv (sess s) b (sess s'))"
  using assms
proof (cases rule: system_step.cases)
  case (sys_session b t)
  then show ?thesis by auto
next
  case (sys_exec r e i e' d')
  from exec_step_op[OF sys_exec(4), of cenv] show ?thesis
  proof (unfold op_or_same_def, elim disjE exE)
    assume "d' = store (sess s)"
    then show ?thesis using sys_exec(2) by simp
  next
    fix b assume "db_op cenv (store (sess s)) b d'"
    from ss_op[OF this] show ?thesis using sys_exec(2) by auto
  qed
qed

section \<open>The invariant\<close>

definition recovering_ok :: "session \<Rightarrow> bool" where
  "recovering_ok t = (\<forall>c xs. held t c = Some (Recovering xs) \<longrightarrow>
     (\<forall>r. active (store t) c r \<longrightarrow> r \<in> rnID ` set xs) \<and>
     (\<forall>x \<in> set xs. rnStatus x \<noteq> ''cancelling'' \<longrightarrow> (rnID x, c, ''cancelling'') \<notin> set (run_states (store t))))"

definition executors_ok :: "(db_message \<Rightarrow> string) \<Rightarrow> (uuid \<Rightarrow> executor option) \<Rightarrow> db \<Rightarrow> bool" where
  "executors_ok shown X d = (\<forall>r e. X r = Some e \<longrightarrow> exRun e = r \<and> linked shown e d \<and> calls_ok e)"

definition system_inv :: "exec_env \<Rightarrow> system \<Rightarrow> bool" where
  "system_inv env s = (session_inv (sess s) \<and> transcript_inv (xShown env) (store (sess s)) \<and> recovering_ok (sess s) \<and>
     executors_ok (xShown env) (execs s) (store (sess s)))"

lemma recoveringI:
  assumes "\<And>c xs. held t c = Some (Recovering xs) \<Longrightarrow>
     (\<forall>r. active (store t) c r \<longrightarrow> r \<in> rnID ` set xs) \<and>
     (\<forall>x \<in> set xs. rnStatus x \<noteq> ''cancelling'' \<longrightarrow> (rnID x, c, ''cancelling'') \<notin> set (run_states (store t)))"
  shows "recovering_ok t"
  using assms unfolding recovering_ok_def by blast

lemma recoveringD:
  assumes "recovering_ok t" "held t c = Some (Recovering xs)"
  shows "active (store t) c r \<Longrightarrow> r \<in> rnID ` set xs"
    "x \<in> set xs \<Longrightarrow> rnStatus x \<noteq> ''cancelling'' \<Longrightarrow> (rnID x, c, ''cancelling'') \<notin> set (run_states (store t))"
  using assms unfolding recovering_ok_def by blast+

lemma recovering_own:
  assumes "recovering_ok t" "own r (store t) d'"
  shows "recovering_ok (t\<lparr>store := d'\<rparr>)"
proof (rule recoveringI)
  fix c xs assume "held (t\<lparr>store := d'\<rparr>) c = Some (Recovering xs)"
  then have h: "held t c = Some (Recovering xs)" by simp
  show "(\<forall>r. active (store (t\<lparr>store := d'\<rparr>)) c r \<longrightarrow> r \<in> rnID ` set xs) \<and>
      (\<forall>x \<in> set xs. rnStatus x \<noteq> ''cancelling'' \<longrightarrow> (rnID x, c, ''cancelling'') \<notin> set (run_states (store (t\<lparr>store := d'\<rparr>))))"
    using recoveringD[OF assms(1) h] assms(2) by (simp add: own_def) blast
qed

lemma linked_kept: "linked shown e d \<Longrightarrow> kept shown d d' (exRun e) \<Longrightarrow> linked shown e d'"
  unfolding linked_def kept_def by (auto split: option.splits)

lemma executors_kept: "executors_ok shown X d \<Longrightarrow> (\<And>r. kept shown d d' r) \<Longrightarrow> executors_ok shown X d'"
  unfolding executors_ok_def by (auto intro: linked_kept)

section \<open>Session steps\<close>

lemma op_transcript:
  assumes op: "db_op cenv (store t) a d'" and na: "\<not> of_executor a" and tr: "transcript_inv shown (store t)" and rc: "recovering_ok t"
    and cm: "\<And>r c xs. a = Cancelling r \<Longrightarrow> held t c = Some (Recovering xs) \<Longrightarrow> r \<notin> rnID ` set xs"
  shows "transcript_inv shown d' \<and> recovering_ok (t\<lparr>store := d'\<rparr>) \<and> (\<forall>r. kept shown (store t) d' r)"
proof (cases "moves a")
  case False
  have st: "still (store t) d'" by (rule still_db_op[OF op False])
  have "own r (store t) d'" for r by (rule own_still[OF st])
  then show ?thesis using inv_still[OF st tr] recovering_own[OF rc] kept_still[OF st] by blast
next
  case True
  have "transcript_inv shown d' \<and> (\<forall>r. kept shown (store t) d' r) \<and> ((\<exists>r. own r (store t) d') \<or> (\<exists>r w c. a = Cancelling r \<and> CancelRun w c r (store t) = Inr d'))"
    using op
  proof (cases rule: db_op.cases)
    case (op_cancel w c r)
    then show ?thesis using inv_CancelRun[OF tr] kept_CancelRun[OF tr] by blast
  next
    case (op_cancelled r c b)
    then show ?thesis using inv_finishCancelledRun[OF tr op_cancelled(2)] kept_finishCancelledRun[OF tr op_cancelled(2)] by blast
  next
    case (op_failed r c reason x)
    then show ?thesis using inv_finishFailedRun[OF tr op_failed(2)] kept_finishFailedRun[OF tr op_failed(2)] by blast
  next
    case (op_completed r c x)
    have "d' = store t" using op_completed na by (auto simp: finishCompletedRun_def of_executor_def split: if_split_asm)
    then show ?thesis using tr kept_still[OF still_refl] own_refl by auto
  qed (use True na in \<open>auto simp: moves_def of_executor_def split: if_split_asm\<close>)
  moreover have "recovering_ok (t\<lparr>store := d'\<rparr>)" if c: "a = Cancelling r" "CancelRun w c r (store t) = Inr d'" for r w c
    using c(2)
  proof (cases rule: CancelRun_moved)
    case 1
    then show ?thesis using rc by simp
  next
    case (2 x)
    have ax: "active (store t) c r" by (rule find_run_active[OF 2(1)]) (simp add: 2(2) active_status_def)
    show ?thesis
    proof (rule recoveringI)
      fix c' xs assume h: "held (t\<lparr>store := d'\<rparr>) c' = Some (Recovering xs)"
      then have h': "held t c' = Some (Recovering xs)" by simp
      have nr: "r \<notin> rnID ` set xs" by (rule cm[OF c(1) h'])
      have "\<not> active (store t) c' r" using recoveringD(1)[OF rc h'] nr by blast
      moreover have "active (store t) c' r" if "(r, c', s) \<in> set (run_states (store t))" for s
        using that find_run_state[OF 2(1)] transcript_invD(2)[OF tr] ax by (auto dest: eq_key_imp_eq_value)
      ultimately have no: "(r, c', s) \<notin> set (run_states (store t))" for s by blast
      show "(\<forall>r'. active (store (t\<lparr>store := d'\<rparr>)) c' r' \<longrightarrow> r' \<in> rnID ` set xs) \<and>
          (\<forall>x \<in> set xs. rnStatus x \<noteq> ''cancelling'' \<longrightarrow> (rnID x, c', ''cancelling'') \<notin> set (run_states (store (t\<lparr>store := d'\<rparr>))))"
        using recoveringD[OF rc h'] no 2(3) active_moved[OF 2(3)]
        by (auto simp: moved_def set_state_def split: if_split_asm)
    qed
  qed
  ultimately show ?thesis using recovering_own[OF rc] by blast
qed

text \<open>A run is started under the lock, when recovery has left none active.\<close>

lemma start_transcript:
  assumes h: "held t c = Some (Recovering [])" and i: "session_inv t" and tr: "transcript_inv shown (store t)"
    and rc: "recovering_ok t" and ex: "executors_ok shown X (store t)"
    and e: "start_submission prep w u c sub digest mode perm (store t) = Inr (r, d') \<or> claimQueuedInput w c (store t) = Inr (Some r, d')"
  shows "transcript_inv shown d'" "recovering_ok (t\<lparr>store := d', held := (held t)(c := Some (Executing r))\<rparr>)"
    "executors_ok shown (X(r := Some (start_executor c r))) d'"
proof -
  have none: "\<not> active (store t) c r'" for r' using recoveringD(1)[OF rc h, of r'] by auto
  note g = inv_starts[OF tr session_invD(1)[OF i] none e]
  show "transcript_inv shown d'" by (rule g(1))
  have act: "active d' c' r' \<longleftrightarrow> (r' = r \<and> c' = c) \<or> active (store t) c' r'" for c' r'
    unfolding active_def g(2) by (auto simp: active_status_def)
  show "recovering_ok (t\<lparr>store := d', held := (held t)(c := Some (Executing r))\<rparr>)"
  proof (rule recoveringI)
    fix c' xs assume "held (t\<lparr>store := d', held := (held t)(c := Some (Executing r))\<rparr>) c' = Some (Recovering xs)"
    then have h': "c' \<noteq> c" "held t c' = Some (Recovering xs)" by (simp_all split: if_split_asm)
    show "(\<forall>r'. active (store (t\<lparr>store := d', held := (held t)(c := Some (Executing r))\<rparr>)) c' r' \<longrightarrow> r' \<in> rnID ` set xs) \<and>
        (\<forall>x \<in> set xs. rnStatus x \<noteq> ''cancelling'' \<longrightarrow>
           (rnID x, c', ''cancelling'') \<notin> set (run_states (store (t\<lparr>store := d', held := (held t)(c := Some (Executing r))\<rparr>))))"
      using recoveringD[OF rc h'(2)] h'(1) act g(2) by simp
  qed
  show "executors_ok shown (X(r := Some (start_executor c r))) d'"
    unfolding executors_ok_def
  proof (intro allI impI)
    fix r' e' assume x: "(X(r := Some (start_executor c r))) r' = Some e'"
    show "exRun e' = r' \<and> linked shown e' d' \<and> calls_ok e'"
    proof (cases "r' = r")
      case True
      then show ?thesis using x g(3) by (auto simp: start_executor_def linked_def phase_defs)
    next
      case False
      then have "exRun e' = r' \<and> linked shown e' (store t) \<and> calls_ok e'" using x ex by (simp add: executors_ok_def)
      then show ?thesis using linked_kept[OF _ g(4), of e'] False by auto
    qed
  qed
qed

lemma recovering_other:
  assumes "recovering_ok t" "\<And>xs. p \<noteq> Some (Recovering xs)"
  shows "recovering_ok (t\<lparr>held := (held t)(c := p)\<rparr>)"
  using assms unfolding recovering_ok_def by simp

lemma session_transcript:
  assumes st: "session_step cenv t a t'" and na: "\<not> of_executor a" and i: "session_inv t" and tr: "transcript_inv shown (store t)"
    and rc: "recovering_ok t" and ex: "executors_ok shown X (store t)"
    and cm: "\<And>r c xs. a = Cancelling r \<Longrightarrow> held t c = Some (Recovering xs) \<Longrightarrow> r \<notin> rnID ` set xs"
  shows "transcript_inv shown (store t') \<and> recovering_ok t' \<and> executors_ok shown (launched a X) (store t')"
  using st
proof (cases rule: session_step.cases)
  case (ss_op d')
  have "launched a X = X" using ss_op(2)
    by (cases rule: db_op.cases) (simp_all add: launched_def)
  then show ?thesis using op_transcript[OF ss_op(2) na tr rc cm] executors_kept[OF ex] ss_op(1) by simp
next
  case (ss_flush publish n log d')
  obtain os where "d' = (store t)\<lparr>outbox := os\<rparr>" by (rule quiet_flush[OF session_invD(1)[OF i] ss_flush(3)])
  then have s: "still (store t) d'" by (simp add: still_def run_states_def)
  show ?thesis using inv_still[OF s tr] recovering_own[OF rc own_still[OF s]] executors_kept[OF ex kept_still[OF s]] ss_flush(1,2)
    by (simp add: launched_def)
next
  case (ss_lock c)
  then show ?thesis using tr ex recovering_other[OF rc] by (simp add: launched_def)
next
  case (ss_select c)
  have "recovering_ok (t\<lparr>held := (held t)(c := Some (Recovering (active_runs (store t) c)))\<rparr>)"
  proof (rule recoveringI)
    fix c' xs assume h: "held (t\<lparr>held := (held t)(c := Some (Recovering (active_runs (store t) c)))\<rparr>) c' = Some (Recovering xs)"
    show "(\<forall>r. active (store (t\<lparr>held := (held t)(c := Some (Recovering (active_runs (store t) c)))\<rparr>)) c' r \<longrightarrow> r \<in> rnID ` set xs) \<and>
        (\<forall>x \<in> set xs. rnStatus x \<noteq> ''cancelling'' \<longrightarrow>
          (rnID x, c', ''cancelling'') \<notin> set (run_states (store (t\<lparr>held := (held t)(c := Some (Recovering (active_runs (store t) c)))\<rparr>))))"
    proof (cases "c' = c")
      case True
      then have xs: "xs = active_runs (store t) c" using h by simp
      have "(rnID x, c, ''cancelling'') \<notin> set (run_states (store t))" if "x \<in> set xs" "rnStatus x \<noteq> ''cancelling''" for x
      proof
        assume "(rnID x, c, ''cancelling'') \<in> set (run_states (store t))"
        moreover have "(rnID x, c, rnStatus x) \<in> set (run_states (store t))"
          using that(1) xs by (auto simp: active_runs_def run_states_def run_state_def image_iff)
        ultimately show False using transcript_invD(2)[OF tr] that(2) by (auto dest: eq_key_imp_eq_value)
      qed
      then show ?thesis using True xs active_runs_set[of "store t" c] by auto
    next
      case False
      then show ?thesis using h recoveringD[OF rc, of c' xs] by auto
    qed
  qed
  then show ?thesis using ss_select tr ex by (simp add: launched_def)
next
  case (ss_recover c x xs d')
  have "transcript_inv shown d' \<and> own (rnID x) (store t) d' \<and> \<not> active d' c (rnID x) \<and> (\<forall>r. kept shown (store t) d' r)"
  proof (cases "rnStatus x = ''cancelling''")
    case True
    then obtain b where e: "finishCancelledRun (rnID x) c (store t) = Inr (b, d')" using ss_recover(4) by (auto elim!: bindrE)
    show ?thesis using inv_finishCancelledRun[OF tr e] kept_finishCancelledRun[OF tr e] by blast
  next
    case False
    then have e: "finishFailedRun (rnID x) c interrupted_reason (store t) = Inr d'" using ss_recover(4) by simp
    have "(rnID x, c, ''cancelling'') \<notin> set (run_states (store t))" using recoveringD(2)[OF rc ss_recover(3)] False by simp
    then show ?thesis using inv_finishFailedRun[OF tr e] kept_finishFailedRun[OF tr e] by blast
  qed
  then have k: "transcript_inv shown d'" "own (rnID x) (store t) d'" "\<not> active d' c (rnID x)" "\<And>r. kept shown (store t) d' r" by auto
  have "recovering_ok (t\<lparr>store := d', held := (held t)(c := Some (Recovering xs))\<rparr>)"
  proof (rule recoveringI)
    fix c' ys assume h: "held (t\<lparr>store := d', held := (held t)(c := Some (Recovering xs))\<rparr>) c' = Some (Recovering ys)"
    obtain zs where z: "held t c' = Some (Recovering zs)" "set ys \<subseteq> set zs" "c' = c \<Longrightarrow> zs = x # ys" "c' \<noteq> c \<Longrightarrow> zs = ys"
      using h ss_recover(3) by (cases "c' = c") auto
    note r = recoveringD[OF rc z(1)]
    show "(\<forall>r. active (store (t\<lparr>store := d', held := (held t)(c := Some (Recovering xs))\<rparr>)) c' r \<longrightarrow> r \<in> rnID ` set ys) \<and>
        (\<forall>y \<in> set ys. rnStatus y \<noteq> ''cancelling'' \<longrightarrow>
          (rnID y, c', ''cancelling'') \<notin> set (run_states (store (t\<lparr>store := d', held := (held t)(c := Some (Recovering xs))\<rparr>))))"
    proof (intro conjI allI ballI impI)
      fix r assume a: "active (store (t\<lparr>store := d', held := (held t)(c := Some (Recovering xs))\<rparr>)) c' r"
      then have "active (store t) c' r" using k(2) by (simp add: own_def)
      then have "r \<in> rnID ` set zs" by (rule recoveringD(1)[OF rc z(1)])
      then show "r \<in> rnID ` set ys" using a k(3) z(3,4) by (cases "c' = c") auto
    next
      fix y assume y: "y \<in> set ys" "rnStatus y \<noteq> ''cancelling''"
      have "(rnID y, c', ''cancelling'') \<notin> set (run_states (store t))"
        by (rule recoveringD(2)[OF rc z(1)]) (use y z(2) in auto)
      then show "(rnID y, c', ''cancelling'') \<notin> set (run_states (store (t\<lparr>store := d', held := (held t)(c := Some (Recovering xs))\<rparr>)))"
        using k(2) by (auto simp: own_def)
    qed
  qed
  then show ?thesis using ss_recover(1,2) k(1) executors_kept[OF ex k(4)] by (simp add: launched_def)
next
  case (ss_submit c w u sub digest mode perm r d')
  note g = start_transcript[OF ss_submit(3) i tr rc ex disjI1[OF ss_submit(4)]]
  show ?thesis using g ss_submit(1,2) by (simp add: launched_def)
next
  case (ss_idle c w d')
  have s: "still (store t) d'" by (rule still_idle[OF ss_idle(4)])
  show ?thesis using inv_still[OF s tr] recovering_own[OF rc own_still[OF s]] executors_kept[OF ex kept_still[OF s]] ss_idle(1,2)
    by (simp add: launched_def)
next
  case (ss_start c w r d' x)
  note g = start_transcript[OF ss_start(3) i tr rc ex disjI2[OF ss_start(4)]]
  show ?thesis using g ss_start(1,2) by (simp add: launched_def)
next
  case (ss_unlock c)
  then show ?thesis using tr ex recovering_other[OF rc] by (simp add: launched_def)
qed

section \<open>Every step\<close>

lemma calm_step_inv:
  assumes sh: "plain_shown (xShown env)" and s: "calm_step cenv env s a s'" and i: "system_inv env s"
  shows "system_inv env s'"
proof -
  have st: "system_step cenv env s a s'" and cm: "calm s a" using s by (simp_all add: calm_step_def)
  have iv: "session_inv (sess s)" "transcript_inv (xShown env) (store (sess s))" "recovering_ok (sess s)"
    "executors_ok (xShown env) (execs s) (store (sess s))" using i by (simp_all add: system_inv_def)
  have si: "session_inv (sess s')" using system_session[OF st] iv(1) session_step_inv by metis
  show ?thesis using st
  proof (cases rule: system_step.cases)
    case (sys_session b t)
    have "\<And>r c xs. b = Cancelling r \<Longrightarrow> held (sess s) c = Some (Recovering xs) \<Longrightarrow> r \<notin> rnID ` set xs"
      using cm sys_session(1) by (simp add: calm_def)
    from session_transcript[OF sys_session(3,4) iv this] si sys_session(2) show ?thesis by (simp add: system_inv_def)
  next
    case (sys_exec r e k e' d')
    have ok: "exRun e = r" "linked (xShown env) e (store (sess s))" "calls_ok e" using iv(4) sys_exec(3) by (auto simp: executors_ok_def)
    have "unused_calls e (store (sess s))" using cm sys_exec(1,3) by (simp add: calm_def)
    from exec_step_effect[OF iv(2) ok(2,3) sh this sys_exec(4)] ok(1)
    have eff: "transcript_inv (xShown env) d'" "own r (store (sess s)) d'" "linked (xShown env) e' d'" "calls_ok e'" "exRun e' = r"
      by (simp_all add: effect_def)
    have "executors_ok (xShown env) ((execs s)(r := Some e')) d'"
      unfolding executors_ok_def
    proof (intro allI impI)
      fix r' x assume x: "((execs s)(r := Some e')) r' = Some x"
      show "exRun x = r' \<and> linked (xShown env) x d' \<and> calls_ok x"
      proof (cases "r' = r")
        case False
        then have "exRun x = r' \<and> linked (xShown env) x (store (sess s)) \<and> calls_ok x"
          using x iv(4) by (simp add: executors_ok_def)
        then show ?thesis using linked_kept kept_own[OF iv(2) eff(2) False] by auto
      qed (use x eff in auto)
    qed
    then show ?thesis using si recovering_own[OF iv(3) eff(2)] eff(1) sys_exec(2) by (simp add: system_inv_def)
  qed
qed

end
