(* ===== verification/ExecutorDemo.thy ===== *)
theory ExecutorDemo
  imports ExecutorRuns
begin

text \<open>
  A concrete run of the system: a user submits a message, the run's executor loads the
  transcript, sends a request to the model, records the answer and starts the tool call the
  model asked for.  \<open>run_exec\<close> evaluates an executor over a list of inputs.
\<close>

section \<open>Evaluating an executor\<close>

fun run_exec :: "exec_env \<Rightarrow> exec_input list \<Rightarrow> executor \<Rightarrow> db \<Rightarrow> (executor \<times> db) option" where
  "run_exec env [] e d = Some (e, d)"
| "run_exec env (i # is) e d =
     (if unused_calls e d then (case exec_step env i e d of None \<Rightarrow> None | Some (e', d') \<Rightarrow> run_exec env is e' d') else None)"

lemma run_exec_append:
  "run_exec env xs e d = Some (e1, d1) \<Longrightarrow> run_exec env ys e1 d1 = r \<Longrightarrow> run_exec env (xs @ ys) e d = r"
  by (induction xs arbitrary: e d) (auto split: if_split_asm option.splits)

lemma run_exec_trace:
  assumes "calm_trace cenv env as s" "execs s r = Some e" "run_exec env is e (store (sess s)) = Some (e', d')"
  shows "calm_trace cenv env (as @ map (Exec r) is) (s\<lparr>sess := (sess s)\<lparr>store := d'\<rparr>, execs := (execs s)(r := Some e')\<rparr>)"
  using assms
proof (induction "is" arbitrary: as s e)
  case Nil
  then have "e' = e" "d' = store (sess s)" by simp_all
  then show ?case using Nil by (simp add: fun_upd_idem)
next
  case (Cons i "is")
  from Cons.prems(3) obtain e1 d1 where u: "unused_calls e (store (sess s))" and x: "exec_step env i e (store (sess s)) = Some (e1, d1)"
    and rest: "run_exec env is e1 d1 = Some (e', d')" by (auto split: if_split_asm option.splits)
  let ?s1 = "s\<lparr>sess := (sess s)\<lparr>store := d1\<rparr>, execs := (execs s)(r := Some e1)\<rparr>"
  have "calm_step cenv env s (Exec r i) ?s1"
    using sys_exec[OF Cons.prems(2) x, of cenv] u Cons.prems(2) by (simp add: calm_step_def calm_def)
  from Cons.IH[OF calm_trace_step[OF Cons.prems(1) this], of e1] rest show ?case by (simp add: fun_upd_def cong: if_cong)
qed

section \<open>The run\<close>

definition demo_xenv :: exec_env where
  "demo_xenv = \<lparr>xTables = envTables demo_env, xJsonb = (\<lambda>s. s), xShown = dmContent, xTaskState = (\<lambda>d c r. Some []),
     xFileFacts = (\<lambda>d c r. Some []), xListFiles = \<lparr>toolName = ''list_files'', toolDescription = [], inputSchema = None\<rparr>,
     xText = (\<lambda>f. ''stopped'')\<rparr>"

definition demo_config :: budget_config where
  "demo_config = \<lparr>contextWindow = 0, cfgOutputReserve = 0, cfgPolicyWindow = 0\<rparr>"

definition demo_base :: request where
  "demo_base = empty_request\<lparr>reqModel := ''m'', reqSystem := ''s'',
     reqMessages := [\<lparr>role = ''user'', content = ''hi'', toolCallID = [], toolCalls = [], msgRunID = ''0'', messageID = ''1'', msgSeq = 1\<rparr>]\<rparr>"

definition demo_start :: executor where
  "demo_start = (start_executor ''c'' ''0'')\<lparr>exRequest := demo_base, exConfig := demo_config, exPhase := Building 0\<rparr>"

definition demo_loading :: "exec_input list" where
  "demo_loading = [Go, Prepared ''s'' [] ''m'' demo_config False, Go, Go]"

definition demo_projection :: projection where
  "demo_projection = \<lparr>prMessages = reqMessages demo_base,
     prStats = \<lparr>stRecentFull = 10, stFull = 0, stReference = 0, stEvicted = 0, stPinned = 0, stBefore = 2, stAfter = 2\<rparr>\<rparr>"

definition demo_sent :: request where
  "demo_sent = demo_base\<lparr>reqSystem := ''s'' @ permission_note ''standard''\<rparr>"

definition demo_budget :: budget where
  "demo_budget = (case Evaluate (envTables demo_env) (0, 0) demo_sent demo_config of Inr b \<Rightarrow> b | Inl e \<Rightarrow> undefined)"

lemma demo_loaded: "run_exec demo_xenv demo_loading (start_executor ''c'' ''0'') demo1 = Some (demo_start, demo1)"
  by code_simp

lemma demo_projected: "Build (reqMessages demo_base) = Inr demo_projection"
  by code_simp

lemma demo_tokens: "request_tokens (envTables demo_env) demo_sent = 160"
proof -
  have "ascii (''s'' @ permission_note ''standard'')" "length (permission_note ''standard'') = 480" by code_simp+
  then have "textTokens (envTables demo_env) (''s'' @ permission_note ''standard'') = 121" by (simp add: textTokens_ascii)
  then show ?thesis
    by (simp add: request_tokens_def demo_sent_def demo_base_def empty_request_def schema_tokens_def message_tokens_def
        visionContent_def textTokens_ascii ascii_def)
qed

lemma demo_evaluated:
  "Evaluate (envTables demo_env) (0, 0) demo_sent demo_config = Inr demo_budget"
  "\<not> exceeded demo_budget" "\<not> shouldCompact demo_budget" "0 < estimatedInput demo_budget"
proof -
  have "Estimate (envTables demo_env) (0, 0) demo_sent = 176"
    by (simp add: Estimate_def EstimateInput_def demo_tokens max_one_def ceil_mul_eval)
  then obtain b where "Evaluate (envTables demo_env) (0, 0) demo_sent demo_config = Inr b" "\<not> exceeded b" "\<not> shouldCompact b"
    "0 < estimatedInput b"
    by (simp add: Evaluate_def demo_config_def budget_window_def budget_reserve_def budget_policy_def DefaultPolicyWindow_def)
  then show "Evaluate (envTables demo_env) (0, 0) demo_sent demo_config = Inr demo_budget"
    "\<not> exceeded demo_budget" "\<not> shouldCompact demo_budget" "0 < estimatedInput demo_budget"
    by (simp_all add: demo_budget_def)
qed

definition demo_row_sent :: model_request where
  "demo_row_sent = \<lparr>muRun = ''0'', muIndex = 1, muPurpose = ''execution'', muStatus = ''started'',
     muEstimated = estimatedInput demo_budget, muUsage = None, muErrorKind = None\<rparr>"

definition demo_waiting :: executor where
  "demo_waiting = demo_start\<lparr>exPhase := Waiting demo_sent demo_projection demo_budget, exIndex := 1,
     exEmits := [(''MODEL_STARTED'', started_event demo_start 1 demo_projection demo_budget)]\<rparr>"

definition demo_sent_db :: db where
  "demo_sent_db = demo1\<lparr>modelRequests := [demo_row_sent]\<rparr>"

definition demo_stream :: "event list" where
  "demo_stream = [\<lparr>evDelta = ''ok'', evToolCall = Some demo_call, evToolCalls = [], evUsage = None, evErr = None\<rparr>]"

lemmas exec_eval = exec_step_def unused_calls_def at_def say_def append_messages_def attempt_def next_turn_def

lemma demo_built: "build_request demo_xenv demo_start demo1 = Inr (demo_sent, demo_projection, demo_budget)"
proof -
  have m: "runModeContext (\<lambda>s. s) ''c'' ''0'' demo1 = Inr (''execute'', permission_note ''standard'')"
    by (simp add: runModeContext_def find_run_def demo1_def demo_run_def)
  have e: "exEstimator demo_start = (0, 0)" "exConfig demo_start = demo_config" "exRequest demo_start = demo_base"
    "exCheckpoint demo_start = None" "exConv demo_start = ''c''" "exRun demo_start = ''0''"
    by (simp_all add: demo_start_def start_executor_def)
  have q: "(demo_base\<lparr>reqSystem := reqSystem demo_base @ permission_note ''standard'', reqMessages := prMessages demo_projection,
      reqTools := modelToolsForMode t (reqTools demo_base) ''execute''\<rparr>) = demo_sent" for t
    by (simp add: demo_sent_def demo_base_def demo_projection_def modelToolsForMode_def empty_request_def)
  show ?thesis
    using q demo_evaluated(1) by (simp add: build_request_def e demo_xenv_def demo_projected m ApplyCheckpoint_def)
qed

lemma demo_sending_steps:
  "exec_step demo_xenv Go demo_start demo1 = Some (demo_start\<lparr>exPhase := Ready demo_sent demo_projection demo_budget\<rparr>, demo1)"
  "exec_step demo_xenv Go (demo_start\<lparr>exPhase := Ready demo_sent demo_projection demo_budget\<rparr>) demo1 = Some (demo_waiting, demo_sent_db)"
proof -
  show "exec_step demo_xenv Go demo_start demo1 = Some (demo_start\<lparr>exPhase := Ready demo_sent demo_projection demo_budget\<rparr>, demo1)"
    using demo_built demo_evaluated(3) by (simp add: exec_eval step_building_def demo_start_def start_executor_def)
  show "exec_step demo_xenv Go (demo_start\<lparr>exPhase := Ready demo_sent demo_projection demo_budget\<rparr>) demo1 = Some (demo_waiting, demo_sent_db)"
    using demo_evaluated(2,4)
    by (simp add: exec_eval step_ready_def startModelRequest_def next_index_def run_with_id_def demo_start_def start_executor_def
      demo_waiting_def demo_sent_db_def demo_row_sent_def demo1_def demo0_def fresh_db_def demo_run_def started_event_def)
qed

lemma demo_sending: "run_exec demo_xenv [Go, Go] demo_start demo1 = Some (demo_waiting, demo_sent_db)"
proof -
  have "unused_calls demo_start demo1" "unused_calls (demo_start\<lparr>exPhase := Ready demo_sent demo_projection demo_budget\<rparr>) demo1"
    by (simp_all add: unused_calls_def demo_start_def)
  then show ?thesis by (simp add: demo_sending_steps)
qed

definition demo_fragment :: tool_call where
  "demo_fragment = demo_call\<lparr>arguments := []\<rparr>"

lemma demo_read: "read_stream [] [] None demo_stream = (''ok'', [(0, demo_fragment)], None, None)"
  by code_simp

lemma demo_answered_calls: "assembledToolCalls [(0, demo_fragment)] = Inr [demo_call]"
  by code_simp

lemma demo_running:
  "\<exists>e d. run_exec demo_xenv [Go, exec_input.Answered demo_stream, Go, Go, Go, Go] demo_waiting demo_sent_db = Some (e, d) \<and>
     exConv e = ''c'' \<and> exPhase e = Running demo_call [] \<and> exEmits e = [] \<and> active d ''c'' ''0'' \<and> missing_calls d ''0'' ''c'' = [demo_call]"
  by (simp add: exec_eval demo_waiting_def demo_sent_db_def step_waiting_def demo_answered_calls demo_read Observe_def
    emit_def step_answering_def step_batch_def appendMessageReceipt_def db_eval demo_defs demo_start_def start_executor_def
    finishModelRequest_def on_requests_def has_result_def assistant_message_def empty_message_def receipt_def
    active_def run_states_def run_state_def missing_calls_def)

end
