(* ===== verification/ExecutorProgress.thy ===== *)
theory ExecutorProgress
  imports ExecutorSystem
begin

text \<open>
  What holds of an executor by itself: what the request it is about to send was built from
  (\<open>phase_ok\<close>), that a failed transaction changes nothing, and that it stops unless the model
  answers (\<open>exec_work\<close> decreases with every other step).
\<close>

section \<open>The request of a phase\<close>

definition request_ok :: "exec_env \<Rightarrow> executor \<Rightarrow> request \<Rightarrow> budget \<Rightarrow> bool" where
  "request_ok env e rq b = (well_batched (reqMessages rq) \<and>
     (\<exists>est. Evaluate (xTables env) est rq (exConfig e) = Inr b) \<and>
     (\<exists>mode. reqTools rq = modelToolsForMode (xListFiles env) (reqTools (exRequest e)) mode))"

definition phase_ok :: "exec_env \<Rightarrow> executor \<Rightarrow> bool" where
  "phase_ok env e = (case exPhase e of
     Ready rq pr b \<Rightarrow> request_ok env e rq b
   | Compacting k rq pr b \<Rightarrow> request_ok env e rq b
   | Summarizing k rq pr b pl n \<Rightarrow> request_ok env e rq b
   | SavingCheckpoint k rq pr b pl s n \<Rightarrow> request_ok env e rq b
   | Waiting rq pr b \<Rightarrow> request_ok env e rq b \<and> \<not> exceeded b
   | _ \<Rightarrow> True)"

lemma request_ok_update [simp]:
  "request_ok env (e\<lparr>exPhase := p\<rparr>) rq b = request_ok env e rq b"
  "request_ok env (e\<lparr>exEmits := es\<rparr>) rq b = request_ok env e rq b"
  "request_ok env (e\<lparr>exIndex := n\<rparr>) rq b = request_ok env e rq b"
  "request_ok env (e\<lparr>exRecoveries := k\<rparr>) rq b = request_ok env e rq b"
  "request_ok env (e\<lparr>exNoCompaction := off\<rparr>) rq b = request_ok env e rq b"
  "request_ok env (e\<lparr>exCheckpoint := cp\<rparr>) rq b = request_ok env e rq b"
  by (simp_all add: request_ok_def)

lemma Build_batched: "Build h = Inr pr \<Longrightarrow> well_batched (prMessages pr)"
  unfolding Build_def by (rule build_with_well_batched[OF length_default_items])

lemma build_request_cases:
  assumes "build_request env e d = Inr (rq, pr, b)"
  obtains mode ntext tasks files where "Build (ApplyCheckpoint (reqMessages (exRequest e)) (exCheckpoint e)) = Inr pr"
    "runModeContext (xJsonb env) (exConv e) (exRun e) d = Inr (mode, ntext)"
    "rq = (exRequest e)\<lparr>reqSystem := reqSystem (exRequest e) @ ntext @ tasks @ files, reqMessages := prMessages pr,
       reqTools := modelToolsForMode (xListFiles env) (reqTools (exRequest e)) mode\<rparr>"
    "Evaluate (xTables env) (exEstimator e) rq (exConfig e) = Inr b"
proof -
  obtain mode ntext where m: "Build (ApplyCheckpoint (reqMessages (exRequest e)) (exCheckpoint e)) = Inr pr"
    "runModeContext (xJsonb env) (exConv e) (exRun e) d = Inr (mode, ntext)"
    using assms by (auto simp: build_request_def Let_def split: sum.splits prod.splits option.splits)
  obtain tasks files where t: "xTaskState env d (exConv e) (exRun e) = Some tasks" "xFileFacts env d (exConv e) (exRun e) = Some files"
    using assms m by (auto simp: build_request_def split: option.splits)
  show ?thesis
    by (rule that[OF m, of tasks files])
      (use assms m t in \<open>simp_all add: build_request_def Let_def split: sum.splits\<close>)
qed

lemma build_request_ok:
  assumes "build_request env e d = Inr (rq, pr, b)"
  shows "request_ok env e rq b"
  using assms
proof (cases rule: build_request_cases)
  case (1 mode ntext tasks files)
  have "reqTools rq = modelToolsForMode (xListFiles env) (reqTools (exRequest e)) mode" "reqMessages rq = prMessages pr"
    using 1(3) by simp_all
  then show ?thesis using Build_batched[OF 1(1)] 1(4) unfolding request_ok_def by metis
qed

lemmas step_defs = step_loading_def step_preparing_def step_checkpoint_def step_turn_def step_ready_def step_partial_def
  step_answering_def step_completing_def step_batch_def step_running_def step_giving_def step_closing_def finish_tool_def

lemmas exec_defs = at_def say_def append_messages_def next_turn_def attempt_def compaction_failed_def give_up_def refused_def

lemma exec_step_phase_ok:
  assumes "exec_step env i e d = Some (e', d')" "phase_ok env e"
  shows "phase_ok env e'"
proof (cases "exEmits e")
  case (Cons kp es)
  then have "e' = e\<lparr>exEmits := es\<rparr>"
    using assms(1) by (cases kp) (auto simp: exec_step_def split: if_split_asm)
  then show ?thesis using assms(2) by (cases "exPhase e") (auto simp: phase_ok_def)
next
  case Nil
  note st = assms(1)[unfolded exec_step_def Nil list.case]
  show ?thesis
  proof (cases "exPhase e")
    case (Building n)
    with st show ?thesis
      by (auto simp: step_building_def at_def phase_ok_def split: if_split_asm sum.splits dest!: build_request_ok)
  next
    case (Ready rq pr b)
    with st assms(2) show ?thesis
      by (auto simp: step_ready_def exec_defs phase_ok_def split: if_split_asm sum.splits exec_input.splits)
  next
    case (Compacting k rq pr b)
    with st assms(2) show ?thesis
      by (auto simp: step_compacting_def exec_defs phase_ok_def split: if_split_asm sum.splits continuation.splits)
  next
    case (Summarizing k rq pr b pl n)
    with st assms(2) show ?thesis
      by (auto simp: step_summarizing_def exec_defs Let_def phase_ok_def split: exec_input.splits sum.splits continuation.splits)
  next
    case (SavingCheckpoint k rq pr b pl s n)
    with st assms(2) show ?thesis
      by (auto simp: step_saving_def exec_defs Let_def phase_ok_def split: if_split_asm sum.splits continuation.splits)
  next
    case (Waiting rq pr b)
    with st assms(2) show ?thesis
      by (auto simp: step_waiting_def exec_defs Let_def phase_ok_def split: exec_input.splits prod.splits option.splits sum.splits if_split_asm)
  qed (use st in \<open>auto simp: step_defs exec_defs Let_def phase_ok_def split: exec_input.splits sum.splits if_split_asm list.splits option.splits\<close>)
qed

section \<open>Failing transactions\<close>

definition gives_up :: "exec_phase \<Rightarrow> bool" where
  "gives_up p = (case p of Giving f u \<Rightarrow> True | Closing f u \<Rightarrow> True | Stopped \<Rightarrow> True | _ \<Rightarrow> False)"

lemma fault_lost:
  assumes "exec_step env Fault e d = Some (e', d')"
  shows "d' = d \<and> (exEmits e \<noteq> [] \<and> e' = e\<lparr>exEmits := tl (exEmits e)\<rparr> \<or> gives_up (exPhase e') \<or> exNoCompaction e')"
proof (cases "exEmits e")
  case (Cons kp es)
  then show ?thesis using assms by (cases kp) (auto simp: exec_step_def)
next
  case Nil
  note st = assms[unfolded exec_step_def Nil list.case]
  show ?thesis
  proof (cases "exPhase e")
    case (Building n)
    with st show ?thesis by (auto simp: step_building_def at_def gives_up_def)
  next
    case (Compacting k rq pr b)
    with st show ?thesis by (auto simp: step_compacting_def exec_defs split: sum.splits)
  next
    case (Summarizing k rq pr b pl n)
    with st show ?thesis by (auto simp: step_summarizing_def exec_defs)
  next
    case (SavingCheckpoint k rq pr b pl s n)
    with st show ?thesis by (auto simp: step_saving_def exec_defs)
  next
    case (Waiting rq pr b)
    with st show ?thesis by (auto simp: step_waiting_def exec_defs gives_up_def)
  qed (use st in \<open>auto simp: step_defs exec_defs gives_up_def split: if_split_asm\<close>)
qed

section \<open>Termination\<close>

text \<open>The steps that are not the executor's own doing: the model answers, or a user resumes a run.\<close>

definition awaited :: "exec_phase \<Rightarrow> exec_input \<Rightarrow> exec_phase \<Rightarrow> bool" where
  "awaited p i q = ((case i of Delta s \<Rightarrow> True | _ \<Rightarrow> False) \<or> (case q of Answering rq b tx ks us \<Rightarrow> True | _ \<Rightarrow> False) \<or>
     (p = Completing \<and> q = Turn))"

text \<open>A bound of the phases up to the next answer; two compactions per turn, one recovery.\<close>

fun building_work :: "nat \<Rightarrow> nat" where
  "building_work n = 20 + 4 * (2 - n)"

fun phase_work :: "exec_phase \<Rightarrow> nat" where
  "phase_work Loading = 33"
| "phase_work (Preparing h) = 32"
| "phase_work LoadingCheckpoint = 31"
| "phase_work Turn = 30"
| "phase_work (Building n) = building_work n"
| "phase_work (Ready rq pr b) = 10"
| "phase_work (Compacting (Attempt n) rq pr b) = building_work (n + 1) + 3"
| "phase_work (Summarizing (Attempt n) rq pr b pl k) = building_work (n + 1) + 2"
| "phase_work (SavingCheckpoint (Attempt n) rq pr b pl s k) = building_work (n + 1) + 1"
| "phase_work (Compacting (Retry x) rq pr b) = 33"
| "phase_work (Summarizing (Retry x) rq pr b pl k) = 32"
| "phase_work (SavingCheckpoint (Retry x) rq pr b pl s k) = 31"
| "phase_work (Waiting rq pr b) = 9"
| "phase_work (Partial tx cs f u) = 5"
| "phase_work (Answering rq b tx ks us) = 32 + 3 * length ks"
| "phase_work Completing = 5"
| "phase_work (Batch ks) = 31 + 3 * length ks"
| "phase_work (Running k ks) = 33 + 3 * length ks"
| "phase_work (Giving f u) = (if u then 2 else 3)"
| "phase_work (Closing f u) = 1"
| "phase_work Stopped = 0"

definition exec_work :: "executor \<Rightarrow> nat" where
  "exec_work e = 2 * (phase_work (exPhase e) + (if exRecoveries e < 1 then 40 else 0)) + length (exEmits e)"

lemma at_same: "exPhase e = p \<Longrightarrow> at p e = e"
  by (cases e) (simp add: at_def)

lemma give_up_work: "exPhase e = Waiting rq pr b \<Longrightarrow> exEmits e = [] \<Longrightarrow> exec_work (give_up tx cs f u e) < exec_work e"
  by (simp add: give_up_def at_def exec_work_def)

lemma refused_work: "exPhase e = Waiting rq pr b \<Longrightarrow> exEmits e = [] \<Longrightarrow> exec_work (refused x tx cs rq' pr' b' e) < exec_work e"
  by (simp add: refused_def give_up_work recoverable_def) (simp add: at_def exec_work_def)

lemma waiting_work:
  assumes "step_waiting env i rq pr b e d = Some (e', d')" "exPhase e = Waiting rq pr b" "exEmits e = []"
    "\<not> awaited (exPhase e) i (exPhase e')"
  shows "exec_work e' < exec_work e"
proof -
  note w = give_up_work[OF assms(2,3)] refused_work[OF assms(2,3)]
  have g: "exec_work (at (Giving f u) e) < exec_work e" for f u using assms(2,3) by (simp add: at_def exec_work_def)
  note st = assms(1)[unfolded step_waiting_def Let_def]
  show ?thesis
  proof (cases i)
    case (Answered evs)
    obtain tx cs us err where r: "read_stream [] [] None evs = (tx, cs, us, err)" by (cases "read_stream [] [] None evs")
    note st = st[unfolded Answered exec_input.case r prod.case]
    show ?thesis
    proof (cases err)
      case None
      note st = st[unfolded None option.case]
      show ?thesis
      proof (cases "assembledToolCalls cs")
        case (Inl x)
        with st w show ?thesis by auto
      next
        case (Inr ks)
        have "e' = at (Giving EmptyAnswer False) e"
        proof (rule ccontr)
          assume "e' \<noteq> at (Giving EmptyAnswer False) e"
          then have "exPhase e' = Answering rq b tx ks us" using st Inr by (auto simp: at_def split: if_split_asm)
          then show False using assms(4) by (simp add: awaited_def)
        qed
        then show ?thesis using g by simp
      qed
    qed (use st w in auto)
  next
    case (Interrupted u evs)
    with st w show ?thesis by (auto split: prod.splits)
  next
    case (Delta tx)
    then show ?thesis using assms(4) by (simp add: awaited_def)
  qed (use st w g in auto)
qed

lemma exec_step_work:
  assumes "exec_step env i e d = Some (e', d')" "\<not> awaited (exPhase e) i (exPhase e')" "e' \<noteq> e"
  shows "exec_work e' < exec_work e"
proof (cases "exEmits e")
  case (Cons kp es)
  then show ?thesis using assms(1) by (cases kp) (auto simp: exec_step_def exec_work_def split: if_split_asm)
next
  case Nil
  note st = assms(1)[unfolded exec_step_def Nil list.case]
  show ?thesis
  proof (cases "exPhase e")
    case (Building n)
    with st Nil show ?thesis by (auto simp: step_building_def at_def exec_work_def split: if_split_asm sum.splits)
  next
    case (Compacting k rq pr b)
    with st Nil show ?thesis
      by (cases k) (auto simp: step_compacting_def exec_defs exec_work_def split: if_split_asm sum.splits)
  next
    case (Summarizing k rq pr b pl n)
    with st Nil show ?thesis
      by (cases k) (auto simp: step_summarizing_def exec_defs exec_work_def Let_def split: exec_input.splits sum.splits)
  next
    case (SavingCheckpoint k rq pr b pl s n)
    with st Nil show ?thesis
      by (cases k) (auto simp: step_saving_def exec_defs exec_work_def Let_def split: if_split_asm sum.splits)
  next
    case (Waiting rq pr b)
    from st have "step_waiting env i rq pr b e d = Some (e', d')" by (simp add: Waiting)
    then show ?thesis by (rule waiting_work[OF _ Waiting Nil assms(2)])
  next
    case (Giving f u)
    have d: "exec_work (at (Closing f v) e) < exec_work e" for v using Giving by (simp add: at_def exec_work_def)
    show ?thesis
    proof (cases i)
      case (CtxDone v)
      then have e': "e' = at (Giving f (u \<or> v)) e" using st Giving by (simp add: step_giving_def)
      have "\<not> u \<and> v" using assms(3) at_same[OF Giving] e' by (cases u; cases v) simp_all
      then show ?thesis using e' Giving by (simp add: at_def exec_work_def)
    qed (use st Giving d in \<open>auto simp: step_giving_def\<close>)
  next
    case (Answering rq b tx ks us)
    with st Nil show ?thesis
      by (auto simp: step_answering_def exec_defs exec_work_def split: if_split_asm sum.splits)
  qed (use st Nil assms(2) in \<open>auto simp: step_defs exec_defs exec_work_def Let_def awaited_def split: exec_input.splits sum.splits if_split_asm list.splits option.splits\<close>)
qed

text \<open>A run of an executor in which it is waited for nobody.\<close>

definition own_step :: "exec_env \<Rightarrow> executor \<times> db \<Rightarrow> exec_input \<Rightarrow> executor \<times> db \<Rightarrow> bool" where
  "own_step env s i s' = (exec_step env i (fst s) (snd s) = Some s' \<and> \<not> awaited (exPhase (fst s)) i (exPhase (fst s')) \<and>
     fst s' \<noteq> fst s)"

lemma own_steps_bounded: "path (own_step env) s is s' \<Longrightarrow> length is + exec_work (fst s') \<le> exec_work (fst s)"
proof (induction rule: path.induct)
  case (path_cons s i s1 "is" s2)
  have "exec_work (fst s1) < exec_work (fst s)"
    using path_cons(1) exec_step_work[of env i "fst s" "snd s" "fst s1" "snd s1"] by (simp add: own_step_def)
  with path_cons(3) show ?case by simp
qed simp

end
