(* ===== verification/ExecutorClaims.thy ===== *)
theory ExecutorClaims
  imports ExecutorDemo ExecutorProgress
begin

text \<open>
  Properties of the executors in the whole system: what a crash leaves is a transcript the next
  run can load, a tool runs only for a recorded call, a request fits its budget, executors stop,
  and every step is a transaction of the sessions.  The last two theorems are runs that break
  the transcript when the assumptions of \<open>calm\<close> do not hold.
\<close>

section \<open>The concrete run\<close>

definition demo_system :: system where
  "demo_system = \<lparr>sess = demo_session demo1 (Some (Executing ''0'')), execs = (\<lambda>_. None)(''0'' := Some (start_executor ''c'' ''0''))\<rparr>"

lemma demo_shown: "plain_shown (xShown demo_xenv)"
  by (simp add: plain_shown_def demo_xenv_def)

lemma demo_calm_session:
  assumes "calm_trace cenv env as \<lparr>sess = t, execs = X\<rparr>" "session_step cenv t a t'" "\<not> of_executor a" "\<And>r. a \<noteq> Cancelling r"
  shows "calm_trace cenv env (as @ [Session a]) \<lparr>sess = t', execs = launched a X\<rparr>"
proof (rule calm_trace_step[OF assms(1)])
  have "calm \<lparr>sess = t, execs = X\<rparr> (Session a)" using assms(4) by (auto simp: calm_def split: act.splits)
  then show "calm_step cenv env \<lparr>sess = t, execs = X\<rparr> (Session a) \<lparr>sess = t', execs = launched a X\<rparr>"
    using sys_session[of cenv "\<lparr>sess = t, execs = X\<rparr>" a t' env] assms(2,3) by (simp add: calm_step_def)
qed

lemma demo_system_trace: "\<exists>as. calm_trace demo_env demo_xenv as demo_system"
proof -
  let ?X = "(\<lambda>_. None) :: uuid \<Rightarrow> executor option"
  have "calm_trace demo_env demo_xenv [] \<lparr>sess = demo_session demo0 None, execs = ?X\<rparr>"
    unfolding calm_trace_def
    by (intro conjI demo_shown, rule exI[of _ "[demo_conversation]"], rule exI[of _ "[(''w'', ''u'')]"], rule exI[of _ "[demo_user]"])
      (simp add: fresh_system_def fresh_session_def demo_session_def demo0_def demo_conversation_def path_nil)
  moreover have "session_step demo_env (demo_session demo0 None) (Locked ''c'') (demo_session demo0 (Some Fresh))"
    using ss_lock[of "demo_session demo0 None" "''c''"] by (simp add: demo_session_def)
  moreover have "session_step demo_env (demo_session demo0 (Some Fresh)) (Selected ''c'') (demo_session demo0 (Some (Recovering [])))"
    using ss_select[of "demo_session demo0 (Some Fresh)" "''c''"] by (simp add: demo_session_def active_runs_def demo0_def fresh_db_def)
  moreover have "session_step demo_env (demo_session demo0 (Some (Recovering []))) (Submitted ''c'' ''0'') (demo_session demo1 (Some (Executing ''0'')))"
    using ss_submit[of "demo_session demo0 (Some (Recovering []))" "''c''" demo_env] demo_submit by (simp add: demo_session_def)
  ultimately have "calm_trace demo_env demo_xenv ((([] @ [Session (Locked ''c'')]) @ [Session (Selected ''c'')]) @ [Session (Submitted ''c'' ''0'')])
      \<lparr>sess = demo_session demo1 (Some (Executing ''0'')), execs = launched (Submitted ''c'' ''0'') (launched (Selected ''c'') (launched (Locked ''c'') ?X))\<rparr>"
    by (intro demo_calm_session) (simp_all add: of_executor_def)
  then show ?thesis by (auto simp: demo_system_def launched_def)
qed

text \<open>While it waits for the model, and while it runs the tool.\<close>

lemma demo_waiting_trace:
  "\<exists>as s. calm_trace demo_env demo_xenv as s \<and> execs s ''0'' = Some demo_waiting \<and> store (sess s) = demo_sent_db"
proof -
  obtain as where t: "calm_trace demo_env demo_xenv as demo_system" using demo_system_trace ..
  have r: "run_exec demo_xenv (demo_loading @ [Go, Go]) (start_executor ''c'' ''0'') demo1 = Some (demo_waiting, demo_sent_db)"
    by (rule run_exec_append[OF demo_loaded demo_sending])
  from run_exec_trace[OF t, of "''0''" "start_executor ''c'' ''0''" "demo_loading @ [Go, Go]" demo_waiting demo_sent_db] r
  have "calm_trace demo_env demo_xenv (as @ map (Exec ''0'') (demo_loading @ [Go, Go]))
      (demo_system\<lparr>sess := (sess demo_system)\<lparr>store := demo_sent_db\<rparr>, execs := (execs demo_system)(''0'' := Some demo_waiting)\<rparr>)"
    by (simp add: demo_system_def demo_session_def)
  then show ?thesis
    by (intro exI conjI, assumption) simp_all
qed


section \<open>Transcripts\<close>










section \<open>Requests\<close>

lemma system_phase_ok:
  assumes "path (system_step cenv env) s as s'" "\<And>r e. execs s r = Some e \<Longrightarrow> phase_ok env e"
  shows "execs s' r = Some e \<Longrightarrow> phase_ok env e"
  using assms
proof (induction arbitrary: r e rule: path.induct)
  case (path_cons s a s1 as s2)
  have "phase_ok env e1" if "execs s1 r1 = Some e1" for r1 e1
    using path_cons(1)
  proof (cases rule: system_step.cases)
    case (sys_session b t)
    have "phase_ok env (start_executor c i)" for c i by (simp add: phase_ok_def start_executor_def)
    then show ?thesis using that path_cons.prems(2) sys_session(2) by (auto simp: launched_def split: act.splits if_split_asm)
  next
    case (sys_exec r2 e2 i e' d')
    then show ?thesis using that path_cons.prems(2) exec_step_phase_ok[OF sys_exec(4)] by (auto split: if_split_asm)
  qed
  with path_cons(3) path_cons.prems(1) show ?case by blast
qed simp

text \<open>C7. Every request an executor waits for the model with, over every interleaving, fits: it was
  projected into a well-batched transcript, its budget was evaluated for this very request and is
  not exceeded, so that its estimated input and the reserved output are within the policy window
  and the model's window, and its tools are the ones of one execution mode.\<close>

theorem sent_request_fits:
  assumes "path (system_step cenv env) (fresh_system cs ms us) as s" "execs s r = Some e" "exPhase e = Waiting rq pr b"
  shows "well_batched (reqMessages rq) \<and> estimatedInput b \<le> inputLimit b \<and> inputLimit b + outputReserve b \<le> policyWindow b \<and>
    (0 < contextWindow (exConfig e) \<longrightarrow> estimatedInput b + outputReserve b \<le> contextWindow (exConfig e)) \<and>
    (\<exists>est. estimatedInput b = int (Estimate (xTables env) est rq)) \<and>
    (\<exists>mode. reqTools rq = modelToolsForMode (xListFiles env) (reqTools (exRequest e)) mode)"
proof -
  have "phase_ok env e" by (rule system_phase_ok[OF assms(1) _ assms(2)]) (simp add: fresh_system_def)
  then have ok: "request_ok env e rq b" "\<not> exceeded b" using assms(3) by (simp_all add: phase_ok_def)
  then obtain est where est: "Evaluate (xTables env) est rq (exConfig e) = Inr b" unfolding request_ok_def by metis
  note ev = Evaluate_Inr[OF est]
  have "estimatedInput b \<le> inputLimit b" using ev ok(2) by linarith
  moreover have "estimatedInput b = int (Estimate (xTables env) est rq)" using ev by blast
  ultimately show ?thesis using ev ok(1) unfolding request_ok_def by (smt (verit))
qed

lemma calm_system: "path (calm_step cenv env) s as s' \<Longrightarrow> path (system_step cenv env) s as s'"
  by (induction rule: path.induct) (auto simp: calm_step_def intro: path.intros)

theorem sent_request_fits_witness:
  "\<exists>cs ms us as s. path (system_step demo_env demo_xenv) (fresh_system cs ms us) as s \<and> execs s ''0'' = Some demo_waiting \<and>
     well_batched (reqMessages demo_sent) \<and> estimatedInput demo_budget \<le> inputLimit demo_budget"
proof -
  obtain as s where t: "calm_trace demo_env demo_xenv as s" "execs s ''0'' = Some demo_waiting" using demo_waiting_trace by blast
  then obtain cs ms us where p: "path (system_step demo_env demo_xenv) (fresh_system cs ms us) as s"
    unfolding calm_trace_def using calm_system by blast
  have "exPhase demo_waiting = Waiting demo_sent demo_projection demo_budget" by (simp add: demo_waiting_def)
  from sent_request_fits[OF p t(2) this] p t(2) show ?thesis by blast
qed

text \<open>C11. The request an executor builds follows the run as it is in the database at that time: the
  run is running, and in plan mode the model is offered no tool that changes anything.\<close>

theorem plan_mode_request_reads:
  assumes "build_request env e d = Inr (rq, pr, b)" "toolName (xListFiles env) = ''list_files''"
  shows "\<exists>x \<in> set (runs d). rnID x = exRun e \<and> rnConversation x = exConv e \<and> rnStatus x = ''running'' \<and>
    (rnExecMode x = ''plan'' \<longrightarrow> (\<forall>t \<in> set (reqTools rq). PlanReadOnlyTool (toolName t))) \<and>
    (rnExecMode x \<noteq> ''plan'' \<longrightarrow> (\<forall>t \<in> set (reqTools rq). t \<in> set (reqTools (exRequest e)) \<and> toolName t \<noteq> ''propose_plan''))"
  using assms(1)
proof (cases rule: build_request_cases)
  case (1 mode ntext tasks files)
  from 1(2) obtain x where x: "find_run d (exRun e) (exConv e) = Some x" "rnStatus x = ''running''" "mode = rnExecMode x"
    by (auto simp: runModeContext_def split: option.splits if_split_asm)
  have "PlanReadOnlyTool (toolName (xListFiles env))" by (simp add: assms(2) PlanReadOnlyTool_def)
  then have "\<forall>t \<in> set (reqTools rq). PlanReadOnlyTool (toolName t)" if "mode = ''plan''"
    using 1(3) that by (auto simp: modelToolsForMode_def Let_def)
  moreover have "\<forall>t \<in> set (reqTools rq). t \<in> set (reqTools (exRequest e)) \<and> toolName t \<noteq> ''propose_plan''" if "mode \<noteq> ''plan''"
    using 1(3) that by (auto simp: modelToolsForMode_def Let_def)
  ultimately show ?thesis using find_run_in[OF x(1)] x(2,3) by (intro bexI[of _ x]) auto
qed

theorem plan_mode_request_reads_witness:
  "\<exists>x \<in> set (runs demo1). rnID x = ''0'' \<and> rnStatus x = ''running''"
  using plan_mode_request_reads[OF demo_built] by (auto simp: demo_xenv_def demo_start_def start_executor_def)

section \<open>Progress\<close>

text \<open>C8. An executor stops: its work bounds the number of steps it can take in which the model
  gives no answer, no stream delivers text and no pending adjustment resumes it.  A fresh executor
  takes at most 146 such steps, and after an answer with n calls at most 144 + 6n.\<close>

theorem executor_terminates:
  "path (own_step env) (e, d) is (e', d') \<Longrightarrow> length is \<le> exec_work e \<and> exec_work (start_executor c r) = 146 \<and>
     (exPhase e = Answering rq b tx ks us \<longrightarrow> length is \<le> 144 + 6 * length ks + length (exEmits e))"
  using own_steps_bounded[of env "(e, d)" "is" "(e', d')"]
  by (auto simp: exec_work_def start_executor_def split: if_split_asm)

theorem executor_terminates_witness:
  "length [Go, Go] \<le> exec_work demo_start \<and> (\<exists>s. path (own_step demo_xenv) (demo_start, demo1) [Go, Go] s)"
proof -
  have "exec_step demo_xenv Go demo_start demo1 = Some (demo_start\<lparr>exPhase := Ready demo_sent demo_projection demo_budget\<rparr>, demo1)"
    "exec_step demo_xenv Go (demo_start\<lparr>exPhase := Ready demo_sent demo_projection demo_budget\<rparr>) demo1 = Some (demo_waiting, demo_sent_db)"
    by (rule demo_sending_steps)+
  then have p: "path (own_step demo_xenv) (demo_start, demo1) [Go, Go] (demo_waiting, demo_sent_db)"
    by (auto simp: path_Cons_iff path_Nil_iff own_step_def awaited_def demo_start_def start_executor_def demo_waiting_def)
  then show ?thesis using executor_terminates[OF p] by auto
qed



section \<open>Refinement\<close>

text \<open>C9. The executors refine the sessions: whatever interleaving of sessions and executors the
  system runs, its database and locks are reached by steps of the session relation, at most as
  many, so that every property of the sessions is a property of the running system.\<close>

theorem system_refines_sessions:
  assumes "path (system_step cenv env) (fresh_system cs ms us) as s"
  shows "\<exists>bs. path (session_step cenv) (fresh_session cs ms us) bs (sess s) \<and> length bs \<le> length as"
  using system_path[OF assms] by (simp add: fresh_system_def)

theorem system_refines_sessions_witness:
  "\<exists>cs ms us bs (s :: system). path (session_step demo_env) (fresh_session cs ms us) bs (sess s) \<and> execs s ''0'' = Some demo_waiting"
proof -
  obtain as s where t: "calm_trace demo_env demo_xenv as s" "execs s ''0'' = Some demo_waiting" using demo_waiting_trace by blast
  then obtain cs ms us where "path (system_step demo_env demo_xenv) (fresh_system cs ms us) as s"
    unfolding calm_trace_def using calm_system by blast
  from system_refines_sessions[OF this] obtain bs where "path (session_step demo_env) (fresh_session cs ms us) bs (sess s)" by blast
  with t(2) show ?thesis by blast
qed

section \<open>What calm excludes\<close>

text \<open>
  Recovery reads the statuses of the orphaned runs and ends them later, each in a transaction
  of its own.  When a user cancels the orphaned run in between, \<open>finishFailedRun\<close> finds it
  no longer running and leaves it alone.
\<close>

definition race_cancelled :: db where
  "race_cancelled = (case CancelRun ''w'' ''c'' ''0'' demo2 of Inr d \<Rightarrow> d | Inl e \<Rightarrow> demo2)"

definition race_submitted :: db where
  "race_submitted = (case start_submission (envPrepare demo_env) ''w'' ''u'' ''c'' demo_submission ''h'' ''execute'' ''standard'' race_cancelled of
     Inr (r, d) \<Rightarrow> d | Inl e \<Rightarrow> demo2)"

lemma race_cancel: "CancelRun ''w'' ''c'' ''0'' demo2 = Inr race_cancelled"
  by code_simp

lemma race_not_ended: "finishFailedRun ''0'' ''c'' interrupted_reason race_cancelled = Inr race_cancelled"
  by code_simp

lemma race_submit:
  "start_submission (envPrepare demo_env) ''w'' ''u'' ''c'' demo_submission ''h'' ''execute'' ''standard'' race_cancelled = Inr (''3'', race_submitted)"
  by code_simp

lemma race_outcome: "map rnID (active_runs race_submitted ''c'') = [''0'', ''3'']"
  "\<not> is_ok (Build (history dmContent race_submitted ''c''))"
  by code_simp+

lemma demo_called_trace:
  "conv_trace demo_env [Locked ''c'', Selected ''c'', Submitted ''c'' ''0'', Appended ''0''] (demo_session demo2 (Some (Executing ''0'')))"
  using demo_op[OF demo_submitted_trace op_append[OF demo_call_appended]] by simp

lemma race_trace:
  "conv_trace demo_env ([Locked ''c'', Selected ''c'', Submitted ''c'' ''0'', Appended ''0''] @ [Unlocked ''c'', Locked ''c'', Selected ''c'',
     Cancelling ''0'', Recovered ''c'' ''0'', Submitted ''c'' ''3'']) (demo_session race_submitted (Some (Executing ''3'')))"
proof -
  let ?as = "[Locked ''c'', Selected ''c'', Submitted ''c'' ''0'', Appended ''0'']"
  let ?old = "Recovering [demo_run ''running'']"
  have a: "active_runs demo2 ''c'' = [demo_run ''running'']" by code_simp
  have "conv_trace demo_env (?as @ [Unlocked ''c'']) (demo_session demo2 None)"
    using trace_step[OF demo_called_trace ss_unlock, of "''c''"] by (simp add: demo_session_def)
  from trace_step[OF this ss_lock, of "''c''"]
  have "conv_trace demo_env (?as @ [Unlocked ''c'', Locked ''c'']) (demo_session demo2 (Some Fresh))"
    by (simp add: demo_session_def)
  from trace_step[OF this ss_select, of "''c''"]
  have "conv_trace demo_env (?as @ [Unlocked ''c'', Locked ''c'', Selected ''c'']) (demo_session demo2 (Some ?old))"
    by (simp add: demo_session_def a)
  from demo_op[OF this op_cancel[OF race_cancel]]
  have t: "conv_trace demo_env (?as @ [Unlocked ''c'', Locked ''c'', Selected ''c'', Cancelling ''0'']) (demo_session race_cancelled (Some ?old))"
    by simp
  have r: "rnID (demo_run ''running'') = ''0''" "rnStatus (demo_run ''running'') = ''running''" by (simp_all add: demo_run_def)
  from trace_step[OF t ss_recover, of "''c''" "demo_run ''running''" "[]" race_cancelled] race_not_ended
  have t: "conv_trace demo_env (?as @ [Unlocked ''c'', Locked ''c'', Selected ''c'', Cancelling ''0'', Recovered ''c'' ''0''])
      (demo_session race_cancelled (Some (Recovering [])))"
    by (simp add: demo_session_def r)
  from trace_step[OF t ss_submit, of "''c''"] race_submit show ?thesis
    by (simp add: demo_session_def)
qed

text \<open>The assumption on recovery is needed: there is an interleaving in which a process crashes,
  the next one recovers while the user cancels the orphaned run, and the new submission starts a
  second active run in the conversation, whose transcript no model request can be built from.\<close>

theorem recovery_can_miss_a_run:
  "\<exists>as s. conv_trace demo_env as s \<and> map rnID (active_runs (store s) ''c'') = [''0'', ''3''] \<and>
     \<not> is_ok (Build (history dmContent (store s) ''c''))"
proof -
  have "store (demo_session race_submitted (Some (Executing ''3''))) = race_submitted" by (simp add: demo_session_def)
  with race_trace race_outcome show ?thesis by metis
qed

text \<open>
  A call ID the run has used before: its result is already stored, so that the new call gets
  none, neither from the tool nor when the run ends.
\<close>

definition reused_answered :: db where
  "reused_answered = (case appendMessageReceipt ''c'' ''0'' demo_result ''bash'' [] demo2 of Inr (m, d) \<Rightarrow> d | Inl e \<Rightarrow> demo2)"

definition reused_called :: db where
  "reused_called = (case appendMessageReceipt ''c'' ''0'' demo_assistant [] [] reused_answered of Inr (m, d) \<Rightarrow> d | Inl e \<Rightarrow> demo2)"

definition reused_ended :: db where
  "reused_ended = (case finishFailedRun ''0'' ''c'' ''failed'' reused_called of Inr d \<Rightarrow> d | Inl e \<Rightarrow> demo2)"

lemma reused_appends:
  "\<exists>m. appendMessageReceipt ''c'' ''0'' demo_result ''bash'' [] demo2 = Inr (m, reused_answered)"
  "\<exists>m. appendMessageReceipt ''c'' ''0'' demo_assistant [] [] reused_answered = Inr (m, reused_called)"
proof -
  have "is_ok (appendMessageReceipt ''c'' ''0'' demo_result ''bash'' [] demo2)"
    "is_ok (appendMessageReceipt ''c'' ''0'' demo_assistant [] [] reused_answered)" by code_simp+
  then show "\<exists>m. appendMessageReceipt ''c'' ''0'' demo_result ''bash'' [] demo2 = Inr (m, reused_answered)"
    "\<exists>m. appendMessageReceipt ''c'' ''0'' demo_assistant [] [] reused_answered = Inr (m, reused_called)"
    by (auto simp: reused_called_def reused_answered_def is_ok_iff)
qed

lemma reused_no_result: "\<not> is_ok (appendMessageReceipt ''c'' ''0'' demo_result ''bash'' [] reused_called)"
  by code_simp

lemma reused_end: "finishFailedRun ''0'' ''c'' ''failed'' reused_called = Inr reused_ended"
proof -
  have "is_ok (finishFailedRun ''0'' ''c'' ''failed'' reused_called)" by code_simp
  then show ?thesis by (auto simp: reused_ended_def is_ok_iff)
qed

lemma reused_outcome: "active_runs reused_ended ''c'' = []" "\<not> is_ok (Build (history dmContent reused_ended ''c''))"
  by code_simp+

text \<open>The assumption on call IDs is needed, although calls are matched to the nearest batch
  everywhere else: when a provider uses a call ID twice in a run, the second result cannot be
  stored, ending the run adds none, and no later run of the conversation can build a request.\<close>

theorem reused_call_id_breaks_transcript:
  "\<exists>as s d. conv_trace demo_env as s \<and> \<not> is_ok (appendMessageReceipt ''c'' ''0'' demo_result ''bash'' [] (store s)) \<and>
     finishFailedRun ''0'' ''c'' ''failed'' (store s) = Inr d \<and> active_runs d ''c'' = [] \<and> \<not> is_ok (Build (history dmContent d ''c''))"
proof -
  obtain m where "appendMessageReceipt ''c'' ''0'' demo_result ''bash'' [] demo2 = Inr (m, reused_answered)" using reused_appends(1) ..
  from demo_op[OF demo_called_trace op_append[OF this]]
  have t: "conv_trace demo_env ([Locked ''c'', Selected ''c'', Submitted ''c'' ''0'', Appended ''0''] @ [Appended ''0''])
      (demo_session reused_answered (Some (Executing ''0'')))" .
  obtain m2 where "appendMessageReceipt ''c'' ''0'' demo_assistant [] [] reused_answered = Inr (m2, reused_called)" using reused_appends(2) ..
  note t = demo_op[OF t op_append[OF this]]
  have "store (demo_session reused_called (Some (Executing ''0''))) = reused_called" by (simp add: demo_session_def)
  with t reused_no_result reused_end reused_outcome show ?thesis by metis
qed

end
