(* ===== verification/GoTime.thy ===== *)
theory GoTime
  imports GoText
begin

text \<open>
  The part of Go's \<open>time\<close> package the program uses.  An instant is its distance from
  1970-01-01T00:00:00Z in nanoseconds; \<open>civil\<close> is the calendar computation of \<open>time.Date\<close>
  in UTC and \<open>rfc3339_nano\<close> the layout \<open>time.RFC3339Nano\<close>, which is injective: the
  program uses it as a key.
\<close>

type_synonym instant = int

definition second :: int where
  "second = 1000000000"

definition microsecond :: int where
  "microsecond = 1000"

text \<open>\<open>Truncate(time.Microsecond)\<close>, and what a \<open>timestamptz\<close> column keeps.\<close>

definition truncate_micro :: "instant \<Rightarrow> instant" where
  "truncate_micro t = t div microsecond * microsecond"

lemma truncate_micro_idem [simp]: "truncate_micro (truncate_micro t) = truncate_micro t"
  by (simp add: truncate_micro_def microsecond_def)

lemma truncate_micro_le: "truncate_micro t \<le> t"
  using div_mult_mod_eq[of t microsecond] by (simp add: truncate_micro_def microsecond_def)

section \<open>The calendar\<close>

definition leap :: "int \<Rightarrow> bool" where
  "leap y = (y mod 4 = 0 \<and> (y mod 100 \<noteq> 0 \<or> y mod 400 = 0))"

definition days_before :: "int \<Rightarrow> int" where
  "days_before m =
     (if m \<le> 1 then 0 else if m = 2 then 31 else if m = 3 then 59 else if m = 4 then 90 else if m = 5 then 120
      else if m = 6 then 151 else if m = 7 then 181 else if m = 8 then 212 else if m = 9 then 243
      else if m = 10 then 273 else if m = 11 then 304 else if m = 12 then 334 else 365)"

text \<open>
  The year and the day of the year, counted from the first day of the year 1: cycles of 400,
  100, 4 and 1 years, the last of each shorter cycle being cut off.
\<close>

definition year_day :: "int \<Rightarrow> int \<times> int" where
  "year_day z =
     (let a = z div 146097; z1 = z mod 146097;
          b = min 3 (z1 div 36524); z2 = z1 - 36524 * b;
          c = z2 div 1461; z3 = z2 mod 1461;
          e = min 3 (z3 div 365)
      in (400 * a + 100 * b + 4 * c + e + 1, z3 - 365 * e))"

definition month_day :: "int \<Rightarrow> int \<Rightarrow> int \<times> int" where
  "month_day y yday =
     (if leap y \<and> yday = 59 then (2, 29)
      else (let d = (if leap y \<and> 59 < yday then yday - 1 else yday);
                m = d div 31 + 1;
                m' = (if days_before (m + 1) \<le> d then m + 1 else m)
            in (m', d - days_before m' + 1)))"

text \<open>The year, month and day of a day counted from 1970-01-01.\<close>

definition civil :: "int \<Rightarrow> int \<times> int \<times> int" where
  "civil days = (let (y, yday) = year_day (days + 719162); (m, d) = month_day y yday in (y, m, d))"

lemma min_div:
  fixes x k :: int
  assumes "0 \<le> x" "x \<le> 4 * k" "0 < k"
  shows "0 \<le> min 3 (x div k)" "min 3 (x div k) \<le> 3" "0 \<le> x - k * min 3 (x div k)" "x - k * min 3 (x div k) \<le> k"
proof -
  have q0: "0 \<le> x div k" using assms(1,3) by (simp add: pos_imp_zdiv_nonneg_iff)
  then show "0 \<le> min 3 (x div k)" "min 3 (x div k) \<le> 3" by simp_all
  have below: "k * (x div k) \<le> x" using assms(3) by (simp add: minus_mod_eq_mult_div[symmetric])
  show "0 \<le> x - k * min 3 (x div k)"
  proof -
    have "k * min 3 (x div k) \<le> k * (x div k)" using assms(3) by (intro mult_left_mono) simp_all
    with below show ?thesis by linarith
  qed
  show "x - k * min 3 (x div k) \<le> k"
  proof (cases "3 \<le> x div k")
    case True
    with assms(2) show ?thesis by (simp add: min_absorb1)
  next
    case False
    then have "x - k * min 3 (x div k) = x mod k" by (simp add: min_absorb2 minus_mult_div_eq_mod)
    also have "\<dots> \<le> k" using assms(3) by (intro less_imp_le pos_mod_bound)
    finally show ?thesis .
  qed
qed

lemma year_day_range:
  assumes "year_day z = (y, t)"
  shows "0 \<le> t \<and> t < 366"
proof -
  define x where "x = (z mod 146097 - 36524 * min 3 (z mod 146097 div 36524)) mod 1461"
  have "0 \<le> x" "x < 1461" by (simp_all add: x_def)
  then have "0 \<le> x - 365 * min 3 (x div 365)" "x - 365 * min 3 (x div 365) \<le> 365" by (intro min_div; simp)+
  moreover have "t = x - 365 * min 3 (x div 365)"
    using assms unfolding year_day_def Let_def x_def[symmetric] by (rule Pair_inject) (rule sym)
  ultimately show ?thesis by linarith
qed

lemma year_day_inj: "year_day z = year_day z' \<Longrightarrow> z = z'"
proof -
  have r: "\<exists>a b c e. z = 146097 * a + 36524 * b + 1461 * c + 365 * e + snd (year_day z) \<and>
      fst (year_day z) = 400 * a + 100 * b + 4 * c + e + 1 \<and> 0 \<le> b \<and> b \<le> 3 \<and> 0 \<le> c \<and> c \<le> 24 \<and> 0 \<le> e \<and> e \<le> 3" for z
  proof -
    define z1 where "z1 = z mod 146097"
    define b where "b = min 3 (z1 div 36524)"
    define z2 where "z2 = z1 - 36524 * b"
    define z3 where "z3 = z2 mod 1461"
    define e where "e = min 3 (z3 div 365)"
    have "0 \<le> z1" "z1 \<le> 4 * 36524" using pos_mod_bound[of 146097 z] by (simp_all add: z1_def)
    then have b: "0 \<le> b" "b \<le> 3" "0 \<le> z2" "z2 \<le> 36524" unfolding b_def z2_def by (intro min_div; simp)+
    have "0 \<le> z3" "z3 \<le> 4 * 365" using pos_mod_bound[of 1461 z2] by (simp_all add: z3_def)
    then have e: "0 \<le> e" "e \<le> 3" unfolding e_def by (intro min_div; simp)+
    have "z2 div 1461 \<le> 36524 div 1461" using b(4) by (rule zdiv_mono1) simp
    then have c: "0 \<le> z2 div 1461" "z2 div 1461 \<le> 24" using b(3) by (simp_all add: pos_imp_zdiv_nonneg_iff)
    have yd: "year_day z = (400 * (z div 146097) + 100 * b + 4 * (z2 div 1461) + e + 1, z3 - 365 * e)"
      unfolding year_day_def Let_def z1_def[symmetric] b_def[symmetric] z2_def[symmetric] z3_def[symmetric] e_def[symmetric] ..
    have "z = 146097 * (z div 146097) + z1" "z2 = 1461 * (z2 div 1461) + z3" by (simp_all add: z1_def z3_def)
    moreover have "z1 = 36524 * b + z2" by (simp add: z2_def)
    ultimately have "z = 146097 * (z div 146097) + 36524 * b + 1461 * (z2 div 1461) + 365 * e + (z3 - 365 * e)" by linarith
    then show ?thesis using b c e unfolding yd fst_conv snd_conv
      by blast
  qed
  assume "year_day z = year_day z'"
  then have same: "fst (year_day z) = fst (year_day z')" "snd (year_day z) = snd (year_day z')" by simp_all
  obtain a b c e where 1: "z = 146097 * a + 36524 * b + 1461 * c + 365 * e + snd (year_day z)"
      "fst (year_day z) = 400 * a + 100 * b + 4 * c + e + 1" "0 \<le> b" "b \<le> 3" "0 \<le> c" "c \<le> 24" "0 \<le> e" "e \<le> 3"
    using r[of z] by blast
  obtain a' b' c' e' where 2: "z' = 146097 * a' + 36524 * b' + 1461 * c' + 365 * e' + snd (year_day z')"
      "fst (year_day z') = 400 * a' + 100 * b' + 4 * c' + e' + 1" "0 \<le> b'" "b' \<le> 3" "0 \<le> c'" "c' \<le> 24" "0 \<le> e'" "e' \<le> 3"
    using r[of z'] by blast
  have y: "400 * a + 100 * b + 4 * c + e = 400 * a' + 100 * b' + 4 * c' + e'" using 1(2) 2(2) same(1) by linarith
  note n = 1(3-8) 2(3-8)
  have "a = a'" using y n by linarith
  moreover have b: "b = b'" using y n calculation by linarith
  moreover have "c = c'" using y n calculation b by linarith
  ultimately show "z = z'" using y 1(1) 2(1) same(2) by linarith
qed

lemma month_day_29:
  assumes "month_day y t = (2, 29)" "0 \<le> t"
  shows "leap y \<and> t = 59"
proof (rule ccontr)
  assume n: "\<not> (leap y \<and> t = 59)"
  define d where "d = (if leap y \<and> 59 < t then t - 1 else t)"
  define m where "m = d div 31 + 1"
  define m' where "m' = (if days_before (m + 1) \<le> d then m + 1 else m)"
  have e: "month_day y t = (m', d - days_before m' + 1)" 
    using n unfolding month_day_def Let_def d_def[symmetric] m_def[symmetric] m'_def[symmetric] by (simp only: if_False)
  then have m': "m' = 2" and d: "d = 59" using assms(1) by (auto simp: days_before_def)
  have "m = 2" using d by (simp add: m_def)
  then have "m' = 3" using d by (simp add: m'_def days_before_def)
  with m' show False by simp
qed

lemma month_day_inj:
  assumes "month_day y t = month_day y t'" "0 \<le> t" "0 \<le> t'"
  shows "t = t'"
proof (cases "leap y \<and> (t = 59 \<or> t' = 59)")
  case True
  then have "month_day y t = (2, 29) \<or> month_day y t' = (2, 29)" by (auto simp: month_day_def)
  then show ?thesis using assms month_day_29[of y t] month_day_29[of y t'] by auto
next
  case False
  define f where "f t = (if leap y \<and> 59 < t then t - 1 else t)" for t :: int
  have "\<exists>m. month_day y t = (m, f t - days_before m + 1)" if "\<not> (leap y \<and> t = 59)" for t
    using that by (auto simp: month_day_def Let_def f_def)
  then have "f t = f t'" using assms(1) False by (metis add_right_cancel diff_add_cancel Pair_inject)
  then show ?thesis using False by (auto simp: f_def split: if_split_asm)
qed

lemma civil_inj: "civil z = civil z' \<Longrightarrow> z = z'"
proof -
  assume e: "civil z = civil z'"
  obtain y t y' t' where a: "year_day (z + 719162) = (y, t)" "year_day (z' + 719162) = (y', t')" by fastforce
  with e have "y = y'" "month_day y t = month_day y' t'" by (auto simp: civil_def split: prod.splits)
  with a month_day_inj[of y t t'] year_day_range have "t = t'" by blast
  with a \<open>y = y'\<close> have "z + 719162 = z' + 719162" by (intro year_day_inj) simp
  then show "z = z'" by simp
qed

section \<open>RFC 3339\<close>

definition pad_zero :: "nat \<Rightarrow> nat \<Rightarrow> string" where
  "pad_zero w n = replicate (w - length (show_nat n)) (CHR ''0'') @ show_nat n"

definition year_text :: "int \<Rightarrow> string" where
  "year_text y = (if y < 0 then CHR ''-'' # pad_zero 4 (nat (- y)) else pad_zero 4 (nat y))"

definition drop_zeros :: "string \<Rightarrow> string" where
  "drop_zeros s = rev (dropWhile (\<lambda>c. c = CHR ''0'') (rev s))"

definition fraction_text :: "int \<Rightarrow> string" where
  "fraction_text n = (if n = 0 then [] else CHR ''.'' # drop_zeros (pad_zero 9 (nat n)))"

definition two :: "int \<Rightarrow> string" where
  "two n = pad_zero 2 (nat n)"

definition rfc3339_nano :: "instant \<Rightarrow> string" where
  "rfc3339_nano t =
     (let secs = t div second; day = secs div 86400; s = secs mod 86400; (y, m, d) = civil day
      in year_text y @ ''-'' @ two m @ ''-'' @ two d @ ''T'' @ two (s div 3600) @ '':'' @ two (s div 60 mod 60) @ '':'' @
         two (s mod 60) @ fraction_text (t mod second) @ ''Z'')"

text \<open>\<open>time.Time.MarshalJSON\<close> fails outside the years 0 to 9999.\<close>

definition json_year :: "instant \<Rightarrow> bool" where
  "json_year t = (let (y, m, d) = civil (t div second div 86400) in 0 \<le> y \<and> y \<le> 9999)"

section \<open>Injectivity of the layout\<close>

lemma nat_of_digits_snoc: "nat_of_digits (s @ [c]) = 10 * nat_of_digits s + (byte c - 48)"
  by (simp add: nat_of_digits_def)

lemma nat_of_digits_show [simp]: "nat_of_digits (show_nat n) = n"
proof (induction n rule: show_nat.induct)
  case (1 n)
  show ?case
  proof (cases "n < 10")
    case True
    then show ?thesis by (simp add: show_nat.simps[of n] nat_of_digits_def)
  next
    case False
    with 1 show ?thesis by (simp add: show_nat.simps[of n] nat_of_digits_snoc)
  qed
qed

lemma nat_of_digits_zeros: "nat_of_digits (replicate k (CHR ''0'') @ s) = nat_of_digits s"
  by (induction k) (simp_all add: nat_of_digits_def)

lemma pad_zero_value [simp]: "nat_of_digits (pad_zero w n) = n"
  by (simp add: pad_zero_def nat_of_digits_zeros)

lemma pad_zero_inj: "pad_zero w n = pad_zero w m \<Longrightarrow> n = m"
  by (metis pad_zero_value)

lemma show_nat_digits: "list_all is_digit (show_nat n)"
proof (induction n rule: show_nat.induct)
  case (1 n)
  then show ?case by (cases "n < 10") (simp_all add: show_nat.simps[of n] is_digit_def)
qed

lemma pad_zero_digits: "list_all is_digit (pad_zero w n)"
  by (auto simp: pad_zero_def show_nat_digits list_all_iff is_digit_def dest: in_set_replicate[THEN iffD1])
    (use show_nat_digits in \<open>auto simp: list_all_iff is_digit_def\<close>)

lemma length_show_nat: "n < 10 ^ w \<Longrightarrow> 0 < w \<Longrightarrow> length (show_nat n) \<le> w"
proof (induction n arbitrary: w rule: show_nat.induct)
  case (1 n)
  show ?case
  proof (cases "n < 10")
    case True
    with 1(3) show ?thesis by (simp add: show_nat.simps[of n])
  next
    case False
    then obtain v where w: "w = Suc v" "0 < v" using 1(2,3) by (cases w; cases "w - 1") auto
    with 1(2) have "n div 10 < 10 ^ v" by simp
    from 1(1)[OF False this w(2)] False w show ?thesis by (simp add: show_nat.simps[of n])
  qed
qed

lemma length_pad_zero: "n < 10 ^ w \<Longrightarrow> 0 < w \<Longrightarrow> length (pad_zero w n) = w"
  using length_show_nat[of n w] by (simp add: pad_zero_def)

lemma two_inj: "two a @ r = two b @ s \<Longrightarrow> 0 \<le> a \<Longrightarrow> a < 100 \<Longrightarrow> 0 \<le> b \<Longrightarrow> b < 100 \<Longrightarrow> a = b \<and> r = s"
  using length_pad_zero[of "nat a" 2] length_pad_zero[of "nat b" 2] pad_zero_inj[of 2 "nat a" "nat b"]
  by (simp add: two_def)

lemma digits_cut:
  assumes "list_all is_digit u" "list_all is_digit v" "u @ CHR ''-'' # r = v @ CHR ''-'' # s"
  shows "u = v \<and> r = s"
proof -
  have n: "\<not> is_digit (CHR ''-'')" by (simp add: is_digit_def)
  have t: "takeWhile is_digit (u @ CHR ''-'' # r) = u" if "list_all is_digit u" for u r
    using that n by (induction u) auto
  have "u = v" using t[OF assms(1), of r] t[OF assms(2), of s] assms(3) by simp
  with assms(3) show ?thesis by simp
qed

lemma pad_zero_head: "0 < w \<Longrightarrow> \<exists>c u. pad_zero w n = c # u \<and> is_digit c"
proof -
  assume "0 < w"
  have "pad_zero w n \<noteq> []" by (subst pad_zero_def, subst show_nat.simps) auto
  then obtain c u where "pad_zero w n = c # u" by (cases "pad_zero w n") auto
  with pad_zero_digits[of w n] show ?thesis by simp
qed

lemma year_text_inj: "year_text y @ CHR ''-'' # r = year_text z @ CHR ''-'' # s \<Longrightarrow> y = z \<and> r = s"
proof -
  have n: "\<not> is_digit (CHR ''-'')" by (simp add: is_digit_def)
  assume e: "year_text y @ CHR ''-'' # r = year_text z @ CHR ''-'' # s"
  obtain c u c' u' where h: "pad_zero 4 (nat y) = c # u" "is_digit c" "pad_zero 4 (nat z) = c' # u'" "is_digit c'"
    using pad_zero_head[of 4 "nat y"] pad_zero_head[of 4 "nat z"] by auto
  have "(y < 0) = (z < 0)" using e h n by (auto simp: year_text_def split: if_split_asm)
  then show ?thesis using e digits_cut[OF pad_zero_digits pad_zero_digits, of 4 "nat y" r 4 "nat z" s]
      digits_cut[OF pad_zero_digits pad_zero_digits, of 4 "nat (- y)" r 4 "nat (- z)" s] pad_zero_inj[of 4 "nat y" "nat z"]
      pad_zero_inj[of 4 "nat (- y)" "nat (- z)"]
    by (auto simp: year_text_def split: if_split_asm)
qed

lemma drop_zeros_back: "drop_zeros s @ replicate (length s - length (drop_zeros s)) (CHR ''0'') = s"
proof -
  let ?P = "\<lambda>c. c = CHR ''0''"
  have "takeWhile ?P (rev s) = replicate (length (takeWhile ?P (rev s))) (CHR ''0'')"
    by (rule replicate_eqI[symmetric, THEN sym]) (auto dest: set_takeWhileD)
  moreover have "length s - length (drop_zeros s) = length (takeWhile ?P (rev s))"
    using arg_cong[OF takeWhile_dropWhile_id[of ?P "rev s"], of length] by (simp only: drop_zeros_def length_append length_rev)
  ultimately have "rev (replicate (length s - length (drop_zeros s)) (CHR ''0'')) = rev (takeWhile ?P (rev s))" by simp
  then show ?thesis unfolding drop_zeros_def
    by (metis rev_append rev_rev_ident rev_replicate takeWhile_dropWhile_id)
qed

lemma fraction_text_inj:
  assumes "fraction_text a @ ''Z'' = fraction_text b @ ''Z''" "0 \<le> a" "a < 1000000000" "0 \<le> b" "b < 1000000000"
  shows "a = b"
proof (cases "a = 0 \<or> b = 0")
  case True
  with assms(1) show ?thesis by (auto simp: fraction_text_def split: if_split_asm)
next
  case False
  with assms(1) have e: "drop_zeros (pad_zero 9 (nat a)) = drop_zeros (pad_zero 9 (nat b))" by (simp add: fraction_text_def)
  have "length (pad_zero 9 (nat a)) = 9" "length (pad_zero 9 (nat b)) = 9" using assms(2-5) by (simp_all add: length_pad_zero)
  with e have "pad_zero 9 (nat a) = pad_zero 9 (nat b)" by (metis drop_zeros_back)
  then have "nat a = nat b" by (rule pad_zero_inj)
  with assms(2,4) show ?thesis by simp
qed

lemma month_day_range:
  assumes "month_day y t = (m, d)" "0 \<le> t" "t < 366"
  shows "0 \<le> m \<and> m < 100 \<and> 0 \<le> d \<and> d < 100"
proof (cases "leap y \<and> t = 59")
  case True
  with assms(1) show ?thesis by (simp add: month_day_def)
next
  case False
  define x where "x = (if leap y \<and> 59 < t then t - 1 else t)"
  define k where "k = x div 31 + 1"
  define k' where "k' = (if days_before (k + 1) \<le> x then k + 1 else k)"
  have e: "m = k'" "d = x - days_before k' + 1"
    using False assms(1) unfolding month_day_def Let_def x_def[symmetric] k_def[symmetric] k'_def[symmetric]
    by (simp_all only: if_False Pair_inject) auto
  have x: "0 \<le> x" "x < 366" using assms(2,3) by (auto simp: x_def)
  then have k: "1 \<le> k" "k \<le> 12" by (auto simp: k_def pos_imp_zdiv_nonneg_iff)
  have xk: "31 * (k - 1) \<le> x" "x < 31 * k" using x by (simp_all add: k_def) 
  have below: "days_before j \<le> 31 * (j - 1)" and above: "28 * (j - 1) \<le> days_before j" if "1 \<le> j" "j \<le> 13" for j
  proof -
    have "j \<in> {1, 2, 3, 4, 5, 6, 7, 8, 9, 10, 11, 12, 13}" using that by (simp, presburger)
    then show "days_before j \<le> 31 * (j - 1)" "28 * (j - 1) \<le> days_before j" by (auto simp: days_before_def)
  qed
  have "days_before k' \<le> x" "28 * (k - 1) \<le> days_before k'"
    using below[of k] above[of k] above[of "k + 1"] k xk by (auto simp: k'_def)
  then show ?thesis using e k x xk by (auto simp: k'_def)
qed

theorem rfc3339_nano_inj:
  assumes "rfc3339_nano t = rfc3339_nano t'"
  shows "t = t'"
proof -
  obtain y m d y' m' d' where c: "civil (t div second div 86400) = (y, m, d)" "civil (t' div second div 86400) = (y', m', d')"
    by (metis surj_pair)
  have r: "0 \<le> m \<and> m < 100 \<and> 0 \<le> d \<and> d < 100" if "civil z = (y, m, d)" for z y m d
    using that month_day_range year_day_range by (fastforce simp: civil_def split: prod.splits)
  define s where "s = t div second mod 86400"
  define s' where "s' = t' div second mod 86400"
  have sr: "0 \<le> s" "s < 86400" "0 \<le> s'" "s' < 86400" by (simp_all add: s_def s'_def)
  have h: "0 \<le> x div 3600" "x div 3600 < 100" "0 \<le> x div 60 mod 60" "x div 60 mod 60 < 100" "0 \<le> x mod 60" "x mod 60 < 100"
    if "0 \<le> x" "x < 86400" for x :: int using that by (auto simp: pos_imp_zdiv_nonneg_iff)
  have e: "year_text y @ CHR ''-'' # two m @ CHR ''-'' # two d @ CHR ''T'' # two (s div 3600) @ CHR '':'' #
       two (s div 60 mod 60) @ CHR '':'' # two (s mod 60) @ fraction_text (t mod second) @ ''Z'' =
     year_text y' @ CHR ''-'' # two m' @ CHR ''-'' # two d' @ CHR ''T'' # two (s' div 3600) @ CHR '':'' #
       two (s' div 60 mod 60) @ CHR '':'' # two (s' mod 60) @ fraction_text (t' mod second) @ ''Z''"
    using assms c by (simp add: rfc3339_nano_def Let_def s_def s'_def)
  note e1 = year_text_inj[OF e]
  have e2: "m = m' \<and> two d @ CHR ''T'' # two (s div 3600) @ CHR '':'' #
       two (s div 60 mod 60) @ CHR '':'' # two (s mod 60) @ fraction_text (t mod second) @ ''Z'' =
     two d' @ CHR ''T'' # two (s' div 3600) @ CHR '':'' #
       two (s' div 60 mod 60) @ CHR '':'' # two (s' mod 60) @ fraction_text (t' mod second) @ ''Z''"
    using two_inj[OF conjunct2[OF e1]] r[OF c(1)] r[OF c(2)] by auto
  then have e3: "d = d' \<and> two (s div 3600) @ CHR '':'' #
       two (s div 60 mod 60) @ CHR '':'' # two (s mod 60) @ fraction_text (t mod second) @ ''Z'' =
     two (s' div 3600) @ CHR '':'' #
       two (s' div 60 mod 60) @ CHR '':'' # two (s' mod 60) @ fraction_text (t' mod second) @ ''Z''"
    using two_inj r[OF c(1)] r[OF c(2)] by blast
  then have e4: "s div 3600 = s' div 3600 \<and> two (s div 60 mod 60) @ CHR '':'' # two (s mod 60) @ fraction_text (t mod second) @ ''Z'' =
      two (s' div 60 mod 60) @ CHR '':'' # two (s' mod 60) @ fraction_text (t' mod second) @ ''Z''"
    using two_inj h[OF sr(1,2)] h[OF sr(3,4)] by blast
  then have e5: "s div 60 mod 60 = s' div 60 mod 60 \<and> two (s mod 60) @ fraction_text (t mod second) @ ''Z'' =
      two (s' mod 60) @ fraction_text (t' mod second) @ ''Z''"
    using two_inj h[OF sr(1,2)] h[OF sr(3,4)] by blast
  then have e6: "s mod 60 = s' mod 60 \<and> fraction_text (t mod second) @ ''Z'' = fraction_text (t' mod second) @ ''Z''"
    using two_inj h[OF sr(1,2)] h[OF sr(3,4)] by blast
  have "x = x div 3600 * 3600 + x div 60 mod 60 * 60 + x mod 60" for x :: int
  proof -
    have "x div 60 div 60 = x div 3600" by (simp add: zdiv_zmult2_eq[symmetric])
    then show ?thesis using div_mult_mod_eq[of x 60] div_mult_mod_eq[of "x div 60" 60] by linarith
  qed
  with e4 e5 e6 have "s = s'" by metis
  moreover have "t mod second = t' mod second"
    by (rule fraction_text_inj[OF conjunct2[OF e6]]) (simp_all add: second_def)
  moreover have "t div second div 86400 = t' div second div 86400"
    using c e1 e2 e3 by (intro civil_inj) simp
  ultimately show ?thesis by (metis s_def s'_def div_mult_mod_eq)
qed

end
