(* ===== verification/Automations.thy ===== *)
theory Automations
  imports ConvStore GoTime
begin

text \<open>
  \<open>backend/internal/automation\<close> with its two tables (migration 27): saved tasks that run on a
  schedule, on a webhook or by hand, and the deliveries, one per accepted occurrence.  Each
  operation is a transaction on \<open>auto_db\<close> that may read the conversation database.  The cron
  parser, the time zone data and the UUID parser are third-party code or data, the record
  \<open>auto_env\<close>; the clock and the random bytes are arguments.  The process runs in UTC.
\<close>

section \<open>Tables\<close>

record auto_config =
  acName :: string
  acKind :: string
  acProject :: uuid
  acAgent :: string
  acModel :: uuid
  acPrompt :: string
  acPermission :: string
  acEnabled :: bool
  acCron :: string
  acTimezone :: string
  acRunAt :: "instant option"

record automation =
  auConfig :: auto_config
  auID :: uuid
  auWorkspace :: uuid
  auUser :: uuid
  auNextRun :: "instant option"
  auRevision :: int
  auCreated :: instant
  auHash :: "string option"
  auDeleted :: bool

text \<open>\<open>Input\<close>: what a delivery will run, as its snapshot keeps it.\<close>

record trigger_input =
  tiID :: uuid
  tiWorkspace :: uuid
  tiUser :: uuid
  tiConversation :: uuid
  tiConfig :: auto_config

record auto_delivery =
  dvID :: uuid
  dvOrder :: int
  dvWorkspace :: uuid
  dvAutomation :: uuid
  dvKey :: string
  dvDigest :: string
  dvSource :: string
  dvSnapshot :: trigger_input
  dvConversation :: uuid
  dvRun :: "uuid option"
  dvState :: string
  dvCode :: string
  dvScheduled :: "instant option"
  dvCreated :: instant

text \<open>
  With the columns of the tables \<open>projects\<close>, \<open>model_deployments\<close>, \<open>agents\<close> (by workspace),
  \<open>command_tasks\<close> (workspace, conversation, status) and \<open>conversations\<close> (project, agent) the
  operations read.
\<close>

record auto_db =
  automations :: "automation list"
  deliveries :: "auto_delivery list"
  lastOrder :: int
  projects :: "(uuid \<times> uuid) list"
  deployments :: "(uuid \<times> uuid \<times> bool) list"
  customAgents :: "(uuid \<times> uuid) list"
  commandTasks :: "(uuid \<times> uuid \<times> string) list"
  taskInfo :: "(uuid \<times> uuid \<times> string) list"

datatype auto_err =
    AutoInvalid
  | AutoNotFound
  | AutoConflict
  | AutoUnauthorized
  | AutoPaused
  | AutoLimit
  | AutoZoneUnknown
  | AutoDb string

text \<open>
  \<open>aeNext spec zone after\<close>: \<open>None\<close> where the cron parser refuses the specification or finds no
  further time; \<open>aeSystem\<close> is the system workspace of \<open>model\<close>.
\<close>

record auto_env =
  aeNext :: "string \<Rightarrow> string \<Rightarrow> instant \<Rightarrow> instant option"
  aeZone :: "string \<Rightarrow> bool"
  aeUUID :: "string \<Rightarrow> uuid option"

definition system_workspace :: uuid where
  "system_workspace = ''00000000-0000-0000-0000-000000000001''"

section \<open>Configurations\<close>

definition trim_run_at :: "instant option \<Rightarrow> instant option" where
  "trim_run_at r = map_option truncate_micro r"

definition normalize_config :: "auto_config \<Rightarrow> auto_config" where
  "normalize_config c = c\<lparr>acName := trim_space (acName c), acPrompt := trim_space (acPrompt c), acCron := trim_space (acCron c),
     acAgent := (if acAgent c = [] then ''lester'' else acAgent c),
     acPermission := (if acPermission c = [] then ''standard'' else acPermission c),
     acTimezone := (if acTimezone c = [] then ''UTC'' else acTimezone c),
     acRunAt := trim_run_at (acRunAt c)\<rparr>"

text \<open>\<open>len(strings.Fields(s))\<close>: the runes that begin a field.\<close>

fun field_starts :: "bool \<Rightarrow> nat list \<Rightarrow> nat" where
  "field_starts gap [] = 0"
| "field_starts gap (r # rs) =
     (if is_space r then field_starts True rs else (if gap then 1 else 0) + field_starts False rs)"

definition field_count :: "string \<Rightarrow> nat" where
  "field_count s = field_starts True (runes s)"

definition nextOccurrence :: "auto_env \<Rightarrow> auto_config \<Rightarrow> instant \<Rightarrow> auto_err + instant option" where
  "nextOccurrence env c after =
     (if acKind c \<noteq> ''schedule''
      then (if acKind c \<noteq> ''webhook'' \<or> acCron c \<noteq> [] \<or> acRunAt c \<noteq> None then Inl AutoInvalid else Inr None)
      else if \<not> aeZone env (acTimezone c) \<or> acTimezone c = ''Local'' then Inl AutoInvalid
      else if (acCron c = []) = (acRunAt c = None) then Inl AutoInvalid
      else bindr (case acRunAt c of
          Some t \<Rightarrow> if acEnabled c \<and> t \<le> after then Inl AutoInvalid else Inr t
        | None \<Rightarrow> if field_count (acCron c) \<noteq> 5 then Inl AutoInvalid
                  else of_option AutoInvalid (aeNext env (acCron c) (acTimezone c) after))
        (\<lambda>next. Inr (if acEnabled c then Some next else None)))"

definition builtin_agents :: "string list" where
  "builtin_agents = [''lester'', ''franklin'', ''michael'', ''trevor'', ''agent-designer'']"

definition known_agent :: "auto_env \<Rightarrow> uuid \<Rightarrow> string \<Rightarrow> auto_db \<Rightarrow> bool" where
  "known_agent env w a d =
     (a \<in> set builtin_agents \<or>
      has_prefix a ''custom-'' \<and> (case aeUUID env (drop 7 a) of None \<Rightarrow> False | Some i \<Rightarrow> (w, i) \<in> set (customAgents d)))"

definition valid_texts :: "auto_config \<Rightarrow> bool" where
  "valid_texts c = (1 \<le> rune_count (acName c) \<and> rune_count (acName c) \<le> 120 \<and>
     1 \<le> length (acPrompt c) \<and> length (acPrompt c) \<le> 16000 \<and> length (acCron c) \<le> 100 \<and> length (acTimezone c) \<le> 100 \<and>
     acPermission c \<in> {''standard'', ''auto'', ''full''})"

definition valid_refs :: "uuid \<Rightarrow> auto_config \<Rightarrow> auto_db \<Rightarrow> bool" where
  "valid_refs w c d = ((w, acProject c) \<in> set (projects d) \<and>
     list_ex (\<lambda>(i, ws, on). i = acModel c \<and> on \<and> (ws = w \<or> ws = system_workspace)) (deployments d))"

definition validateSchedule :: "auto_env \<Rightarrow> uuid \<Rightarrow> auto_config \<Rightarrow> instant \<Rightarrow> auto_db \<Rightarrow> auto_err + instant option" where
  "validateSchedule env w c now d =
     (if \<not> valid_texts c then Inl AutoInvalid
      else if \<not> valid_refs w c d then Inl AutoInvalid
      else if \<not> known_agent env w (acAgent c) d then Inl AutoInvalid
      else nextOccurrence env c now)"

text \<open>
  \<open>json.Marshal\<close> of a configuration, empty where it fails (a year beyond 9999); the
  \<open>uuid.UUID\<close> values are their texts.
\<close>

definition run_at_json :: "instant option \<Rightarrow> json" where
  "run_at_json r = (case r of None \<Rightarrow> JNull | Some t \<Rightarrow> JStr (rfc3339_nano t))"

definition config_json :: "auto_config \<Rightarrow> string" where
  "config_json c =
     (if (case acRunAt c of None \<Rightarrow> False | Some t \<Rightarrow> \<not> json_year t) then []
      else marshal (JObj [(''name'', JStr (acName c)), (''kind'', JStr (acKind c)), (''project_id'', JStr (acProject c)),
        (''agent_slug'', JStr (acAgent c)), (''model_deployment_id'', JStr (acModel c)), (''prompt'', JStr (acPrompt c)),
        (''permission_mode'', JStr (acPermission c)), (''enabled'', JBool (acEnabled c)), (''cron'', JStr (acCron c)),
        (''timezone'', JStr (acTimezone c)), (''run_at'', run_at_json (acRunAt c))]))"

section \<open>Secrets\<close>

definition b64url_char :: "nat \<Rightarrow> char" where
  "b64url_char n = ''ABCDEFGHIJKLMNOPQRSTUVWXYZabcdefghijklmnopqrstuvwxyz0123456789-_'' ! (n mod 64)"

text \<open>\<open>base64.RawURLEncoding\<close>.\<close>

fun b64url :: "string \<Rightarrow> string" where
  "b64url (a # b # c # r) = (let n = byte a * 65536 + byte b * 256 + byte c in
     [b64url_char (n div 262144), b64url_char (n div 4096), b64url_char (n div 64), b64url_char n] @ b64url r)"
| "b64url [a, b] = (let n = byte a * 65536 + byte b * 256 in [b64url_char (n div 262144), b64url_char (n div 4096), b64url_char (n div 64)])"
| "b64url [a] = (let n = byte a * 65536 in [b64url_char (n div 262144), b64url_char (n div 4096)])"
| "b64url [] = []"

definition secretToken :: "string \<Rightarrow> string \<times> string" where
  "secretToken raw = (let token = ''lwh_'' @ b64url raw in (token, sha256 token))"

section \<open>Saving\<close>

definition on_automations :: "(automation \<Rightarrow> bool) \<Rightarrow> (automation \<Rightarrow> automation) \<Rightarrow> auto_db \<Rightarrow> auto_db" where
  "on_automations P f d = d\<lparr>automations := update_where P f (automations d)\<rparr>"

definition on_deliveries :: "(auto_delivery \<Rightarrow> bool) \<Rightarrow> (auto_delivery \<Rightarrow> auto_delivery) \<Rightarrow> auto_db \<Rightarrow> auto_db" where
  "on_deliveries P f d = d\<lparr>deliveries := update_where P f (deliveries d)\<rparr>"

definition live_automation :: "uuid \<Rightarrow> uuid \<Rightarrow> uuid \<Rightarrow> automation \<Rightarrow> bool" where
  "live_automation w u i a = (auID a = i \<and> auWorkspace a = w \<and> auUser a = u \<and> \<not> auDeleted a)"

definition Get :: "uuid \<Rightarrow> uuid \<Rightarrow> uuid \<Rightarrow> auto_db \<Rightarrow> auto_err + automation" where
  "Get w u i d = of_option AutoNotFound (List.find (live_automation w u i) (automations d))"

text \<open>An enabled, verified account that is a member of the workspace.\<close>

definition trigger_authorized :: "db \<Rightarrow> uuid \<Rightarrow> uuid \<Rightarrow> bool" where
  "trigger_authorized cd w u = ((w, u) \<in> set (members cd) \<and>
     list_ex (\<lambda>x. usID x = u \<and> \<not> usDisabled x \<and> (\<not> usMustVerify x \<or> usVerified x)) (users cd))"

definition cancel_pending :: "uuid \<Rightarrow> uuid \<Rightarrow> string \<Rightarrow> auto_db \<Rightarrow> auto_db" where
  "cancel_pending w i code =
     on_deliveries (\<lambda>v. dvWorkspace v = w \<and> dvAutomation v = i \<and> dvState v = ''pending'')
       (\<lambda>v. v\<lparr>dvState := ''cancelled'', dvCode := code\<rparr>)"

text \<open>What a \<open>text\<close> column takes.\<close>

definition text_ok :: "string \<Rightarrow> bool" where
  "text_ok s = (utf8_valid s \<and> \<not> contains_nul s)"

definition config_texts :: "auto_config \<Rightarrow> bool" where
  "config_texts c = list_all text_ok [acName c, acAgent c, acPrompt c, acCron c, acTimezone c]"

definition insert_automation :: "automation \<Rightarrow> auto_db \<Rightarrow> auto_err + auto_db" where
  "insert_automation a d =
     (if list_ex (\<lambda>x. auID x = auID a) (automations d) then Inl (AutoDb ''duplicate key'')
      else if \<not> config_texts (auConfig a) then Inl (AutoDb ''invalid text'')
      else Inr (d\<lparr>automations := automations d @ [a]\<rparr>))"

definition create_automation :: "uuid \<Rightarrow> uuid \<Rightarrow> uuid \<Rightarrow> auto_config \<Rightarrow> instant option \<Rightarrow> instant \<Rightarrow> string \<Rightarrow> auto_db \<Rightarrow>
    auto_err + (string \<times> auto_db)" where
  "create_automation w u i c next now rnd d =
     (if 100 \<le> length (filter (\<lambda>a. auWorkspace a = w \<and> auUser a = u \<and> \<not> auDeleted a) (automations d)) then Inl AutoLimit
      else (let (secret, hash) = (if acKind c = ''webhook'' then (fst (secretToken rnd), Some (snd (secretToken rnd))) else ([], None))
        in bindr (insert_automation \<lparr>auConfig = c, auID = i, auWorkspace = w, auUser = u, auNextRun = trim_run_at next, auRevision = 1,
              auCreated = now, auHash = hash, auDeleted = False\<rparr> d) (\<lambda>d'. Inr (secret, d'))))"

text \<open>The compare-and-set on the revision; the kind of a task never changes.\<close>

definition update_automation :: "uuid \<Rightarrow> uuid \<Rightarrow> uuid \<Rightarrow> auto_config \<Rightarrow> instant option \<Rightarrow> int \<Rightarrow> auto_db \<Rightarrow> auto_err + auto_db" where
  "update_automation w u i c next vsn d =
     (let P = (\<lambda>a. live_automation w u i a \<and> auRevision a = vsn \<and> acKind (auConfig a) = acKind c)
      in if \<not> config_texts c then Inl (AutoDb ''invalid text'')
         else if \<not> list_ex P (automations d) then Inl AutoConflict
         else Inr (on_automations P (\<lambda>a. a\<lparr>auConfig := c, auNextRun := trim_run_at next, auRevision := auRevision a + 1\<rparr>) d))"

definition saveTx :: "auto_env \<Rightarrow> uuid \<Rightarrow> uuid \<Rightarrow> uuid \<Rightarrow> auto_config \<Rightarrow> int \<Rightarrow> instant \<Rightarrow> string \<Rightarrow> db \<Rightarrow> auto_db \<Rightarrow>
    auto_err + (automation \<times> string \<times> auto_db)" where
  "saveTx env w u i c0 vsn now rnd cd d =
     (let c = normalize_config c0 in
      bindr (validateSchedule env w c now d) (\<lambda>next.
      if i = uuid_nil \<or> vsn < 0 then Inl AutoInvalid
      else if \<not> trigger_authorized cd w u then Inl AutoNotFound
      else (let existing = List.find (live_automation w u i) (automations d) in
       if vsn = 0 \<and> existing \<noteq> None
       then (if config_json (auConfig (the existing)) = config_json c then Inr (the existing, [], d) else Inl AutoConflict)
       else bindr (if vsn = 0 then create_automation w u i c next now rnd d
                   else bindr (update_automation w u i c next vsn d) (\<lambda>d'. Inr ([], d')))
         (\<lambda>(secret, d1).
            (let d2 = (if acEnabled c then d1 else cancel_pending w i ''paused'' d1) in
             bindr (of_option AutoNotFound (List.find (\<lambda>a. auWorkspace a = w \<and> auID a = i) (automations d2)))
               (\<lambda>a. Inr (a, secret, d2)))))))"

definition Delete :: "uuid \<Rightarrow> uuid \<Rightarrow> uuid \<Rightarrow> int \<Rightarrow> auto_db \<Rightarrow> auto_err + auto_db" where
  "Delete w u i vsn d =
     (let P = (\<lambda>a. live_automation w u i a \<and> auRevision a = vsn)
      in if \<not> list_ex P (automations d) then Inl AutoConflict
         else Inr (cancel_pending w i ''deleted''
           (on_automations P (\<lambda>a. a\<lparr>auDeleted := True, auConfig := (auConfig a)\<lparr>acEnabled := False\<rparr>, auNextRun := None,
              auRevision := auRevision a + 1\<rparr>) d)))"

definition Rotate :: "uuid \<Rightarrow> uuid \<Rightarrow> uuid \<Rightarrow> int \<Rightarrow> string \<Rightarrow> auto_db \<Rightarrow> auto_err + (automation \<times> string \<times> auto_db)" where
  "Rotate w u i vsn rnd d =
     (let (token, hash) = secretToken rnd;
          P = (\<lambda>a. live_automation w u i a \<and> auRevision a = vsn \<and> acKind (auConfig a) = ''webhook'');
          f = (\<lambda>a. a\<lparr>auHash := Some hash, auRevision := auRevision a + 1\<rparr>)
      in case List.find P (automations d) of
           None \<Rightarrow> Inl AutoConflict
         | Some a \<Rightarrow> Inr (f a, token, on_automations P f d))"

section \<open>Accepting deliveries\<close>

definition newInput :: "uuid \<Rightarrow> uuid \<Rightarrow> automation \<Rightarrow> trigger_input" where
  "newInput i c a = \<lparr>tiID = i, tiWorkspace = auWorkspace a, tiUser = auUser a, tiConversation = c, tiConfig = auConfig a\<rparr>"

text \<open>
  The snapshot after \<open>json.Marshal\<close> and \<open>json.Unmarshal\<close>: bytes that are no UTF-8 have become
  U+FFFD.
\<close>

definition json_text :: "string \<Rightarrow> string" where
  "json_text s = string_of_runes (runes s)"

definition snapshot_of :: "trigger_input \<Rightarrow> trigger_input" where
  "snapshot_of i = (let c = tiConfig i in i\<lparr>tiConfig := c\<lparr>acName := json_text (acName c), acKind := json_text (acKind c),
     acAgent := json_text (acAgent c), acPrompt := json_text (acPrompt c), acPermission := json_text (acPermission c),
     acCron := json_text (acCron c), acTimezone := json_text (acTimezone c)\<rparr>\<rparr>)"

definition insertDelivery :: "automation \<Rightarrow> trigger_input \<Rightarrow> string \<Rightarrow> string \<Rightarrow> string \<Rightarrow> string \<Rightarrow> string \<Rightarrow> instant option \<Rightarrow>
    instant \<Rightarrow> auto_db \<Rightarrow> auto_err + auto_db" where
  "insertDelivery a i key digest source state code scheduled now d =
     (if (case acRunAt (tiConfig i) of None \<Rightarrow> False | Some t \<Rightarrow> \<not> json_year t) then Inl (AutoDb ''json'')
      else if list_ex (\<lambda>v. dvID v = tiID i \<or> dvAutomation v = auID a \<and> dvKey v = key) (deliveries d)
      then Inl (AutoDb ''duplicate key'')
      else if key = [] \<or> 160 < rune_count key then Inl (AutoDb ''check'')
      else Inr (d\<lparr>deliveries := deliveries d @ [\<lparr>dvID = tiID i, dvOrder = lastOrder d + 1, dvWorkspace = auWorkspace a,
          dvAutomation = auID a, dvKey = key, dvDigest = digest, dvSource = source, dvSnapshot = snapshot_of i,
          dvConversation = tiConversation i, dvRun = None, dvState = state, dvCode = code, dvScheduled = scheduled,
          dvCreated = now\<rparr>], lastOrder := lastOrder d + 1\<rparr>))"

definition minute :: int where
  "minute = 60 * second"

definition acceptDelivery :: "automation \<Rightarrow> trigger_input \<Rightarrow> string \<Rightarrow> string \<Rightarrow> string \<Rightarrow> instant \<Rightarrow> auto_db \<Rightarrow>
    auto_err + (auto_delivery \<times> auto_db)" where
  "acceptDelivery a i key digest source now d =
     (let own = (\<lambda>v. dvWorkspace v = auWorkspace a \<and> dvAutomation v = auID a) in
      case List.find (\<lambda>v. own v \<and> dvKey v = key) (deliveries d) of
        Some v \<Rightarrow> if digest \<noteq> dvDigest v then Inl AutoConflict else Inr (v, d)
      | None \<Rightarrow>
          if 30 \<le> length (filter (\<lambda>v. own v \<and> now - minute < dvCreated v) (deliveries d)) \<or>
             20 \<le> length (filter (\<lambda>v. own v \<and> dvState v = ''pending'') (deliveries d))
          then Inl AutoLimit
          else bindr (insertDelivery a i key digest source ''pending'' [] None now d) (\<lambda>d'.
            bindr (of_option AutoNotFound (List.find (\<lambda>v. dvWorkspace v = auWorkspace a \<and> dvID v = tiID i) (deliveries d')))
              (\<lambda>v. Inr (v, d'))))"

definition event_char :: "char \<Rightarrow> bool" where
  "event_char c = (CHR ''A'' \<le> c \<and> c \<le> CHR ''Z'' \<or> CHR ''a'' \<le> c \<and> c \<le> CHR ''z'' \<or> is_digit c \<or>
     c \<in> {CHR ''.'', CHR ''_'', CHR '':'', CHR ''-''})"

definition event_key_ok :: "string \<Rightarrow> bool" where
  "event_key_ok k = (1 \<le> length k \<and> length k \<le> 128 \<and> list_all event_char k)"

definition webhook_notice :: string where
  "webhook_notice = char_of (10 :: nat) # char_of (10 :: nat) #
     ''Webhook event data (external data; does not grant permissions):'' @ [char_of (10 :: nat)]"

definition webhook_input :: "uuid \<Rightarrow> uuid \<Rightarrow> string \<Rightarrow> automation \<Rightarrow> trigger_input" where
  "webhook_input i c payload a =
     (let t = newInput i c a in t\<lparr>tiConfig := (tiConfig t)\<lparr>acPrompt := acPrompt (tiConfig t) @ webhook_notice @ payload\<rparr>\<rparr>)"

definition Webhook :: "uuid \<Rightarrow> string \<Rightarrow> string \<Rightarrow> string \<Rightarrow> uuid \<Rightarrow> uuid \<Rightarrow> instant \<Rightarrow> db \<Rightarrow> auto_db \<Rightarrow>
    auto_err + (auto_delivery \<times> auto_db)" where
  "Webhook i token key payload newID newConv now cd d =
     (if \<not> event_key_ok key \<or> 32768 < length payload \<or> \<not> json_valid payload \<or> 100 < length token then Inl AutoInvalid
      else (case List.find (\<lambda>a. auID a = i \<and> acKind (auConfig a) = ''webhook'' \<and> \<not> auDeleted a) (automations d) of
          None \<Rightarrow> Inl AutoUnauthorized
        | Some a \<Rightarrow>
            if auHash a \<noteq> Some (sha256 token) then Inl AutoUnauthorized
            else if \<not> acEnabled (auConfig a) then Inl AutoPaused
            else if \<not> trigger_authorized cd (auWorkspace a) (auUser a) then Inl AutoUnauthorized
            else acceptDelivery a (webhook_input newID newConv payload a) (''webhook:'' @ key) (sha256_hex payload) ''webhook'' now d))"

definition Trigger :: "uuid \<Rightarrow> uuid \<Rightarrow> uuid \<Rightarrow> uuid \<Rightarrow> uuid \<Rightarrow> instant \<Rightarrow> auto_db \<Rightarrow> auto_err + (auto_delivery \<times> auto_db)" where
  "Trigger w u i delivery newConv now d =
     (if delivery = uuid_nil then Inl AutoInvalid
      else bindr (of_option AutoNotFound (List.find (live_automation w u i) (automations d))) (\<lambda>a.
        acceptDelivery a (newInput delivery newConv a) (''manual:'' @ delivery) ''manual'' ''manual'' now d))"

end
