(* ===== verification/AutoDispatch.thy ===== *)
theory AutoDispatch
  imports Automations
begin

text \<open>
  The scheduler of \<open>scheduler.go\<close>: due schedules become deliveries, the scan of the open
  deliveries, and the transactions of one dispatch: the claim, the receipt and the
  reconciliation.
\<close>

section \<open>Occupation\<close>

definition open_command :: "string \<Rightarrow> bool" where
  "open_command s = (s \<in> {''starting'', ''running'', ''stopping'', ''unknown''})"

definition accepted_busy :: "db \<Rightarrow> auto_db \<Rightarrow> auto_delivery \<Rightarrow> bool" where
  "accepted_busy cd d v = (dvState v = ''accepted'' \<and>
     (list_ex (\<lambda>r. dvRun v = Some (rnID r) \<and> active_status (rnStatus r)) (runs cd) \<or>
      list_ex (\<lambda>(w, c, s). w = dvWorkspace v \<and> c = dvConversation v \<and> open_command s) (commandTasks d)))"

definition busy :: "db \<Rightarrow> auto_db \<Rightarrow> uuid \<Rightarrow> bool" where
  "busy cd d i = list_ex (\<lambda>v. dvAutomation v = i \<and> (dvState v = ''dispatching'' \<or> accepted_busy cd d v)) (deliveries d)"

definition has_pending :: "auto_db \<Rightarrow> uuid \<Rightarrow> bool" where
  "has_pending d i = list_ex (\<lambda>v. dvAutomation v = i \<and> dvState v = ''pending'') (deliveries d)"

section \<open>Due schedules\<close>

definition due_at :: "instant \<Rightarrow> automation \<Rightarrow> bool" where
  "due_at now a = (acKind (auConfig a) = ''schedule'' \<and> acEnabled (auConfig a) \<and> \<not> auDeleted a \<and>
     (case auNextRun a of None \<Rightarrow> False | Some t \<Rightarrow> t \<le> truncate_micro now))"

text \<open>\<open>ORDER BY next_run_at,id\<close>.\<close>

definition due_le :: "automation \<Rightarrow> automation \<Rightarrow> bool" where
  "due_le a b = (the (auNextRun a) < the (auNextRun b) \<or> the (auNextRun a) = the (auNextRun b) \<and> auID a \<le> auID b)"

fun insert_due :: "automation \<Rightarrow> automation list \<Rightarrow> automation list" where
  "insert_due a [] = [a]"
| "insert_due a (b # bs) = (if due_le a b then a # b # bs else b # insert_due a bs)"

text \<open>\<open>locked\<close>: the rows another transaction holds, which \<open>SKIP LOCKED\<close> passes over.\<close>

definition due_automations :: "(uuid \<Rightarrow> bool) \<Rightarrow> instant \<Rightarrow> auto_db \<Rightarrow> automation list" where
  "due_automations locked now d = take 20 (foldr insert_due (filter (\<lambda>a. due_at now a \<and> \<not> locked (auID a)) (automations d)) [])"

definition schedule_key :: "instant \<Rightarrow> string" where
  "schedule_key t = ''schedule:'' @ rfc3339_nano t"

text \<open>
  One due schedule: its delivery, and the next time.  \<open>ids\<close> are the delivery's and the
  conversation's new identifiers, \<open>stamp\<close> is the database's clock.
\<close>

definition enqueue_one :: "auto_env \<Rightarrow> instant \<Rightarrow> instant \<Rightarrow> uuid \<times> uuid \<Rightarrow> automation \<Rightarrow> db \<Rightarrow> auto_db \<Rightarrow> auto_err + auto_db" where
  "enqueue_one env now stamp ids a cd d =
     (case auNextRun a of None \<Rightarrow> Inr d
      | Some t \<Rightarrow>
        (let (state, code) = (if busy cd d (auID a) \<or> has_pending d (auID a) then (''skipped'', ''busy'') else (''pending'', [])) in
         bindr (insertDelivery a (newInput (fst ids) (snd ids) a) (schedule_key t) ''schedule'' ''schedule'' state code (Some t) stamp d)
           (\<lambda>d1. bindr (if acCron (auConfig a) = [] then Inr None else nextOccurrence env (auConfig a) now)
             (\<lambda>next. Inr (on_automations (\<lambda>x. auID x = auID a \<and> auWorkspace x = auWorkspace a)
                (\<lambda>x. x\<lparr>auNextRun := trim_run_at next, auRevision := auRevision x + 1\<rparr>) d1)))))"

fun enqueue_all :: "auto_env \<Rightarrow> instant \<Rightarrow> instant \<Rightarrow> (automation \<times> uuid \<times> uuid) list \<Rightarrow> db \<Rightarrow> auto_db \<Rightarrow> auto_err + auto_db" where
  "enqueue_all env now stamp [] cd d = Inr d"
| "enqueue_all env now stamp ((a, ids) # as) cd d = bindr (enqueue_one env now stamp ids a cd d) (enqueue_all env now stamp as cd)"

definition enqueueDue :: "auto_env \<Rightarrow> (uuid \<Rightarrow> bool) \<Rightarrow> instant \<Rightarrow> instant \<Rightarrow> (uuid \<times> uuid) list \<Rightarrow> db \<Rightarrow> auto_db \<Rightarrow> auto_err + auto_db" where
  "enqueueDue env locked now stamp ids cd d = enqueue_all env now stamp (zip (due_automations locked now d) ids) cd d"

section \<open>The scan\<close>

definition open_state :: "string \<Rightarrow> bool" where
  "open_state s = (s \<in> {''pending'', ''dispatching'', ''unknown''})"

definition scan_rows :: "int \<Rightarrow> auto_db \<Rightarrow> auto_delivery list" where
  "scan_rows cursor d = take 30 (sort_key dvOrder (filter (\<lambda>v. open_state (dvState v) \<and> cursor < dvOrder v) (deliveries d)))"

text \<open>One round of \<open>Run\<close>: the deliveries it dispatches and the cursor of the next round.\<close>

definition scan :: "int \<Rightarrow> auto_db \<Rightarrow> uuid list \<times> int" where
  "scan cursor d = (let rows = scan_rows cursor d in (map dvID rows, if length rows = 30 then dvOrder (last rows) else 0))"

section \<open>A dispatch\<close>

datatype claim =
    NoDelivery
  | Ignored
  | Reconcile trigger_input
  | CancelledDelivery
  | Deferred
  | Rejected
  | Claimed trigger_input

definition find_delivery :: "auto_db \<Rightarrow> uuid \<Rightarrow> auto_delivery option" where
  "find_delivery d i = List.find (\<lambda>v. dvID v = i) (deliveries d)"

definition set_delivery :: "uuid \<Rightarrow> uuid \<Rightarrow> string \<Rightarrow> string \<Rightarrow> auto_db \<Rightarrow> auto_db" where
  "set_delivery w i state code = on_deliveries (\<lambda>v. dvWorkspace v = w \<and> dvID v = i) (\<lambda>v. v\<lparr>dvState := state, dvCode := code\<rparr>)"

definition earlier_pending :: "auto_db \<Rightarrow> auto_delivery \<Rightarrow> bool" where
  "earlier_pending d v = list_ex (\<lambda>x. dvAutomation x = dvAutomation v \<and> dvState x = ''pending'' \<and> dvOrder x < dvOrder v) (deliveries d)"

text \<open>The claim transaction of \<open>dispatch\<close>, under the row locks of the task and the delivery.\<close>

definition claim_delivery :: "uuid \<Rightarrow> db \<Rightarrow> auto_db \<Rightarrow> auto_err + (claim \<times> auto_db)" where
  "claim_delivery i cd d =
     (case find_delivery d i of
        None \<Rightarrow> Inr (NoDelivery, d)
      | Some v \<Rightarrow>
        (case List.find (\<lambda>a. auWorkspace a = dvWorkspace v \<and> auID a = dvAutomation v) (automations d) of
           None \<Rightarrow> Inl AutoNotFound
         | Some a \<Rightarrow>
            (let w = dvWorkspace v; input = dvSnapshot v in
             if \<not> open_state (dvState v) then Inr (Ignored, d)
             else if tiID input \<noteq> i \<or> tiWorkspace input \<noteq> w then Inl (AutoDb ''invalid stored trigger identity'')
             else if dvState v \<noteq> ''pending'' then Inr (Reconcile input, d)
             else if auDeleted a \<or> \<not> acEnabled (auConfig a) \<and> dvSource v \<noteq> ''manual''
             then Inr (CancelledDelivery, set_delivery w i ''cancelled'' ''paused'' d)
             else if busy cd d (auID a) then Inr (Deferred, d)
             else if \<not> trigger_authorized cd w (tiUser input)
             then Inr (Rejected, set_delivery w i ''failed'' ''authorization_changed'' d)
             else if earlier_pending d v then Inr (Deferred, d)
             else Inr (Claimed input,
               on_deliveries (\<lambda>x. dvWorkspace x = w \<and> dvID x = i) (\<lambda>x. x\<lparr>dvState := ''dispatching''\<rparr>) d))))"

definition acceptReceipt :: "trigger_input \<Rightarrow> uuid \<Rightarrow> auto_db \<Rightarrow> auto_db" where
  "acceptReceipt i r = on_deliveries (\<lambda>v. dvWorkspace v = tiWorkspace i \<and> dvID v = tiID i \<and> dvState v \<in> {''dispatching'', ''unknown''})
     (\<lambda>v. v\<lparr>dvState := ''accepted'', dvRun := Some r, dvCode := []\<rparr>)"

text \<open>The end of \<open>reconcile\<close>, after the lookup of the receipt.\<close>

definition reconcile :: "trigger_input \<Rightarrow> uuid option \<Rightarrow> auto_db \<Rightarrow> auto_db" where
  "reconcile i receipt d =
     (case receipt of
        Some r \<Rightarrow> acceptReceipt i r d
      | None \<Rightarrow> on_deliveries (\<lambda>v. dvWorkspace v = tiWorkspace i \<and> dvID v = tiID i \<and> dvState v = ''dispatching'')
          (\<lambda>v. v\<lparr>dvState := ''unknown'', dvCode := ''receipt_unknown''\<rparr>) d)"

end
