(* ===== verification/AutoSchedules.thy ===== *)
theory AutoSchedules
  imports Automations
begin

text \<open>
  Schedules proposed in a conversation (\<open>conversational.go\<close>, \<open>agenttool/schedule.go\<close>): the
  model's arguments are checked and resolved to a preview, which the user reviews and which is
  then applied as it was reviewed.
\<close>

record schedule_request =
  sqAction :: string
  sqID :: uuid
  sqRevision :: int
  sqName :: string
  sqPrompt :: string
  sqProject :: uuid
  sqCron :: string
  sqTimezone :: string
  sqRunAt :: "instant option"

definition validate_request :: "schedule_request \<Rightarrow> bool" where
  "validate_request r =
     (if sqAction r \<notin> {''create'', ''update'', ''pause'', ''resume''} then False
      else if sqAction r = ''create'' \<and> (sqID r \<noteq> uuid_nil \<or> sqRevision r \<noteq> 0 \<or> trim_space (sqName r) = [] \<or>
          trim_space (sqPrompt r) = [] \<or> (sqCron r = []) = (sqRunAt r = None)) then False
      else if sqAction r \<noteq> ''create'' \<and> (sqID r = uuid_nil \<or> sqRevision r < 1) then False
      else if sqAction r = ''update'' \<and> sqName r = [] \<and> sqPrompt r = [] \<and> sqProject r = uuid_nil \<and> sqCron r = [] \<and>
          sqTimezone r = [] \<and> sqRunAt r = None then False
      else if sqCron r \<noteq> [] \<and> sqRunAt r \<noteq> None then False
      else if (sqAction r = ''pause'' \<or> sqAction r = ''resume'') \<and> (sqName r \<noteq> [] \<or> sqPrompt r \<noteq> [] \<or>
          sqProject r \<noteq> uuid_nil \<or> sqCron r \<noteq> [] \<or> sqTimezone r \<noteq> [] \<or> sqRunAt r \<noteq> None) then False
      else length (sqName r) \<le> 480 \<and> length (sqPrompt r) \<le> 16000 \<and> length (sqCron r) \<le> 100 \<and> length (sqTimezone r) \<le> 100)"

text \<open>\<open>SchedulePreview\<close> without the display names of the project and the model.\<close>

record schedule_preview =
  spID :: uuid
  spRevision :: int
  spConfig :: auto_config
  spNextRun :: "instant option"

record schedule_actor =
  saWorkspace :: uuid
  saUser :: uuid
  saProject :: uuid
  saModel :: uuid
  saAgent :: string
  saTimezone :: string

definition client_timezone :: "db \<Rightarrow> uuid \<Rightarrow> run \<Rightarrow> string" where
  "client_timezone cd c x =
     (case List.find (\<lambda>m. rnInputMessage x = Some (dmID m) \<and> dmConversation m = c) (messages cd) of
        None \<Rightarrow> []
      | Some m \<Rightarrow> (case mget (dmMetadata m) ''client_timezone'' of Some (JStr s) \<Rightarrow> s | _ \<Rightarrow> []))"

text \<open>The acting identity is the submitter of the running run, never an argument of the model.\<close>

definition scheduleContext :: "uuid \<Rightarrow> uuid \<Rightarrow> db \<Rightarrow> auto_db \<Rightarrow> auto_err + schedule_actor" where
  "scheduleContext c r cd d =
     (case (find_conversation cd c, find_run cd r c, List.find (\<lambda>(i, p, a). i = c) (taskInfo d)) of
        (Some cv, Some x, Some (_, project, agent)) \<Rightarrow>
          (case (rnSubmittedBy x, (case rnModel x of None \<Rightarrow> cvModel cv | m \<Rightarrow> m)) of
             (Some u, Some model) \<Rightarrow>
               if rnStatus x = ''running'' \<and> trigger_authorized cd (cvWorkspace cv) u
               then Inr \<lparr>saWorkspace = cvWorkspace cv, saUser = u, saProject = project, saModel = model, saAgent = agent,
                      saTimezone = client_timezone cd c x\<rparr>
               else Inl AutoNotFound
           | _ \<Rightarrow> Inl AutoNotFound)
      | _ \<Rightarrow> Inl AutoNotFound)"

text \<open>What the request changes of a configuration.\<close>

definition requested_config :: "schedule_request \<Rightarrow> auto_config \<Rightarrow> auto_config" where
  "requested_config r c0 =
     (let c1 = c0\<lparr>acName := (if sqName r \<noteq> [] then sqName r else acName c0),
            acPrompt := (if sqPrompt r \<noteq> [] then sqPrompt r else acPrompt c0),
            acProject := (if sqProject r \<noteq> uuid_nil then sqProject r else acProject c0),
            acTimezone := (if sqTimezone r \<noteq> [] then sqTimezone r else acTimezone c0)\<rparr>;
          c2 = (if sqCron r \<noteq> [] then c1\<lparr>acCron := sqCron r, acRunAt := None\<rparr> else c1);
          c3 = (if sqRunAt r \<noteq> None then c2\<lparr>acRunAt := sqRunAt r, acCron := []\<rparr> else c2)
      in if sqAction r = ''pause'' then c3\<lparr>acEnabled := False\<rparr>
         else if sqAction r = ''resume'' then c3\<lparr>acEnabled := True\<rparr> else c3)"

definition PrepareSchedule :: "auto_env \<Rightarrow> uuid \<Rightarrow> uuid \<Rightarrow> schedule_request \<Rightarrow> uuid \<Rightarrow> instant \<Rightarrow> db \<Rightarrow> auto_db \<Rightarrow>
    auto_err + schedule_preview" where
  "PrepareSchedule env c r q newID now cd d =
     (if \<not> validate_request q then Inl (AutoDb ''invalid request'')
      else bindr (scheduleContext c r cd d) (\<lambda>a.
      bindr (if sqAction q = ''create''
             then Inr (newID, \<lparr>acName = [], acKind = ''schedule'', acProject = saProject a, acAgent = saAgent a, acModel = saModel a,
               acPrompt = [], acPermission = ''standard'', acEnabled = True, acCron = [], acTimezone = saTimezone a, acRunAt = None\<rparr>)
             else bindr (Get (saWorkspace a) (saUser a) (sqID q) d) (\<lambda>x.
               if acKind (auConfig x) \<noteq> ''schedule'' \<or> auRevision x \<noteq> sqRevision q then Inl AutoConflict
               else Inr (sqID q, auConfig x)))
        (\<lambda>(i, c0).
           (let c1 = requested_config q c0 in
            if trim_space (acTimezone c1) = [] then Inl AutoZoneUnknown
            else (let c2 = normalize_config c1 in
              bindr (validateSchedule env (saWorkspace a) c2 now d) (\<lambda>next.
                Inr \<lparr>spID = i, spRevision = sqRevision q, spConfig = c2, spNextRun = next\<rparr>))))))"

text \<open>
  Validation reads the clock twice, at \<open>now\<close> and in \<open>saveTx\<close> at \<open>later\<close>; the occurrence must be
  the reviewed one both times.
\<close>

definition ApplySchedule :: "auto_env \<Rightarrow> uuid \<Rightarrow> uuid \<Rightarrow> uuid \<Rightarrow> schedule_preview option \<Rightarrow> instant \<Rightarrow> instant \<Rightarrow> string \<Rightarrow> db \<Rightarrow> auto_db \<Rightarrow>
    auto_err + auto_db" where
  "ApplySchedule env c r u preview now later rnd cd d =
     (case preview of
        None \<Rightarrow> Inl AutoInvalid
      | Some p \<Rightarrow>
          bindr (scheduleContext c r cd d) (\<lambda>a.
          if saUser a \<noteq> u then Inl AutoNotFound
          else (let conf = (spConfig p)\<lparr>acKind := ''schedule''\<rparr> in
            bindr (validateSchedule env (saWorkspace a) conf now d) (\<lambda>next.
            if next \<noteq> spNextRun p then Inl AutoConflict
            else bindr (saveTx env (saWorkspace a) u (spID p) conf (spRevision p) later rnd cd d) (\<lambda>(saved, secret, d').
              if auNextRun saved \<noteq> spNextRun p then Inl AutoConflict else Inr d')))))"

end
