(* ===== verification/AutoInvariant.thy ===== *)
theory AutoInvariant
  imports AutoDispatch AutoSchedules Tables
begin

text \<open>
  How the deliveries change: the row law \<open>delivery_ev\<close> (a delivery never becomes pending again,
  what was decided stays), the invariant \<open>deliveries_inv\<close> of the table, and that every
  operation of the service keeps both (\<open>auto_good\<close>).
\<close>

section \<open>The law of a delivery\<close>

definition claimed_state :: "string \<Rightarrow> bool" where
  "claimed_state s = (s \<in> {''dispatching'', ''unknown'', ''accepted''})"

definition delivery_ok :: "auto_delivery \<Rightarrow> bool" where
  "delivery_ok v = (tiID (dvSnapshot v) = dvID v \<and> tiWorkspace (dvSnapshot v) = dvWorkspace v \<and>
     tiConversation (dvSnapshot v) = dvConversation v \<and> (dvRun v \<noteq> None \<longleftrightarrow> dvState v = ''accepted''))"

definition same_delivery :: "auto_delivery \<Rightarrow> auto_delivery \<Rightarrow> bool" where
  "same_delivery v w = (dvID w = dvID v \<and> dvOrder w = dvOrder v \<and> dvWorkspace w = dvWorkspace v \<and>
     dvAutomation w = dvAutomation v \<and> dvKey w = dvKey v \<and> dvDigest w = dvDigest v \<and> dvSource w = dvSource v \<and>
     dvSnapshot w = dvSnapshot v \<and> dvConversation w = dvConversation v \<and> dvScheduled w = dvScheduled v \<and> dvCreated w = dvCreated v)"

definition delivery_ev :: "auto_delivery \<Rightarrow> auto_delivery \<Rightarrow> bool" where
  "delivery_ev v w = (same_delivery v w \<and> (w = v \<or> open_state (dvState v) \<and> dvState w \<noteq> ''pending'' \<and>
     (dvState v \<noteq> ''pending'' \<longrightarrow> dvState w \<in> {''unknown'', ''accepted''})) \<and> (delivery_ok v \<longrightarrow> delivery_ok w))"

interpretation delivery_rows: row_history delivery_ev delivery_ok
proof
  show "delivery_ev x x" for x by (simp add: delivery_ev_def same_delivery_def)
  show "delivery_ev x z" if a: "delivery_ev x y" and b: "delivery_ev y z" for x y z
  proof -
    have "same_delivery x z" using a b by (simp add: delivery_ev_def same_delivery_def)
    moreover have "delivery_ok x \<longrightarrow> delivery_ok z" using a b by (simp add: delivery_ev_def)
    moreover have "z = x \<or> open_state (dvState x) \<and> dvState z \<noteq> ''pending'' \<and>
        (dvState x \<noteq> ''pending'' \<longrightarrow> dvState z \<in> {''unknown'', ''accepted''})"
    proof (cases "y = x \<or> z = y")
      case True
      with a b show ?thesis by (auto simp: delivery_ev_def)
    next
      case False
      with a b show ?thesis by (simp add: delivery_ev_def)
    qed
    ultimately show ?thesis by (simp add: delivery_ev_def)
  qed
qed (simp add: delivery_ev_def)

section \<open>The invariant of the table\<close>

definition dispatching_of :: "uuid \<Rightarrow> auto_delivery list \<Rightarrow> auto_delivery list" where
  "dispatching_of i vs = filter (\<lambda>v. dvAutomation v = i \<and> dvState v = ''dispatching'') vs"

definition in_order :: "auto_delivery list \<Rightarrow> bool" where
  "in_order vs = (\<forall>v \<in> set vs. \<forall>w \<in> set vs. dvAutomation w = dvAutomation v \<longrightarrow> claimed_state (dvState v) \<longrightarrow>
     dvState w = ''pending'' \<longrightarrow> dvOrder v < dvOrder w)"

definition deliveries_inv :: "auto_db \<Rightarrow> bool" where
  "deliveries_inv d = (distinct (map dvID (deliveries d)) \<and> sorted_wrt (<) (map dvOrder (deliveries d)) \<and>
     list_all (\<lambda>v. dvOrder v \<le> lastOrder d) (deliveries d) \<and> list_all delivery_ok (deliveries d) \<and>
     distinct (map (\<lambda>v. (dvAutomation v, dvKey v)) (deliveries d)) \<and> in_order (deliveries d) \<and>
     (\<forall>i. length (dispatching_of i (deliveries d)) \<le> 1))"

text \<open>\<open>auto_moves\<close>: any change; \<open>auto_good\<close>: a change that gives no delivery a run.\<close>

definition auto_moves :: "auto_db \<Rightarrow> auto_db \<Rightarrow> bool" where
  "auto_moves d d' = (deliveries_inv d' \<and> evolves delivery_ev delivery_ok (deliveries d) (deliveries d'))"

definition runs_kept :: "auto_db \<Rightarrow> auto_db \<Rightarrow> bool" where
  "runs_kept d d' = (\<forall>v \<in> set (deliveries d'). dvRun v \<noteq> None \<longrightarrow>
     (\<exists>u \<in> set (deliveries d). dvRun u = dvRun v \<and> dvSnapshot u = dvSnapshot v))"

definition auto_good :: "auto_db \<Rightarrow> auto_db \<Rightarrow> bool" where
  "auto_good d d' = (auto_moves d d' \<and> runs_kept d d')"

lemma auto_moves_trans: "auto_moves d1 d2 \<Longrightarrow> auto_moves d2 d3 \<Longrightarrow> auto_moves d1 d3"
  by (auto simp: auto_moves_def intro: delivery_rows.seq)

lemma auto_good_moves: "auto_good d d' \<Longrightarrow> auto_moves d d'"
  by (simp add: auto_good_def)

lemma auto_good_trans: "auto_good d1 d2 \<Longrightarrow> auto_good d2 d3 \<Longrightarrow> auto_good d1 d3"
  unfolding auto_good_def runs_kept_def by (metis auto_moves_trans)

lemma auto_good_inv: "auto_good d d' \<Longrightarrow> deliveries_inv d'"
  by (simp add: auto_good_def auto_moves_def)

lemma auto_good_same:
  "deliveries_inv d \<Longrightarrow> deliveries d' = deliveries d \<Longrightarrow> lastOrder d' = lastOrder d \<Longrightarrow> auto_good d d'"
  by (auto simp: auto_good_def auto_moves_def runs_kept_def deliveries_inv_def delivery_rows.same)

lemma auto_good_refl: "deliveries_inv d \<Longrightarrow> auto_good d d"
  by (rule auto_good_same) simp_all

lemma the_delivery: "deliveries_inv d \<Longrightarrow> v \<in> set (deliveries d) \<Longrightarrow> w \<in> set (deliveries d) \<Longrightarrow> dvID v = dvID w \<Longrightarrow> v = w"
  unfolding deliveries_inv_def using distinct_key[of dvID "deliveries d"] by blast

lemma one_dispatching:
  assumes "deliveries_inv d" "v \<in> set (deliveries d)" "w \<in> set (deliveries d)" "dvAutomation v = dvAutomation w"
    "dvState v = ''dispatching''" "dvState w = ''dispatching''"
  shows "v = w"
proof (rule ccontr)
  assume n: "v \<noteq> w"
  have "{v, w} \<subseteq> set (dispatching_of (dvAutomation v) (deliveries d))" using assms(2-6) by (simp add: dispatching_of_def)
  then have "card {v, w} \<le> card (set (dispatching_of (dvAutomation v) (deliveries d)))" by (rule card_mono[OF finite_set])
  also have "\<dots> \<le> length (dispatching_of (dvAutomation v) (deliveries d))" by (rule card_length)
  also have "\<dots> \<le> 1" using assms(1) by (simp add: deliveries_inv_def)
  finally show False using n by simp
qed

section \<open>Updates\<close>

lemma on_deliveries_simps [simp]:
  "deliveries (on_deliveries P f d) = update_where P f (deliveries d)" "lastOrder (on_deliveries P f d) = lastOrder d"
  "automations (on_deliveries P f d) = automations d"
  by (simp_all add: on_deliveries_def)

lemma on_automations_simps [simp]:
  "deliveries (on_automations P f d) = deliveries d" "lastOrder (on_automations P f d) = lastOrder d"
  "automations (on_automations P f d) = update_where P f (automations d)"
  by (simp_all add: on_automations_def)

lemma auto_moves_updateI:
  assumes i: "deliveries_inv d"
    and l: "\<And>v. v \<in> set (deliveries d) \<Longrightarrow> P v \<Longrightarrow> delivery_ev v (f v)"
    and o: "in_order (update_where P f (deliveries d))"
    and n: "\<And>j. length (dispatching_of j (update_where P f (deliveries d))) \<le> 1"
  shows "auto_moves d (on_deliveries P f d)"
proof -
  let ?vs = "deliveries d" let ?ws = "update_where P f ?vs"
  have e: "evolves delivery_ev delivery_ok ?vs ?ws" by (rule delivery_rows.update) (rule l)
  have s: "same_delivery v (f v)" if "v \<in> set ?vs" "P v" for v using l[OF that] by (simp add: delivery_ev_def)
  have m: "map dvID ?ws = map dvID ?vs" "map dvOrder ?ws = map dvOrder ?vs"
      "map (\<lambda>v. (dvAutomation v, dvKey v)) ?ws = map (\<lambda>v. (dvAutomation v, dvKey v)) ?vs"
    using s by (auto simp: update_where_def same_delivery_def)
  moreover have "list_all (\<lambda>v. dvOrder v \<le> lastOrder d) ?ws"
    using i m(2) unfolding deliveries_inv_def list_all_iff by (metis (no_types, lifting) image_iff list.set_map)
  moreover have "list_all delivery_ok ?ws"
    using i delivery_rows.new_row[OF e] delivery_rows.row_new unfolding deliveries_inv_def list_all_iff by blast
  ultimately have "deliveries_inv (on_deliveries P f d)" using i o n by (simp add: deliveries_inv_def)
  with e show ?thesis by (simp add: auto_moves_def)
qed

text \<open>An update that decides pending deliveries, or ends claimed ones.\<close>

lemma auto_moves_update:
  assumes i: "deliveries_inv d"
    and l: "\<And>v. v \<in> set (deliveries d) \<Longrightarrow> P v \<Longrightarrow> delivery_ev v (f v)"
    and c: "\<And>v. v \<in> set (deliveries d) \<Longrightarrow> P v \<Longrightarrow> claimed_state (dvState (f v)) \<Longrightarrow> claimed_state (dvState v)"
    and n: "\<And>v. v \<in> set (deliveries d) \<Longrightarrow> P v \<Longrightarrow> dvState (f v) = ''dispatching'' \<Longrightarrow> f v = v"
  shows "auto_moves d (on_deliveries P f d)"
proof (rule auto_moves_updateI[OF i l])
  let ?vs = "deliveries d" let ?ws = "update_where P f ?vs"
  have old: "\<exists>v \<in> set ?vs. dvAutomation v = dvAutomation w \<and> dvOrder v = dvOrder w \<and>
      (claimed_state (dvState w) \<longrightarrow> claimed_state (dvState v)) \<and> (dvState w = ''pending'' \<longrightarrow> dvState v = ''pending'')"
    if w: "w \<in> set ?ws" for w
  proof -
    from w obtain v where v: "v \<in> set ?vs" "w = (if P v then f v else v)" by (auto simp: set_update_where)
    show ?thesis
    proof (cases "P v")
      case True
      from l[OF v(1) True] have "dvState (f v) = ''pending'' \<Longrightarrow> dvState v = ''pending''" "same_delivery v (f v)"
        by (auto simp: delivery_ev_def)
      with True v c[OF v(1) True] show ?thesis by (auto simp: same_delivery_def intro!: bexI[of _ v])
    qed (use v in auto)
  qed
  show "in_order ?ws" using i old unfolding deliveries_inv_def in_order_def by (metis (no_types, lifting))
  show "length (dispatching_of j ?ws) \<le> 1" for j
  proof -
    have "length (dispatching_of j ?ws) \<le> length (dispatching_of j ?vs)"
      unfolding dispatching_of_def
    proof (rule filter_all2_le[of "\<lambda>v w. delivery_ev v w \<and> (dvState w = ''dispatching'' \<longrightarrow> w = v)"])
      show "list_all2 (\<lambda>v w. delivery_ev v w \<and> (dvState w = ''dispatching'' \<longrightarrow> w = v)) ?vs ?ws"
        by (rule list_all2_update_where) (auto simp: delivery_rows.row_refl l n)
    qed auto
    then show ?thesis using i by (simp add: deliveries_inv_def) (metis le_trans)
  qed
qed

lemma runs_kept_update:
  assumes "\<And>v. v \<in> set (deliveries d) \<Longrightarrow> P v \<Longrightarrow> dvRun (f v) = dvRun v \<and> dvSnapshot (f v) = dvSnapshot v"
  shows "runs_kept d (on_deliveries P f d)"
  unfolding runs_kept_def
proof (intro ballI impI)
  fix y assume "y \<in> set (deliveries (on_deliveries P f d))"
  then obtain x where x: "x \<in> set (deliveries d)" "y = (if P x then f x else x)" by (auto simp: set_update_where)
  then have "dvRun x = dvRun y \<and> dvSnapshot x = dvSnapshot y" using assms[OF x(1)] by simp
  with x(1) show "\<exists>u \<in> set (deliveries d). dvRun u = dvRun y \<and> dvSnapshot u = dvSnapshot y" by blast
qed

lemma auto_good_update:
  assumes "deliveries_inv d" "\<And>v. v \<in> set (deliveries d) \<Longrightarrow> P v \<Longrightarrow> delivery_ev v (f v)"
    "\<And>v. v \<in> set (deliveries d) \<Longrightarrow> P v \<Longrightarrow> claimed_state (dvState (f v)) \<Longrightarrow> claimed_state (dvState v)"
    "\<And>v. v \<in> set (deliveries d) \<Longrightarrow> P v \<Longrightarrow> dvState (f v) = ''dispatching'' \<Longrightarrow> f v = v"
    "\<And>v. v \<in> set (deliveries d) \<Longrightarrow> P v \<Longrightarrow> dvRun (f v) = dvRun v"
  shows "auto_good d (on_deliveries P f d)"
  unfolding auto_good_def
proof
  show "auto_moves d (on_deliveries P f d)" by (rule auto_moves_update) (fact assms)+
  show "runs_kept d (on_deliveries P f d)"
    using assms(2,5) by (intro runs_kept_update) (auto simp: delivery_ev_def same_delivery_def)
qed

lemma good_cancel_pending: "deliveries_inv d \<Longrightarrow> auto_good d (cancel_pending w i code d)"
  unfolding cancel_pending_def
  by (rule auto_good_update) (auto simp: delivery_ev_def same_delivery_def delivery_ok_def open_state_def claimed_state_def)

lemma good_on_automations: "deliveries_inv d \<Longrightarrow> auto_good d (on_automations P f d)"
  by (rule auto_good_same) simp_all

section \<open>Inserts\<close>

lemma insertDelivery_cases:
  assumes "insertDelivery a i key digest source state code scheduled now d = Inr d'"
  obtains v where "d' = d\<lparr>deliveries := deliveries d @ [v], lastOrder := lastOrder d + 1\<rparr>" "dvID v = tiID i" "dvOrder v = lastOrder d + 1"
    "dvWorkspace v = auWorkspace a" "dvAutomation v = auID a" "dvKey v = key" "dvDigest v = digest" "dvSource v = source"
    "dvSnapshot v = snapshot_of i" "dvConversation v = tiConversation i" "dvRun v = None" "dvState v = state" "dvScheduled v = scheduled"
    "dvCreated v = now" "\<And>w. w \<in> set (deliveries d) \<Longrightarrow> dvID w \<noteq> tiID i \<and> \<not> (dvAutomation w = auID a \<and> dvKey w = key)"
proof -
  let ?v = "\<lparr>dvID = tiID i, dvOrder = lastOrder d + 1, dvWorkspace = auWorkspace a,
          dvAutomation = auID a, dvKey = key, dvDigest = digest, dvSource = source, dvSnapshot = snapshot_of i,
          dvConversation = tiConversation i, dvRun = None, dvState = state, dvCode = code, dvScheduled = scheduled,
          dvCreated = now\<rparr>"
  have d': "d' = d\<lparr>deliveries := deliveries d @ [?v], lastOrder := lastOrder d + 1\<rparr>"
      "\<not> list_ex (\<lambda>v. dvID v = tiID i \<or> dvAutomation v = auID a \<and> dvKey v = key) (deliveries d)"
    using assms by (auto simp: insertDelivery_def split: option.splits if_split_asm)
  then show ?thesis by (intro that[of ?v]) (auto simp: list_ex_iff)
qed

lemma snapshot_of_simps [simp]:
  "tiID (snapshot_of i) = tiID i" "tiWorkspace (snapshot_of i) = tiWorkspace i" "tiConversation (snapshot_of i) = tiConversation i"
  "tiUser (snapshot_of i) = tiUser i"
  by (simp_all add: snapshot_of_def Let_def)

lemma good_insertDelivery:
  assumes i: "deliveries_inv d" and e: "insertDelivery a t key digest source state code scheduled now d = Inr d'"
    and w: "tiWorkspace t = auWorkspace a" and s: "state \<in> {''pending'', ''skipped''}"
  shows "auto_good d d'"
  using e
proof (rule insertDelivery_cases)
  fix v
  assume d': "d' = d\<lparr>deliveries := deliveries d @ [v], lastOrder := lastOrder d + 1\<rparr>"
    and v: "dvID v = tiID t" "dvOrder v = lastOrder d + 1" "dvWorkspace v = auWorkspace a" "dvAutomation v = auID a" "dvKey v = key"
      "dvSnapshot v = snapshot_of t" "dvConversation v = tiConversation t" "dvRun v = None" "dvState v = state"
    and new: "\<And>w. w \<in> set (deliveries d) \<Longrightarrow> dvID w \<noteq> tiID t \<and> \<not> (dvAutomation w = auID a \<and> dvKey w = key)"
  have ok: "delivery_ok v" using v w s by (auto simp: delivery_ok_def)
  have below: "dvOrder w < dvOrder v" if "w \<in> set (deliveries d)" for w
    using i that v(2) by (auto simp: deliveries_inv_def list_all_iff dest!: bspec)
  have no: "\<not> claimed_state (dvState v)" "dvState v \<noteq> ''dispatching''" using s v(9) by (auto simp: claimed_state_def)
  have "in_order (deliveries d @ [v])"
    using i below no(1) unfolding deliveries_inv_def in_order_def by auto
  moreover have "dispatching_of j (deliveries d @ [v]) = dispatching_of j (deliveries d)" for j
    using no(2) by (simp add: dispatching_of_def)
  moreover have "list_all (\<lambda>w. dvOrder w \<le> lastOrder d + 1) (deliveries d)"
    using i by (auto simp: deliveries_inv_def list_all_iff dest!: bspec)
  moreover have "dvID v \<notin> dvID ` set (deliveries d)" using new v(1) by fastforce
  moreover have "(dvAutomation v, dvKey v) \<notin> (\<lambda>v. (dvAutomation v, dvKey v)) ` set (deliveries d)"
    using new v(4,5) by fastforce
  ultimately have "deliveries_inv d'"
    using i ok below v(2) by (auto simp: deliveries_inv_def d' sorted_wrt_append)
  moreover have "runs_kept d d'" using v(8) by (auto simp: runs_kept_def d')
  ultimately show ?thesis by (simp add: auto_good_def auto_moves_def d' delivery_rows.add[OF ok])
qed

section \<open>The operations\<close>

lemma saveTx_cases:
  assumes "saveTx env w u i c0 vsn now rnd cd d = Inr (x, secret, d')"
  obtains (existing) y where "vsn = 0" "List.find (live_automation w u i) (automations d) = Some y" "x = y" "d' = d"
      "config_json (auConfig y) = config_json (normalize_config c0)" "secret = []"
  | (created) nxt d1 where "vsn = 0" "validateSchedule env w (normalize_config c0) now d = Inr nxt" "i \<noteq> uuid_nil"
      "trigger_authorized cd w u" "List.find (live_automation w u i) (automations d) = None"
      "create_automation w u i (normalize_config c0) nxt now rnd d = Inr (secret, d1)"
      "d' = (if acEnabled c0 then d1 else cancel_pending w i ''paused'' d1)"
      "List.find (\<lambda>a. auWorkspace a = w \<and> auID a = i) (automations d') = Some x"
  | (updated) nxt d1 where "0 < vsn" "validateSchedule env w (normalize_config c0) now d = Inr nxt" "i \<noteq> uuid_nil"
      "trigger_authorized cd w u" "update_automation w u i (normalize_config c0) nxt vsn d = Inr d1"
      "d' = (if acEnabled c0 then d1 else cancel_pending w i ''paused'' d1)" "secret = []"
      "List.find (\<lambda>a. auWorkspace a = w \<and> auID a = i) (automations d') = Some x"
proof -
  have en: "acEnabled (normalize_config c0) = acEnabled c0" by (simp add: normalize_config_def)
  from assms obtain nxt where v: "validateSchedule env w (normalize_config c0) now d = Inr nxt" "i \<noteq> uuid_nil" "0 \<le> vsn"
      "trigger_authorized cd w u"
    by (auto simp: saveTx_def Let_def split: if_split_asm elim!: bindrE)
  show ?thesis
  proof (cases "vsn = 0 \<and> List.find (live_automation w u i) (automations d) \<noteq> None")
    case True
    then obtain y where y: "List.find (live_automation w u i) (automations d) = Some y" by blast
    with True v assms have "config_json (auConfig y) = config_json (normalize_config c0) \<and> x = y \<and> d' = d \<and> secret = []"
      by (simp add: saveTx_def Let_def split: if_split_asm)
    with True y show ?thesis by (intro existing[of y]) simp_all
  next
    case False
    show ?thesis
    proof (cases "vsn = 0")
      case True
      with False v assms en show ?thesis
        by (auto simp: saveTx_def Let_def elim!: bindrE intro!: created)
    next
      case n: False
      with v assms en show ?thesis
        by (auto simp: saveTx_def Let_def elim!: bindrE intro!: updated)
    qed
  qed
qed

lemma good_create_automation: "create_automation w u i c next now rnd d = Inr (secret, d') \<Longrightarrow> deliveries_inv d \<Longrightarrow> auto_good d d'"
  by (rule auto_good_same) (auto simp: create_automation_def insert_automation_def Let_def split: if_split_asm prod.splits elim!: bindrE)

lemma good_update_automation: "update_automation w u i c next vsn d = Inr d' \<Longrightarrow> deliveries_inv d \<Longrightarrow> auto_good d d'"
  by (rule auto_good_same) (auto simp: update_automation_def Let_def split: if_split_asm)

lemma good_saveTx:
  assumes "saveTx env w u i c vsn now rnd cd d = Inr (x, secret, d')" "deliveries_inv d"
  shows "auto_good d d'"
  using assms(1)
proof (cases rule: saveTx_cases)
  case existing
  then show ?thesis by (simp add: auto_good_refl assms(2))
next
  case (created nxt d1)
  note g = good_create_automation[OF created(6) assms(2)]
  from auto_good_trans[OF g good_cancel_pending[OF auto_good_inv[OF g]]] g created(7) show ?thesis by simp
next
  case (updated nxt d1)
  note g = good_update_automation[OF updated(5) assms(2)]
  from auto_good_trans[OF g good_cancel_pending[OF auto_good_inv[OF g]]] g updated(6) show ?thesis by simp
qed

lemma good_Delete: "Delete w u i vsn d = Inr d' \<Longrightarrow> deliveries_inv d \<Longrightarrow> auto_good d d'"
  by (auto simp: Delete_def Let_def split: if_split_asm
      intro: auto_good_trans[OF good_on_automations good_cancel_pending[OF auto_good_inv[OF good_on_automations]]])

lemma good_Rotate: "Rotate w u i vsn rnd d = Inr (x, t, d') \<Longrightarrow> deliveries_inv d \<Longrightarrow> auto_good d d'"
  by (auto simp: Rotate_def Let_def split: option.splits prod.splits intro: good_on_automations)

lemma acceptDelivery_cases:
  assumes "acceptDelivery a t key digest source now d = Inr (v, d')"
  obtains (again) "d' = d" "v \<in> set (deliveries d)" "dvWorkspace v = auWorkspace a" "dvAutomation v = auID a" "dvKey v = key" "dvDigest v = digest"
  | (new) "insertDelivery a t key digest source ''pending'' [] None now d = Inr d'"
      "length (filter (\<lambda>v. dvWorkspace v = auWorkspace a \<and> dvAutomation v = auID a \<and> dvState v = ''pending'') (deliveries d)) < 20"
      "length (filter (\<lambda>v. dvWorkspace v = auWorkspace a \<and> dvAutomation v = auID a \<and> now - minute < dvCreated v) (deliveries d)) < 30"
      "List.find (\<lambda>v. dvWorkspace v = auWorkspace a \<and> dvID v = tiID t) (deliveries d') = Some v"
proof (cases "List.find (\<lambda>v. (dvWorkspace v = auWorkspace a \<and> dvAutomation v = auID a) \<and> dvKey v = key) (deliveries d)")
  case None
  with assms show ?thesis by (auto simp: acceptDelivery_def Let_def split: if_split_asm elim!: bindrE intro!: new)
next
  case (Some y)
  with assms have "y = v" "d' = d" "dvDigest y = digest" by (auto simp: acceptDelivery_def Let_def split: if_split_asm)
  with find_Some_in[OF Some] show ?thesis by (intro again) simp_all
qed

lemma good_acceptDelivery:
  assumes "acceptDelivery a t key digest source now d = Inr (v, d')" "deliveries_inv d" "tiWorkspace t = auWorkspace a"
  shows "auto_good d d'"
  using assms(1)
proof (cases rule: acceptDelivery_cases)
  case again
  then show ?thesis by (simp add: auto_good_refl assms(2))
next
  case new
  from good_insertDelivery[OF assms(2) new(1) assms(3)] show ?thesis by simp
qed

lemma newInput_simps [simp]:
  "tiID (newInput i c a) = i" "tiWorkspace (newInput i c a) = auWorkspace a" "tiUser (newInput i c a) = auUser a"
  "tiConversation (newInput i c a) = c" "tiConfig (newInput i c a) = auConfig a"
  by (simp_all add: newInput_def)

lemma webhook_input_simps [simp]:
  "tiID (webhook_input i c p a) = i" "tiWorkspace (webhook_input i c p a) = auWorkspace a" "tiUser (webhook_input i c p a) = auUser a"
  "tiConversation (webhook_input i c p a) = c"
  by (simp_all add: webhook_input_def Let_def)

lemma Webhook_cases:
  assumes "Webhook i token key payload n c now cd d = Inr (v, d')"
  obtains a where "a \<in> set (automations d)" "auID a = i" "acKind (auConfig a) = ''webhook''" "\<not> auDeleted a"
    "auHash a = Some (sha256 token)" "acEnabled (auConfig a)" "trigger_authorized cd (auWorkspace a) (auUser a)" "event_key_ok key"
    "json_valid payload" "length payload \<le> 32768" "length token \<le> 100"
    "List.find (\<lambda>a. auID a = i \<and> acKind (auConfig a) = ''webhook'' \<and> \<not> auDeleted a) (automations d) = Some a"
    "acceptDelivery a (webhook_input n c payload a) (''webhook:'' @ key) (sha256_hex payload) ''webhook'' now d = Inr (v, d')"
  using assms by (auto simp: Webhook_def split: if_split_asm option.splits dest: find_Some_in)

lemma good_Webhook: "Webhook i token key payload n c now cd d = Inr (v, d') \<Longrightarrow> deliveries_inv d \<Longrightarrow> auto_good d d'"
  by (erule Webhook_cases) (erule good_acceptDelivery, simp_all)

lemma Trigger_cases:
  assumes "Trigger w u i delivery c now d = Inr (v, d')"
  obtains a where "List.find (live_automation w u i) (automations d) = Some a" "delivery \<noteq> uuid_nil"
    "acceptDelivery a (newInput delivery c a) (''manual:'' @ delivery) ''manual'' ''manual'' now d = Inr (v, d')"
  using assms by (auto simp: Trigger_def split: if_split_asm elim!: bindrE)

lemma good_Trigger: "Trigger w u i delivery c now d = Inr (v, d') \<Longrightarrow> deliveries_inv d \<Longrightarrow> auto_good d d'"
  by (erule Trigger_cases) (erule good_acceptDelivery, simp_all)

lemma enqueue_one_cases:
  assumes "enqueue_one env now stamp ids a cd d = Inr d'" "auNextRun a = Some t"
  obtains state code d1 nxt where "state = (if busy cd d (auID a) \<or> has_pending d (auID a) then ''skipped'' else ''pending'')"
    "insertDelivery a (newInput (fst ids) (snd ids) a) (schedule_key t) ''schedule'' ''schedule'' state code (Some t) stamp d = Inr d1"
    "(if acCron (auConfig a) = [] then Inr None else nextOccurrence env (auConfig a) now) = Inr nxt"
    "d' = on_automations (\<lambda>x. auID x = auID a \<and> auWorkspace x = auWorkspace a)
            (\<lambda>x. x\<lparr>auNextRun := trim_run_at nxt, auRevision := auRevision x + 1\<rparr>) d1"
proof -
  let ?state = "if busy cd d (auID a) \<or> has_pending d (auID a) then ''skipped'' else ''pending''"
  let ?code = "if busy cd d (auID a) \<or> has_pending d (auID a) then ''busy'' else []"
  have e: "(if busy cd d (auID a) \<or> has_pending d (auID a) then (''skipped'', ''busy'') else (''pending'', [])) = (?state, ?code)" by simp
  from assms obtain d1 nxt where
    "insertDelivery a (newInput (fst ids) (snd ids) a) (schedule_key t) ''schedule'' ''schedule'' ?state ?code (Some t) stamp d = Inr d1"
    "(if acCron (auConfig a) = [] then Inr None else nextOccurrence env (auConfig a) now) = Inr nxt"
    "d' = on_automations (\<lambda>x. auID x = auID a \<and> auWorkspace x = auWorkspace a)
            (\<lambda>x. x\<lparr>auNextRun := trim_run_at nxt, auRevision := auRevision x + 1\<rparr>) d1"
    unfolding enqueue_one_def e Let_def by (auto elim!: bindrE)
  then show ?thesis by (rule that[OF refl])
qed

lemma good_enqueue_one:
  assumes "enqueue_one env now stamp ids a cd d = Inr d'" "deliveries_inv d"
  shows "auto_good d d'"
proof (cases "auNextRun a")
  case None
  with assms show ?thesis by (auto simp: enqueue_one_def intro: auto_good_refl)
next
  case (Some t)
  from assms(1) Some show ?thesis
  proof (cases rule: enqueue_one_cases)
    case (1 state code d1 nxt)
    have g: "auto_good d d1" by (rule good_insertDelivery[OF assms(2) 1(2)]) (simp_all add: 1(1))
    from auto_good_trans[OF g good_on_automations[OF auto_good_inv[OF g]]] show ?thesis by (simp add: 1(4))
  qed
qed

lemma good_enqueue_all: "enqueue_all env now stamp as cd d = Inr d' \<Longrightarrow> deliveries_inv d \<Longrightarrow> auto_good d d'"
proof (induction env now stamp as cd d rule: enqueue_all.induct)
  case (1 env now stamp cd d)
  then show ?case by (simp add: auto_good_refl)
next
  case (2 env now stamp a ids as cd d)
  then obtain d1 where d1: "enqueue_one env now stamp ids a cd d = Inr d1" "enqueue_all env now stamp as cd d1 = Inr d'"
    by (auto elim!: bindrE)
  note g = good_enqueue_one[OF d1(1) 2(3)]
  from auto_good_trans[OF g] 2(1)[OF d1(1)] d1(2) auto_good_inv[OF g] show ?case by blast
qed

lemma good_enqueueDue: "enqueueDue env locked now stamp ids cd d = Inr d' \<Longrightarrow> deliveries_inv d \<Longrightarrow> auto_good d d'"
  by (simp add: enqueueDue_def good_enqueue_all)

text \<open>The claim.\<close>

lemma claim_cases:
  assumes "claim_delivery i cd d = Inr (k, d')"
  obtains (kept) "d' = d" "\<And>t. k \<noteq> Claimed t" "\<And>t. k = Reconcile t \<Longrightarrow> \<exists>v \<in> set (deliveries d). dvID v = i \<and>
      dvState v \<in> {''dispatching'', ''unknown''} \<and> t = dvSnapshot v \<and> tiID t = i \<and> tiWorkspace t = dvWorkspace v"
  | (ended) v state code where "v \<in> set (deliveries d)" "dvID v = i" "dvState v = ''pending''" "state \<in> {''cancelled'', ''failed''}"
      "d' = set_delivery (dvWorkspace v) i state code d" "\<And>t. k \<noteq> Claimed t" "\<And>t. k \<noteq> Reconcile t"
  | (claimed) v a where "v \<in> set (deliveries d)" "dvID v = i" "dvState v = ''pending''" "k = Claimed (dvSnapshot v)"
      "tiID (dvSnapshot v) = i" "tiWorkspace (dvSnapshot v) = dvWorkspace v" "a \<in> set (automations d)" "auWorkspace a = dvWorkspace v"
      "auID a = dvAutomation v" "\<not> auDeleted a" "acEnabled (auConfig a) \<or> dvSource v = ''manual''"
      "\<not> busy cd d (dvAutomation v)" "trigger_authorized cd (dvWorkspace v) (tiUser (dvSnapshot v))" "\<not> earlier_pending d v"
      "d' = on_deliveries (\<lambda>x. dvWorkspace x = dvWorkspace v \<and> dvID x = i) (\<lambda>x. x\<lparr>dvState := ''dispatching''\<rparr>) d"
proof (cases "find_delivery d i")
  case None
  with assms show ?thesis by (intro kept) (auto simp: claim_delivery_def)
next
  case (Some v)
  then have v: "v \<in> set (deliveries d)" "dvID v = i" using find_Some_in[of _ "deliveries d" v] by (auto simp: find_delivery_def)
  show ?thesis
  proof (cases "List.find (\<lambda>a. auWorkspace a = dvWorkspace v \<and> auID a = dvAutomation v) (automations d)")
    case None
    with Some assms show ?thesis by (simp add: claim_delivery_def)
  next
    case a: (Some a)
    note ain = find_Some_in[OF a]
    show ?thesis
    proof (cases "open_state (dvState v) \<and> dvState v = ''pending'' \<and> (auDeleted a \<or> \<not> acEnabled (auConfig a) \<and> dvSource v \<noteq> ''manual'' \<or>
        \<not> busy cd d (auID a) \<and> \<not> trigger_authorized cd (dvWorkspace v) (tiUser (dvSnapshot v)))")
      case True
      with Some a v assms show ?thesis
        by (auto simp: claim_delivery_def Let_def split: if_split_asm intro: ended[of v])
    next
      case n: False
      show ?thesis
      proof (cases "\<exists>t. k = Claimed t")
        case True
        with Some a v ain n assms show ?thesis
          by (auto simp: claim_delivery_def Let_def split: if_split_asm intro!: claimed[of v a])
      next
        case False
        with Some a v n assms show ?thesis
          by (intro kept) (auto simp: claim_delivery_def Let_def open_state_def split: if_split_asm intro!: bexI[of _ v])
      qed
    qed
  qed
qed

lemma good_set_delivery:
  assumes "deliveries_inv d" "v \<in> set (deliveries d)" "dvState v = ''pending''" "state \<in> {''cancelled'', ''failed''}"
  shows "auto_good d (set_delivery w (dvID v) state code d)"
proof -
  let ?P = "\<lambda>x. dvWorkspace x = w \<and> dvID x = dvID v" let ?f = "\<lambda>x. x\<lparr>dvState := state, dvCode := code\<rparr>"
  have only: "x = v" if "x \<in> set (deliveries d)" "?P x" for x using the_delivery[OF assms(1) that(1) assms(2)] that(2) by simp
  have f: "dvState (?f v) = state" "delivery_ev v (?f v)" "\<not> claimed_state state" "state \<noteq> ''dispatching''"
    using assms(3,4) by (auto simp: delivery_ev_def same_delivery_def delivery_ok_def open_state_def claimed_state_def)
  show ?thesis unfolding set_delivery_def
  proof (rule auto_good_update[OF assms(1)])
    fix x assume x: "x \<in> set (deliveries d)" "?P x"
    show "delivery_ev x (?f x)" using f(2) unfolding only[OF x] .
    show "claimed_state (dvState x)" if "claimed_state (dvState (?f x))" using that f(3) by simp
    show "?f x = x" if "dvState (?f x) = ''dispatching''" using that f(4) by simp
    show "dvRun (?f x) = dvRun x" by simp
  qed
qed

lemma updated_row:
  assumes "y \<in> set (update_where P f xs)"
  obtains "y \<in> set xs" "\<not> P y" | x where "x \<in> set xs" "P x" "y = f x"
  using assms by (auto simp: set_update_where split: if_split_asm)

lemma filter_eq_le: "distinct xs \<Longrightarrow> length (filter (\<lambda>x. x = v) xs) \<le> 1"
  by (induction xs) (auto simp: filter_empty_conv)

lemma filter_update_le:
  "(\<And>x. x \<in> set xs \<Longrightarrow> Q (if P x then f x else x) \<Longrightarrow> R x) \<Longrightarrow> length (filter Q (update_where P f xs)) \<le> length (filter R xs)"
  by (induction xs) auto

lemma good_claimed:
  assumes i: "deliveries_inv d" and v: "v \<in> set (deliveries d)" "dvState v = ''pending''" "\<not> busy cd d (dvAutomation v)" "\<not> earlier_pending d v"
  shows "auto_good d (on_deliveries (\<lambda>x. dvWorkspace x = w \<and> dvID x = dvID v) (\<lambda>x. x\<lparr>dvState := ''dispatching''\<rparr>) d)"
  unfolding auto_good_def
proof (intro conjI auto_moves_updateI[OF i] runs_kept_update)
  let ?P = "\<lambda>x. dvWorkspace x = w \<and> dvID x = dvID v" let ?f = "\<lambda>x :: auto_delivery. x\<lparr>dvState := ''dispatching''\<rparr>"
  show "dvRun (?f x) = dvRun x" "dvSnapshot (?f x) = dvSnapshot x" for x by simp_all
  have only: "x = v" if "x \<in> set (deliveries d)" "?P x" for x using the_delivery[OF i that(1) v(1)] that(2) by simp
  have eq: "?P x \<Longrightarrow> x = v" if "x \<in> set (deliveries d)" for x using only[OF that] .
  have free: "dvState x \<noteq> ''dispatching''" if "x \<in> set (deliveries d)" "dvAutomation x = dvAutomation v" for x
    using v(3) that by (auto simp: busy_def list_ex_iff)
  show "delivery_ev x (?f x)" if "x \<in> set (deliveries d)" "?P x" for x
    unfolding only[OF that] using v(2) by (auto simp: delivery_ev_def same_delivery_def delivery_ok_def open_state_def)
  have first: "dvOrder v < dvOrder x" if "x \<in> set (deliveries d)" "dvAutomation x = dvAutomation v" "dvState x = ''pending''" "x \<noteq> v" for x
  proof -
    have "\<not> dvOrder x < dvOrder v" using v(4) that by (auto simp: earlier_pending_def list_ex_iff)
    moreover have "distinct (map dvOrder (deliveries d))" using i by (auto simp: deliveries_inv_def strict_sorted_iff)
    then have "dvOrder x \<noteq> dvOrder v" using distinct_key that(1,4) v(1) by metis
    ultimately show ?thesis by simp
  qed
  show "in_order (update_where ?P ?f (deliveries d))"
    unfolding in_order_def
  proof (intro ballI impI)
    fix x y
    assume x: "x \<in> set (update_where ?P ?f (deliveries d))" and y: "y \<in> set (update_where ?P ?f (deliveries d))"
      and s: "dvAutomation y = dvAutomation x" "claimed_state (dvState x)" "dvState y = ''pending''"
    from y have y': "y \<in> set (deliveries d) \<and> \<not> ?P y" by (rule updated_row) (use s(3) in simp_all)
    show "dvOrder x < dvOrder y"
      using x
    proof (rule updated_row)
      assume "x \<in> set (deliveries d)"
      with i y' s show ?thesis by (simp add: deliveries_inv_def in_order_def)
    next
      fix z assume z: "z \<in> set (deliveries d)" "?P z" "x = ?f z"
      then have e: "x = ?f v" "?P v" using eq[of z] by simp_all
      then have "y \<noteq> v" using y' by blast
      then show ?thesis using first[of y] y' s e(1) by simp
    qed
  qed
  show "length (dispatching_of j (update_where ?P ?f (deliveries d))) \<le> 1" for j
  proof -
    have a: "length (dispatching_of j (update_where ?P ?f (deliveries d))) \<le>
        length (filter (\<lambda>x. dvAutomation x = j \<and> (dvState x = ''dispatching'' \<or> x = v)) (deliveries d))"
      unfolding dispatching_of_def
    proof (rule filter_update_le)
      fix x assume "x \<in> set (deliveries d)" "dvAutomation (if ?P x then ?f x else x) = j \<and> dvState (if ?P x then ?f x else x) = ''dispatching''"
      then show "dvAutomation x = j \<and> (dvState x = ''dispatching'' \<or> x = v)" using eq[of x] by (cases "?P x") simp_all
    qed
    show ?thesis
    proof (cases "j = dvAutomation v")
      case True
      have "filter (\<lambda>x. dvAutomation x = j \<and> (dvState x = ''dispatching'' \<or> x = v)) (deliveries d) = filter (\<lambda>x. x = v) (deliveries d)"
        using free v(1) by (intro filter_cong refl) (auto simp only: True)
      moreover have "length (filter (\<lambda>x. x = v) (deliveries d)) \<le> 1"
        using i by (intro filter_eq_le) (simp add: deliveries_inv_def distinct_map)
      ultimately show ?thesis using a by simp
    next
      case False
      then have "filter (\<lambda>x. dvAutomation x = j \<and> (dvState x = ''dispatching'' \<or> x = v)) (deliveries d) = dispatching_of j (deliveries d)"
        unfolding dispatching_of_def by (intro filter_cong refl) blast
      moreover have "length (dispatching_of j (deliveries d)) \<le> 1" using i by (simp add: deliveries_inv_def)
      ultimately show ?thesis using a by simp
    qed
  qed
qed

lemma good_claim:
  assumes "claim_delivery i cd d = Inr (k, d')" "deliveries_inv d"
  shows "auto_good d d'"
  using assms(1)
proof (cases rule: claim_cases)
  case kept
  then show ?thesis by (simp add: auto_good_refl assms(2))
next
  case (ended v state code)
  from good_set_delivery[OF assms(2) ended(1,3,4)] show ?thesis unfolding ended(5) ended(2)[symmetric] .
next
  case (claimed v a)
  from good_claimed[OF assms(2) claimed(1,3,12,14)] show ?thesis unfolding claimed(15) claimed(2)[symmetric] .
qed

lemma moves_acceptReceipt: "deliveries_inv d \<Longrightarrow> auto_moves d (acceptReceipt t r d)"
  unfolding acceptReceipt_def
  by (rule auto_moves_update) (auto simp: delivery_ev_def same_delivery_def delivery_ok_def open_state_def claimed_state_def)

lemma good_unknown: "deliveries_inv d \<Longrightarrow> auto_good d (reconcile t None d)"
  by (auto simp: reconcile_def delivery_ev_def same_delivery_def delivery_ok_def open_state_def claimed_state_def intro!: auto_good_update)

lemma reconcile_Some [simp]: "reconcile t (Some r) d = acceptReceipt t r d"
  by (simp add: reconcile_def)

lemma good_ApplySchedule: "ApplySchedule env c r u p now later rnd cd d = Inr d' \<Longrightarrow> deliveries_inv d \<Longrightarrow> auto_good d d'"
  by (auto simp: ApplySchedule_def Let_def split: option.splits if_split_asm elim!: bindrE) (erule good_saveTx)

end
