(* ===== verification/AutoSystem.thy ===== *)
theory AutoSystem
  imports AutoInvariant ConvOnce
begin

text \<open>
  The automation service beside the conversation service, as one step relation.  A dispatcher is
  a process of any replica: it locks a delivery, claims it, calls \<open>Start\<close> and writes the receipt;
  it may crash, and its advisory lock may get lost, at any point.  \<open>Start\<close>
  (\<open>triggered_tasks.go\<close>) is several transactions on the conversation database, between which the
  sessions, the users and the other dispatchers go on.
\<close>

section \<open>Starting a triggered task\<close>

text \<open>\<open>Submission\<close>: the run of an accepted submission.\<close>

definition Submission :: "db \<Rightarrow> uuid \<Rightarrow> uuid \<Rightarrow> uuid \<Rightarrow> uuid \<Rightarrow> run option" where
  "Submission cd w u c s = List.find (\<lambda>r. owned_conversation cd w c \<noteq> None \<and> rnConversation r = c \<and>
     rnSubmittedBy r = Some u \<and> rnSubmission r = Some s) (runs cd)"

definition trigger_receipt :: "trigger_input \<Rightarrow> db \<Rightarrow> run option" where
  "trigger_receipt t cd = Submission cd (tiWorkspace t) (tiUser t) (tiConversation t) (tiID t)"

text \<open>The identities \<open>StartTriggeredTask\<close> requires.\<close>

definition trigger_identity :: "trigger_input \<Rightarrow> bool" where
  "trigger_identity t = (tiID t \<noteq> uuid_nil \<and> tiConversation t \<noteq> uuid_nil \<and> acProject (tiConfig t) \<noteq> uuid_nil \<and> acModel (tiConfig t) \<noteq> uuid_nil)"

definition trigger_submission :: "trigger_input \<Rightarrow> submission" where
  "trigger_submission t = \<lparr>smID = tiID t, smContent = acPrompt (tiConfig t), smAttachments = [], smContexts = [],
     smReferences = [], smExecMode = ''execute'', smPermMode = acPermission (tiConfig t)\<rparr>"

definition trigger_digest :: "trigger_input \<Rightarrow> string \<Rightarrow> string" where
  "trigger_digest t perm = submissionDigest (acPrompt (tiConfig t)) [] [] [] ''execute'' perm"

definition trigger_accepted :: "trigger_input \<Rightarrow> string \<Rightarrow> db \<Rightarrow> err + uuid option" where
  "trigger_accepted t perm cd =
     acceptedSubmission cd (tiWorkspace t) (tiUser t) (tiConversation t) (tiID t) (trigger_digest t perm)"

text \<open>\<open>createWithID\<close>: \<open>fallback\<close> is the default model of the workspace.\<close>

definition createWithID :: "auto_env \<Rightarrow> uuid option \<Rightarrow> uuid \<Rightarrow> uuid \<Rightarrow> string \<Rightarrow> uuid \<Rightarrow> uuid \<Rightarrow> db \<Rightarrow> auto_db \<Rightarrow> err + (db \<times> auto_db)" where
  "createWithID env fallback c w agent model project cd d =
     (let slug = (if agent = [] then ''lester'' else agent) in
      if \<not> known_agent env w slug d then Inl (OtherErr ''agent unavailable'')
      else if model \<noteq> uuid_nil \<and> \<not> list_ex (\<lambda>(i, ws, on). i = model \<and> on \<and> (ws = w \<or> ws = system_workspace)) (deployments d)
      then Inl (OtherErr ''model unavailable'')
      else if find_conversation cd c \<noteq> None then Inl UniqueViolation
      else Inr (cd\<lparr>conversations := conversations cd @ [\<lparr>cvID = c, cvWorkspace = w,
                  cvModel = (if model \<noteq> uuid_nil then Some model else fallback), cvLastSeq = 0\<rparr>]\<rparr>,
                if project = uuid_nil then d else d\<lparr>taskInfo := taskInfo d @ [(c, project, slug)]\<rparr>))"

section \<open>States\<close>

datatype start_phase = Authorizing | Creating | Sending | Guarded

datatype dispatch =
    DLocked uuid
  | DClaimed trigger_input
  | DStarting trigger_input start_phase
  | DLooking trigger_input
  | DLooked trigger_input "uuid option"
  | DReceipt trigger_input uuid

record auto_state =
  aAuto :: auto_db
  aConv :: session
  aLocks :: "uuid \<Rightarrow> nat option"
  aProcs :: "nat \<Rightarrow> dispatch option"

datatype auto_act =
    AuSession act
  | AuConversation uuid
  | AuAccounts
  | AuTables
  | AuSaved uuid instant
  | AuTask uuid
  | AuDelivered uuid
  | AuEnqueued instant
  | AuLock nat uuid
  | AuClaim nat uuid
  | AuEnded nat
  | AuLost uuid
  | AuStart nat uuid
  | AuStarting nat
  | AuRun uuid uuid
  | AuLookup nat
  | AuReceipt nat uuid

text \<open>The end of a dispatch: its connection closes, which releases its lock.\<close>

definition ended :: "nat \<Rightarrow> auto_state \<Rightarrow> auto_state" where
  "ended p s = s\<lparr>aProcs := (aProcs s)(p := None), aLocks := (\<lambda>i. if aLocks s i = Some p then None else aLocks s i)\<rparr>"

definition phase_of_claim :: "claim \<Rightarrow> dispatch option" where
  "phase_of_claim k = (case k of Claimed t \<Rightarrow> Some (DClaimed t) | Reconcile t \<Rightarrow> Some (DLooking t) | _ \<Rightarrow> None)"

text \<open>\<open>FOR SHARE\<close> on the account and the membership, from the authorization to the end of \<open>Start\<close>.\<close>

definition shares :: "dispatch \<Rightarrow> trigger_input \<Rightarrow> bool" where
  "shares x t = (case x of DStarting t' ph \<Rightarrow> t' = t \<and> ph \<noteq> Authorizing | _ \<Rightarrow> False)"

abbreviation moved :: "nat \<Rightarrow> dispatch \<Rightarrow> auto_state \<Rightarrow> auto_state" where
  "moved p x s \<equiv> s\<lparr>aProcs := (aProcs s)(p := Some x)\<rparr>"

section \<open>Steps\<close>

text \<open>
  \<open>au_conversation\<close> and \<open>au_created\<close>: the foreign keys leave no message of a conversation that
  does not exist.
\<close>

inductive auto_step :: "conv_env \<Rightarrow> auto_env \<Rightarrow> auto_state \<Rightarrow> auto_act \<Rightarrow> auto_state \<Rightarrow> bool" for cenv env where
  au_session: "session_step cenv (aConv s) a t \<Longrightarrow> auto_step cenv env s (AuSession a) (s\<lparr>aConv := t\<rparr>)"
| au_conversation: "createWithID env fallback c w agent model project (store (aConv s)) (aAuto s) = Inr (cd, d) \<Longrightarrow>
    conversation_messages (store (aConv s)) c = [] \<Longrightarrow>
    auto_step cenv env s (AuConversation c) (s\<lparr>aConv := (aConv s)\<lparr>store := cd\<rparr>, aAuto := d\<rparr>)"
| au_accounts: "(\<And>p x t. aProcs s p = Some x \<Longrightarrow> shares x t \<Longrightarrow> trigger_authorized (store (aConv s)\<lparr>members := ms, users := us\<rparr>) (tiWorkspace t) (tiUser t)) \<Longrightarrow>
    auto_step cenv env s AuAccounts (s\<lparr>aConv := (aConv s)\<lparr>store := store (aConv s)\<lparr>members := ms, users := us\<rparr>\<rparr>\<rparr>)"
| au_tables: "auto_step cenv env s AuTables (s\<lparr>aAuto := (aAuto s)\<lparr>projects := ps, deployments := ds, customAgents := cs, commandTasks := ts\<rparr>\<rparr>)"
| au_save: "saveTx env w u i c vsn now rnd (store (aConv s)) (aAuto s) = Inr (x, secret, d) \<Longrightarrow>
    auto_step cenv env s (AuSaved i now) (s\<lparr>aAuto := d\<rparr>)"
| au_delete: "Delete w u i vsn (aAuto s) = Inr d \<Longrightarrow> auto_step cenv env s (AuTask i) (s\<lparr>aAuto := d\<rparr>)"
| au_rotate: "Rotate w u i vsn rnd (aAuto s) = Inr (x, token, d) \<Longrightarrow> auto_step cenv env s (AuTask i) (s\<lparr>aAuto := d\<rparr>)"
| au_apply: "ApplySchedule env c r u (Some p) now later rnd (store (aConv s)) (aAuto s) = Inr d \<Longrightarrow>
    auto_step cenv env s (AuSaved (spID p) later) (s\<lparr>aAuto := d\<rparr>)"
| au_webhook: "Webhook i token key payload n c now (store (aConv s)) (aAuto s) = Inr (v, d) \<Longrightarrow>
    auto_step cenv env s (AuDelivered (dvID v)) (s\<lparr>aAuto := d\<rparr>)"
| au_trigger: "Trigger w u i n c now (aAuto s) = Inr (v, d) \<Longrightarrow>
    auto_step cenv env s (AuDelivered (dvID v)) (s\<lparr>aAuto := d\<rparr>)"
| au_enqueue: "enqueueDue env locked now stamp ids (store (aConv s)) (aAuto s) = Inr d \<Longrightarrow>
    auto_step cenv env s (AuEnqueued now) (s\<lparr>aAuto := d\<rparr>)"
| au_lock: "aLocks s i = None \<Longrightarrow> aProcs s p = None \<Longrightarrow>
    auto_step cenv env s (AuLock p i) (moved p (DLocked i) s\<lparr>aLocks := (aLocks s)(i := Some p)\<rparr>)"
| au_claim: "aProcs s p = Some (DLocked i) \<Longrightarrow> claim_delivery i (store (aConv s)) (aAuto s) = Inr (k, d) \<Longrightarrow>
    auto_step cenv env s (AuClaim p i)
      (case phase_of_claim k of None \<Rightarrow> ended p (s\<lparr>aAuto := d\<rparr>) | Some x \<Rightarrow> moved p x (s\<lparr>aAuto := d\<rparr>))"
| au_ping: "aProcs s p = Some (DClaimed t) \<Longrightarrow> auto_step cenv env s (AuStart p (tiID t)) (moved p (DStarting t Authorizing) s)"
| au_end: "auto_step cenv env s (AuEnded p) (ended p s)"
| au_lost: "auto_step cenv env s (AuLost i) (s\<lparr>aLocks := (aLocks s)(i := None)\<rparr>)"
| au_found: "aProcs s p = Some (DStarting t Authorizing) \<Longrightarrow> trigger_identity t \<Longrightarrow> trigger_authorized (store (aConv s)) (tiWorkspace t) (tiUser t) \<Longrightarrow>
    trigger_receipt t (store (aConv s)) = Some x \<Longrightarrow> auto_step cenv env s (AuStarting p) (moved p (DReceipt t (rnID x)) s)"
| au_authorized: "aProcs s p = Some (DStarting t Authorizing) \<Longrightarrow> trigger_identity t \<Longrightarrow> trigger_authorized (store (aConv s)) (tiWorkspace t) (tiUser t) \<Longrightarrow>
    trigger_receipt t (store (aConv s)) = None \<Longrightarrow> auto_step cenv env s (AuStarting p) (moved p (DStarting t Creating) s)"
| au_created: "aProcs s p = Some (DStarting t Creating) \<Longrightarrow>
    createWithID env fallback (tiConversation t) (tiWorkspace t) (acAgent (tiConfig t)) (acModel (tiConfig t)) (acProject (tiConfig t))
      (store (aConv s)) (aAuto s) = Inr (cd, d) \<Longrightarrow> conversation_messages (store (aConv s)) (tiConversation t) = [] \<Longrightarrow>
    auto_step cenv env s (AuStarting p) (moved p (DStarting t Sending) (s\<lparr>aConv := (aConv s)\<lparr>store := cd\<rparr>, aAuto := d\<rparr>))"
| au_accepted: "aProcs s p = Some (DStarting t ph) \<Longrightarrow> ph = Sending \<or> ph = Guarded \<Longrightarrow>
    permissionMode (acPermission (tiConfig t)) = Some perm \<Longrightarrow> trigger_accepted t perm (store (aConv s)) = Inr (Some r) \<Longrightarrow>
    auto_step cenv env s (AuStarting p) (moved p (DReceipt t r) s)"
| au_guard: "aProcs s p = Some (DStarting t Sending) \<Longrightarrow> permissionMode (acPermission (tiConfig t)) = Some perm \<Longrightarrow>
    trigger_accepted t perm (store (aConv s)) = Inr None \<Longrightarrow> trim_space (acPrompt (tiConfig t)) \<noteq> [] \<Longrightarrow>
    owned_conversation (store (aConv s)) (tiWorkspace t) (tiConversation t) \<noteq> None \<Longrightarrow>
    session_step cenv (aConv s) (Locked (tiConversation t)) cs \<Longrightarrow>
    auto_step cenv env s (AuStarting p) (moved p (DStarting t Guarded) (s\<lparr>aConv := cs\<rparr>))"
| au_run: "aProcs s p = Some (DStarting t Guarded) \<Longrightarrow> permissionMode (acPermission (tiConfig t)) = Some perm \<Longrightarrow>
    held (aConv s) (tiConversation t) = Some (Recovering []) \<Longrightarrow>
    start_submission (envPrepare cenv) (tiWorkspace t) (tiUser t) (tiConversation t) (trigger_submission t) (trigger_digest t perm)
      ''execute'' perm (store (aConv s)) = Inr (r, cd) \<Longrightarrow> x = DReceipt t r \<or> x = DLooking t \<Longrightarrow>
    auto_step cenv env s (AuRun (tiID t) r)
      (moved p x (s\<lparr>aConv := (aConv s)\<lparr>store := cd, held := (held (aConv s))(tiConversation t := Some (Executing r))\<rparr>\<rparr>))"
| au_failed: "aProcs s p = Some (DStarting t ph) \<Longrightarrow> auto_step cenv env s (AuStarting p) (moved p (DLooking t) s)"
| au_lookup: "aProcs s p = Some (DLooking t) \<Longrightarrow>
    auto_step cenv env s (AuLookup p) (moved p (DLooked t (map_option rnID (trigger_receipt t (store (aConv s))))) s)"
| au_reconcile: "aProcs s p = Some (DLooked t rcpt) \<Longrightarrow>
    auto_step cenv env s (AuReceipt p (tiID t)) (ended p (s\<lparr>aAuto := reconcile t rcpt (aAuto s)\<rparr>))"
| au_receipt: "aProcs s p = Some (DReceipt t r) \<Longrightarrow>
    auto_step cenv env s (AuReceipt p (tiID t)) (ended p (s\<lparr>aAuto := acceptReceipt t r (aAuto s)\<rparr>))"

section \<open>The tables over a step\<close>

definition accounts_kept :: "db \<Rightarrow> db \<Rightarrow> bool" where
  "accounts_kept d d' = (members d' = members d \<and> users d' = users d)"

lemma step_accounts: "session_step env s a s' \<Longrightarrow> session_inv s \<Longrightarrow> accounts_kept (store s) (store s')"
proof (induction rule: session_step.induct)
  case (ss_op s a d')
  show ?case using quiet_good[OF db_op_quiet[OF ss_op(1) session_invD(1)[OF ss_op(2)]]] by (simp add: good_def accounts_kept_def)
next
  case (ss_flush publish s n log d')
  obtain os where "d' = (store s)\<lparr>outbox := os\<rparr>"
    by (rule quiet_flush[OF session_invD(1)[OF ss_flush(2)] ss_flush(1)])
  then show ?case by (simp add: accounts_kept_def)
next
  case (ss_recover s c x xs d')
  note i = session_invD(1)[OF ss_recover(3)]
  have "quiet (store s) d'"
    using ss_recover(2) quiet_finishCancelledRun[OF i] quiet_finishFailedRun[OF i]
    by (auto split: if_split_asm elim!: bindrE)
  then show ?case by (simp add: quiet_def good_def accounts_kept_def)
next
  case (ss_submit s c w u sub digest mode perm r d')
  show ?case using start_submission_starts[OF session_invD(1)[OF ss_submit(3)] ss_submit(2)]
    by (simp add: starts_def good_def accounts_kept_def)
next
  case (ss_idle s c w d')
  show ?case using claimQueuedInput_good[OF session_invD(1)[OF ss_idle(3)] ss_idle(2)]
    by (simp add: quiet_def good_def accounts_kept_def)
next
  case (ss_start s c w r d' i)
  show ?case using claimQueuedInput_good[OF session_invD(1)[OF ss_start(4)] ss_start(2)]
    by (simp add: starts_def good_def accounts_kept_def)
qed (simp_all add: accounts_kept_def)

lemma authorized_kept: "accounts_kept d d' \<Longrightarrow> trigger_authorized d' w u = trigger_authorized d w u"
  by (simp add: accounts_kept_def trigger_authorized_def)

text \<open>A run keeps its submission.\<close>

definition receipt_run :: "trigger_input \<Rightarrow> uuid \<Rightarrow> db \<Rightarrow> bool" where
  "receipt_run t r cd = (\<exists>x \<in> set (runs cd). rnID x = r \<and> rnConversation x = tiConversation t \<and>
     rnSubmittedBy x = Some (tiUser t) \<and> rnSubmission x = Some (tiID t))"

lemma receipt_kept: "evolves run_ev run_ok (runs cd) (runs cd') \<Longrightarrow> receipt_run t r cd \<Longrightarrow> receipt_run t r cd'"
  by (auto simp: receipt_run_def run_ev_def dest!: run_rows.old_row)

lemma trigger_receipt_run: "trigger_receipt t cd = Some x \<Longrightarrow> receipt_run t (rnID x) cd"
  by (auto simp: trigger_receipt_def Submission_def receipt_run_def dest!: find_Some_in)

lemma trigger_accepted_run: "trigger_accepted t perm cd = Inr (Some r) \<Longrightarrow> receipt_run t r cd"
  by (auto simp: trigger_accepted_def acceptedSubmission_def receipt_run_def split: if_split_asm option.splits dest!: find_Some_in)

lemma started_receipt:
  assumes "inv cd" "start_submission prepare (tiWorkspace t) (tiUser t) (tiConversation t) (trigger_submission t) digest mode perm cd = Inr (r, cd')"
    "tiID t \<noteq> uuid_nil"
  shows "receipt_run t r cd'"
proof -
  from assms(2,3) obtain model body md m d1 where
    1: "insert_run (tiConversation t) model (Some (tiID t)) (Some (tiUser t)) digest mode perm body md cd = Inr (r, m, d1)"
    and 2: "event_append r (tiConversation t) ''RUN_STARTED'' [(''input_message_id'', JStr m)] d1 = Inr cd'"
    by (auto simp: start_submission_def trigger_submission_def split: option.splits if_splits elim!: bindrE)
  from good_insert_run(2)[OF assms(1) 1] event_append_runs[OF 2] show ?thesis
    by (auto simp: receipt_run_def run_row_def)
qed

end
