(* ===== verification/AutoRuns.thy ===== *)
theory AutoRuns
  imports AutoSystem
begin

text \<open>
  The invariant of the automation service and its dispatchers, over every interleaving with
  crashes and lost locks, and what happens once: the interpretation of \<open>one_shot\<close> on the call
  of \<open>Start\<close> for a delivery.
\<close>

section \<open>The invariant\<close>

definition task_of :: "dispatch \<Rightarrow> trigger_input option" where
  "task_of x = (case x of DLocked i \<Rightarrow> None | DClaimed t \<Rightarrow> Some t | DStarting t ph \<Rightarrow> Some t | DLooking t \<Rightarrow> Some t
     | DLooked t r \<Rightarrow> Some t | DReceipt t r \<Rightarrow> Some t)"

definition known_run :: "dispatch \<Rightarrow> (trigger_input \<times> uuid) option" where
  "known_run x = (case x of DLooked t (Some r) \<Rightarrow> Some (t, r) | DReceipt t r \<Rightarrow> Some (t, r) | _ \<Rightarrow> None)"

text \<open>The delivery of a task that is no longer pending.\<close>

definition decided :: "trigger_input \<Rightarrow> auto_db \<Rightarrow> bool" where
  "decided t d = (\<exists>v \<in> set (deliveries d). dvID v = tiID t \<and> dvSnapshot v = t \<and> dvState v \<noteq> ''pending'')"

definition proc_ok :: "auto_db \<Rightarrow> db \<Rightarrow> dispatch \<Rightarrow> bool" where
  "proc_ok d cd x = ((\<forall>t. task_of x = Some t \<longrightarrow> decided t d) \<and> (\<forall>t r. known_run x = Some (t, r) \<longrightarrow> receipt_run t r cd) \<and>
     (\<forall>t. shares x t \<longrightarrow> tiID t \<noteq> uuid_nil \<and> trigger_authorized cd (tiWorkspace t) (tiUser t)))"

definition rows_ok :: "auto_db \<Rightarrow> db \<Rightarrow> bool" where
  "rows_ok d cd = (\<forall>v \<in> set (deliveries d). \<forall>r. dvRun v = Some r \<longrightarrow> receipt_run (dvSnapshot v) r cd)"

definition starting_once :: "auto_state \<Rightarrow> bool" where
  "starting_once s = (\<forall>p q t t'. aProcs s p = Some (DClaimed t) \<longrightarrow> aProcs s q = Some (DClaimed t') \<longrightarrow> tiID t = tiID t' \<longrightarrow> p = q)"

definition auto_inv :: "auto_state \<Rightarrow> bool" where
  "auto_inv s = (session_inv (aConv s) \<and> deliveries_inv (aAuto s) \<and> rows_ok (aAuto s) (store (aConv s)) \<and>
     (\<forall>p x. aProcs s p = Some x \<longrightarrow> proc_ok (aAuto s) (store (aConv s)) x) \<and> starting_once s)"

lemma auto_invD:
  assumes "auto_inv s"
  shows "session_inv (aConv s)" "deliveries_inv (aAuto s)" "rows_ok (aAuto s) (store (aConv s))"
    "aProcs s p = Some x \<Longrightarrow> proc_ok (aAuto s) (store (aConv s)) x" "starting_once s"
  using assms by (simp_all add: auto_inv_def)

text \<open>The steps that change the tables and no process.\<close>

definition runs_grow :: "db \<Rightarrow> db \<Rightarrow> bool" where
  "runs_grow cd cd' = evolves run_ev run_ok (runs cd) (runs cd')"

lemma runs_grow_refl: "runs cd' = runs cd \<Longrightarrow> runs_grow cd cd'"
  by (simp add: runs_grow_def run_rows.same)

lemma decided_kept: "auto_moves d d' \<Longrightarrow> decided t d \<Longrightarrow> decided t d'"
proof -
  assume g: "auto_moves d d'" and "decided t d"
  then obtain v where v: "v \<in> set (deliveries d)" "dvID v = tiID t" "dvSnapshot v = t" "dvState v \<noteq> ''pending''"
    by (auto simp: decided_def)
  from g v(1) obtain w where w: "w \<in> set (deliveries d')" "delivery_ev v w"
    unfolding auto_moves_def using delivery_rows.old_row by blast
  then have "dvID w = tiID t \<and> dvSnapshot w = t \<and> dvState w \<noteq> ''pending''"
    using v by (auto simp: delivery_ev_def same_delivery_def)
  with w(1) show ?thesis by (auto simp: decided_def)
qed

lemma proc_ok_kept:
  assumes "proc_ok d cd x" "auto_moves d d'" "runs_grow cd cd'"
    "\<And>t. shares x t \<Longrightarrow> trigger_authorized cd (tiWorkspace t) (tiUser t) \<Longrightarrow> trigger_authorized cd' (tiWorkspace t) (tiUser t)"
  shows "proc_ok d' cd' x"
  using assms decided_kept[OF assms(2)] receipt_kept[of cd cd'] unfolding proc_ok_def runs_grow_def by blast

lemma rows_ok_kept: "rows_ok d cd \<Longrightarrow> runs_kept d d' \<Longrightarrow> runs_grow cd cd' \<Longrightarrow> rows_ok d' cd'"
  unfolding rows_ok_def runs_kept_def runs_grow_def using receipt_kept by (metis option.distinct(1))

lemma auto_inv_tables:
  assumes i: "auto_inv s" and g: "auto_good (aAuto s) d" and c: "session_inv cs" "runs_grow (store (aConv s)) (store cs)"
    and a: "\<And>p x t. aProcs s p = Some x \<Longrightarrow> shares x t \<Longrightarrow> trigger_authorized (store (aConv s)) (tiWorkspace t) (tiUser t) \<Longrightarrow>
      trigger_authorized (store cs) (tiWorkspace t) (tiUser t)"
  shows "auto_inv (s\<lparr>aConv := cs, aAuto := d\<rparr>)"
  using auto_invD[OF i] c(1) auto_good_inv[OF g] rows_ok_kept[OF _ _ c(2), of "aAuto s" d] g
    proc_ok_kept[OF _ auto_good_moves[OF g] c(2)] a
  by (auto simp: auto_inv_def auto_good_def starting_once_def)

text \<open>The steps that change one process.\<close>

lemma auto_inv_proc:
  assumes i: "auto_inv s" and x: "proc_ok (aAuto s) (store (aConv s)) x"
    and o: "\<And>t q t'. x = DClaimed t \<Longrightarrow> aProcs s q = Some (DClaimed t') \<Longrightarrow> tiID t = tiID t' \<Longrightarrow> q = p"
  shows "auto_inv (moved p x s)"
  using auto_invD[OF i] x o unfolding auto_inv_def starting_once_def
  by (simp split: if_split_asm)

lemma auto_inv_locks: "auto_inv (s\<lparr>aLocks := l\<rparr>) = auto_inv s"
  by (simp add: auto_inv_def starting_once_def)

lemma auto_inv_ended: "auto_inv s \<Longrightarrow> auto_inv (ended p s)"
  by (auto simp: auto_inv_def starting_once_def ended_def)

lemma proc_okD:
  assumes "proc_ok d cd x"
  shows "task_of x = Some t \<Longrightarrow> decided t d" "known_run x = Some (t, r) \<Longrightarrow> receipt_run t r cd"
    "shares x t \<Longrightarrow> trigger_authorized cd (tiWorkspace t) (tiUser t)" "shares x t \<Longrightarrow> tiID t \<noteq> uuid_nil"
  using assms by (auto simp: proc_ok_def)

lemmas proc_simps = proc_ok_def task_of_def known_run_def shares_def

section \<open>The conversation database\<close>

lemma inv_accounts: "inv (d\<lparr>members := ms, users := us\<rparr>) = inv d"
  by (simp add: inv_def runs_inv_def permissions_inv_def inputs_inv_def interactions_inv_def messages_inv_def events_inv_def
      generated_def[abs_def] open_inputs_def conversation_messages_def)

lemma inv_conversation:
  assumes "inv d" "find_conversation d c = None" "conversation_messages d c = []"
  shows "inv (d\<lparr>conversations := conversations d @ [\<lparr>cvID = c, cvWorkspace = w, cvModel = m, cvLastSeq = 0\<rparr>]\<rparr>)"
proof -
  have "c \<notin> cvID ` set (conversations d)" using assms(2) by (auto simp: find_conversation_def find_None_iff)
  with assms have "messages_inv (d\<lparr>conversations := conversations d @ [\<lparr>cvID = c, cvWorkspace = w, cvModel = m, cvLastSeq = 0\<rparr>]\<rparr>)"
    by (auto simp: inv_def messages_inv_def conversation_messages_def)
  with assms(1) show ?thesis
    by (simp add: inv_def runs_inv_def permissions_inv_def inputs_inv_def interactions_inv_def events_inv_def
      generated_def[abs_def] open_inputs_def)
qed

lemma session_inv_store:
  assumes "session_inv s" "inv d" "runs d = runs (store s)"
  shows "session_inv (s\<lparr>store := d\<rparr>)"
  using assms session_invD[OF assms(1)] by (intro session_invI) (simp_all add: running_runs_def)

lemma createWithID_cases:
  assumes "createWithID env fb c w agent model project cd d = Inr (cd', d')"
  obtains m where "find_conversation cd c = None"
    "cd' = cd\<lparr>conversations := conversations cd @ [\<lparr>cvID = c, cvWorkspace = w, cvModel = m, cvLastSeq = 0\<rparr>]\<rparr>"
    "deliveries d' = deliveries d" "lastOrder d' = lastOrder d" "automations d' = automations d"
  using assms by (auto simp: createWithID_def Let_def split: if_split_asm)

lemma auto_inv_created:
  assumes i: "auto_inv s" and e: "createWithID env fb c w agent model project (store (aConv s)) (aAuto s) = Inr (cd, d)"
    and m: "conversation_messages (store (aConv s)) c = []"
  shows "auto_inv (s\<lparr>aConv := (aConv s)\<lparr>store := cd\<rparr>, aAuto := d\<rparr>)"
  using e
proof (rule createWithID_cases)
  fix mo
  assume c: "find_conversation (store (aConv s)) c = None"
    "cd = store (aConv s)\<lparr>conversations := conversations (store (aConv s)) @ [\<lparr>cvID = c, cvWorkspace = w, cvModel = mo, cvLastSeq = 0\<rparr>]\<rparr>"
    and d: "deliveries d = deliveries (aAuto s)" "lastOrder d = lastOrder (aAuto s)"
  show ?thesis
  proof (rule auto_inv_tables[OF i])
    show "auto_good (aAuto s) d" by (rule auto_good_same[OF auto_invD(2)[OF i] d])
    show "session_inv ((aConv s)\<lparr>store := cd\<rparr>)"
      using inv_conversation[OF session_invD(1)[OF auto_invD(1)[OF i]] c(1) m] c(2)
      by (intro session_inv_store[OF auto_invD(1)[OF i]]) simp_all
    show "runs_grow (store (aConv s)) (store ((aConv s)\<lparr>store := cd\<rparr>))" by (rule runs_grow_refl) (simp add: c(2))
    show "trigger_authorized (store ((aConv s)\<lparr>store := cd\<rparr>)) (tiWorkspace t) (tiUser t)"
      if "trigger_authorized (store (aConv s)) (tiWorkspace t) (tiUser t)" for t
      using that by (simp add: c(2) trigger_authorized_def)
  qed
qed

lemma auto_inv_session:
  assumes i: "auto_inv s" and e: "session_step cenv (aConv s) a cs"
  shows "auto_inv (s\<lparr>aConv := cs\<rparr>)"
proof -
  note si = auto_invD(1)[OF i]
  have "auto_inv (s\<lparr>aConv := cs, aAuto := aAuto s\<rparr>)"
  proof (rule auto_inv_tables[OF i auto_good_refl[OF auto_invD(2)[OF i]]])
    show "session_inv cs" by (rule session_step_inv[OF e si])
    show "runs_grow (store (aConv s)) (store cs)" using step_grows[OF e si] by (simp add: grows_def runs_grow_def)
    show "trigger_authorized (store cs) (tiWorkspace t) (tiUser t)" if "trigger_authorized (store (aConv s)) (tiWorkspace t) (tiUser t)" for t
      using that by (simp add: authorized_kept[OF step_accounts[OF e si]])
  qed
  then show ?thesis by simp
qed

lemma auto_inv_auto: "auto_inv s \<Longrightarrow> auto_good (aAuto s) d \<Longrightarrow> auto_inv (s\<lparr>aAuto := d\<rparr>)"
  using auto_inv_tables[of s d "aConv s"] by (simp add: auto_invD(1) runs_grow_refl)

section \<open>Every step keeps the invariant\<close>

lemma claim_decided:
  assumes "claim_delivery i cd d = Inr (k, d')" "deliveries_inv d" "phase_of_claim k = Some x" "task_of x = Some t"
  shows "decided t d' \<and> tiID t = i"
  using assms(1)
proof (cases rule: claim_cases)
  case kept
  from assms(3,4) kept(2) have k: "k = Reconcile t" by (auto simp: phase_of_claim_def task_of_def split: claim.splits)
  from kept(3)[OF k] obtain v where "v \<in> set (deliveries d)" "dvID v = i" "dvState v \<in> {''dispatching'', ''unknown''}" "t = dvSnapshot v" "tiID t = i"
    by blast
  then show ?thesis unfolding decided_def kept(1) by auto
next
  case (ended v state code)
  then show ?thesis using assms(3) by (auto simp: phase_of_claim_def split: claim.splits)
next
  case (claimed v a)
  have t: "t = dvSnapshot v" using assms(3,4) claimed(4) by (auto simp: phase_of_claim_def task_of_def)
  have "v\<lparr>dvState := ''dispatching''\<rparr> \<in> set (deliveries d')"
    using claimed(1,2) unfolding claimed(15) by (auto simp: set_update_where image_iff intro!: bexI[of _ v])
  moreover have "tiID t = i" using t claimed(5) by simp
  ultimately show ?thesis using t claimed(2)
    unfolding decided_def by (intro conjI bexI[of _ "v\<lparr>dvState := ''dispatching''\<rparr>"]) simp_all
qed

lemma decided_not_pending: "decided t d \<Longrightarrow> deliveries_inv d \<Longrightarrow> v \<in> set (deliveries d) \<Longrightarrow> dvID v = tiID t \<Longrightarrow> dvState v \<noteq> ''pending''"
  unfolding decided_def using the_delivery by metis

lemma auto_inv_claim:
  assumes i: "auto_inv s" and e: "claim_delivery j (store (aConv s)) (aAuto s) = Inr (k, d)" and x: "phase_of_claim k = Some x"
  shows "auto_inv (moved p x (s\<lparr>aAuto := d\<rparr>))"
proof (rule auto_inv_proc)
  note di = auto_invD(2)[OF i]
  show "auto_inv (s\<lparr>aAuto := d\<rparr>)" by (rule auto_inv_auto[OF i good_claim[OF e di]])
  have "known_run x = None" "\<not> shares x t" for t
    using x by (auto simp: phase_of_claim_def known_run_def shares_def split: claim.splits)
  then show "proc_ok (aAuto (s\<lparr>aAuto := d\<rparr>)) (store (aConv (s\<lparr>aAuto := d\<rparr>))) x"
    using claim_decided[OF e di x] by (simp add: proc_ok_def)
  fix t q t'
  assume c: "x = DClaimed t" and q: "aProcs (s\<lparr>aAuto := d\<rparr>) q = Some (DClaimed t')" and same: "tiID t = tiID t'"
  from c x have k: "k = Claimed t" by (auto simp: phase_of_claim_def split: claim.splits)
  from q have "decided t' (aAuto s)" using proc_okD(1)[OF auto_invD(4)[OF i, of q]] by (simp add: task_of_def)
  note np = decided_not_pending[OF this di]
  from e show "q = p"
  proof (cases rule: claim_cases)
    case (claimed v a)
    have "tiID t = j" using claim_decided[OF e di x, of t] c by (simp add: task_of_def)
    with claimed np[of v] same show ?thesis by simp
  qed (use k in blast)+
qed

lemma acceptReceipt_rows:
  assumes "v \<in> set (deliveries (acceptReceipt t r d))" "dvRun v = Some r'"
  obtains "\<exists>u \<in> set (deliveries d). dvRun u = Some r' \<and> dvSnapshot u = dvSnapshot v"
  | u where "u \<in> set (deliveries d)" "dvID u = tiID t" "r' = r" "dvSnapshot v = dvSnapshot u"
  using assms by (auto simp: acceptReceipt_def set_update_where split: if_split_asm)

lemma auto_inv_receipt:
  assumes i: "auto_inv s" and t: "decided t (aAuto s)" "receipt_run t r (store (aConv s))"
  shows "auto_inv (s\<lparr>aAuto := acceptReceipt t r (aAuto s)\<rparr>)"
proof -
  note di = auto_invD(2)[OF i] and m = moves_acceptReceipt[OF auto_invD(2)[OF i], of t r]
  have "rows_ok (acceptReceipt t r (aAuto s)) (store (aConv s))"
    unfolding rows_ok_def
  proof (intro ballI allI impI)
    fix v r' assume v: "v \<in> set (deliveries (acceptReceipt t r (aAuto s)))" "dvRun v = Some r'"
    then show "receipt_run (dvSnapshot v) r' (store (aConv s))"
    proof (rule acceptReceipt_rows)
      assume "\<exists>u \<in> set (deliveries (aAuto s)). dvRun u = Some r' \<and> dvSnapshot u = dvSnapshot v"
      then show ?thesis using auto_invD(3)[OF i] unfolding rows_ok_def by metis
    next
      fix u assume u: "u \<in> set (deliveries (aAuto s))" "dvID u = tiID t" "r' = r" "dvSnapshot v = dvSnapshot u"
      from t(1) obtain w where "w \<in> set (deliveries (aAuto s))" "dvID w = tiID t" "dvSnapshot w = t" by (auto simp: decided_def)
      with the_delivery[OF di u(1)] u have "dvSnapshot u = t" by metis
      with u t(2) show ?thesis by simp
    qed
  qed
  moreover have "deliveries_inv (acceptReceipt t r (aAuto s))" using m by (simp add: auto_moves_def)
  moreover have "proc_ok (acceptReceipt t r (aAuto s)) (store (aConv s)) x" if "aProcs s p = Some x" for p x
    by (rule proc_ok_kept[OF auto_invD(4)[OF i that] m runs_grow_refl]) simp_all
  ultimately show ?thesis using i by (simp add: auto_inv_def starting_once_def)
qed

lemma auto_inv_run:
  assumes i: "auto_inv s" and p: "aProcs s p = Some (DStarting t Guarded)"
    and h: "held (aConv s) (tiConversation t) = Some (Recovering [])"
    and e: "start_submission (envPrepare cenv) (tiWorkspace t) (tiUser t) (tiConversation t) (trigger_submission t) (trigger_digest t perm)
      ''execute'' perm (store (aConv s)) = Inr (r, cd)" and x: "x = DReceipt t r \<or> x = DLooking t"
  shows "auto_inv (moved p x (s\<lparr>aConv := (aConv s)\<lparr>store := cd, held := (held (aConv s))(tiConversation t := Some (Executing r))\<rparr>\<rparr>))"
    "session_step cenv (aConv s) (Submitted (tiConversation t) r)
      ((aConv s)\<lparr>store := cd, held := (held (aConv s))(tiConversation t := Some (Executing r))\<rparr>)"
proof -
  let ?cs = "(aConv s)\<lparr>store := cd, held := (held (aConv s))(tiConversation t := Some (Executing r))\<rparr>"
  show st: "session_step cenv (aConv s) (Submitted (tiConversation t) r) ?cs" by (rule ss_submit[OF h e])
  show "auto_inv (moved p x (s\<lparr>aConv := ?cs\<rparr>))"
  proof (rule auto_inv_proc[OF auto_inv_session[OF i st]])
    note ok = auto_invD(4)[OF i p]
    have dt: "decided t (aAuto s)" by (rule proc_okD(1)[OF ok]) (simp add: task_of_def)
    have "tiID t \<noteq> uuid_nil" by (rule proc_okD(4)[OF ok]) (simp add: shares_def)
    from started_receipt[OF session_invD(1)[OF auto_invD(1)[OF i]] e this] dt x
    show "proc_ok (aAuto (s\<lparr>aConv := ?cs\<rparr>)) (store (aConv (s\<lparr>aConv := ?cs\<rparr>))) x" by (auto simp: proc_simps)
  qed (use x in auto)
qed

theorem auto_step_inv: "auto_step cenv env s a s' \<Longrightarrow> auto_inv s \<Longrightarrow> auto_inv s'"
proof (induction rule: auto_step.induct)
  case (au_session s a t)
  then show ?case by (blast intro: auto_inv_session)
next
  case (au_conversation fallback c w agent model project s cd d)
  from auto_inv_created[OF au_conversation(3,1,2)] show ?case .
next
  case (au_accounts s us ms)
  let ?cs = "(aConv s)\<lparr>store := store (aConv s)\<lparr>members := ms, users := us\<rparr>\<rparr>"
  have "auto_inv (s\<lparr>aConv := ?cs, aAuto := aAuto s\<rparr>)"
  proof (rule auto_inv_tables[OF au_accounts(2) auto_good_refl[OF auto_invD(2)[OF au_accounts(2)]]])
    note si = auto_invD(1)[OF au_accounts(2)]
    show "session_inv ?cs" by (rule session_inv_store[OF si]) (simp_all add: inv_accounts session_invD(1)[OF si])
    show "runs_grow (store (aConv s)) (store ?cs)" by (rule runs_grow_refl) simp
  qed (use au_accounts(1) in simp)
  then show ?case by simp
next
  case (au_tables s ps ds cs ts)
  show ?case by (rule auto_inv_auto[OF au_tables], rule auto_good_same[OF auto_invD(2)[OF au_tables]]) simp_all
next
  case (au_save w u i c vsn now rnd s x secret d)
  then show ?case using good_saveTx auto_inv_auto auto_invD(2) by blast
next
  case (au_delete w u i vsn s d)
  then show ?case using good_Delete auto_inv_auto auto_invD(2) by blast
next
  case (au_rotate w u i vsn rnd s x token d)
  then show ?case using good_Rotate auto_inv_auto auto_invD(2) by blast
next
  case (au_apply c r u p now later rnd s d)
  then show ?case using good_ApplySchedule auto_inv_auto auto_invD(2) by blast
next
  case (au_webhook i token key payload n c now s v d)
  then show ?case using good_Webhook auto_inv_auto auto_invD(2) by blast
next
  case (au_trigger w u i n c now s v d)
  then show ?case using good_Trigger auto_inv_auto auto_invD(2) by blast
next
  case (au_enqueue locked now stamp ids s d)
  then show ?case using good_enqueueDue auto_inv_auto auto_invD(2) by blast
next
  case (au_lock s i p)
  have "auto_inv (moved p (DLocked i) s)" by (rule auto_inv_proc[OF au_lock(3)]) (simp_all add: proc_simps)
  then show ?case by (simp add: auto_inv_locks)
next
  case (au_claim s p i k d)
  show ?case
  proof (cases "phase_of_claim k")
    case None
    then show ?thesis using auto_inv_ended[OF auto_inv_auto[OF au_claim(3) good_claim[OF au_claim(2) auto_invD(2)[OF au_claim(3)]]]] by simp
  next
    case (Some x)
    then show ?thesis using auto_inv_claim[OF au_claim(3,2)] by simp
  qed
next
  case (au_ping s p t)
  show ?case using proc_okD(1)[OF auto_invD(4)[OF au_ping(2,1)]]
    by (intro auto_inv_proc[OF au_ping(2)]) (simp_all add: proc_simps)
next
  case (au_end s p)
  then show ?case by (rule auto_inv_ended)
next
  case (au_lost s i)
  then show ?case by (simp add: auto_inv_locks)
next
  case (au_found s p t x)
  show ?case using proc_okD(1)[OF auto_invD(4)[OF au_found(5,1)]] trigger_receipt_run[OF au_found(4)]
    by (intro auto_inv_proc[OF au_found(5)]) (simp_all add: proc_simps)
next
  case (au_authorized s p t)
  show ?case using proc_okD(1)[OF auto_invD(4)[OF au_authorized(5,1)]] au_authorized(2,3)
    by (intro auto_inv_proc[OF au_authorized(5)]) (simp_all add: proc_simps trigger_identity_def)
next
  case (au_created s p t fallback cd d)
  note ai = auto_inv_created[OF au_created(4,2,3)]
  then have "proc_ok d cd (DStarting t Creating)" using auto_invD(4)[OF ai, of p] au_created(1) by simp
  then show ?case by (intro auto_inv_proc[OF ai]) (auto simp: proc_simps)
next
  case (au_accepted s p t ph perm r)
  show ?case using proc_okD(1)[OF auto_invD(4)[OF au_accepted(5,1)]] trigger_accepted_run[OF au_accepted(4)]
    by (intro auto_inv_proc[OF au_accepted(5)]) (simp_all add: proc_simps)
next
  case (au_guard s p t perm cs)
  note ai = auto_inv_session[OF au_guard(7,6)]
  then have "proc_ok (aAuto s) (store cs) (DStarting t Sending)" using auto_invD(4)[OF ai, of p] au_guard(1) by simp
  then show ?case by (intro auto_inv_proc[OF ai]) (auto simp: proc_simps)
next
  case (au_run s p t perm r cd x)
  from auto_inv_run(1)[OF au_run(6,1,3,4,5)] show ?case .
next
  case (au_failed s p t ph)
  show ?case using proc_okD(1)[OF auto_invD(4)[OF au_failed(2,1)]]
    by (intro auto_inv_proc[OF au_failed(2)]) (simp_all add: proc_simps)
next
  case (au_lookup s p t)
  show ?case using proc_okD(1)[OF auto_invD(4)[OF au_lookup(2,1)]]
    by (intro auto_inv_proc[OF au_lookup(2)])
      (auto simp: proc_simps dest: trigger_receipt_run split: option.splits)
next
  case (au_reconcile s p t rcpt)
  note ok = auto_invD(4)[OF au_reconcile(2,1)]
  show ?case
  proof (cases rcpt)
    case None
    then show ?thesis using auto_inv_ended[OF auto_inv_auto[OF au_reconcile(2) good_unknown[OF auto_invD(2)[OF au_reconcile(2)]]]] by simp
  next
    case (Some r)
    have "decided t (aAuto s)" "receipt_run t r (store (aConv s))"
      using proc_okD(1,2)[OF ok] Some by (simp_all add: task_of_def known_run_def)
    from auto_inv_ended[OF auto_inv_receipt[OF au_reconcile(2) this]] Some show ?thesis by simp
  qed
next
  case (au_receipt s p t r)
  note ok = auto_invD(4)[OF au_receipt(2,1)]
  have "decided t (aAuto s)" "receipt_run t r (store (aConv s))"
    using proc_okD(1,2)[OF ok] by (simp_all add: task_of_def known_run_def)
  from auto_inv_ended[OF auto_inv_receipt[OF au_receipt(2) this]] show ?case by simp
qed

interpretation auto: labelled_system "auto_step cenv env" auto_inv for cenv env
  by unfold_locales (rule auto_step_inv)

section \<open>The deliveries and the runs over a step\<close>

lemma ended_simps [simp]: "aAuto (ended p s) = aAuto s" "aConv (ended p s) = aConv s"
  "aProcs (ended p s) = (aProcs s)(p := None)"
  by (simp_all add: ended_def)

lemma step_moves: "auto_step cenv env s a s' \<Longrightarrow> auto_inv s \<Longrightarrow> auto_moves (aAuto s) (aAuto s')"
proof -
  assume e: "auto_step cenv env s a s'" and i: "auto_inv s"
  note di = auto_invD(2)[OF i]
  note same = auto_good_moves[OF auto_good_refl[OF di]]
  note moved = good_saveTx good_Delete good_Rotate good_ApplySchedule good_Webhook good_Trigger good_enqueueDue good_claim
  from e show ?thesis
  proof (cases rule: auto_step.cases)
    case (au_conversation fallback c w agent model project cd d)
    then have "auto_good (aAuto s) d" by (auto elim!: createWithID_cases intro: auto_good_same[OF di])
    then show ?thesis using au_conversation(2) by (simp add: auto_good_moves)
  next
    case (au_created p t fallback cd d)
    then have "auto_good (aAuto s) d" by (auto elim!: createWithID_cases intro: auto_good_same[OF di])
    then show ?thesis using au_created(2) by (simp add: auto_good_moves)
  next
    case (au_tables ps ds cs ts)
    then show ?thesis using auto_good_moves[OF auto_good_same[OF di]] by simp
  next
    case (au_claim p i k d)
    have "aAuto s' = d" unfolding au_claim(2) by (cases "phase_of_claim k") simp_all
    then show ?thesis using auto_good_moves[OF good_claim[OF au_claim(4) di]] by simp
  next
    case (au_reconcile p t rcpt)
    then show ?thesis using auto_good_moves[OF good_unknown[OF di]] moves_acceptReceipt[OF di] by (cases rcpt) simp_all
  next
    case (au_receipt p t r)
    then show ?thesis using moves_acceptReceipt[OF di] by simp
  qed (use same auto_good_moves moved di in \<open>auto\<close>)
qed

lemma path_moves:
  assumes "path (auto_step cenv env) s as s'" "auto_inv s"
  shows "auto_moves (aAuto s) (aAuto s')"
  by (rule auto.path_law[OF assms, of "\<lambda>x y. auto_moves (aAuto x) (aAuto y)"])
    (blast intro: auto_good_moves auto_good_refl auto_moves_trans auto_invD(2) step_moves)+

lemma auto_moves_row: "auto_moves d d' \<Longrightarrow> v \<in> set (deliveries d) \<Longrightarrow> \<exists>w \<in> set (deliveries d'). delivery_ev v w"
  unfolding auto_moves_def by (blast intro: delivery_rows.old_row)

lemma step_runs: "auto_step cenv env s a s' \<Longrightarrow> auto_inv s \<Longrightarrow> runs_grow (store (aConv s)) (store (aConv s'))"
proof -
  assume e: "auto_step cenv env s a s'" and i: "auto_inv s"
  note si = auto_invD(1)[OF i]
  have grow: "runs_grow (store (aConv s)) (store cs)" if "session_step cenv (aConv s) b cs" for b cs
    using step_grows[OF that si] by (simp add: grows_def runs_grow_def)
  from e show ?thesis
  proof (cases rule: auto_step.cases)
    case (au_claim p i k d)
    have "aConv s' = aConv s" unfolding au_claim(2) by (cases "phase_of_claim k") simp_all
    then show ?thesis by (simp add: runs_grow_refl)
  next
    case (au_run p t perm r cd x)
    from grow[OF ss_submit[OF au_run(5,6)]] au_run(2) show ?thesis by simp
  qed (auto intro: runs_grow_refl grow elim!: createWithID_cases)
qed

section \<open>What happens once\<close>

definition start_called :: "uuid \<Rightarrow> auto_state \<Rightarrow> bool" where
  "start_called i s = ((\<exists>v \<in> set (deliveries (aAuto s)). dvID v = i \<and> dvState v \<noteq> ''pending'') \<and>
     (\<forall>p t. aProcs s p = Some (DClaimed t) \<longrightarrow> tiID t \<noteq> i))"

definition calls_start :: "uuid \<Rightarrow> auto_act \<Rightarrow> bool" where
  "calls_start i a = (case a of AuStart p j \<Rightarrow> j = i | _ \<Rightarrow> False)"

lemma new_claim:
  assumes "auto_step cenv env s a s'" "aProcs s' p = Some (DClaimed t)"
  obtains (old) "aProcs s p = Some (DClaimed t)"
  | (claimed) i d where "claim_delivery i (store (aConv s)) (aAuto s) = Inr (Claimed t, d)"
  using assms
proof (cases rule: auto_step.cases)
  case (au_claim q i k d)
  show ?thesis
  proof (cases "p = q")
    case True
    then have "phase_of_claim k = Some (DClaimed t)" using assms(2) unfolding au_claim(2) by (cases "phase_of_claim k") simp_all
    then have "k = Claimed t" by (auto simp: phase_of_claim_def split: claim.splits)
    with au_claim(4) show ?thesis by (intro claimed) simp
  next
    case False
    then have "aProcs s' p = aProcs s p" unfolding au_claim(2) by (cases "phase_of_claim k") simp_all
    with assms(2) show ?thesis by (intro old) simp
  qed
qed (use old in \<open>auto split: if_split_asm\<close>)

interpretation trigger: one_shot "auto_step cenv env" auto_inv "calls_start i" "start_called i" for cenv env i
proof
  fix s a s'
  assume st: "auto_step cenv env s a s'" and i: "auto_inv s"
  show "start_called i s'" if u: "start_called i s"
  proof -
    from u obtain v where v: "v \<in> set (deliveries (aAuto s))" "dvID v = i" "dvState v \<noteq> ''pending''" by (auto simp: start_called_def)
    from auto_moves_row[OF step_moves[OF st i] v(1)] obtain w where w: "w \<in> set (deliveries (aAuto s'))" "delivery_ev v w" ..
    then have "dvID w = i \<and> dvState w \<noteq> ''pending''" using v by (auto simp: delivery_ev_def same_delivery_def)
    moreover have "tiID t \<noteq> i" if p: "aProcs s' p = Some (DClaimed t)" for p t
      using st p
    proof (cases rule: new_claim)
      case old
      with u show ?thesis by (auto simp: start_called_def)
    next
      case (claimed j d)
      from claimed show ?thesis
      proof (cases rule: claim_cases)
        case (claimed x a)
        show ?thesis
        proof
          assume "tiID t = i"
          then have "x = v" using claimed v by (intro the_delivery[OF auto_invD(2)[OF i]]) simp_all
          with claimed(3) v(3) show False by simp
        qed
      qed blast+
    qed
    ultimately show ?thesis using w(1) by (auto simp: start_called_def)
  qed
  assume f: "calls_start i a"
  then obtain p where a: "a = AuStart p i" by (auto simp: calls_start_def split: auto_act.splits)
  from st obtain t where p: "aProcs s p = Some (DClaimed t)" "tiID t = i" "s' = moved p (DStarting t Authorizing) s"
    unfolding a by (cases rule: auto_step.cases) (simp_all split: if_split_asm)
  then show "\<not> start_called i s" by (auto simp: start_called_def)
  have "decided t (aAuto s)" using proc_okD(1)[OF auto_invD(4)[OF i p(1)]] by (simp add: task_of_def)
  moreover have "tiID t' \<noteq> i" if "aProcs s' q = Some (DClaimed t')" for q t'
  proof
    assume "tiID t' = i"
    from that p(3) have q: "q \<noteq> p" "aProcs s q = Some (DClaimed t')" by (auto split: if_split_asm)
    with auto_invD(5)[OF i] p(1,2) \<open>tiID t' = i\<close> show False unfolding starting_once_def by metis
  qed
  ultimately show "start_called i s'" using p(2,3) by (auto simp: start_called_def decided_def)
qed

text \<open>The run of a delivery.\<close>

definition run_exists :: "uuid \<Rightarrow> auto_state \<Rightarrow> bool" where
  "run_exists i s = (\<exists>v \<in> set (deliveries (aAuto s)). dvID v = i \<and> (\<exists>x \<in> set (runs (store (aConv s))).
     rnSubmission x = Some i \<and> rnConversation x = dvConversation v))"

definition starts_run :: "uuid \<Rightarrow> auto_act \<Rightarrow> bool" where
  "starts_run i a = (case a of AuRun j r \<Rightarrow> j = i | _ \<Rightarrow> False)"

lemma start_submission_new:
  assumes "start_submission prepare w u c sub digest mode perm cd = Inr (r, cd')" "smID sub \<noteq> uuid_nil" "x \<in> set (runs cd)"
    "rnConversation x = c"
  shows "rnSubmission x \<noteq> Some (smID sub)"
  using assms by (auto simp: start_submission_def insert_run_def list_ex_iff split: option.splits if_splits elim!: bindrE)

interpretation trigger_runs: one_shot "auto_step cenv env" auto_inv "starts_run i" "run_exists i" for cenv env i
proof
  fix s a s'
  assume st: "auto_step cenv env s a s'" and i: "auto_inv s"
  show "run_exists i s'" if u: "run_exists i s"
  proof -
    from u obtain v x where v: "v \<in> set (deliveries (aAuto s))" "dvID v = i" "x \<in> set (runs (store (aConv s)))"
      "rnSubmission x = Some i" "rnConversation x = dvConversation v" by (auto simp: run_exists_def)
    from auto_moves_row[OF step_moves[OF st i] v(1)] obtain w where w: "w \<in> set (deliveries (aAuto s'))" "delivery_ev v w" ..
    from step_runs[OF st i] v(3) obtain y where y: "y \<in> set (runs (store (aConv s')))" "run_ev x y"
      unfolding runs_grow_def using run_rows.old_row by blast
    from w y v show ?thesis unfolding run_exists_def
      by (intro bexI[of _ w] conjI bexI[of _ y]) (simp_all add: delivery_ev_def same_delivery_def run_ev_def)
  qed
  assume "starts_run i a"
  then obtain r where a: "a = AuRun i r" by (auto simp: starts_run_def split: auto_act.splits)
  from st[unfolded a] obtain p t perm cd x where
    p: "aProcs s p = Some (DStarting t Guarded)" "tiID t = i" "held (aConv s) (tiConversation t) = Some (Recovering [])"
    and e: "start_submission (envPrepare cenv) (tiWorkspace t) (tiUser t) (tiConversation t) (trigger_submission t) (trigger_digest t perm)
      ''execute'' perm (store (aConv s)) = Inr (r, cd)"
    and s': "s' = moved p x (s\<lparr>aConv := (aConv s)\<lparr>store := cd, held := (held (aConv s))(tiConversation t := Some (Executing r))\<rparr>\<rparr>)"
    by (cases rule: auto_step.cases) (auto split: if_split_asm)
  note ok = auto_invD(4)[OF i p(1)]
  have "decided t (aAuto s)" using proc_okD(1)[OF ok] by (simp add: task_of_def)
  then obtain v where v: "v \<in> set (deliveries (aAuto s))" "dvID v = i" "dvSnapshot v = t" using p(2) by (auto simp: decided_def)
  then have c: "dvConversation v = tiConversation t" using auto_invD(2)[OF i]
    by (auto simp: deliveries_inv_def list_all_iff delivery_ok_def)
  have nil: "tiID t \<noteq> uuid_nil" by (rule proc_okD(4)[OF ok]) (simp add: shares_def)
  have sub: "smID (trigger_submission t) = tiID t" by (simp add: trigger_submission_def)
  show "\<not> run_exists i s"
  proof
    assume "run_exists i s"
    then obtain w y where w: "w \<in> set (deliveries (aAuto s))" "dvID w = i" "y \<in> set (runs (store (aConv s)))"
      "rnSubmission y = Some i" "rnConversation y = dvConversation w" by (auto simp: run_exists_def)
    with the_delivery[OF auto_invD(2)[OF i] w(1) v(1)] v(2) have "rnConversation y = tiConversation t" using c by simp
    from start_submission_new[OF e _ w(3) this] nil sub w(4) p(2) show False by simp
  qed
  from started_receipt[OF session_invD(1)[OF auto_invD(1)[OF i]] e nil] obtain y where
    y: "y \<in> set (runs cd)" "rnConversation y = tiConversation t" "rnSubmission y = Some (tiID t)" by (auto simp: receipt_run_def)
  with v c p(2) show "run_exists i s'"
    unfolding run_exists_def by (intro bexI[of _ v] conjI bexI[of _ y]) (simp_all add: s')
qed

end
