(* ===== verification/AutoTasks.thy ===== *)
theory AutoTasks
  imports AutoRuns
begin

text \<open>
  How the saved tasks change: identity, owner, workspace and kind stay, the revision only grows,
  a deleted task stays deleted and off.
\<close>

definition task_ok :: "automation \<Rightarrow> bool" where
  "task_ok a = (1 \<le> auRevision a \<and> (auDeleted a \<longrightarrow> \<not> acEnabled (auConfig a)))"

definition task_ev :: "automation \<Rightarrow> automation \<Rightarrow> bool" where
  "task_ev a b = (auID b = auID a \<and> auWorkspace b = auWorkspace a \<and> auUser b = auUser a \<and> acKind (auConfig b) = acKind (auConfig a) \<and>
     auRevision a \<le> auRevision b \<and> (auDeleted a \<longrightarrow> auDeleted b) \<and> (b = a \<or> auRevision a < auRevision b) \<and> (task_ok a \<longrightarrow> task_ok b))"

interpretation task_rows: row_history task_ev task_ok
  by unfold_locales (auto simp: task_ev_def)

definition tasks_move :: "auto_db \<Rightarrow> auto_db \<Rightarrow> bool" where
  "tasks_move d d' = (evolves task_ev task_ok (automations d) (automations d') \<and>
     (distinct (map auID (automations d)) \<longrightarrow> distinct (map auID (automations d'))))"

lemma tasks_same: "automations d' = automations d \<Longrightarrow> tasks_move d d'"
  by (simp add: tasks_move_def task_rows.same)

lemma tasks_trans: "tasks_move d1 d2 \<Longrightarrow> tasks_move d2 d3 \<Longrightarrow> tasks_move d1 d3"
  by (auto simp: tasks_move_def intro: task_rows.seq)

lemma tasks_update:
  assumes "\<And>a. a \<in> set (automations d) \<Longrightarrow> P a \<Longrightarrow> task_ev a (f a)" "\<And>a. auID (f a) = auID a"
  shows "tasks_move d (on_automations P f d)"
  using assms by (simp add: tasks_move_def task_rows.update map_update_where_key)

lemma tasks_cancel_pending: "tasks_move d (cancel_pending w i code d)"
  by (rule tasks_same) (simp add: cancel_pending_def)

lemma tasks_saveTx:
  assumes "saveTx env w u i c vsn now rnd cd d = Inr (x, secret, d')"
  shows "tasks_move d d'"
  using assms
proof (cases rule: saveTx_cases)
  case existing
  then show ?thesis by (simp add: tasks_same)
next
  case (created nxt d1)
  obtain a where "insert_automation a d = Inr d1" and new: "auRevision a = 1" "\<not> auDeleted a"
    using created(6) by (auto simp: create_automation_def Let_def split: if_split_asm prod.splits elim!: bindrE)
  then have a: "d1 = d\<lparr>automations := automations d @ [a]\<rparr>" "auID a \<notin> auID ` set (automations d)" "task_ok a"
    by (auto simp: insert_automation_def list_ex_iff task_ok_def split: if_split_asm)
  have "tasks_move d d1" using a(2,3) by (simp add: tasks_move_def a(1) task_rows.add)
  then show ?thesis using tasks_trans[OF _ tasks_cancel_pending] by (simp add: created(7))
next
  case (updated nxt d1)
  have "tasks_move d d1"
    using updated(5)
    by (auto simp: update_automation_def Let_def live_automation_def task_ev_def task_ok_def split: if_split_asm intro!: tasks_update)
  then show ?thesis using tasks_trans[OF _ tasks_cancel_pending] by (simp add: updated(6))
qed

lemma tasks_Delete: "Delete w u i vsn d = Inr d' \<Longrightarrow> tasks_move d d'"
  by (auto simp: Delete_def Let_def task_ev_def task_ok_def split: if_split_asm intro!: tasks_trans[OF tasks_update tasks_cancel_pending])

lemma tasks_Rotate: "Rotate w u i vsn rnd d = Inr (x, token, d') \<Longrightarrow> tasks_move d d'"
  by (auto simp: Rotate_def Let_def task_ev_def task_ok_def split: option.splits prod.splits intro!: tasks_update)

lemma tasks_insertDelivery: "insertDelivery a t key digest source state code scheduled now d = Inr d' \<Longrightarrow> tasks_move d d'"
  by (erule insertDelivery_cases) (simp add: tasks_same)

lemma tasks_acceptDelivery: "acceptDelivery a t key digest source now d = Inr (v, d') \<Longrightarrow> tasks_move d d'"
  by (erule acceptDelivery_cases) (simp add: tasks_same, rule tasks_insertDelivery)

lemma tasks_Webhook: "Webhook i token key payload n c now cd d = Inr (v, d') \<Longrightarrow> tasks_move d d'"
  by (erule Webhook_cases) (rule tasks_acceptDelivery)

lemma tasks_Trigger: "Trigger w u i n c now d = Inr (v, d') \<Longrightarrow> tasks_move d d'"
  by (erule Trigger_cases) (rule tasks_acceptDelivery)

lemma tasks_enqueue_one:
  assumes "enqueue_one env now stamp ids a cd d = Inr d'"
  shows "tasks_move d d'"
proof (cases "auNextRun a")
  case None
  with assms show ?thesis by (simp add: enqueue_one_def tasks_same)
next
  case (Some t)
  from assms Some show ?thesis
    by (rule enqueue_one_cases) (auto simp: task_ev_def task_ok_def intro!: tasks_trans[OF tasks_insertDelivery tasks_update])
qed

lemma tasks_enqueue_all: "enqueue_all env now stamp as cd d = Inr d' \<Longrightarrow> tasks_move d d'"
  by (induction env now stamp as cd d rule: enqueue_all.induct)
    (auto simp: tasks_same elim!: bindrE intro: tasks_trans[OF tasks_enqueue_one])

lemma tasks_ApplySchedule: "ApplySchedule env c r u p now later rnd cd d = Inr d' \<Longrightarrow> tasks_move d d'"
  by (auto simp: ApplySchedule_def Let_def split: option.splits if_split_asm elim!: bindrE) (erule tasks_saveTx)

lemma tasks_claim: "claim_delivery i cd d = Inr (k, d') \<Longrightarrow> tasks_move d d'"
  by (erule claim_cases) (auto simp: set_delivery_def intro: tasks_same)

lemma step_tasks:
  assumes "auto_step cenv env s a s'"
  shows "tasks_move (aAuto s) (aAuto s')"
  using assms
proof (cases rule: auto_step.cases)
  case (au_claim p i k d)
  have "aAuto s' = d" unfolding au_claim(2) by (cases "phase_of_claim k") simp_all
  then show ?thesis using tasks_claim[OF au_claim(4)] by simp
next
  case (au_conversation fallback c w agent model project cd d)
  then show ?thesis by (auto elim!: createWithID_cases intro: tasks_same)
next
  case (au_created p t fallback cd d)
  then show ?thesis by (auto elim!: createWithID_cases intro: tasks_same)
next
  case (au_enqueue locked now stamp ids d)
  then show ?thesis using tasks_enqueue_all by (simp add: enqueueDue_def)
next
  case (au_reconcile p t rcpt)
  then show ?thesis by (auto simp: reconcile_def acceptReceipt_def split: option.splits intro!: tasks_same)
next
  case (au_receipt p t r)
  then show ?thesis by (auto simp: acceptReceipt_def intro!: tasks_same)
qed (auto intro: tasks_same tasks_saveTx tasks_Delete tasks_Rotate tasks_Webhook tasks_Trigger tasks_ApplySchedule)

lemma path_tasks: "path (auto_step cenv env) s as s' \<Longrightarrow> tasks_move (aAuto s) (aAuto s')"
  by (induction rule: path.induct) (auto intro: tasks_same tasks_trans step_tasks)

end
