(* ===== verification/AutoLocks.thy ===== *)
theory AutoLocks
  imports AutoRuns
begin

text \<open>
  The advisory lock of a delivery: as long as no connection is lost while its process goes on,
  a delivery that is being started stays \<open>dispatching\<close>, so that no other delivery of the task
  can be claimed.
\<close>

definition keeps_dispatching :: "auto_db \<Rightarrow> auto_db \<Rightarrow> bool" where
  "keeps_dispatching d d' = (\<forall>v \<in> set (deliveries d). dvState v = ''dispatching'' \<longrightarrow> v \<in> set (deliveries d'))"

lemma keeps_refl: "deliveries d' = deliveries d \<Longrightarrow> keeps_dispatching d d'"
  by (simp add: keeps_dispatching_def)

lemma keeps_trans: "keeps_dispatching d1 d2 \<Longrightarrow> keeps_dispatching d2 d3 \<Longrightarrow> keeps_dispatching d1 d3"
  by (simp add: keeps_dispatching_def)

lemma keeps_update:
  "(\<And>v. v \<in> set (deliveries d) \<Longrightarrow> P v \<Longrightarrow> dvState v \<noteq> ''dispatching'') \<Longrightarrow> keeps_dispatching d (on_deliveries P f d)"
  by (auto simp: keeps_dispatching_def set_update_where image_iff)

lemma keeps_cancel_pending: "keeps_dispatching d (cancel_pending w i code d)"
  unfolding cancel_pending_def by (rule keeps_update) simp

lemma keeps_insertDelivery: "insertDelivery a t key digest source state code scheduled now d = Inr d' \<Longrightarrow> keeps_dispatching d d'"
  by (erule insertDelivery_cases) (simp add: keeps_dispatching_def)

lemma keeps_saveTx: "saveTx env w u i c vsn now rnd cd d = Inr (x, secret, d') \<Longrightarrow> keeps_dispatching d d'"
proof (erule saveTx_cases)
  assume "d' = d" then show ?thesis by (simp add: keeps_refl)
next
  fix nxt d1
  assume e: "create_automation w u i (normalize_config c) nxt now rnd d = Inr (secret, d1)" "d' = (if acEnabled c then d1 else cancel_pending w i ''paused'' d1)"
  then have "keeps_dispatching d d1"
    by (intro keeps_refl) (auto simp: create_automation_def insert_automation_def Let_def split: if_split_asm prod.splits elim!: bindrE)
  from keeps_trans[OF this keeps_cancel_pending] this show ?thesis by (simp add: e(2))
next
  fix nxt d1
  assume e: "update_automation w u i (normalize_config c) nxt vsn d = Inr d1" "d' = (if acEnabled c then d1 else cancel_pending w i ''paused'' d1)"
  then have "keeps_dispatching d d1"
    by (intro keeps_refl) (auto simp: update_automation_def Let_def split: if_split_asm)
  from keeps_trans[OF this keeps_cancel_pending] this show ?thesis by (simp add: e(2))
qed

lemma keeps_Delete: "Delete w u i vsn d = Inr d' \<Longrightarrow> keeps_dispatching d d'"
  by (auto simp: Delete_def Let_def split: if_split_asm intro: keeps_trans[OF keeps_refl keeps_cancel_pending])

lemma keeps_Rotate: "Rotate w u i vsn rnd d = Inr (x, t, d') \<Longrightarrow> keeps_dispatching d d'"
  by (auto simp: Rotate_def Let_def split: option.splits prod.splits intro: keeps_refl)

lemma keeps_acceptDelivery: "acceptDelivery a t key digest source now d = Inr (v, d') \<Longrightarrow> keeps_dispatching d d'"
  by (erule acceptDelivery_cases) (simp add: keeps_refl, rule keeps_insertDelivery)

lemma keeps_Webhook: "Webhook i token key payload n c now cd d = Inr (v, d') \<Longrightarrow> keeps_dispatching d d'"
  by (erule Webhook_cases) (rule keeps_acceptDelivery)

lemma keeps_Trigger: "Trigger w u i n c now d = Inr (v, d') \<Longrightarrow> keeps_dispatching d d'"
  by (erule Trigger_cases) (rule keeps_acceptDelivery)

lemma keeps_enqueue_one: "enqueue_one env now stamp ids a cd d = Inr d' \<Longrightarrow> keeps_dispatching d d'"
proof (cases "auNextRun a")
  case None
  then show "enqueue_one env now stamp ids a cd d = Inr d' \<Longrightarrow> ?thesis" by (simp add: enqueue_one_def keeps_refl)
next
  case (Some t)
  show "enqueue_one env now stamp ids a cd d = Inr d' \<Longrightarrow> ?thesis"
    by (erule enqueue_one_cases[OF _ Some]) (auto intro: keeps_trans[OF keeps_insertDelivery keeps_refl])
qed

lemma keeps_enqueue_all: "enqueue_all env now stamp as cd d = Inr d' \<Longrightarrow> keeps_dispatching d d'"
  by (induction env now stamp as cd d rule: enqueue_all.induct)
    (auto simp: keeps_refl elim!: bindrE intro: keeps_trans[OF keeps_enqueue_one])

lemma keeps_enqueueDue: "enqueueDue env locked now stamp ids cd d = Inr d' \<Longrightarrow> keeps_dispatching d d'"
  by (simp add: enqueueDue_def keeps_enqueue_all)

lemma keeps_ApplySchedule: "ApplySchedule env c r u p now later rnd cd d = Inr d' \<Longrightarrow> keeps_dispatching d d'"
  by (auto simp: ApplySchedule_def Let_def split: option.splits if_split_asm elim!: bindrE) (erule keeps_saveTx)

lemma keeps_claim:
  assumes "claim_delivery i cd d = Inr (k, d')" "deliveries_inv d"
  shows "keeps_dispatching d d'"
  using assms(1)
proof (cases rule: claim_cases)
  case kept
  then show ?thesis by (simp add: keeps_refl)
next
  case (ended v state code)
  have "x = v" if "x \<in> set (deliveries d)" "dvID x = i" for x using the_delivery[OF assms(2) that(1) ended(1)] that(2) ended(2) by simp
  with ended(3) show ?thesis unfolding ended(5) set_delivery_def by (intro keeps_update) auto
next
  case (claimed v a)
  have "x = v" if "x \<in> set (deliveries d)" "dvID x = i" for x using the_delivery[OF assms(2) that(1) claimed(1)] that(2) claimed(2) by simp
  with claimed(3) show ?thesis unfolding claimed(15) by (intro keeps_update) auto
qed

section \<open>The lock of a process\<close>

definition job_of :: "dispatch \<Rightarrow> uuid" where
  "job_of x = (case x of DLocked i \<Rightarrow> i | _ \<Rightarrow> tiID (the (task_of x)))"

definition starting :: "dispatch \<Rightarrow> trigger_input \<Rightarrow> bool" where
  "starting x t = (x = DClaimed t \<or> (\<exists>ph. x = DStarting t ph))"

definition being_started :: "trigger_input \<Rightarrow> auto_db \<Rightarrow> bool" where
  "being_started t d = (\<exists>v \<in> set (deliveries d). dvSnapshot v = t \<and> dvID v = tiID t \<and> dvState v = ''dispatching'')"

definition lock_inv :: "auto_state \<Rightarrow> bool" where
  "lock_inv s = (\<forall>p x. aProcs s p = Some x \<longrightarrow> aLocks s (job_of x) = Some p \<and> (\<forall>t. starting x t \<longrightarrow> being_started t (aAuto s)))"

text \<open>No connection is lost while its process goes on.\<close>

definition attached_step :: "conv_env \<Rightarrow> auto_env \<Rightarrow> auto_state \<Rightarrow> auto_act \<Rightarrow> auto_state \<Rightarrow> bool" where
  "attached_step cenv env s a s' = (auto_step cenv env s a s' \<and> (\<forall>i. a \<noteq> AuLost i))"

definition attached_inv :: "auto_state \<Rightarrow> bool" where
  "attached_inv s = (auto_inv s \<and> lock_inv s)"

lemma lock_invD:
  assumes "lock_inv s" "aProcs s p = Some x"
  shows "aLocks s (job_of x) = Some p" "starting x t \<Longrightarrow> being_started t (aAuto s)"
  using assms by (auto simp: lock_inv_def)

lemma being_started_kept: "keeps_dispatching d d' \<Longrightarrow> being_started t d \<Longrightarrow> being_started t d'"
  by (auto simp: being_started_def keeps_dispatching_def)

lemma lock_inv_keeps: "lock_inv s \<Longrightarrow> keeps_dispatching (aAuto s) d \<Longrightarrow> lock_inv (s\<lparr>aConv := cs, aAuto := d\<rparr>)"
  by (auto simp: lock_inv_def intro: being_started_kept)

lemma lock_inv_auto: "lock_inv s \<Longrightarrow> keeps_dispatching (aAuto s) d \<Longrightarrow> lock_inv (s\<lparr>aAuto := d\<rparr>)"
  using lock_inv_keeps[of s d "aConv s"] by simp

lemma lock_inv_conv: "lock_inv (s\<lparr>aConv := cs\<rparr>) = lock_inv s"
  by (simp add: lock_inv_def)

lemma lock_inv_proc:
  assumes "lock_inv s" "aProcs s p = Some y" "job_of x = job_of y" "\<And>t. starting x t \<Longrightarrow> being_started t (aAuto s)"
  shows "lock_inv (moved p x s)"
  using assms lock_invD(1)[OF assms(1,2)] by (auto simp: lock_inv_def)

lemma lock_inv_ended: "lock_inv s \<Longrightarrow> lock_inv (ended p s)"
  by (auto simp: lock_inv_def ended_def)

text \<open>A process writes the receipt of its own delivery only.\<close>

lemma lock_inv_written:
  assumes i: "lock_inv s" and p: "aProcs s p = Some x" "job_of x = tiID t"
    and d: "\<And>v. v \<in> set (deliveries (aAuto s)) \<Longrightarrow> dvID v \<noteq> tiID t \<Longrightarrow> v \<in> set (deliveries d)"
  shows "lock_inv (ended p (s\<lparr>aAuto := d\<rparr>))"
  unfolding lock_inv_def
proof (intro allI impI conjI)
  fix q y assume "aProcs (ended p (s\<lparr>aAuto := d\<rparr>)) q = Some y"
  then have q: "q \<noteq> p" "aProcs s q = Some y" by (auto split: if_split_asm)
  note l = lock_invD(1)[OF i q(2)]
  then show "aLocks (ended p (s\<lparr>aAuto := d\<rparr>)) (job_of y) = Some q" using q(1) by (simp add: ended_def)
  fix t' assume st: "starting y t'"
  then have j: "job_of y = tiID t'" by (auto simp: starting_def job_of_def task_of_def)
  have "tiID t' \<noteq> tiID t" using l lock_invD(1)[OF i p(1)] p(2) q(1) j by auto
  moreover obtain v where v: "v \<in> set (deliveries (aAuto s))" "dvSnapshot v = t'" "dvID v = tiID t'" "dvState v = ''dispatching''"
    using lock_invD(2)[OF i q(2) st] unfolding being_started_def by blast
  ultimately have "v \<in> set (deliveries d)" by (intro d) simp_all
  with v(2-4) show "being_started t' (aAuto (ended p (s\<lparr>aAuto := d\<rparr>)))"
    unfolding being_started_def ended_simps by (intro bexI[of _ v]) simp_all
qed

lemmas lock_simps = job_of_def task_of_def starting_def

lemma lock_inv_claim:
  assumes i: "lock_inv s" "auto_inv s" and p: "aProcs s p = Some (DLocked j)"
    and e: "claim_delivery j (store (aConv s)) (aAuto s) = Inr (k, d)" and x: "phase_of_claim k = Some x"
  shows "lock_inv (moved p x (s\<lparr>aAuto := d\<rparr>))"
proof (rule lock_inv_proc)
  note di = auto_invD(2)[OF i(2)]
  show "lock_inv (s\<lparr>aAuto := d\<rparr>)" by (rule lock_inv_auto[OF i(1) keeps_claim[OF e di]])
  show "aProcs (s\<lparr>aAuto := d\<rparr>) p = Some (DLocked j)" using p by simp
  obtain t where t: "task_of x = Some t" using x by (auto simp: phase_of_claim_def task_of_def split: claim.splits)
  from claim_decided[OF e di x t] t x show "job_of x = job_of (DLocked j)"
    by (auto simp: phase_of_claim_def job_of_def split: claim.splits)
  fix t' assume "starting x t'"
  with x have k: "k = Claimed t'" by (auto simp: phase_of_claim_def starting_def split: claim.splits)
  from e show "being_started t' (aAuto (s\<lparr>aAuto := d\<rparr>))"
  proof (cases rule: claim_cases)
    case (claimed v a)
    have "v\<lparr>dvState := ''dispatching''\<rparr> \<in> set (deliveries d)"
      using claimed(1,2) unfolding claimed(15) by (auto simp: set_update_where image_iff intro!: bexI[of _ v])
    then show ?thesis using claimed k
      unfolding being_started_def by (intro bexI[of _ "v\<lparr>dvState := ''dispatching''\<rparr>"]) simp_all
  qed (use k in blast)+
qed

lemma attached_step_inv: "attached_step cenv env s a s' \<Longrightarrow> attached_inv s \<Longrightarrow> attached_inv s'"
proof -
  assume e: "attached_step cenv env s a s'" and i: "attached_inv s"
  then have st: "auto_step cenv env s a s'" and ai: "auto_inv s" and li: "lock_inv s" and nl: "\<And>i. a \<noteq> AuLost i"
    by (simp_all add: attached_step_def attached_inv_def)
  note keeps = keeps_saveTx keeps_Delete keeps_Rotate keeps_ApplySchedule keeps_Webhook keeps_Trigger keeps_enqueueDue
  from st have "lock_inv s'"
  proof (cases rule: auto_step.cases)
    case (au_conversation fallback c w agent model project cd d)
    then show ?thesis by (auto elim!: createWithID_cases intro!: lock_inv_keeps[OF li] keeps_refl)
  next
    case (au_tables ps ds cs ts)
    then show ?thesis by (auto intro!: lock_inv_auto[OF li] keeps_refl)
  next
    case (au_lock i p)
    then show ?thesis using li by (auto simp: lock_inv_def lock_simps)
  next
    case (au_claim p j k d)
    show ?thesis
    proof (cases "phase_of_claim k")
      case None
      then show ?thesis using lock_inv_ended[OF lock_inv_auto[OF li keeps_claim[OF au_claim(4) auto_invD(2)[OF ai]]]] by (simp add: au_claim(2))
    next
      case (Some x)
      then show ?thesis using lock_inv_claim[OF li ai au_claim(3,4)] by (simp add: au_claim(2))
    qed
  next
    case (au_ping p t)
    then show ?thesis using lock_invD(2)[OF li au_ping(3), of t]
      by (auto intro!: lock_inv_proc[OF li au_ping(3)] simp: lock_simps)
  next
    case (au_found p t x)
    show ?thesis unfolding au_found(2) by (rule lock_inv_proc[OF li au_found(3)]) (simp_all add: lock_simps)
  next
    case (au_authorized p t)
    show ?thesis unfolding au_authorized(2)
      by (rule lock_inv_proc[OF li au_authorized(3)]) (use lock_invD(2)[OF li au_authorized(3), of t] in \<open>simp_all add: lock_simps\<close>)
  next
    case (au_created p t fallback cd d)
    from au_created(4) have "lock_inv (s\<lparr>aConv := (aConv s)\<lparr>store := cd\<rparr>, aAuto := d\<rparr>)" "keeps_dispatching (aAuto s) d"
      by (auto elim!: createWithID_cases intro!: lock_inv_keeps[OF li] keeps_refl)
    then show ?thesis unfolding au_created(2)
      using being_started_kept lock_invD(2)[OF li au_created(3), of t] au_created(3)
      by (intro lock_inv_proc[of _ p "DStarting t Creating"]) (auto simp: lock_simps)
  next
    case (au_accepted p t ph perm r)
    show ?thesis unfolding au_accepted(2) by (rule lock_inv_proc[OF li au_accepted(3)]) (simp_all add: lock_simps)
  next
    case (au_guard p t perm cs)
    have "lock_inv (s\<lparr>aConv := cs\<rparr>)" using li by (simp add: lock_inv_conv)
    then show ?thesis unfolding au_guard(2)
      using lock_invD(2)[OF li au_guard(3), of t] au_guard(3)
      by (intro lock_inv_proc[of _ p "DStarting t Sending"]) (auto simp: lock_simps)
  next
    case (au_run p t perm r cd x)
    have "lock_inv (s\<lparr>aConv := (aConv s)\<lparr>store := cd, held := (held (aConv s))(tiConversation t := Some (Executing r))\<rparr>\<rparr>)"
      using li by (simp add: lock_inv_conv)
    then show ?thesis unfolding au_run(2) using au_run(3,7)
      by (intro lock_inv_proc[of _ p "DStarting t Guarded"]) (auto simp: lock_simps)
  next
    case (au_failed p t ph)
    show ?thesis unfolding au_failed(2) by (rule lock_inv_proc[OF li au_failed(3)]) (simp_all add: lock_simps)
  next
    case (au_lookup p t)
    show ?thesis unfolding au_lookup(2) by (rule lock_inv_proc[OF li au_lookup(3)]) (simp_all add: lock_simps)
  next
    case (au_reconcile p t rcpt)
    show ?thesis unfolding au_reconcile(2)
      by (rule lock_inv_written[OF li au_reconcile(3), of t])
        (auto simp: lock_simps reconcile_def acceptReceipt_def set_update_where image_iff split: option.splits)
  next
    case (au_receipt p t r)
    show ?thesis unfolding au_receipt(2)
      by (rule lock_inv_written[OF li au_receipt(3), of t])
        (auto simp: lock_simps acceptReceipt_def set_update_where image_iff)
  qed (use li nl keeps in \<open>auto simp: lock_inv_conv intro: lock_inv_auto lock_inv_ended\<close>)
  with auto_step_inv[OF st ai] show "attached_inv s'" by (simp add: attached_inv_def)
qed

interpretation attached: labelled_system "attached_step cenv env" attached_inv for cenv env
  by unfold_locales (rule attached_step_inv)

text \<open>Two processes that start deliveries of one task are the same.\<close>

lemma starts_alone:
  assumes "attached_inv s" "aProcs s p = Some x" "aProcs s q = Some y" "starting x t" "starting y t'"
    "v \<in> set (deliveries (aAuto s))" "w \<in> set (deliveries (aAuto s))" "dvID v = tiID t" "dvID w = tiID t'" "dvAutomation v = dvAutomation w"
  shows "p = q"
proof -
  have ai: "auto_inv s" and li: "lock_inv s" using assms(1) by (simp_all add: attached_inv_def)
  note di = auto_invD(2)[OF ai]
  have dv: "dvState v = ''dispatching''" "dvState w = ''dispatching''"
  proof -
    have "dvState u = ''dispatching''" if "being_started t1 (aAuto s)" "u \<in> set (deliveries (aAuto s))" "dvID u = tiID t1" for u t1
    proof -
      from that(1) obtain u' where "u' \<in> set (deliveries (aAuto s))" "dvID u' = tiID t1" "dvState u' = ''dispatching''"
        unfolding being_started_def by blast
      with the_delivery[OF di that(2)] that(3) show ?thesis by metis
    qed
    then show "dvState v = ''dispatching''" "dvState w = ''dispatching''"
      using lock_invD(2)[OF li assms(2,4)] lock_invD(2)[OF li assms(3,5)] assms(6-9) by blast+
  qed
  have "v = w" by (rule one_dispatching[OF di assms(6,7,10) dv])
  then have "tiID t = tiID t'" using assms(8,9) by simp
  moreover have "job_of x = tiID t" using assms(4) by (auto simp: starting_def job_of_def task_of_def)
  moreover have "job_of y = tiID t'" using assms(5) by (auto simp: starting_def job_of_def task_of_def)
  ultimately have "job_of x = job_of y" by simp
  then show "p = q" using lock_invD(1)[OF li assms(2)] lock_invD(1)[OF li assms(3)] by simp
qed

end
