(* ===== verification/AutoTimes.thy ===== *)
theory AutoTimes
  imports AutoLocks
begin

text \<open>
  The times of schedules.  With a clock that does not run backwards between the transactions, the
  next time of a task is later than every occurrence that was enqueued for it, so that the key of
  a due occurrence is new and \<open>enqueueDue\<close> succeeds.
\<close>

section \<open>What the cron parser promises\<close>

text \<open>\<open>Next\<close> returns a time after its argument, on a full second.\<close>

definition cron_ok :: "auto_env \<Rightarrow> bool" where
  "cron_ok env = (\<forall>spec zone t n. aeNext env spec zone t = Some n \<longrightarrow> t < n \<and> n mod second = 0)"

lemma truncate_second: "n mod second = 0 \<Longrightarrow> truncate_micro n = n"
  by (auto simp: truncate_micro_def second_def microsecond_def mod_eq_0_iff_dvd elim!: dvdE)

text \<open>A configuration that passed validation.\<close>

definition config_valid :: "auto_env \<Rightarrow> auto_config \<Rightarrow> bool" where
  "config_valid env c = (acKind c = ''schedule'' \<longrightarrow> aeZone env (acTimezone c) \<and> acTimezone c \<noteq> ''Local'' \<and>
     (acCron c = []) \<noteq> (acRunAt c = None) \<and> (acRunAt c = None \<longrightarrow> field_count (acCron c) = 5) \<and>
     trim_run_at (acRunAt c) = acRunAt c)"

lemma trim_run_at_idem [simp]: "trim_run_at (trim_run_at r) = trim_run_at r"
  by (cases r) (simp_all add: trim_run_at_def)

lemma nextOccurrence_cases:
  assumes "nextOccurrence env c now = Inr r" "acKind c = ''schedule''"
  obtains "aeZone env (acTimezone c)" "acTimezone c \<noteq> ''Local''" "(acCron c = []) \<noteq> (acRunAt c = None)"
    "acRunAt c = None \<Longrightarrow> field_count (acCron c) = 5" "\<not> acEnabled c \<Longrightarrow> r = None"
    "\<And>t. acEnabled c \<Longrightarrow> acRunAt c = Some t \<Longrightarrow> r = Some t \<and> now < t"
    "acEnabled c \<Longrightarrow> acRunAt c = None \<Longrightarrow> r \<noteq> None \<and> r = aeNext env (acCron c) (acTimezone c) now"
proof (cases "acRunAt c")
  case None
  with assms obtain n where "acCron c \<noteq> []" "aeZone env (acTimezone c)" "acTimezone c \<noteq> ''Local''" "field_count (acCron c) = 5"
    "aeNext env (acCron c) (acTimezone c) now = Some n" "r = (if acEnabled c then Some n else None)"
    by (auto simp: nextOccurrence_def split: if_split_asm elim!: bindrE)
  with None show ?thesis by (intro that) simp_all
next
  case (Some t)
  with assms have "acCron c = []" "aeZone env (acTimezone c)" "acTimezone c \<noteq> ''Local''" "acEnabled c \<Longrightarrow> now < t"
    "r = (if acEnabled c then Some t else None)"
    by (simp_all add: nextOccurrence_def split: if_split_asm)
  with Some show ?thesis by (intro that) simp_all
qed

lemma next_after:
  assumes "nextOccurrence env c now = Inr (Some n)" "cron_ok env" "trim_run_at (acRunAt c) = acRunAt c"
  shows "trim_run_at (Some n) = Some n" "now < n"
proof -
  have k: "acKind c = ''schedule''" using assms(1) by (auto simp: nextOccurrence_def split: if_split_asm)
  from assms(1) k have "trim_run_at (Some n) = Some n \<and> now < n"
  proof (cases rule: nextOccurrence_cases)
    case 1
    have en: "acEnabled c" using 1(5) by auto
    show ?thesis
    proof (cases "acRunAt c")
      case None
      with 1(7) en assms(2) have "now < n \<and> n mod second = 0" unfolding cron_ok_def by metis
      then show ?thesis by (simp add: trim_run_at_def truncate_second)
    next
      case (Some t)
      with 1(6)[OF en Some] assms(3) show ?thesis by simp
    qed
  qed
  then show "trim_run_at (Some n) = Some n" "now < n" by simp_all
qed

section \<open>The invariant of the times\<close>

definition scheduled_ok :: "instant \<Rightarrow> auto_delivery \<Rightarrow> bool" where
  "scheduled_ok now v = (case dvScheduled v of
       None \<Rightarrow> has_prefix (dvKey v) ''webhook:'' \<or> has_prefix (dvKey v) ''manual:''
     | Some t \<Rightarrow> dvKey v = schedule_key t \<and> t \<le> now)"

definition times_inv :: "auto_env \<Rightarrow> instant \<Rightarrow> auto_db \<Rightarrow> bool" where
  "times_inv env now d = (list_all (scheduled_ok now) (deliveries d) \<and> distinct (map auID (automations d)) \<and>
     list_all (\<lambda>a. config_valid env (auConfig a)) (automations d) \<and>
     (\<forall>v \<in> set (deliveries d). \<forall>a \<in> set (automations d). \<forall>t n. dvAutomation v = auID a \<longrightarrow> dvScheduled v = Some t \<longrightarrow>
        auNextRun a = Some n \<longrightarrow> t < n))"

definition same_occurrence :: "auto_delivery \<Rightarrow> auto_delivery \<Rightarrow> bool" where
  "same_occurrence v w = (dvKey w = dvKey v \<and> dvScheduled w = dvScheduled v \<and> dvAutomation w = dvAutomation v)"

lemma times_inv_later: "times_inv env now d \<Longrightarrow> now \<le> now' \<Longrightarrow> times_inv env now' d"
  by (fastforce simp: times_inv_def list_all_iff scheduled_ok_def split: option.splits)

text \<open>A change that schedules nothing.\<close>

lemma times_inv_change:
  assumes i: "times_inv env now d"
    and v: "\<And>w. w \<in> set (deliveries d') \<Longrightarrow> (\<exists>v \<in> set (deliveries d). same_occurrence v w) \<or> dvScheduled w = None \<and> scheduled_ok now w"
    and m: "distinct (map auID (automations d'))"
    and a: "\<And>b. b \<in> set (automations d') \<Longrightarrow> config_valid env (auConfig b) \<and>
      (\<forall>n. auNextRun b = Some n \<longrightarrow> now < n \<or> (\<exists>a \<in> set (automations d). auID b = auID a \<and> auNextRun a = Some n))"
  shows "times_inv env now d'"
proof -
  have same: "same_occurrence v w \<Longrightarrow> scheduled_ok now w = scheduled_ok now v" for v w
    by (simp add: same_occurrence_def scheduled_ok_def split: option.split)
  have ok: "scheduled_ok now w" if "w \<in> set (deliveries d')" for w
    using v[OF that] i same unfolding times_inv_def list_all_iff by blast
  have "t < n" if w: "w \<in> set (deliveries d')" "b \<in> set (automations d')" "dvAutomation w = auID b" "dvScheduled w = Some t" "auNextRun b = Some n"
    for w b t n
  proof -
    from v[OF w(1)] w(4) obtain v0 where v0: "v0 \<in> set (deliveries d)" "same_occurrence v0 w" by auto
    from a[OF w(2)] w(5) have "now < n \<or> (\<exists>a \<in> set (automations d). auID b = auID a \<and> auNextRun a = Some n)" by blast
    moreover have "t \<le> now" using ok[OF w(1)] w(4) by (simp add: scheduled_ok_def)
    moreover have "t < n" if "a0 \<in> set (automations d)" "auID b = auID a0" "auNextRun a0 = Some n" for a0
      using i v0 that w(3,4) unfolding times_inv_def same_occurrence_def by metis
    ultimately show ?thesis by (auto dest: less_le_trans order.strict_trans1)
  qed
  then show ?thesis using ok m a by (auto simp: times_inv_def list_all_iff)
qed

lemma moves_occurrences:
  "auto_moves d d' \<Longrightarrow> length (deliveries d') = length (deliveries d) \<Longrightarrow> w \<in> set (deliveries d') \<Longrightarrow> \<exists>v \<in> set (deliveries d). same_occurrence v w"
  unfolding auto_moves_def
  by (drule conjunct2, drule (1) delivery_rows.same_rows, drule (1) all2_back)
    (auto simp: delivery_ev_def same_delivery_def same_occurrence_def)

lemma times_inv_deliveries:
  assumes "times_inv env now d" "auto_moves d d'" "length (deliveries d') = length (deliveries d)" "automations d' = automations d"
  shows "times_inv env now d'"
  using assms(1,4) moves_occurrences[OF assms(2,3)]
  by (intro times_inv_change[OF assms(1)]) (auto simp: times_inv_def list_all_iff)

section \<open>The operations\<close>

lemma times_cancel_pending: "times_inv env now d \<Longrightarrow> deliveries_inv d \<Longrightarrow> times_inv env now (cancel_pending w i code d)"
  by (rule times_inv_deliveries[OF _ auto_good_moves[OF good_cancel_pending]]) (simp_all add: cancel_pending_def)

lemma validated_config:
  assumes "validateSchedule env w (normalize_config c) now d = Inr nxt" "cron_ok env"
  shows "config_valid env (normalize_config c)" "trim_run_at nxt = Some n \<Longrightarrow> now < n"
proof -
  have e: "nextOccurrence env (normalize_config c) now = Inr nxt" using assms(1) by (simp add: validateSchedule_def split: if_split_asm)
  have r: "trim_run_at (acRunAt (normalize_config c)) = acRunAt (normalize_config c)" by (simp add: normalize_config_def)
  show "config_valid env (normalize_config c)"
    unfolding config_valid_def by (intro impI) (erule nextOccurrence_cases[OF e], simp add: r)
  show "now < n" if "trim_run_at nxt = Some n"
  proof -
    from that obtain m where m: "nxt = Some m" by (cases nxt) (simp_all add: trim_run_at_def)
    from next_after[OF e[unfolded m] assms(2) r] that m show ?thesis by simp
  qed
qed

lemma times_saveTx:
  assumes e: "saveTx env w u i c vsn now rnd cd d = Inr (x, secret, d')"
    and t: "times_inv env now d" and di: "deliveries_inv d" and k: "cron_ok env"
  shows "times_inv env now d'"
  using e
proof (cases rule: saveTx_cases)
  case existing
  then show ?thesis using t by simp
next
  case (created nxt d1)
  note v = validated_config[OF created(2) k]
  obtain a where a: "d1 = d\<lparr>automations := automations d @ [a]\<rparr>" "auConfig a = normalize_config c" "auNextRun a = trim_run_at nxt"
      "\<And>y. y \<in> set (automations d) \<Longrightarrow> auID y \<noteq> auID a"
    using created(6) by (auto simp: create_automation_def insert_automation_def Let_def list_ex_iff split: if_split_asm prod.splits elim!: bindrE)
  have "times_inv env now d1"
    using t v a(4) by (intro times_inv_change[OF t]) (fastforce simp: a(1-3) times_inv_def list_all_iff same_occurrence_def)+
  then show ?thesis unfolding created(7) by (simp add: times_cancel_pending[OF _ auto_good_inv[OF good_create_automation[OF created(6) di]]])
next
  case (updated nxt d1)
  note v = validated_config[OF updated(2) k]
  obtain P where d1: "d1 = on_automations P (\<lambda>a. a\<lparr>auConfig := normalize_config c, auNextRun := trim_run_at nxt, auRevision := auRevision a + 1\<rparr>) d"
    using updated(5) by (auto simp: update_automation_def Let_def split: if_split_asm)
  have "times_inv env now d1"
  proof (rule times_inv_change[OF t])
    show "distinct (map auID (automations d1))" using t by (simp add: d1 map_update_where_key times_inv_def)
    fix b assume "b \<in> set (automations d1)"
    then obtain a where "a \<in> set (automations d)" "b = (if P a then a\<lparr>auConfig := normalize_config c, auNextRun := trim_run_at nxt, auRevision := auRevision a + 1\<rparr> else a)"
      by (auto simp: d1 set_update_where)
    then show "config_valid env (auConfig b) \<and> (\<forall>n. auNextRun b = Some n \<longrightarrow> now < n \<or> (\<exists>a \<in> set (automations d). auID b = auID a \<and> auNextRun a = Some n))"
      using v t by (cases "P a") (auto simp: times_inv_def list_all_iff)
  qed (auto simp: d1 same_occurrence_def)
  then show ?thesis unfolding updated(6) by (simp add: times_cancel_pending[OF _ auto_good_inv[OF good_update_automation[OF updated(5) di]]])
qed

lemma times_Delete:
  assumes e: "Delete w u i vsn d = Inr d'" and t: "times_inv env now d" and di: "deliveries_inv d"
  shows "times_inv env now d'"
proof -
  let ?f = "\<lambda>a. a\<lparr>auDeleted := True, auConfig := (auConfig a)\<lparr>acEnabled := False\<rparr>, auNextRun := None, auRevision := auRevision a + 1\<rparr>"
  obtain P where d': "d' = cancel_pending w i ''deleted'' (on_automations P ?f d)"
    using e by (auto simp: Delete_def Let_def split: if_split_asm)
  have "times_inv env now (on_automations P ?f d)"
  proof (rule times_inv_change[OF t])
    show "distinct (map auID (automations (on_automations P ?f d)))" using t by (simp add: map_update_where_key times_inv_def)
    fix b assume "b \<in> set (automations (on_automations P ?f d))"
    then obtain a where "a \<in> set (automations d)" "b = (if P a then ?f a else a)" by (auto simp: set_update_where)
    then show "config_valid env (auConfig b) \<and> (\<forall>n. auNextRun b = Some n \<longrightarrow> now < n \<or> (\<exists>a \<in> set (automations d). auID b = auID a \<and> auNextRun a = Some n))"
      using t by (cases "P a") (auto simp: times_inv_def list_all_iff config_valid_def)
  qed (auto simp: same_occurrence_def)
  then show ?thesis unfolding d' by (rule times_cancel_pending[OF _ auto_good_inv[OF good_on_automations[OF di]]])
qed

lemma times_Rotate:
  assumes e: "Rotate w u i vsn rnd d = Inr (x, token, d')" and t: "times_inv env now d"
  shows "times_inv env now d'"
proof -
  obtain P h where d': "d' = on_automations P (\<lambda>a. a\<lparr>auHash := h, auRevision := auRevision a + 1\<rparr>) d"
    using e by (auto simp: Rotate_def Let_def split: option.splits prod.splits)
  show ?thesis
  proof (rule times_inv_change[OF t])
    show "distinct (map auID (automations d'))" using t by (simp add: d' map_update_where_key times_inv_def)
    fix b assume "b \<in> set (automations d')"
    then obtain a where "a \<in> set (automations d)" "b = (if P a then a\<lparr>auHash := h, auRevision := auRevision a + 1\<rparr> else a)"
      by (auto simp: d' set_update_where)
    then show "config_valid env (auConfig b) \<and> (\<forall>n. auNextRun b = Some n \<longrightarrow> now < n \<or> (\<exists>a \<in> set (automations d). auID b = auID a \<and> auNextRun a = Some n))"
      using t by (cases "P a") (auto simp: times_inv_def list_all_iff)
  qed (auto simp: d' same_occurrence_def)
qed

lemma times_insert:
  assumes e: "insertDelivery a i key digest source state code None stamp d = Inr d'" and t: "times_inv env now d"
    and k: "has_prefix key ''webhook:'' \<or> has_prefix key ''manual:''"
  shows "times_inv env now d'"
  using e
proof (rule insertDelivery_cases)
  fix v assume v: "d' = d\<lparr>deliveries := deliveries d @ [v], lastOrder := lastOrder d + 1\<rparr>" "dvKey v = key" "dvScheduled v = None"
  then show ?thesis using t k
    by (intro times_inv_change[OF t]) (auto simp: times_inv_def list_all_iff same_occurrence_def scheduled_ok_def)
qed

lemma times_acceptDelivery:
  assumes "acceptDelivery a i key digest source stamp d = Inr (v, d')" "times_inv env now d"
    "has_prefix key ''webhook:'' \<or> has_prefix key ''manual:''"
  shows "times_inv env now d'"
  using assms(1) by (cases rule: acceptDelivery_cases) (use assms(2,3) times_insert in auto)

lemma times_Webhook: "Webhook i token key payload n c stamp cd d = Inr (v, d') \<Longrightarrow> times_inv env now d \<Longrightarrow> times_inv env now d'"
  by (erule Webhook_cases) (erule times_acceptDelivery, assumption, simp only: has_prefix_append simp_thms)

lemma times_Trigger: "Trigger w u i n c stamp d = Inr (v, d') \<Longrightarrow> times_inv env now d \<Longrightarrow> times_inv env now d'"
  by (erule Trigger_cases) (erule times_acceptDelivery, assumption, simp only: has_prefix_append simp_thms)

section \<open>Due schedules\<close>

lemma set_insert_due: "set (insert_due a bs) = insert a (set bs)"
  by (induction bs) auto

lemma due_sorted_set: "set (foldr insert_due xs []) = set xs"
  by (induction xs) (auto simp: set_insert_due)

lemma distinct_insert_due: "distinct (map auID bs) \<Longrightarrow> auID a \<notin> auID ` set bs \<Longrightarrow> distinct (map auID (insert_due a bs))"
  by (induction bs) (auto simp: set_insert_due)

lemma due_sorted_distinct: "distinct (map auID xs) \<Longrightarrow> distinct (map auID (foldr insert_due xs []))"
  by (induction xs) (auto simp: distinct_insert_due due_sorted_set)

lemma due_automations_in:
  "a \<in> set (due_automations locked now d) \<Longrightarrow> a \<in> set (automations d) \<and> due_at now a"
  unfolding due_automations_def by (auto dest!: in_set_takeD simp: due_sorted_set)

lemma distinct_map_filter: "distinct (map f xs) \<Longrightarrow> distinct (map f (filter P xs))"
  by (induction xs) auto

lemma due_automations_distinct:
  "distinct (map auID (automations d)) \<Longrightarrow> distinct (map auID (due_automations locked now d))"
  unfolding due_automations_def by (simp add: take_map[symmetric] due_sorted_distinct distinct_map_filter)

lemma due_time: "due_at now a \<Longrightarrow> \<exists>t. auNextRun a = Some t \<and> t \<le> now"
  using truncate_micro_le[of now] by (auto simp: due_at_def split: option.splits)

text \<open>What an occurrence leaves of the tasks.\<close>

lemma enqueue_one_others:
  assumes "enqueue_one env now stamp ids a cd d = Inr d'" "b \<in> set (automations d)" "auID b \<noteq> auID a"
  shows "b \<in> set (automations d')"
proof (cases "auNextRun a")
  case None
  with assms show ?thesis by (simp add: enqueue_one_def)
next
  case (Some t)
  from assms(1) Some show ?thesis
    by (rule enqueue_one_cases) (use assms(2,3) in \<open>auto elim!: insertDelivery_cases simp: set_update_where image_iff\<close>)
qed

lemma times_enqueue_one:
  assumes e: "enqueue_one env now stamp ids a cd d = Inr d'" and i: "times_inv env now d" and k: "cron_ok env"
    and a: "a \<in> set (automations d)" "auNextRun a = Some t" "t \<le> now"
  shows "times_inv env now d'"
  using e a(2)
proof (rule enqueue_one_cases)
  fix state code d1 nxt
  assume ins: "insertDelivery a (newInput (fst ids) (snd ids) a) (schedule_key t) ''schedule'' ''schedule'' state code (Some t) stamp d = Inr d1"
    and nx: "(if acCron (auConfig a) = [] then Inr None else nextOccurrence env (auConfig a) now) = Inr nxt"
    and d': "d' = on_automations (\<lambda>x. auID x = auID a \<and> auWorkspace x = auWorkspace a)
            (\<lambda>x. x\<lparr>auNextRun := trim_run_at nxt, auRevision := auRevision x + 1\<rparr>) d1"
  let ?f = "\<lambda>x. x\<lparr>auNextRun := trim_run_at nxt, auRevision := auRevision x + 1\<rparr>"
  from ins obtain v where d1: "d1 = d\<lparr>deliveries := deliveries d @ [v], lastOrder := lastOrder d + 1\<rparr>"
    and v: "dvAutomation v = auID a" "dvKey v = schedule_key t" "dvScheduled v = Some t" by (rule insertDelivery_cases)
  have only: "x = a" if "x \<in> set (automations d)" "auID x = auID a" for x
    using distinct_key[of auID, OF _ that(1) a(1) that(2)] i by (simp add: times_inv_def)
  have valid: "config_valid env (auConfig x)" if "x \<in> set (automations d)" for x using i that by (simp add: times_inv_def list_all_iff)
  have later: "now < n" if "trim_run_at nxt = Some n" for n
  proof -
    from that obtain m where m: "nxt = Some m" by (cases nxt) (simp_all add: trim_run_at_def)
    with nx have "acCron (auConfig a) \<noteq> []" "nextOccurrence env (auConfig a) now = Inr (Some m)" by (auto split: if_split_asm)
    moreover from this have "acKind (auConfig a) = ''schedule''" by (auto simp: nextOccurrence_def split: if_split_asm)
    ultimately have "trim_run_at (Some m) = Some m \<and> now < m"
      using next_after k valid[OF a(1)] unfolding config_valid_def by blast
    with that m show ?thesis by simp
  qed
  have row: "(\<exists>y \<in> set (automations d). x = y \<and> auID y \<noteq> auID a) \<or> x = ?f a" if x: "x \<in> set (automations d')" for x
  proof -
    from x obtain y where y: "y \<in> set (automations d)" "x = (if auID y = auID a \<and> auWorkspace y = auWorkspace a then ?f y else y)"
      by (auto simp: d' d1 set_update_where)
    show ?thesis
    proof (cases "auID y = auID a")
      case True
      with only[OF y(1)] y(2) show ?thesis by simp
    qed (use y in auto)
  qed
  have "scheduled_ok now v" using v a(3) by (simp add: scheduled_ok_def)
  moreover have "config_valid env (auConfig x)" if "x \<in> set (automations d')" for x
    using row[OF that] valid a(1) by auto
  moreover have "s < n" if w: "w \<in> set (deliveries d')" "x \<in> set (automations d')" "dvAutomation w = auID x" "dvScheduled w = Some s" "auNextRun x = Some n"
    for w x s n
  proof (cases "auID x = auID a")
    case True
    then have "trim_run_at nxt = Some n" using row[OF w(2)] w(5) by auto
    moreover have "s \<le> now"
    proof (cases "w = v")
      case True
      then show ?thesis using v(3) a(3) w(4) by simp
    next
      case False
      then have "scheduled_ok now w" using w(1) i by (simp add: d' d1 times_inv_def list_all_iff)
      then show ?thesis using w(4) by (simp add: scheduled_ok_def)
    qed
    ultimately show ?thesis using later by fastforce
  next
    case False
    then have "x \<in> set (automations d)" using row[OF w(2)] by auto
    moreover have "w \<in> set (deliveries d)" using w(1,3) v(1) False by (auto simp: d' d1)
    ultimately show ?thesis using i w(3-5) unfolding times_inv_def by metis
  qed
  moreover have "map auID (automations d') = map auID (automations d)" by (simp add: d' d1 map_update_where_key)
  moreover have "set (deliveries d') = insert v (set (deliveries d))" by (auto simp: d' d1)
  ultimately show ?thesis using i unfolding times_inv_def list_all_iff by (metis insert_iff)
qed

lemma times_enqueue_all:
  assumes "enqueue_all env now stamp as cd d = Inr d'" "times_inv env now d" "cron_ok env"
    "distinct (map (auID \<circ> fst) as)" "\<And>a i. (a, i) \<in> set as \<Longrightarrow> a \<in> set (automations d) \<and> due_at now a"
  shows "times_inv env now d'"
  using assms
proof (induction env now stamp as cd d rule: enqueue_all.induct)
  case (2 env now stamp a ids as cd d)
  from 2(2) obtain d1 where d1: "enqueue_one env now stamp ids a cd d = Inr d1" "enqueue_all env now stamp as cd d1 = Inr d'"
    by (auto elim!: bindrE)
  have a: "a \<in> set (automations d)" "due_at now a" using 2(6)[of a ids] by simp_all
  obtain t where t: "auNextRun a = Some t" "t \<le> now" using due_time[OF a(2)] by blast
  show ?case
  proof (rule 2(1)[OF d1(1,2) times_enqueue_one[OF d1(1) 2(3,4) a(1) t] 2(4)])
    show "distinct (map (auID \<circ> fst) as)" using 2(5) by (simp add: comp_def)
    fix b j assume b: "(b, j) \<in> set as"
    then have "auID b \<noteq> auID a" using 2(5) by force
    with enqueue_one_others[OF d1(1)] 2(6)[of b j] b show "b \<in> set (automations d1) \<and> due_at now b" by simp
  qed
qed simp

lemma zip_keys: "distinct (map auID as) \<Longrightarrow> distinct (map (auID \<circ> fst) (zip as is))"
proof (induction as arbitrary: "is")
  case (Cons a as)
  then show ?case by (cases "is") (auto dest: set_zip_leftD)
qed simp

lemma zip_ids: "distinct (map fst is) \<Longrightarrow> distinct (map (fst \<circ> snd) (zip as is))"
proof (induction "is" arbitrary: as)
  case (Cons i "is")
  then show ?case by (cases as) (fastforce simp: comp_def dest: set_zip_rightD)+
qed simp

lemma times_enqueueDue:
  assumes "enqueueDue env locked now stamp ids cd d = Inr d'" "times_inv env now d" "cron_ok env"
  shows "times_inv env now d'"
  using assms(1) unfolding enqueueDue_def
proof (rule times_enqueue_all[OF _ assms(2,3)])
  show "distinct (map (auID \<circ> fst) (zip (due_automations locked now d) ids))"
    using assms(2) by (intro zip_keys due_automations_distinct) (simp add: times_inv_def)
  show "a \<in> set (automations d) \<and> due_at now a" if "(a, i) \<in> set (zip (due_automations locked now d) ids)" for a i
    using due_automations_in set_zip_leftD[OF that] by blast
qed

section \<open>The occurrence is new\<close>

lemma schedule_key_inj: "schedule_key t = schedule_key t' \<Longrightarrow> t = t'"
  by (rule rfc3339_nano_inj) (simp add: schedule_key_def)

lemma schedule_key_source: "\<not> has_prefix (schedule_key t) ''webhook:''" "\<not> has_prefix (schedule_key t) ''manual:''"
  by (simp_all add: schedule_key_def has_prefix_def)

lemma due_key_new:
  assumes "times_inv env now d" "a \<in> set (automations d)" "auNextRun a = Some t" "v \<in> set (deliveries d)" "dvAutomation v = auID a"
  shows "dvKey v \<noteq> schedule_key t"
proof
  assume e: "dvKey v = schedule_key t"
  have ok: "scheduled_ok now v" using assms(1,4) by (simp add: times_inv_def list_all_iff)
  then obtain t' where t': "dvScheduled v = Some t'" "dvKey v = schedule_key t'"
    using schedule_key_source[of t] e by (auto simp: scheduled_ok_def split: option.splits)
  have "t' < t" using assms t'(1) unfolding times_inv_def by metis
  with t'(2) e schedule_key_inj show False by fastforce
qed

lemma length_drop_zeros: "length (drop_zeros s) \<le> length s"
  using length_dropWhile_le[of _ "rev s"] by (simp add: drop_zeros_def)

lemma length_rfc3339_nano: "json_year t \<Longrightarrow> length (rfc3339_nano t) \<le> 30"
proof -
  assume j: "json_year t"
  obtain y m d where c: "civil (t div second div 86400) = (y, m, d)" by (metis surj_pair)
  obtain y' yday where yd: "year_day (t div second div 86400 + 719162) = (y', yday)" "month_day y' yday = (m, d)"
    using c by (auto simp: civil_def split: prod.splits)
  have r: "0 \<le> m \<and> m < 100 \<and> 0 \<le> d \<and> d < 100" using month_day_range[OF yd(2)] year_day_range[OF yd(1)] by blast
  have "0 \<le> y" "nat y < 10 ^ 4" using j c by (auto simp: json_year_def)
  then have y: "length (year_text y) = 4" by (simp add: year_text_def length_pad_zero)
  have two: "length (two n) = 2" if "0 \<le> n" "n < 100" for n using that by (simp add: two_def length_pad_zero)
  define s where "s = t div second mod 86400"
  have "0 \<le> s" "s < 86400" by (simp_all add: s_def)
  then have h: "length (two (s div 3600)) = 2" "length (two (s div 60 mod 60)) = 2" "length (two (s mod 60)) = 2"
    by (auto intro!: two simp: pos_imp_zdiv_nonneg_iff)
  have "length (pad_zero 9 (nat (t mod second))) = 9" by (rule length_pad_zero) (auto simp: second_def)
  then have "length (fraction_text (t mod second)) \<le> 10"
    using length_drop_zeros[of "pad_zero 9 (nat (t mod second))"] by (simp add: fraction_text_def)
  moreover have "length (rfc3339_nano t) = 20 + length (fraction_text (t mod second))"
    using r by (simp add: rfc3339_nano_def Let_def c s_def[symmetric] y two h)
  ultimately show ?thesis by simp
qed

lemma schedule_key_length: "json_year t \<Longrightarrow> schedule_key t \<noteq> [] \<and> rune_count (schedule_key t) \<le> 160"
  using length_rfc3339_nano[of t] rune_count_le[of "schedule_key t"] by (simp add: schedule_key_def)

text \<open>What one due schedule needs.\<close>

definition can_enqueue :: "auto_env \<Rightarrow> instant \<Rightarrow> automation \<Rightarrow> bool" where
  "can_enqueue env now a = ((case auNextRun a of None \<Rightarrow> True | Some t \<Rightarrow> json_year t) \<and>
     (case acRunAt (auConfig a) of None \<Rightarrow> aeNext env (acCron (auConfig a)) (acTimezone (auConfig a)) now \<noteq> None | Some t \<Rightarrow> json_year t))"

lemma next_exists:
  assumes "config_valid env (auConfig a)" "acKind (auConfig a) = ''schedule''" "can_enqueue env now a"
  shows "\<exists>r. (if acCron (auConfig a) = [] then Inr None else nextOccurrence env (auConfig a) now) = Inr r"
  using assms by (cases "acRunAt (auConfig a)") (auto simp: config_valid_def can_enqueue_def nextOccurrence_def)

lemma enqueue_one_ok:
  assumes i: "times_inv env now d" and a: "a \<in> set (automations d)" "due_at now a" "can_enqueue env now a"
    and f: "fst ids \<notin> dvID ` set (deliveries d)"
  obtains d' where "enqueue_one env now stamp ids a cd d = Inr d'" "dvID ` set (deliveries d') = insert (fst ids) (dvID ` set (deliveries d))"
proof -
  obtain t where t: "auNextRun a = Some t" using due_time[OF a(2)] by blast
  have k: "acKind (auConfig a) = ''schedule''" using a(2) by (simp add: due_at_def)
  have v: "config_valid env (auConfig a)" using i a(1) by (simp add: times_inv_def list_all_iff)
  obtain r where r: "(if acCron (auConfig a) = [] then Inr None else nextOccurrence env (auConfig a) now) = Inr r"
    using next_exists[OF v k a(3)] by blast
  have ins: "\<exists>d1. insertDelivery a (newInput (fst ids) (snd ids) a) (schedule_key t) ''schedule'' ''schedule'' state code (Some t) stamp d = Inr d1 \<and>
      dvID ` set (deliveries d1) = insert (fst ids) (dvID ` set (deliveries d))" for state code
  proof -
    have "\<not> list_ex (\<lambda>v. dvID v = fst ids \<or> dvAutomation v = auID a \<and> dvKey v = schedule_key t) (deliveries d)"
      using f due_key_new[OF i a(1) t] unfolding list_ex_iff by (metis image_eqI)
    moreover have "schedule_key t \<noteq> [] \<and> rune_count (schedule_key t) \<le> 160" using a(3) t by (simp add: can_enqueue_def schedule_key_length)
    moreover have "\<not> (case acRunAt (auConfig a) of None \<Rightarrow> False | Some t \<Rightarrow> \<not> json_year t)"
      using a(3) by (auto simp: can_enqueue_def split: option.splits)
    ultimately show ?thesis by (auto simp: insertDelivery_def)
  qed
  let ?p = "if busy cd d (auID a) \<or> has_pending d (auID a) then (''skipped'', ''busy'') else (''pending'', [])"
  obtain d1 where d1: "insertDelivery a (newInput (fst ids) (snd ids) a) (schedule_key t) ''schedule'' ''schedule'' (fst ?p) (snd ?p) (Some t) stamp d = Inr d1"
    "dvID ` set (deliveries d1) = insert (fst ids) (dvID ` set (deliveries d))" using ins by blast
  have "enqueue_one env now stamp ids a cd d = Inr (on_automations (\<lambda>x. auID x = auID a \<and> auWorkspace x = auWorkspace a)
                (\<lambda>x. x\<lparr>auNextRun := trim_run_at r, auRevision := auRevision x + 1\<rparr>) d1)"
    using d1(1) r by (simp add: enqueue_one_def t Let_def split_beta)
  from that[OF this] d1(2) show ?thesis by simp
qed

lemma enqueue_all_ok:
  assumes "times_inv env now d" "cron_ok env" "distinct (map (auID \<circ> fst) as)" "distinct (map (fst \<circ> snd) as)"
    "\<And>a i. (a, i) \<in> set as \<Longrightarrow> a \<in> set (automations d) \<and> due_at now a \<and> can_enqueue env now a \<and> fst i \<notin> dvID ` set (deliveries d)"
  shows "\<exists>d'. enqueue_all env now stamp as cd d = Inr d'"
  using assms
proof (induction as arbitrary: d)
  case (Cons x as)
  obtain a ids where x: "x = (a, ids)" by (cases x) simp
  have a: "a \<in> set (automations d)" "due_at now a" "can_enqueue env now a" "fst ids \<notin> dvID ` set (deliveries d)"
    using Cons.prems(5)[of a ids] x by simp_all
  obtain t where t: "auNextRun a = Some t" "t \<le> now" using due_time[OF a(2)] by blast
  obtain d1 where d1: "enqueue_one env now stamp ids a cd d = Inr d1" "dvID ` set (deliveries d1) = insert (fst ids) (dvID ` set (deliveries d))"
    by (rule enqueue_one_ok[OF Cons.prems(1) a])
  have "\<exists>d'. enqueue_all env now stamp as cd d1 = Inr d'"
  proof (rule Cons.IH)
    show "times_inv env now d1" by (rule times_enqueue_one[OF d1(1) Cons.prems(1,2) a(1) t])
    fix b j assume b: "(b, j) \<in> set as"
    then have "auID b \<noteq> auID a" "fst j \<noteq> fst ids" using Cons.prems(3,4) x by force+
    with enqueue_one_others[OF d1(1)] Cons.prems(5)[of b j] b d1(2)
    show "b \<in> set (automations d1) \<and> due_at now b \<and> can_enqueue env now b \<and> fst j \<notin> dvID ` set (deliveries d1)" by simp
  qed (use Cons.prems in \<open>simp_all add: comp_def\<close>)
  with d1(1) show ?case by (simp add: x)
qed simp

section \<open>Times along a run\<close>

definition label_times :: "auto_act \<Rightarrow> instant list" where
  "label_times a = (case a of AuSaved i t \<Rightarrow> [t] | AuEnqueued t \<Rightarrow> [t] | _ \<Rightarrow> [])"

lemma times_step:
  assumes st: "auto_step cenv env s a s'" and i: "auto_inv s" and t: "times_inv env now (aAuto s)" and k: "cron_ok env"
    and l: "\<forall>x \<in> set (label_times a). now \<le> x \<and> x \<le> now'" "now \<le> now'"
  shows "times_inv env now' (aAuto s')"
proof -
  note di = auto_invD(2)[OF i]
  have t': "times_inv env now' (aAuto s)" by (rule times_inv_later[OF t l(2)])
  have same: "times_inv env now' d" if "deliveries d = deliveries (aAuto s)" "automations d = automations (aAuto s)" for d
    using t' that by (simp add: times_inv_def)
  from st show ?thesis
  proof (cases rule: auto_step.cases)
    case (au_save w u i c vsn m rnd x secret d)
    have m: "now \<le> m" "m \<le> now'" using l(1) by (simp_all add: au_save(1) label_times_def)
    from times_inv_later[OF times_saveTx[OF au_save(3) times_inv_later[OF t m(1)] di k] m(2)] show ?thesis by (simp add: au_save(2))
  next
    case (au_apply c r u p m later rnd d)
    have m: "now \<le> later" "later \<le> now'" using l(1) by (simp_all add: au_apply(1) label_times_def)
    obtain w x secret c' where e: "saveTx env w u (spID p) c' (spRevision p) later rnd (store (aConv s)) (aAuto s) = Inr (x, secret, d)"
      using au_apply(3) by (auto simp: ApplySchedule_def Let_def split: if_split_asm elim!: bindrE)
    from times_inv_later[OF times_saveTx[OF e times_inv_later[OF t m(1)] di k] m(2)] show ?thesis by (simp add: au_apply(2))
  next
    case (au_enqueue locked m stamp ids d)
    have m: "now \<le> m" "m \<le> now'" using l(1) by (simp_all add: au_enqueue(1) label_times_def)
    from times_inv_later[OF times_enqueueDue[OF au_enqueue(3) times_inv_later[OF t m(1)] k] m(2)] show ?thesis by (simp add: au_enqueue(2))
  next
    case (au_conversation fallback c w agent model project cd d)
    then show ?thesis by (auto elim!: createWithID_cases intro: same)
  next
    case (au_created p t fallback cd d)
    then show ?thesis by (auto elim!: createWithID_cases intro: same)
  next
    case (au_claim p j c d)
    have "aAuto s' = d" unfolding au_claim(2) by (cases "phase_of_claim c") simp_all
    moreover have "times_inv env now' d" using au_claim(4)
    proof (cases rule: claim_cases)
      case kept
      then show ?thesis using t' by simp
    next
      case (ended v state code)
      show ?thesis
        by (rule times_inv_deliveries[OF t' auto_good_moves[OF good_claim[OF au_claim(4) di]]]) (simp_all add: ended(5) set_delivery_def)
    next
      case (claimed v a)
      show ?thesis
        by (rule times_inv_deliveries[OF t' auto_good_moves[OF good_claim[OF au_claim(4) di]]]) (simp_all add: claimed(15))
    qed
    ultimately show ?thesis by simp
  next
    case (au_reconcile p t rcpt)
    have "auto_moves (aAuto s) (reconcile t rcpt (aAuto s))"
      using auto_good_moves[OF good_unknown[OF di]] moves_acceptReceipt[OF di] by (cases rcpt) simp_all
    from times_inv_deliveries[OF t' this] show ?thesis
      unfolding au_reconcile(2) by (simp add: reconcile_def acceptReceipt_def split: option.splits)
  next
    case (au_receipt p t r)
    from times_inv_deliveries[OF t' moves_acceptReceipt[OF di]] show ?thesis
      unfolding au_receipt(2) by (simp add: acceptReceipt_def)
  next
    case (au_tables ps ds cs ts)
    then show ?thesis by (auto intro: same)
  qed (use t' times_Delete[OF _ t' di] times_Rotate[OF _ t'] times_Webhook[OF _ t'] times_Trigger[OF _ t'] in auto)
qed

lemma times_path:
  assumes "path (auto_step cenv env) s as s'" "auto_inv s" "times_inv env now (aAuto s)" "cron_ok env"
    "sorted (concat (map label_times as))" "\<forall>x \<in> set (concat (map label_times as)). now \<le> x \<and> x \<le> now'" "now \<le> now'"
  shows "times_inv env now' (aAuto s')"
  using assms
proof (induction arbitrary: now rule: path.induct)
  case (path_nil s)
  then show ?case by (blast intro: times_inv_later)
next
  case (path_cons s a s1 as s2)
  let ?m = "if label_times a = [] then now else last (label_times a)"
  have one: "label_times a = [] \<or> (\<exists>t. label_times a = [t])" by (cases a) (simp_all add: label_times_def)
  have m: "now \<le> ?m" "?m \<le> now'" "\<forall>x \<in> set (label_times a). now \<le> x \<and> x \<le> ?m" "\<forall>x \<in> set (concat (map label_times as)). ?m \<le> x \<and> x \<le> now'"
    "sorted (concat (map label_times as))"
    using one path_cons.prems(4-6) by (auto simp: sorted_append)
  show ?case
    by (rule path_cons.IH[OF auto_step_inv[OF path_cons(1) path_cons.prems(1)]
        times_step[OF path_cons(1) path_cons.prems(1,2,3) m(3,1)] path_cons.prems(3) m(5,4,2)])
qed

end
