(* ===== verification/AutoDemo.thy ===== *)
theory AutoDemo
  imports AutoTimes ConvDemo
begin

text \<open>
  The initial states of the automation service, and one concrete run at which its properties are
  instantiated: a task is saved, falls due, its delivery is claimed and started, the run is
  accepted in a new conversation and its receipt is written.
\<close>

section \<open>Initial states\<close>

definition fresh_auto :: "auto_db \<Rightarrow> conversation list \<Rightarrow> (uuid \<times> uuid) list \<Rightarrow> user list \<Rightarrow> auto_state" where
  "fresh_auto d cs ms us = \<lparr>aAuto = d\<lparr>automations := [], deliveries := [], lastOrder := 0\<rparr>, aConv = fresh_session cs ms us,
     aLocks = (\<lambda>_. None), aProcs = (\<lambda>_. None)\<rparr>"

definition auto_trace :: "conv_env \<Rightarrow> auto_env \<Rightarrow> auto_act list \<Rightarrow> auto_state \<Rightarrow> bool" where
  "auto_trace cenv env as s = (\<exists>d cs ms us. distinct (map cvID cs) \<and> (\<forall>cv \<in> set cs. cvLastSeq cv = 0) \<and>
     path (auto_step cenv env) (fresh_auto d cs ms us) as s)"

lemma fresh_auto_inv:
  assumes "distinct (map cvID cs)" "\<forall>cv \<in> set cs. cvLastSeq cv = 0"
  shows "auto_inv (fresh_auto d cs ms us)" "lock_inv (fresh_auto d cs ms us)" "times_inv env now (aAuto (fresh_auto d cs ms us))"
  using fresh_inv[OF assms, of ms us]
  by (simp_all add: auto_inv_def fresh_auto_def deliveries_inv_def in_order_def dispatching_of_def rows_ok_def starting_once_def
      lock_inv_def times_inv_def)

lemma auto_trace_inv:
  assumes "auto_trace cenv env as s"
  shows "auto_inv s"
  using assms fresh_auto_inv(1) auto.path_inv unfolding auto_trace_def by blast

lemma attached_path:
  "path (auto_step cenv env) s as s' \<Longrightarrow> \<forall>a \<in> set as. \<forall>i. a \<noteq> AuLost i \<Longrightarrow> path (attached_step cenv env) s as s'"
  by (induction rule: path.induct) (auto simp: attached_step_def intro: path.intros)

lemma auto_trace_attached:
  assumes "auto_trace cenv env as s" "\<forall>a \<in> set as. \<forall>i. a \<noteq> AuLost i"
  shows "attached_inv s"
proof -
  from assms(1) obtain d cs ms us where f: "distinct (map cvID cs)" "\<forall>cv \<in> set cs. cvLastSeq cv = 0"
    and p: "path (auto_step cenv env) (fresh_auto d cs ms us) as s" by (auto simp: auto_trace_def)
  have "attached_inv (fresh_auto d cs ms us)" using fresh_auto_inv[OF f] by (simp add: attached_inv_def)
  from attached.path_inv[OF attached_path[OF p assms(2)] this] show ?thesis .
qed

lemma auto_trace_times:
  assumes "auto_trace cenv env as s" "cron_ok env" "sorted (concat (map label_times as))" "\<forall>t \<in> set (concat (map label_times as)). t \<le> now"
  shows "times_inv env now (aAuto s)"
proof -
  from assms(1) obtain d cs ms us where f: "distinct (map cvID cs)" "\<forall>cv \<in> set cs. cvLastSeq cv = 0"
    and p: "path (auto_step cenv env) (fresh_auto d cs ms us) as s" by (auto simp: auto_trace_def)
  let ?t = "if concat (map label_times as) = [] then now else hd (concat (map label_times as))"
  have "\<forall>x \<in> set (concat (map label_times as)). ?t \<le> x \<and> x \<le> now"
    using assms(3,4) by (cases "concat (map label_times as)") auto
  moreover have "?t \<le> now" using assms(4) by (cases "concat (map label_times as)") auto
  ultimately show ?thesis by (rule times_path[OF p fresh_auto_inv(1)[OF f] fresh_auto_inv(3)[OF f, of env ?t] assms(2,3)])
qed

section \<open>A concrete run\<close>

definition demo_auto_env :: auto_env where
  "demo_auto_env = \<lparr>aeNext = (\<lambda>spec zone t. Some ((t div minute + 1) * minute)), aeZone = (\<lambda>_. True), aeUUID = (\<lambda>_. None)\<rparr>"

lemma demo_cron_ok: "cron_ok demo_auto_env"
proof -
  have "t < (t div minute + 1) * minute" for t :: int
    using pos_mod_bound[of minute t] div_mult_mod_eq[of t minute] by (simp add: minute_def second_def algebra_simps)
  moreover have "(k * minute) mod second = 0" for k :: int by (simp add: minute_def)
  ultimately show ?thesis by (simp add: cron_ok_def demo_auto_env_def)
qed

definition demo_schedule :: auto_config where
  "demo_schedule = \<lparr>acName = ''n'', acKind = ''schedule'', acProject = ''p'', acAgent = ''lester'', acModel = ''m'', acPrompt = ''go'',
     acPermission = ''standard'', acEnabled = True, acCron = [], acTimezone = ''UTC'', acRunAt = Some (5 * second)\<rparr>"

definition demo_task :: automation where
  "demo_task = \<lparr>auConfig = demo_schedule, auID = ''t'', auWorkspace = ''w'', auUser = ''u'', auNextRun = Some (5 * second), auRevision = 1,
     auCreated = second, auHash = None, auDeleted = False\<rparr>"

definition demo_trigger :: trigger_input where
  "demo_trigger = \<lparr>tiID = ''v'', tiWorkspace = ''w'', tiUser = ''u'', tiConversation = ''vc'', tiConfig = demo_schedule\<rparr>"

definition demo_delivery :: "string \<Rightarrow> uuid option \<Rightarrow> auto_delivery" where
  "demo_delivery st r = \<lparr>dvID = ''v'', dvOrder = 1, dvWorkspace = ''w'', dvAutomation = ''t'', dvKey = schedule_key (5 * second),
     dvDigest = ''schedule'', dvSource = ''schedule'', dvSnapshot = demo_trigger, dvConversation = ''vc'', dvRun = r, dvState = st,
     dvCode = [], dvScheduled = Some (5 * second), dvCreated = 6 * second\<rparr>"

definition demo_auto :: "automation list \<Rightarrow> auto_delivery list \<Rightarrow> auto_db" where
  "demo_auto as vs = \<lparr>automations = as, deliveries = vs, lastOrder = int (length vs), projects = [(''w'', ''p'')],
     deployments = [(''m'', ''w'', True)], customAgents = [], commandTasks = [], taskInfo = []\<rparr>"

definition demo_cd :: db where
  "demo_cd = fresh_db [] [(''w'', ''u'')] [demo_user]"

lemmas demo_auto_defs = demo_auto_env_def demo_schedule_def demo_task_def demo_trigger_def demo_delivery_def demo_auto_def demo_cd_def
  demo_user_def fresh_db_def

text \<open>Printable ASCII text is its runes, has no blanks to trim and can be stored.\<close>

definition plain_text :: "string \<Rightarrow> bool" where
  "plain_text s = list_all (\<lambda>c. 32 < byte c \<and> byte c < 128) s"

lemma plain_ascii: "plain_text s \<Longrightarrow> ascii s"
  by (auto simp: plain_text_def ascii_def list_all_iff)

lemma plain_trim: "plain_text s \<Longrightarrow> trim_space s = s"
proof -
  assume p: "plain_text s"
  have c: "chunks s = map (\<lambda>c. (byte c, [c])) s" by (rule chunks_ascii[OF plain_ascii[OF p]])
  have n: "\<not> is_space (byte c)" if "c \<in> set s" for c
    using p that by (auto simp: plain_text_def list_all_iff is_space_def)
  have "dropWhile (\<lambda>c. is_space (fst c)) (chunks s) = chunks s" "dropWhile (\<lambda>c. is_space (fst c)) (rev (chunks s)) = rev (chunks s)"
    using n unfolding dropWhile_eq_self_iff c by (auto simp: hd_rev dest: hd_in_set last_in_set simp: hd_map last_map)
  then show ?thesis by (simp add: trim_space_def Let_def concat_chunks)
qed

lemma plain_json: "plain_text s \<Longrightarrow> json_text s = s"
proof -
  assume p: "plain_text s"
  have "encode_rune (byte c) = [c]" if "c \<in> set s" for c
    using p that by (auto simp: plain_text_def list_all_iff encode_rune_def Let_def)
  then have "map (encode_rune \<circ> byte) s = map (\<lambda>c. [c]) s" by simp
  then show ?thesis by (simp add: json_text_def string_of_runes_def runes_ascii[OF plain_ascii[OF p]] del: map_eq_conv)
qed

lemma plain_stored: "plain_text s \<Longrightarrow> text_ok s"
  by (auto simp: text_ok_def utf8_valid_def contains_nul_def runes_ascii chunks_ascii plain_ascii rune_error_def list_all_iff plain_text_def)

lemma demo_plain: "plain_text ''n''" "plain_text ''go''" "plain_text ''lester''" "plain_text ''UTC''" "plain_text ''standard''" "plain_text ''schedule''"
    "plain_text []"
  by code_simp+

lemma demo_truncate: "trim_run_at (Some (5 * second)) = Some (5 * second)"
  by code_simp

lemma demo_normal: "normalize_config (demo_schedule\<lparr>acTimezone := []\<rparr>) = demo_schedule"
  using demo_truncate by (simp add: normalize_config_def demo_schedule_def plain_trim demo_plain)

lemma demo_valid: "validateSchedule demo_auto_env ''w'' demo_schedule second (demo_auto as vs) = Inr (Some (5 * second))"
proof -
  have "rune_count ''n'' = 1" by code_simp
  then have t: "valid_texts demo_schedule" by (simp add: valid_texts_def demo_schedule_def)
  show ?thesis
    by (simp add: validateSchedule_def t) (simp add: valid_refs_def known_agent_def builtin_agents_def demo_auto_defs nextOccurrence_def second_def)
qed

lemma demo_saved:
  "saveTx demo_auto_env ''w'' ''u'' ''t'' (demo_schedule\<lparr>acTimezone := []\<rparr>) 0 second [] demo_cd (demo_auto [] []) = Inr (demo_task, [], demo_auto [demo_task] [])"
proof -
  have x: "config_texts demo_schedule" by (simp add: config_texts_def demo_schedule_def plain_stored demo_plain)
  have "trigger_authorized demo_cd ''w'' ''u''" by (simp add: trigger_authorized_def demo_auto_defs)
  moreover have "create_automation ''w'' ''u'' ''t'' demo_schedule (Some (5 * second)) second [] (demo_auto [] []) = Inr ([], demo_auto [demo_task] [])"
    by (simp add: create_automation_def insert_automation_def x demo_truncate) (simp add: demo_auto_defs)
  moreover have "acEnabled demo_schedule" by (simp add: demo_schedule_def)
  ultimately show ?thesis
    unfolding saveTx_def demo_normal Let_def demo_valid by (simp add: uuid_nil_def demo_auto_def demo_task_def)
qed

definition demo_done :: automation where
  "demo_done = demo_task\<lparr>auNextRun := None, auRevision := 2\<rparr>"

lemma demo_snapshot: "snapshot_of demo_trigger = demo_trigger"
  by (simp add: snapshot_of_def demo_trigger_def demo_schedule_def plain_json demo_plain)

lemma demo_years: "json_year (5 * second)"
  by code_simp

lemma demo_due: "due_automations (\<lambda>_. False) (6 * second) (demo_auto [demo_task] []) = [demo_task]"
  by code_simp

lemma demo_enqueued:
  "enqueueDue demo_auto_env (\<lambda>_. False) (6 * second) (6 * second) [(''v'', ''vc'')] demo_cd (demo_auto [demo_task] []) =
     Inr (demo_auto [demo_done] [demo_delivery ''pending'' None])"
proof -
  have i: "newInput ''v'' ''vc'' demo_task = demo_trigger" by (simp add: newInput_def demo_task_def demo_trigger_def)
  have k: "schedule_key (5 * second) \<noteq> []" "rune_count (schedule_key (5 * second)) \<le> 160" using schedule_key_length[OF demo_years] by simp_all
  have "insertDelivery demo_task demo_trigger (schedule_key (5 * second)) ''schedule'' ''schedule'' ''pending'' [] (Some (5 * second)) (6 * second)
      (demo_auto [demo_task] []) = Inr (demo_auto [demo_task] [demo_delivery ''pending'' None])"
    using k demo_years by (simp add: insertDelivery_def demo_snapshot) (simp add: demo_auto_defs)
  moreover have "busy demo_cd (demo_auto [demo_task] []) ''t'' = False" "has_pending (demo_auto [demo_task] []) ''t'' = False"
    by (simp_all add: busy_def has_pending_def demo_auto_def)
  moreover have "auNextRun demo_task = Some (5 * second)" "auID demo_task = ''t''" "acCron (auConfig demo_task) = []"
    by (simp_all add: demo_task_def demo_schedule_def)
  ultimately show ?thesis
    by (simp add: enqueueDue_def demo_due enqueue_one_def i)
      (simp add: demo_auto_def demo_done_def demo_task_def on_automations_def trim_run_at_def)
qed

lemma demo_task_claimed:
  "claim_delivery ''v'' demo_cd (demo_auto [demo_done] [demo_delivery ''pending'' None]) =
     Inr (Claimed demo_trigger, demo_auto [demo_done] [demo_delivery ''dispatching'' None])"
  by code_simp

section \<open>The run\<close>

definition demo_autos :: "nat \<Rightarrow> auto_db \<Rightarrow> session \<Rightarrow> dispatch option \<Rightarrow> auto_state" where
  "demo_autos n d cs x = \<lparr>aAuto = d, aConv = cs, aLocks = (if x = None then (\<lambda>_. None) else (\<lambda>_. None)(''v'' := Some n)),
     aProcs = (if x = None then (\<lambda>_. None) else (\<lambda>_. None)(n := x))\<rparr>"

definition demo_quiet :: "db \<Rightarrow> session" where
  "demo_quiet cd = \<lparr>store = cd, held = (\<lambda>_. None)\<rparr>"

definition demo_guarded :: "db \<Rightarrow> phase \<Rightarrow> session" where
  "demo_guarded cd ph = \<lparr>store = cd, held = (\<lambda>_. None)(''vc'' := Some ph)\<rparr>"

lemma demo_session_moves: "session_step cenv s a t \<Longrightarrow> auto_step cenv env (demo_autos n d s x) (AuSession a) (demo_autos n d t x)"
  using au_session[of cenv "demo_autos n d s x" a t env] by (simp add: demo_autos_def)

lemma demo_proc_moves:
  "moved n y (demo_autos n d s (Some x)) = demo_autos n d s (Some y)"
  by (simp add: demo_autos_def)

definition demo_pending :: auto_state where
  "demo_pending = demo_autos 0 (demo_auto [demo_done] [demo_delivery ''pending'' None]) (demo_quiet demo_cd) None"

abbreviation demo_dispatching :: auto_db where
  "demo_dispatching \<equiv> demo_auto [demo_done] [demo_delivery ''dispatching'' None]"

lemma demo_enqueue_trace:
  "path (auto_step demo_env demo_auto_env) (fresh_auto (demo_auto [] []) [] [(''w'', ''u'')] [demo_user])
     [AuSaved ''t'' second, AuEnqueued (6 * second)] demo_pending"
proof -
  let ?s0 = "fresh_auto (demo_auto [] []) [] [(''w'', ''u'')] [demo_user]"
  let ?s1 = "demo_autos 0 (demo_auto [demo_task] []) (demo_quiet demo_cd) None"
  have f: "?s0 = demo_autos 0 (demo_auto [] []) (demo_quiet demo_cd) None"
    by (simp add: fresh_auto_def demo_autos_def demo_auto_def demo_quiet_def demo_cd_def fresh_session_def)
  have "auto_step demo_env demo_auto_env ?s0 (AuSaved ''t'' second) ?s1"
    using au_save[of demo_auto_env "''w''" "''u''" "''t''" "demo_schedule\<lparr>acTimezone := []\<rparr>" 0 second "[]" ?s0] demo_saved
    unfolding f by (simp add: demo_autos_def demo_quiet_def)
  moreover have "auto_step demo_env demo_auto_env ?s1 (AuEnqueued (6 * second)) demo_pending"
    using au_enqueue[of demo_auto_env "\<lambda>_. False" "6 * second" "6 * second" "[(''v'', ''vc'')]" ?s1] demo_enqueued
    by (simp add: demo_pending_def demo_autos_def demo_quiet_def)
  ultimately show ?thesis by (blast intro: path.intros)
qed

lemma demo_start_steps:
  "path (auto_step demo_env demo_auto_env) demo_pending [AuLock 0 ''v'', AuClaim 0 ''v'', AuStart 0 ''v'']
     (demo_autos 0 demo_dispatching (demo_quiet demo_cd) (Some (DStarting demo_trigger Authorizing)))"
proof -
  let ?p = "demo_auto [demo_done] [demo_delivery ''pending'' None]"
  let ?s1 = "demo_autos 0 ?p (demo_quiet demo_cd) (Some (DLocked ''v''))"
  let ?s2 = "demo_autos 0 demo_dispatching (demo_quiet demo_cd) (Some (DClaimed demo_trigger))"
  have "auto_step demo_env demo_auto_env demo_pending (AuLock 0 ''v'') ?s1"
    using au_lock[of demo_pending "''v''" 0] by (simp add: demo_pending_def demo_autos_def)
  moreover have "auto_step demo_env demo_auto_env ?s1 (AuClaim 0 ''v'') ?s2"
    using au_claim[of ?s1 0 "''v''" "Claimed demo_trigger" demo_dispatching] demo_task_claimed
    by (simp add: demo_autos_def demo_quiet_def phase_of_claim_def)
  moreover have "auto_step demo_env demo_auto_env ?s2 (AuStart 0 ''v'') (demo_autos 0 demo_dispatching (demo_quiet demo_cd) (Some (DStarting demo_trigger Authorizing)))"
    using au_ping[of ?s2 0 demo_trigger] by (simp add: demo_autos_def demo_trigger_def)
  ultimately show ?thesis by (blast intro: path.intros)
qed

lemma demo_started_trace:
  "auto_trace demo_env demo_auto_env [AuSaved ''t'' second, AuEnqueued (6 * second), AuLock 0 ''v'', AuClaim 0 ''v'', AuStart 0 ''v'']
     (demo_autos 0 demo_dispatching (demo_quiet demo_cd) (Some (DStarting demo_trigger Authorizing)))"
  using path_append[OF demo_enqueue_trace demo_start_steps] unfolding auto_trace_def
  by (intro exI[of _ "demo_auto [] []"] exI[of _ "[]"] exI[of _ "[(''w'', ''u'')]"] exI[of _ "[demo_user]"]) simp

text \<open>\<open>Start\<close> in a new conversation.\<close>

definition demo_cd1 :: db where
  "demo_cd1 = demo_cd\<lparr>conversations := [\<lparr>cvID = ''vc'', cvWorkspace = ''w'', cvModel = Some ''m'', cvLastSeq = 0\<rparr>]\<rparr>"

definition demo_told :: auto_db where
  "demo_told = demo_dispatching\<lparr>taskInfo := [(''vc'', ''p'', ''lester'')]\<rparr>"

definition demo_cd2 :: db where
  "demo_cd2 = demo_cd1\<lparr>conversations := [\<lparr>cvID = ''vc'', cvWorkspace = ''w'', cvModel = Some ''m'', cvLastSeq = 1\<rparr>],
     runs := [\<lparr>rnID = ''0'', rnConversation = ''vc'', rnStatus = ''running'', rnModel = Some ''m'', rnSubmission = Some ''v'',
       rnSubmittedBy = Some ''u'', rnDigest = trigger_digest demo_trigger ''standard'', rnExecMode = ''execute'', rnPermMode = ''standard'',
       rnPermRevision = 0, rnApprovedPlan = None, rnInputMessage = Some ''1'', rnFinished = False\<rparr>],
     messages := [\<lparr>dmID = ''1'', dmConversation = ''vc'', dmRun = Some ''0'', dmRole = ''user'', dmContent = ''go'',
       dmMetadata = [], dmCalls = [], dmCallID = [], dmToolName = [], dmSeq = 1\<rparr>],
     events := [\<lparr>evID = 1, evRun = ''0'', evConversation = ''vc'', evType = ''RUN_STARTED'', evPayload = [(''input_message_id'', JStr ''1'')]\<rparr>],
     outbox := [1], nextID := 2, nextEvent := 2\<rparr>"

lemma demo_created:
  "createWithID demo_auto_env None ''vc'' ''w'' ''lester'' ''m'' ''p'' demo_cd demo_dispatching = Inr (demo_cd1, demo_told)"
  by (simp add: createWithID_def known_agent_def builtin_agents_def demo_auto_defs demo_cd1_def demo_told_def find_conversation_def uuid_nil_def Let_def)

lemma demo_run_started:
  "start_submission (envPrepare demo_env) ''w'' ''u'' ''vc'' (trigger_submission demo_trigger) (trigger_digest demo_trigger ''standard'')
     ''execute'' ''standard'' demo_cd1 = Inr (''0'', demo_cd2)"
  by (simp add: start_submission_def trigger_submission_def demo_cd2_def demo_cd1_def demo_cd_def demo_trigger_def demo_schedule_def demo_env_def
      fresh_db_def db_eval queuedInputHasPriority_def insert_run_def uuid_nil_def numeral_2_eq_2)

lemma demo_trigger_accepted: "trigger_accepted demo_trigger ''standard'' demo_cd1 = Inr None"
  by (simp add: trigger_accepted_def acceptedSubmission_def demo_cd1_def demo_cd_def fresh_db_def)

lemma demo_trigger_parts:
  "tiID demo_trigger = ''v''" "tiWorkspace demo_trigger = ''w''" "tiUser demo_trigger = ''u''" "tiConversation demo_trigger = ''vc''"
  "acPermission (tiConfig demo_trigger) = ''standard''" "acAgent (tiConfig demo_trigger) = ''lester''" "acModel (tiConfig demo_trigger) = ''m''"
  "acProject (tiConfig demo_trigger) = ''p''" "acPrompt (tiConfig demo_trigger) = ''go''"
  by (simp_all add: demo_trigger_def demo_schedule_def)

lemma demo_run_steps:
  "path (auto_step demo_env demo_auto_env) (demo_autos 0 demo_dispatching (demo_quiet demo_cd) (Some (DStarting demo_trigger Authorizing)))
     [AuStarting 0, AuStarting 0, AuStarting 0, AuSession (Selected ''vc''), AuRun ''v'' ''0'']
     (demo_autos 0 demo_told (demo_guarded demo_cd2 (Executing ''0'')) (Some (DReceipt demo_trigger ''0'')))"
proof -
  let ?S = "\<lambda>d cs x. demo_autos 0 d cs (Some x)" and ?step = "auto_step demo_env demo_auto_env"
  have pm: "permissionMode ''standard'' = Some ''standard''" by (simp add: permissionMode_def)
  have "?step (?S demo_dispatching (demo_quiet demo_cd) (DStarting demo_trigger Authorizing)) (AuStarting 0)
      (?S demo_dispatching (demo_quiet demo_cd) (DStarting demo_trigger Creating))"
  proof -
    let ?s = "?S demo_dispatching (demo_quiet demo_cd) (DStarting demo_trigger Authorizing)"
    have "trigger_identity demo_trigger" by (simp add: trigger_identity_def demo_trigger_parts uuid_nil_def)
    moreover have "trigger_authorized demo_cd ''w'' ''u''" by (simp add: trigger_authorized_def demo_auto_defs)
    moreover have "trigger_receipt demo_trigger demo_cd = None" by (simp add: trigger_receipt_def Submission_def demo_auto_defs)
    ultimately show ?thesis using au_authorized[of ?s 0 demo_trigger] by (simp add: demo_autos_def demo_quiet_def demo_trigger_parts)
  qed
  moreover have "?step (?S demo_dispatching (demo_quiet demo_cd) (DStarting demo_trigger Creating)) (AuStarting 0)
      (?S demo_told (demo_quiet demo_cd1) (DStarting demo_trigger Sending))"
    using au_created[of "?S demo_dispatching (demo_quiet demo_cd) (DStarting demo_trigger Creating)" 0 demo_trigger demo_auto_env None demo_cd1 demo_told]
      demo_created
    by (simp add: demo_autos_def demo_quiet_def demo_trigger_parts conversation_messages_def) (simp add: demo_cd_def fresh_db_def)
  moreover have "?step (?S demo_told (demo_quiet demo_cd1) (DStarting demo_trigger Sending)) (AuStarting 0)
      (?S demo_told (demo_guarded demo_cd1 Fresh) (DStarting demo_trigger Guarded))"
  proof -
    let ?s = "?S demo_told (demo_quiet demo_cd1) (DStarting demo_trigger Sending)"
    have "session_step demo_env (demo_quiet demo_cd1) (Locked ''vc'') (demo_guarded demo_cd1 Fresh)"
      using ss_lock[of "demo_quiet demo_cd1" "''vc''"] by (simp add: demo_quiet_def demo_guarded_def)
    moreover have "owned_conversation demo_cd1 ''w'' ''vc'' \<noteq> None" by (simp add: owned_conversation_def demo_cd1_def)
    moreover have "trim_space ''go'' = ''go''" by (simp add: plain_trim demo_plain)
    ultimately show ?thesis
      using au_guard[of ?s 0 demo_trigger "''standard''" demo_env "demo_guarded demo_cd1 Fresh"] pm demo_trigger_accepted
      by (simp add: demo_autos_def demo_trigger_parts) (simp add: demo_quiet_def)
  qed
  moreover have "?step (?S demo_told (demo_guarded demo_cd1 Fresh) (DStarting demo_trigger Guarded)) (AuSession (Selected ''vc''))
      (?S demo_told (demo_guarded demo_cd1 (Recovering [])) (DStarting demo_trigger Guarded))"
  proof (rule demo_session_moves)
    show "session_step demo_env (demo_guarded demo_cd1 Fresh) (Selected ''vc'') (demo_guarded demo_cd1 (Recovering []))"
      using ss_select[of "demo_guarded demo_cd1 Fresh" "''vc''"]
      by (simp add: demo_guarded_def active_runs_def demo_cd1_def demo_cd_def fresh_db_def)
  qed
  moreover have "?step (?S demo_told (demo_guarded demo_cd1 (Recovering [])) (DStarting demo_trigger Guarded)) (AuRun ''v'' ''0'')
      (?S demo_told (demo_guarded demo_cd2 (Executing ''0'')) (DReceipt demo_trigger ''0''))"
    using au_run[of "?S demo_told (demo_guarded demo_cd1 (Recovering [])) (DStarting demo_trigger Guarded)" 0 demo_trigger "''standard''" demo_env
        "''0''" demo_cd2 "DReceipt demo_trigger ''0''"] demo_run_started pm
    by (simp add: demo_autos_def demo_guarded_def demo_trigger_parts)
  ultimately show ?thesis by (blast intro: path.intros)
qed

lemma demo_receipt_step:
  "auto_step demo_env demo_auto_env (demo_autos 0 demo_told (demo_guarded demo_cd2 (Executing ''0'')) (Some (DReceipt demo_trigger ''0'')))
     (AuReceipt 0 ''v'') (demo_autos 0 (demo_told\<lparr>deliveries := [demo_delivery ''accepted'' (Some ''0'')]\<rparr>) (demo_guarded demo_cd2 (Executing ''0'')) None)"
proof -
  let ?s = "demo_autos 0 demo_told (demo_guarded demo_cd2 (Executing ''0'')) (Some (DReceipt demo_trigger ''0''))"
  have "acceptReceipt demo_trigger ''0'' demo_told = demo_told\<lparr>deliveries := [demo_delivery ''accepted'' (Some ''0'')]\<rparr>"
    by (simp add: acceptReceipt_def on_deliveries_def demo_told_def demo_auto_def demo_delivery_def demo_trigger_parts)
  then have "ended 0 (?s\<lparr>aAuto := acceptReceipt demo_trigger ''0'' (aAuto ?s)\<rparr>) =
      demo_autos 0 (demo_told\<lparr>deliveries := [demo_delivery ''accepted'' (Some ''0'')]\<rparr>) (demo_guarded demo_cd2 (Executing ''0'')) None"
    by (simp add: demo_autos_def ended_def fun_eq_iff)
  with au_receipt[of ?s 0 demo_trigger "''0''" demo_env demo_auto_env] show ?thesis
    by (simp add: demo_trigger_parts) (simp add: demo_autos_def)
qed

definition demo_receipted :: auto_db where
  "demo_receipted = demo_told\<lparr>deliveries := [demo_delivery ''accepted'' (Some ''0'')]\<rparr>"

lemma demo_accepted_trace:
  obtains as s where "auto_trace demo_env demo_auto_env as s" "aAuto s = demo_receipted" "store (aConv s) = demo_cd2"
    "as = [AuSaved ''t'' second, AuEnqueued (6 * second), AuLock 0 ''v'', AuClaim 0 ''v'', AuStart 0 ''v'', AuStarting 0, AuStarting 0, AuStarting 0,
       AuSession (Selected ''vc''), AuRun ''v'' ''0'', AuReceipt 0 ''v'']"
proof -
  from path_append[OF path_append[OF path_append[OF demo_enqueue_trace demo_start_steps] demo_run_steps] path_one[of "auto_step demo_env demo_auto_env", OF demo_receipt_step]]
  have "auto_trace demo_env demo_auto_env [AuSaved ''t'' second, AuEnqueued (6 * second), AuLock 0 ''v'', AuClaim 0 ''v'', AuStart 0 ''v'',
       AuStarting 0, AuStarting 0, AuStarting 0, AuSession (Selected ''vc''), AuRun ''v'' ''0'', AuReceipt 0 ''v'']
     (demo_autos 0 (demo_told\<lparr>deliveries := [demo_delivery ''accepted'' (Some ''0'')]\<rparr>) (demo_guarded demo_cd2 (Executing ''0'')) None)"
    unfolding auto_trace_def
    by (intro exI[of _ "demo_auto [] []"] exI[of _ "[]"] exI[of _ "[(''w'', ''u'')]"] exI[of _ "[demo_user]"]) simp
  then show ?thesis by (rule that) (simp_all add: demo_autos_def demo_guarded_def demo_receipted_def)
qed

lemma demo_save_trace:
  obtains s1 where "path (auto_step demo_env demo_auto_env) (fresh_auto (demo_auto [] []) [] [(''w'', ''u'')] [demo_user]) [AuSaved ''t'' second] s1"
    "aAuto s1 = demo_auto [demo_task] []"
proof -
  let ?s0 = "fresh_auto (demo_auto [] []) [] [(''w'', ''u'')] [demo_user]"
  have "aAuto ?s0 = demo_auto [] []" "store (aConv ?s0) = demo_cd"
    by (simp_all add: fresh_auto_def demo_auto_def demo_cd_def fresh_session_def)
  then have "auto_step demo_env demo_auto_env ?s0 (AuSaved ''t'' second) (?s0\<lparr>aAuto := demo_auto [demo_task] []\<rparr>)"
    using au_save[of demo_auto_env "''w''" "''u''" "''t''" "demo_schedule\<lparr>acTimezone := []\<rparr>" 0 second "[]" ?s0] demo_saved by simp
  from path_one[of "auto_step demo_env demo_auto_env", OF this] show ?thesis by (rule that) simp
qed

lemma demo_before_run:
  assumes "auto_step demo_env demo_auto_env s (AuRun ''v'' ''0'') (demo_autos 0 demo_told cs (Some x))"
  shows "deliveries (aAuto s) = [demo_delivery ''dispatching'' None]"
  using assms
proof (cases rule: auto_step.cases)
  case (au_run p t perm cd y)
  have "aAuto (demo_autos 0 demo_told cs (Some x)) = aAuto s" using arg_cong[OF au_run(2), of aAuto] by simp
  then have "aAuto s = demo_told" by (simp add: demo_autos_def)
  then show ?thesis by (simp add: demo_told_def demo_auto_def)
qed

section \<open>A reviewed schedule and a webhook\<close>

definition demo_preview :: schedule_preview where
  "demo_preview = \<lparr>spID = ''s'', spRevision = 0, spConfig = demo_schedule, spNextRun = Some (5 * second)\<rparr>"

lemma demo_schedule_actor:
  "scheduleContext ''vc'' ''0'' demo_cd2 demo_receipted = Inr \<lparr>saWorkspace = ''w'', saUser = ''u'', saProject = ''p'', saModel = ''m'',
     saAgent = ''lester'', saTimezone = []\<rparr>"
proof -
  have "trigger_authorized demo_cd2 ''w'' ''u''" by (simp add: trigger_authorized_def demo_cd2_def demo_cd1_def demo_auto_defs)
  then show ?thesis
    by (simp add: scheduleContext_def find_conversation_def find_run_def client_timezone_def mget_def demo_cd2_def demo_receipted_def demo_told_def)
qed

lemma demo_applied:
  obtains d' where "ApplySchedule demo_auto_env ''vc'' ''0'' ''u'' (Some demo_preview) second second [] demo_cd2 demo_receipted = Inr d'"
proof -
  let ?a = "\<lparr>auConfig = demo_schedule, auID = ''s'', auWorkspace = ''w'', auUser = ''u'', auNextRun = Some (5 * second), auRevision = 1,
     auCreated = second, auHash = None, auDeleted = False\<rparr>"
  have kind: "demo_schedule\<lparr>acKind := ''schedule''\<rparr> = demo_schedule" by (simp add: demo_schedule_def)
  have normal: "normalize_config demo_schedule = demo_schedule"
    using demo_truncate by (simp add: normalize_config_def demo_schedule_def plain_trim demo_plain)
  have "rune_count ''n'' = 1" by code_simp
  then have "valid_texts demo_schedule" by (simp add: valid_texts_def demo_schedule_def)
  then have valid: "validateSchedule demo_auto_env ''w'' demo_schedule second demo_receipted = Inr (Some (5 * second))"
    by (simp add: validateSchedule_def)
      (simp add: valid_refs_def known_agent_def builtin_agents_def demo_receipted_def demo_told_def demo_auto_defs nextOccurrence_def second_def)
  have member: "trigger_authorized demo_cd2 ''w'' ''u''" by (simp add: trigger_authorized_def demo_cd2_def demo_cd1_def demo_auto_defs)
  have stored: "config_texts demo_schedule" by (simp add: config_texts_def demo_schedule_def plain_stored demo_plain)
  have made: "create_automation ''w'' ''u'' ''s'' demo_schedule (Some (5 * second)) second [] demo_receipted
      = Inr ([], demo_receipted\<lparr>automations := automations demo_receipted @ [?a]\<rparr>)"
    by (simp add: create_automation_def insert_automation_def stored demo_truncate)
      (simp add: demo_receipted_def demo_told_def demo_auto_def demo_done_def demo_task_def demo_schedule_def)
  have "acEnabled demo_schedule" by (simp add: demo_schedule_def)
  with made have "saveTx demo_auto_env ''w'' ''u'' ''s'' demo_schedule 0 second [] demo_cd2 demo_receipted
      = Inr (?a, [], demo_receipted\<lparr>automations := automations demo_receipted @ [?a]\<rparr>)"
    unfolding saveTx_def normal Let_def valid
    by (simp add: uuid_nil_def member) (simp add: demo_receipted_def demo_told_def demo_auto_def demo_done_def demo_task_def live_automation_def)
  then show ?thesis
    by (intro that) (simp add: ApplySchedule_def demo_schedule_actor demo_preview_def kind valid)
qed

definition demo_hook_config :: auto_config where
  "demo_hook_config = demo_schedule\<lparr>acKind := ''webhook'', acRunAt := None\<rparr>"

abbreviation demo_random :: string where
  "demo_random \<equiv> replicate 32 CHR ''r''"

definition demo_token :: string where
  "demo_token = fst (secretToken demo_random)"

definition demo_hook :: automation where
  "demo_hook = \<lparr>auConfig = demo_hook_config, auID = ''h'', auWorkspace = ''w'', auUser = ''u'', auNextRun = None, auRevision = 1,
     auCreated = second, auHash = Some (sha256 demo_token), auDeleted = False\<rparr>"

lemma demo_secret: "secretToken demo_random = (demo_token, sha256 demo_token)"
  by (simp add: secretToken_def demo_token_def Let_def)

lemma length_b64url: "length (b64url s) = (4 * length s + 2) div 3"
  by (induction s rule: b64url.induct) (simp_all add: Let_def)

lemma demo_hook_saved:
  "saveTx demo_auto_env ''w'' ''u'' ''h'' demo_hook_config 0 second demo_random demo_cd (demo_auto [] []) = Inr (demo_hook, demo_token, demo_auto [demo_hook] [])"
proof -
  have normal: "normalize_config demo_hook_config = demo_hook_config"
    by (simp add: normalize_config_def demo_hook_config_def demo_schedule_def plain_trim demo_plain trim_run_at_def)
  have "rune_count ''n'' = 1" by code_simp
  then have "valid_texts demo_hook_config" by (simp add: valid_texts_def demo_hook_config_def demo_schedule_def)
  then have valid: "validateSchedule demo_auto_env ''w'' demo_hook_config second (demo_auto [] []) = Inr None"
    by (simp add: validateSchedule_def)
      (simp add: valid_refs_def known_agent_def builtin_agents_def demo_hook_config_def demo_auto_defs nextOccurrence_def)
  have stored: "config_texts demo_hook_config" by (simp add: config_texts_def demo_hook_config_def demo_schedule_def plain_stored demo_plain)
  have made: "create_automation ''w'' ''u'' ''h'' demo_hook_config None second demo_random (demo_auto [] []) = Inr (demo_token, demo_auto [demo_hook] [])"
    by (simp add: create_automation_def insert_automation_def stored demo_secret trim_run_at_def)
      (simp add: demo_hook_def demo_hook_config_def demo_auto_def)
  have "trigger_authorized demo_cd ''w'' ''u''" by (simp add: trigger_authorized_def demo_auto_defs)
  moreover have "acEnabled demo_hook_config" by (simp add: demo_hook_config_def demo_schedule_def)
  ultimately show ?thesis
    using made unfolding saveTx_def normal Let_def valid by (simp add: uuid_nil_def demo_auto_def demo_hook_def)
qed

lemma demo_hook_trace:
  obtains as s where "auto_trace demo_env demo_auto_env as s" "aAuto s = demo_auto [demo_hook] []" "store (aConv s) = demo_cd"
proof -
  let ?s0 = "fresh_auto (demo_auto [] []) [] [(''w'', ''u'')] [demo_user]"
  have "aAuto ?s0 = demo_auto [] []" "store (aConv ?s0) = demo_cd"
    by (simp_all add: fresh_auto_def demo_auto_def demo_cd_def fresh_session_def)
  then have "auto_step demo_env demo_auto_env ?s0 (AuSaved ''h'' second) (?s0\<lparr>aAuto := demo_auto [demo_hook] []\<rparr>)"
    using au_save[of demo_auto_env "''w''" "''u''" "''h''" demo_hook_config 0 second demo_random ?s0] demo_hook_saved by simp
  from path_one[of "auto_step demo_env demo_auto_env", OF this]
  have "auto_trace demo_env demo_auto_env [AuSaved ''h'' second] (?s0\<lparr>aAuto := demo_auto [demo_hook] []\<rparr>)"
    unfolding auto_trace_def by (intro exI[of _ "demo_auto [] []"] exI[of _ "[]"] exI[of _ "[(''w'', ''u'')]"] exI[of _ "[demo_user]"]) simp
  then show ?thesis by (rule that) (simp_all add: fresh_auto_def fresh_session_def demo_cd_def)
qed

lemma demo_hooked:
  obtains v d where "Webhook ''h'' demo_token ''k'' ''1'' ''v'' ''vc'' second demo_cd (demo_auto [demo_hook] []) = Inr (v, d)"
proof -
  have key: "event_key_ok ''k''" by code_simp
  have data: "json_valid ''1''" by code_simp
  have small: "length demo_token \<le> 100" by (simp add: demo_token_def secretToken_def Let_def length_b64url)
  have member: "trigger_authorized demo_cd ''w'' ''u''" by (simp add: trigger_authorized_def demo_auto_defs)
  have name: "rune_count (''webhook:'' @ ''k'') = 9" by code_simp
  obtain d where d: "insertDelivery demo_hook (webhook_input ''v'' ''vc'' ''1'' demo_hook) (''webhook:'' @ ''k'') (sha256_hex ''1'') ''webhook'' ''pending'' [] None
      second (demo_auto [demo_hook] []) = Inr d"
    using name by (simp add: insertDelivery_def webhook_input_def newInput_def demo_hook_def demo_hook_config_def demo_auto_def Let_def)
  from d obtain v where v: "List.find (\<lambda>v. dvWorkspace v = auWorkspace demo_hook \<and> dvID v = ''v'') (deliveries d) = Some v"
    by (rule insertDelivery_cases) (simp add: demo_auto_def demo_hook_def webhook_input_def newInput_def Let_def)
  have "acceptDelivery demo_hook (webhook_input ''v'' ''vc'' ''1'' demo_hook) (''webhook:'' @ ''k'') (sha256_hex ''1'') ''webhook'' second (demo_auto [demo_hook] []) = Inr (v, d)"
    using d v unfolding acceptDelivery_def Let_def by (simp add: demo_auto_def webhook_input_def newInput_def Let_def)
  then show ?thesis
    using key data small member
    by (intro that) (simp add: Webhook_def demo_auto_def demo_hook_def demo_hook_config_def demo_schedule_def)
qed

end
