(* ===== verification/AutoRetries.thy ===== *)
theory AutoRetries
  imports AutoTasks AutoDemo
begin

text \<open>
  What a caller may repeat: a webhook event finds its delivery again, and a reviewed schedule is
  saved with the occurrence that was reviewed.  The saved tasks keep distinct identifiers.
\<close>

section \<open>Identifiers of the tasks\<close>

lemma auto_trace_tasks:
  assumes "auto_trace cenv env as s"
  shows "distinct (map auID (automations (aAuto s)))"
proof -
  from assms obtain d cs ms us where "path (auto_step cenv env) (fresh_auto d cs ms us) as s" by (auto simp: auto_trace_def)
  from path_tasks[OF this] show ?thesis by (simp add: tasks_move_def fresh_auto_def)
qed

lemma the_task:
  assumes "distinct (map auID (automations d))" "a \<in> set (automations d)" "List.find P (automations d) = Some b" "auID a = auID b"
  shows "b = a"
  using find_key[OF assms(1,3,2,4)] by simp

section \<open>Events\<close>

lemma accepted_row:
  assumes "acceptDelivery a t key digest source now d = Inr (v, d')"
  shows "v \<in> set (deliveries d') \<and> dvWorkspace v = auWorkspace a \<and> dvAutomation v = auID a \<and> dvKey v = key \<and> dvDigest v = digest"
  using assms
proof (cases rule: acceptDelivery_cases)
  case new
  from new(1) obtain x where x: "d' = d\<lparr>deliveries := deliveries d @ [x], lastOrder := lastOrder d + 1\<rparr>" "dvWorkspace x = auWorkspace a"
      "dvAutomation x = auID a" "dvKey x = key" "dvDigest x = digest" and old: "\<And>w. w \<in> set (deliveries d) \<Longrightarrow> dvID w \<noteq> tiID t"
    by (rule insertDelivery_cases) blast
  from find_Some_in[OF new(4)] have "v \<in> set (deliveries d')" "dvID v = tiID t" by simp_all
  with old[of v] have "v = x" by (auto simp: x(1))
  with x \<open>v \<in> set (deliveries d')\<close> show ?thesis by simp
qed simp

text \<open>An event that has a delivery finds it, whatever the limits.\<close>

lemma accept_again:
  assumes "deliveries_inv d" "w \<in> set (deliveries d)" "dvWorkspace w = auWorkspace a" "dvAutomation w = auID a" "dvKey w = key"
  shows "acceptDelivery a t key digest source now d = (if digest \<noteq> dvDigest w then Inl AutoConflict else Inr (w, d))"
proof -
  let ?P = "\<lambda>v. (dvWorkspace v = auWorkspace a \<and> dvAutomation v = auID a) \<and> dvKey v = key"
  obtain y where y: "List.find ?P (deliveries d) = Some y"
    using assms(2-5) by (cases "List.find ?P (deliveries d)") (auto simp: find_None_iff)
  have k: "distinct (map (\<lambda>v. (dvAutomation v, dvKey v)) (deliveries d))" using assms(1) by (simp add: deliveries_inv_def)
  have "w = y" by (rule find_key[OF k y assms(2)]) (use find_Some_in[OF y] assms in simp)
  with y show ?thesis by (simp add: acceptDelivery_def Let_def)
qed

lemma retried_webhook:
  assumes "distinct (map auID (automations d))" "deliveries_inv d" "a \<in> set (automations d)" "w \<in> set (deliveries d)" "auID a = i"
    "dvWorkspace w = auWorkspace a" "dvAutomation w = i" "dvKey w = ''webhook:'' @ key"
  shows "case Webhook i token key payload n c now cd d of
      Inr (v, d') \<Rightarrow> v = w \<and> d' = d \<and> sha256_hex payload = dvDigest w
    | Inl e \<Rightarrow> e \<in> {AutoInvalid, AutoUnauthorized, AutoPaused} \<or> e = AutoConflict \<and> sha256_hex payload \<noteq> dvDigest w"
proof -
  let ?P = "\<lambda>a. auID a = i \<and> acKind (auConfig a) = ''webhook'' \<and> \<not> auDeleted a"
  show ?thesis
  proof (cases "List.find ?P (automations d)")
    case (Some b)
    then have "b = a" using the_task[OF assms(1,3) Some] find_Some_in[OF Some] assms(5) by simp
    then have "acceptDelivery b (webhook_input n c payload b) (''webhook:'' @ key) (sha256_hex payload) ''webhook'' now d
        = (if sha256_hex payload \<noteq> dvDigest w then Inl AutoConflict else Inr (w, d))"
      using accept_again[OF assms(2,4)] assms(5-8) by simp
    with Some show ?thesis by (simp add: Webhook_def)
  qed (simp add: Webhook_def)
qed

section \<open>Reviewed schedules\<close>

definition others_kept :: "uuid \<Rightarrow> auto_db \<Rightarrow> auto_db \<Rightarrow> bool" where
  "others_kept i d d' = (\<forall>b. auID b \<noteq> i \<longrightarrow> (b \<in> set (automations d')) = (b \<in> set (automations d)))"

lemma automations_cancel_pending [simp]: "automations (cancel_pending w i code d) = automations d"
  by (simp add: cancel_pending_def on_deliveries_def)

lemma saved_task:
  assumes "saveTx env w u i c vsn now rnd cd d = Inr (x, secret, d')" "distinct (map auID (automations d))"
  shows "x \<in> set (automations d')" "live_automation w u i x" "config_json (auConfig x) = config_json (normalize_config c)" "others_kept i d d'"
proof -
  have "x \<in> set (automations d') \<and> live_automation w u i x \<and> config_json (auConfig x) = config_json (normalize_config c) \<and> others_kept i d d'"
    using assms(1)
  proof (cases rule: saveTx_cases)
    case (existing y)
    then show ?thesis using find_Some_in[OF existing(2)] by (simp add: others_kept_def)
  next
    case (created nxt d1)
    then obtain a where "insert_automation a d = Inr d1"
      and a: "auID a = i" "auWorkspace a = w" "auUser a = u" "\<not> auDeleted a" "auConfig a = normalize_config c"
      by (auto simp: create_automation_def Let_def split: if_split_asm prod.splits elim!: bindrE)
    then have d: "automations d' = automations d @ [a]" and new: "i \<notin> auID ` set (automations d)"
      by (auto simp: created(7) insert_automation_def list_ex_iff a split: if_split_asm)
    have "x = a" using find_Some_in[OF created(8)] new by (auto simp: d)
    then show ?thesis using a by (auto simp: d live_automation_def others_kept_def)
  next
    case (updated nxt d1)
    let ?P = "\<lambda>a. live_automation w u i a \<and> auRevision a = vsn \<and> acKind (auConfig a) = acKind (normalize_config c)"
    let ?f = "\<lambda>a. a\<lparr>auConfig := normalize_config c, auNextRun := trim_run_at nxt, auRevision := auRevision a + 1\<rparr>"
    from updated(5) obtain y where y: "y \<in> set (automations d)" "?P y" and d1: "d1 = on_automations ?P ?f d"
      by (auto simp: update_automation_def Let_def list_ex_iff split: if_split_asm)
    have d: "automations d' = update_where ?P ?f (automations d)" by (simp add: updated(6) d1 on_automations_def)
    have "?f y \<in> set (automations d')" using y by (force simp: d set_update_where)
    moreover have "distinct (map auID (automations d'))" using assms(2) by (simp add: d map_update_where_key)
    ultimately have "x = ?f y" using the_task[OF _ _ updated(8)] find_Some_in[OF updated(8)] y(2) by (simp add: live_automation_def)
    then show ?thesis using \<open>?f y \<in> set (automations d')\<close> y(2)
      by (auto simp: live_automation_def others_kept_def d set_update_where image_iff split: if_splits)
  qed
  then show "x \<in> set (automations d')" "live_automation w u i x" "config_json (auConfig x) = config_json (normalize_config c)" "others_kept i d d'"
    by blast+
qed

end
