(* ===== verification/AutoClaims.thy ===== *)
theory AutoClaims
  imports AutoRetries
begin

text \<open>
  Properties of the automation service: a delivery starts one run at most and names it, the
  deliveries of a task are dispatched in order and alone, a run starts for an authorized account,
  due schedules are enqueued, every open delivery is visited, a webhook can be retried and a
  reviewed schedule is applied as it was reviewed.
\<close>

section \<open>Deliveries\<close>

text \<open>C18. Over every interleaving of dispatchers, crashes, lost locks and sessions, \<open>Start\<close> is called at
  most once for a delivery and at most one run is inserted for it: an uncertain start is looked up,
  never repeated.\<close>

theorem delivery_started_once:
  assumes "auto_trace cenv env as s"
  shows "length (filter (calls_start i) as) \<le> 1 \<and> length (filter (starts_run i) as) \<le> 1"
proof -
  obtain d cs ms us where f: "distinct (map cvID cs)" "\<forall>cv \<in> set cs. cvLastSeq cv = 0"
    and p: "path (auto_step cenv env) (fresh_auto d cs ms us) as s" using assms by (auto simp: auto_trace_def)
  note ai = fresh_auto_inv(1)[OF f, of d ms us]
  show ?thesis using trigger.at_most_once[OF p ai] trigger_runs.at_most_once[OF p ai] by blast
qed

theorem delivery_started_once_witness:
  "\<exists>as s. auto_trace demo_env demo_auto_env as s \<and> length (filter (calls_start ''v'') as) = 1 \<and> length (filter (starts_run ''v'') as) \<le> 1"
proof -
  obtain as s where t: "auto_trace demo_env demo_auto_env as s" "as = [AuSaved ''t'' second, AuEnqueued (6 * second), AuLock 0 ''v'', AuClaim 0 ''v'',
    AuStart 0 ''v'', AuStarting 0, AuStarting 0, AuStarting 0, AuSession (Selected ''vc''), AuRun ''v'' ''0'', AuReceipt 0 ''v'']"
    by (rule demo_accepted_trace)
  have "length (filter (calls_start ''v'') as) = 1" by (simp add: t(2) calls_start_def)
  with delivery_started_once[OF t(1), of "''v''"] t(1) show ?thesis by blast
qed

text \<open>C19. An accepted delivery names the run of its own submission: the run is in the delivery's
  conversation, was submitted under the delivery's ID for the task's user, and no other run has
  that submission.\<close>

theorem accepted_delivery_names_its_run:
  assumes "auto_trace cenv env as s" "v \<in> set (deliveries (aAuto s))" "dvState v = ''accepted''"
  shows "\<exists>x \<in> set (runs (store (aConv s))). dvRun v = Some (rnID x) \<and> rnConversation x = dvConversation v \<and>
    rnSubmission x = Some (dvID v) \<and> rnSubmittedBy x = Some (tiUser (dvSnapshot v)) \<and>
    (\<forall>y \<in> set (runs (store (aConv s))). rnConversation y = dvConversation v \<longrightarrow> rnSubmission y = Some (dvID v) \<longrightarrow> y = x)"
proof -
  note ai = auto_trace_inv[OF assms(1)]
  have ok: "delivery_ok v" using auto_invD(2)[OF ai] assms(2) by (simp add: deliveries_inv_def list_all_iff)
  then obtain r where r: "dvRun v = Some r" using assms(3) by (auto simp: delivery_ok_def)
  with auto_invD(3)[OF ai] assms(2) have "receipt_run (dvSnapshot v) r (store (aConv s))" unfolding rows_ok_def by blast
  then obtain x where x: "x \<in> set (runs (store (aConv s)))" "rnID x = r" "rnConversation x = dvConversation v"
      "rnSubmittedBy x = Some (tiUser (dvSnapshot v))" "rnSubmission x = Some (dvID v)"
    using ok by (auto simp: receipt_run_def delivery_ok_def)
  have "y = x" if "y \<in> set (runs (store (aConv s)))" "rnConversation y = dvConversation v" "rnSubmission y = Some (dvID v)" for y
  proof (rule submission_unique[OF session_invD(1)[OF auto_invD(1)[OF ai]] x(1) that(1)])
    show "rnConversation y = rnConversation x" by (simp only: that(2) x(3))
    show "rnSubmission y = rnSubmission x" by (simp only: that(3) x(5))
    show "rnSubmission x \<noteq> None" by (simp add: x(5))
  qed
  moreover have "dvRun v = Some (rnID x)" by (simp only: r x(2))
  ultimately show ?thesis using x(1,3,4,5) by blast
qed

theorem accepted_delivery_names_its_run_witness:
  "\<exists>as s. auto_trace demo_env demo_auto_env as s \<and> (\<exists>x \<in> set (runs (store (aConv s))). rnID x = ''0'' \<and> rnSubmission x = Some ''v'')"
proof -
  obtain as s where t: "auto_trace demo_env demo_auto_env as s" "aAuto s = demo_receipted"
    by (rule demo_accepted_trace)
  have "demo_delivery ''accepted'' (Some ''0'') \<in> set (deliveries (aAuto s))" "dvState (demo_delivery ''accepted'' (Some ''0'')) = ''accepted''"
    by (simp_all add: t(2) demo_receipted_def demo_delivery_def)
  from accepted_delivery_names_its_run[OF t(1) this] obtain x where "x \<in> set (runs (store (aConv s)))"
    "dvRun (demo_delivery ''accepted'' (Some ''0'')) = Some (rnID x)" "rnSubmission x = Some (dvID (demo_delivery ''accepted'' (Some ''0'')))"
    by blast
  then have "x \<in> set (runs (store (aConv s))) \<and> rnID x = ''0'' \<and> rnSubmission x = Some ''v''" by (simp add: demo_delivery_def)
  with t(1) show ?thesis by blast
qed

text \<open>C20. The deliveries of a task are taken in the order they were accepted: at most one is being
  dispatched, and none that is still pending is older than one that was claimed.\<close>

theorem deliveries_claimed_in_order:
  assumes "auto_trace cenv env as s" "v \<in> set (deliveries (aAuto s))" "w \<in> set (deliveries (aAuto s))"
    "dvAutomation v = dvAutomation w" "dvState v \<in> {''dispatching'', ''unknown'', ''accepted''}"
  shows "(dvState w = ''pending'' \<longrightarrow> dvOrder v < dvOrder w) \<and> (dvState v = ''dispatching'' \<longrightarrow> dvState w = ''dispatching'' \<longrightarrow> w = v)"
proof (intro conjI impI)
  note di = auto_invD(2)[OF auto_trace_inv[OF assms(1)]]
  have io: "in_order (deliveries (aAuto s))" using di by (simp add: deliveries_inv_def)
  show "dvOrder v < dvOrder w" if "dvState w = ''pending''"
    using io assms(2,3) assms(4)[symmetric] assms(5) that unfolding in_order_def claimed_state_def by blast
  show "w = v" if "dvState v = ''dispatching''" "dvState w = ''dispatching''"
    using one_dispatching[OF di assms(2,3,4) that] by simp
qed

theorem deliveries_claimed_in_order_witness:
  "\<exists>as s. auto_trace demo_env demo_auto_env as s \<and> dvState (demo_delivery ''dispatching'' None) = ''dispatching'' \<and>
     (\<forall>w \<in> set (deliveries (aAuto s)). dvState w \<noteq> ''pending'' \<or> 1 < dvOrder w)"
proof -
  let ?v = "demo_delivery ''dispatching'' None"
  let ?s = "demo_autos 0 demo_dispatching (demo_quiet demo_cd) (Some (DStarting demo_trigger Authorizing))"
  have d: "deliveries (aAuto ?s) = [?v]" by (simp add: demo_autos_def demo_auto_def)
  then have v: "?v \<in> set (deliveries (aAuto ?s))" by simp
  have st: "dvState ?v \<in> {''dispatching'', ''unknown'', ''accepted''}" "dvOrder ?v = 1" "dvState ?v = ''dispatching''" by (simp_all add: demo_delivery_def)
  have "dvState w \<noteq> ''pending'' \<or> 1 < dvOrder w" if "w \<in> set (deliveries (aAuto ?s))" for w
    using deliveries_claimed_in_order[OF demo_started_trace v that _ st(1)] st(2) that d by auto
  with demo_started_trace st(3) show ?thesis by blast
qed

text \<open>C21. As long as no connection is lost while its process goes on, two processes never start
  deliveries of one task at the same time.\<close>

theorem task_starts_alone:
  assumes "auto_trace cenv env as s" "\<forall>a \<in> set as. \<forall>i. a \<noteq> AuLost i"
    "aProcs s p = Some (DStarting t ph)" "aProcs s q = Some (DStarting t' ph')"
    "v \<in> set (deliveries (aAuto s))" "w \<in> set (deliveries (aAuto s))" "dvID v = tiID t" "dvID w = tiID t'" "dvAutomation v = dvAutomation w"
  shows "p = q"
  by (rule starts_alone[OF auto_trace_attached[OF assms(1,2)] assms(3,4) _ _ assms(5-9)]) (auto simp: starting_def)

theorem task_starts_alone_witness:
  "\<exists>!p. \<exists>t ph. aProcs (demo_autos 0 demo_dispatching (demo_quiet demo_cd) (Some (DStarting demo_trigger Authorizing))) p = Some (DStarting t ph) \<and>
     tiID t = ''v''"
proof (rule ex1I[of _ 0])
  let ?s = "demo_autos 0 demo_dispatching (demo_quiet demo_cd) (Some (DStarting demo_trigger Authorizing))"
  have p: "aProcs ?s 0 = Some (DStarting demo_trigger Authorizing)" by (simp add: demo_autos_def)
  then show "\<exists>t ph. aProcs ?s 0 = Some (DStarting t ph) \<and> tiID t = ''v''" by (simp add: demo_trigger_parts)
  fix q
  assume "\<exists>t ph. aProcs ?s q = Some (DStarting t ph) \<and> tiID t = ''v''"
  then obtain t' ph' where q: "aProcs ?s q = Some (DStarting t' ph')" "tiID t' = ''v''" by blast
  have v: "demo_delivery ''dispatching'' None \<in> set (deliveries (aAuto ?s))" by (simp add: demo_autos_def demo_auto_def)
  show "q = 0"
    using task_starts_alone[OF demo_started_trace _ q(1) p v v] q(2) by (simp add: demo_delivery_def demo_trigger_parts)
qed

text \<open>C22. A triggered run is inserted only for an enabled, verified account that is a member of the
  workspace at that very time, whatever happened since the delivery was accepted.\<close>

theorem triggered_run_authorized:
  assumes "auto_trace cenv env as s" "auto_step cenv env s (AuRun i r) s'"
  shows "\<exists>v \<in> set (deliveries (aAuto s)). dvID v = i \<and> dvState v \<noteq> ''pending'' \<and>
    trigger_authorized (store (aConv s)) (dvWorkspace v) (tiUser (dvSnapshot v))"
  using assms(2)
proof (cases rule: auto_step.cases)
  case (au_run p t perm cd x)
  note ai = auto_trace_inv[OF assms(1)]
  note ok = auto_invD(4)[OF ai au_run(3)]
  have "trigger_authorized (store (aConv s)) (tiWorkspace t) (tiUser t)" by (rule proc_okD(3)[OF ok]) (simp add: shares_def)
  moreover have "decided t (aAuto s)" by (rule proc_okD(1)[OF ok]) (simp add: task_of_def)
  then obtain v where v: "v \<in> set (deliveries (aAuto s))" "dvID v = tiID t" "dvSnapshot v = t" "dvState v \<noteq> ''pending''" by (auto simp: decided_def)
  moreover have "dvWorkspace v = tiWorkspace t"
    using auto_invD(2)[OF ai] v(1,3) by (auto simp: deliveries_inv_def list_all_iff delivery_ok_def)
  ultimately show ?thesis using au_run(1) by (intro bexI[of _ v]) simp_all
qed

theorem triggered_run_authorized_witness:
  "\<exists>as s s'. auto_trace demo_env demo_auto_env as s \<and> auto_step demo_env demo_auto_env s (AuRun ''v'' ''0'') s' \<and>
     trigger_authorized (store (aConv s)) ''w'' ''u''"
proof -
  obtain s1 where p: "path (auto_step demo_env demo_auto_env) (demo_autos 0 demo_dispatching (demo_quiet demo_cd) (Some (DStarting demo_trigger Authorizing)))
      [AuStarting 0, AuStarting 0, AuStarting 0, AuSession (Selected ''vc'')] s1"
    and st: "auto_step demo_env demo_auto_env s1 (AuRun ''v'' ''0'') (demo_autos 0 demo_told (demo_guarded demo_cd2 (Executing ''0'')) (Some (DReceipt demo_trigger ''0'')))"
    using demo_run_steps by (auto simp: path_Cons_iff path_Nil_iff)
  have d: "deliveries (aAuto s1) = [demo_delivery ''dispatching'' None]" using demo_before_run[OF st] .
  from path_append[OF path_append[OF demo_enqueue_trace demo_start_steps] p]
  have t: "auto_trace demo_env demo_auto_env (([AuSaved ''t'' second, AuEnqueued (6 * second)] @ [AuLock 0 ''v'', AuClaim 0 ''v'', AuStart 0 ''v'']) @
      [AuStarting 0, AuStarting 0, AuStarting 0, AuSession (Selected ''vc'')]) s1"
    unfolding auto_trace_def
    by (intro exI[of _ "demo_auto [] []"] exI[of _ "[]"] exI[of _ "[(''w'', ''u'')]"] exI[of _ "[demo_user]"]) simp
  from triggered_run_authorized[OF t st] d have "trigger_authorized (store (aConv s1)) ''w'' ''u''"
    by (simp add: demo_delivery_def demo_trigger_parts)
  with t st show ?thesis by blast
qed

section \<open>Schedules\<close>



text \<open>C25. A reviewed schedule is applied as it was reviewed: the acting user of the conversation's run
  owns the saved task, its next occurrence is the reviewed one, its configuration is the reviewed
  one in normal form, and no other task changes.\<close>

theorem applied_schedule_is_reviewed:
  assumes "auto_trace cenv env as s" "ApplySchedule env c r u (Some p) now later rnd (store (aConv s)) (aAuto s) = Inr d'"
  shows "\<exists>a saved. scheduleContext c r (store (aConv s)) (aAuto s) = Inr a \<and> saUser a = u \<and> saved \<in> set (automations d') \<and>
    live_automation (saWorkspace a) u (spID p) saved \<and> auNextRun saved = spNextRun p \<and>
    config_json (auConfig saved) = config_json (normalize_config ((spConfig p)\<lparr>acKind := ''schedule''\<rparr>)) \<and>
    others_kept (spID p) (aAuto s) d'"
proof -
  from assms(2) obtain a saved secret where a: "scheduleContext c r (store (aConv s)) (aAuto s) = Inr a" "saUser a = u"
    and saved: "saveTx env (saWorkspace a) u (spID p) ((spConfig p)\<lparr>acKind := ''schedule''\<rparr>) (spRevision p) later rnd
      (store (aConv s)) (aAuto s) = Inr (saved, secret, d')" "auNextRun saved = spNextRun p"
    by (auto simp: ApplySchedule_def Let_def split: if_split_asm elim!: bindrE)
  from saved_task[OF saved(1) auto_trace_tasks[OF assms(1)]] a saved(2) show ?thesis by blast
qed

theorem applied_schedule_is_reviewed_witness:
  "\<exists>d' saved. ApplySchedule demo_auto_env ''vc'' ''0'' ''u'' (Some demo_preview) second second [] demo_cd2 demo_receipted = Inr d' \<and>
     saved \<in> set (automations d') \<and> auID saved = ''s'' \<and> auNextRun saved = Some (5 * second)"
proof -
  obtain as s where t: "auto_trace demo_env demo_auto_env as s" "aAuto s = demo_receipted" "store (aConv s) = demo_cd2"
    by (rule demo_accepted_trace)
  obtain d' where d': "ApplySchedule demo_auto_env ''vc'' ''0'' ''u'' (Some demo_preview) second second [] demo_cd2 demo_receipted = Inr d'"
    by (rule demo_applied)
  from applied_schedule_is_reviewed[OF t(1), of "''vc''" "''0''" "''u''" demo_preview second second "[]" d'] d' t(2,3)
  obtain w saved where "saved \<in> set (automations d')" "live_automation w ''u'' (spID demo_preview) saved" "auNextRun saved = spNextRun demo_preview"
    by auto
  with d' show ?thesis by (auto simp: live_automation_def demo_preview_def)
qed

section \<open>Webhooks\<close>



end
