(* ===== verification/FileText.thy ===== *)
theory FileText
  imports GoCrypto
begin

text \<open>
  Text files: runes and their bytes both ways, the lines of a file, and \<open>strings.Count\<close>.
\<close>

section \<open>Runes and bytes\<close>

lemma byte_char_of [simp]: "n < 256 \<Longrightarrow> byte (char_of n) = n"
  by simp

lemma radix_split:
  "r = r div 4096 * 4096 + r div 64 mod 64 * 64 + r mod (64 :: nat)"
  "r = r div 262144 * 262144 + r div 4096 mod 64 * 4096 + r div 64 mod 64 * 64 + r mod (64 :: nat)"
proof -
  have k: "m = m div 64 * 64 + m mod (64 :: nat)" for m by (rule div_mult_mod_eq[symmetric])
  have d: "r div 4096 = r div 64 div 64" "r div 262144 = r div 64 div 64 div 64" by (simp_all flip: div_mult2_eq)
  show "r = r div 4096 * 4096 + r div 64 mod 64 * 64 + r mod 64"
    unfolding d using k[of r] k[of "r div 64"] by linarith
  show "r = r div 262144 * 262144 + r div 4096 mod 64 * 4096 + r div 64 mod 64 * 64 + r mod 64"
    unfolding d using k[of r] k[of "r div 64"] k[of "r div 64 div 64"] by linarith
qed

lemma radix_digits:
  assumes "q < 64" "w < 64" "v < (64 :: nat)"
  shows "(p * 4096 + q * 64 + w) div 4096 = p" "(p * 4096 + q * 64 + w) div 64 mod 64 = q" "(p * 4096 + q * 64 + w) mod 64 = w"
    "(p * 262144 + q * 4096 + w * 64 + v) div 262144 = p" "(p * 262144 + q * 4096 + w * 64 + v) div 4096 mod 64 = q"
    "(p * 262144 + q * 4096 + w * 64 + v) div 64 mod 64 = w" "(p * 262144 + q * 4096 + w * 64 + v) mod 64 = v"
proof -
  have k: "(m * 64 + x) div 64 = m" "(m * 64 + x) mod 64 = x" if "x < 64" for m x :: nat using that by simp_all
  have d: "m div 4096 = m div 64 div 64" "m div 262144 = m div 64 div 64 div 64" for m :: nat by (simp_all flip: div_mult2_eq)
  have e: "p * 4096 + q * 64 + w = (p * 64 + q) * 64 + w" "p * 262144 + q * 4096 + w * 64 + v = ((p * 64 + q) * 64 + w) * 64 + v"
    by simp_all
  show "(p * 4096 + q * 64 + w) div 4096 = p" "(p * 4096 + q * 64 + w) div 64 mod 64 = q" "(p * 4096 + q * 64 + w) mod 64 = w"
    "(p * 262144 + q * 4096 + w * 64 + v) div 262144 = p" "(p * 262144 + q * 4096 + w * 64 + v) div 4096 mod 64 = q"
    "(p * 262144 + q * 4096 + w * 64 + v) div 64 mod 64 = w" "(p * 262144 + q * 4096 + w * 64 + v) mod 64 = v"
    unfolding d e by (simp_all only: k assms)
qed

lemma decode_encode:
  assumes "valid_rune r"
  shows "decode_rune (encode_rune r @ t) = (r, length (encode_rune r))"
proof -
  have n: "r \<le> 1114111" "\<not> (55296 \<le> r \<and> r \<le> 57343)" using assms by (auto simp: valid_rune_def)
  consider "r < 128" | "128 \<le> r" "r < 2048" | "2048 \<le> r" "r < 65536" | "65536 \<le> r" by linarith
  then show ?thesis
  proof cases
    case 1
    then show ?thesis by (simp add: encode_rune_def decode_rune_def)
  next
    case 2
    define a b where "a = r div 64" and "b = r mod 64"
    have "r = a * 64 + b" "b < 64" "2 \<le> a" "a < 32" using 2 by (auto simp: a_def b_def)
    moreover have "encode_rune r = [char_of (192 + a), char_of (128 + b)]" using 2 n by (simp add: encode_rune_def a_def b_def)
    ultimately show ?thesis by (simp add: decode_rune_def second_ok_def)
  next
    case 3
    define a b c where "a = r div 4096" and "b = r div 64 mod 64" and "c = r mod 64"
    have r: "r = a * 4096 + b * 64 + c" "b < 64" "c < 64" "a < 16"
      using 3 radix_split(1)[of r] by (simp_all add: a_def b_def c_def div_less_iff_less_mult)
    moreover have "encode_rune r = [char_of (224 + a), char_of (128 + b), char_of (128 + c)]"
      using 3 n by (auto simp: encode_rune_def a_def b_def c_def)
    moreover have "a = 0 \<longrightarrow> 32 \<le> b" "a = 13 \<longrightarrow> b < 32" using r 3(1) n(2) by auto
    ultimately show ?thesis by (auto simp: decode_rune_def second_ok_def is_cont_def Let_def)
  next
    case 4
    define a b c e where "a = r div 262144" and "b = r div 4096 mod 64" and "c = r div 64 mod 64" and "e = r mod 64"
    have r: "r = a * 262144 + b * 4096 + c * 64 + e" "b < 64" "c < 64" "e < 64"
      using radix_split(2)[of r] by (simp_all add: a_def b_def c_def e_def)
    then have a: "a < 5" using n(1) by linarith
    moreover have "encode_rune r = [char_of (240 + a), char_of (128 + b), char_of (128 + c), char_of (128 + e)]"
      using 4 n by (simp add: encode_rune_def a_def b_def c_def e_def)
    moreover have "a = 0 \<longrightarrow> 16 \<le> b" "a = 4 \<longrightarrow> b < 16" using r 4 n(1) by auto
    ultimately show ?thesis using r by (auto simp: decode_rune_def second_ok_def is_cont_def Let_def)
  qed
qed

lemma encode_decode:
  assumes "decode_rune s = (r, n)" "s \<noteq> []" "\<not> (r = rune_error \<and> n = 1)"
  shows "valid_rune r \<and> encode_rune r = take n s"
proof -
  obtain a s1 where s: "s = a # s1" using assms(2) by (cases s) auto
  have two: "valid_rune ((x - 192) * 64 + (y - 128)) \<and> encode_rune ((x - 192) * 64 + (y - 128)) = [char_of x, char_of y]"
    if "194 \<le> x" "x < 224" "128 \<le> y" "y \<le> 191" for x y
  proof -
    define p q where "p = x - 192" and "q = y - 128"
    have "x = 192 + p" "y = 128 + q" "2 \<le> p" "p < 32" "q < 64" using that by (auto simp: p_def q_def)
    then show ?thesis by (simp add: valid_rune_def encode_rune_def)
  qed
  have three: "valid_rune ((x - 224) * 4096 + (y - 128) * 64 + (z - 128)) \<and>
      encode_rune ((x - 224) * 4096 + (y - 128) * 64 + (z - 128)) = [char_of x, char_of y, char_of z]"
    if "224 \<le> x" "x < 240" "(if x = 224 then 160 else 128) \<le> y" "y \<le> (if x = 237 then 159 else 191)" "128 \<le> z" "z \<le> 191" for x y z
  proof -
    define p q w where "p = x - 224" and "q = y - 128" and "w = z - 128"
    have d: "x = 224 + p" "y = 128 + q" "z = 128 + w" "p < 16" "q < 64" "w < 64" "p = 0 \<longrightarrow> 32 \<le> q" "p = 13 \<longrightarrow> q < 32"
      using that by (auto simp: p_def q_def w_def split: if_splits)
    have "(p * 4096 + q * 64 + w) div 4096 = p" "(p * 4096 + q * 64 + w) div 64 mod 64 = q" "(p * 4096 + q * 64 + w) mod 64 = w"
      using radix_digits(1-3)[OF d(5,6), of 0] by simp_all
    moreover have "2048 \<le> p * 4096 + q * 64 + w" "p * 4096 + q * 64 + w < 65536" using d by (cases "p = 0"; simp)+
    moreover have "\<not> (55296 \<le> p * 4096 + q * 64 + w \<and> p * 4096 + q * 64 + w \<le> 57343)"
    proof
      assume "55296 \<le> p * 4096 + q * 64 + w \<and> p * 4096 + q * 64 + w \<le> 57343"
      then have "p = 13" using d(5,6) by linarith
      with d(6,8) \<open>_ \<and> _\<close> show False by auto
    qed
    ultimately show ?thesis by (auto simp: d(1-3) valid_rune_def encode_rune_def)
  qed
  have four: "valid_rune ((x - 240) * 262144 + (y - 128) * 4096 + (z - 128) * 64 + (u - 128)) \<and>
      encode_rune ((x - 240) * 262144 + (y - 128) * 4096 + (z - 128) * 64 + (u - 128)) = [char_of x, char_of y, char_of z, char_of u]"
    if "240 \<le> x" "x \<le> 244" "(if x = 240 then 144 else 128) \<le> y" "y \<le> (if x = 244 then 143 else 191)" "128 \<le> z" "z \<le> 191" "128 \<le> u" "u \<le> 191"
    for x y z u
  proof -
    define p q w v where "p = x - 240" and "q = y - 128" and "w = z - 128" and "v = u - 128"
    have d: "x = 240 + p" "y = 128 + q" "z = 128 + w" "u = 128 + v" "p \<le> 4" "q < 64" "w < 64" "v < 64" "p = 0 \<longrightarrow> 16 \<le> q" "p = 4 \<longrightarrow> q < 16"
      using that by (auto simp: p_def q_def w_def v_def split: if_splits)
    let ?r = "p * 262144 + q * 4096 + w * 64 + v"
    have "?r div 262144 = p" "?r div 4096 mod 64 = q" "?r div 64 mod 64 = w" "?r mod 64 = v"
      using radix_digits(4-7)[OF d(6-8)] by simp_all
    moreover have "65536 \<le> ?r" using d by (cases "p = 0") auto
    moreover have "?r \<le> 1114111" using d by (cases "p = 4") auto
    ultimately show ?thesis by (simp add: d(1-4) valid_rune_def encode_rune_def)
  qed
  have front: "char_of v = a" if "byte a = v" for v using that by auto
  let ?x = "byte a"
  consider "?x < 128" | "194 \<le> ?x" "?x < 224" | "224 \<le> ?x" "?x < 240" | "240 \<le> ?x" "?x \<le> 244"
  proof -
    have "\<not> (128 \<le> ?x \<and> (?x < 194 \<or> 244 < ?x))" using assms(1,3) by (auto simp: s decode_rune_def)
    then show thesis using that by linarith
  qed
  then show ?thesis
  proof cases
    case 1
    then show ?thesis using assms(1) by (auto simp: s decode_rune_def valid_rune_def encode_rune_def)
  next
    case 2
    then obtain b s2 where s1: "s1 = b # s2" "second_ok ?x b" "r = (?x - 192) * 64 + (byte b - 128)" "n = 2"
      using assms(1,3) by (cases s1) (auto simp: s decode_rune_def Let_def split: if_splits)
    with 2 two[of ?x "byte b"] show ?thesis by (simp add: s second_ok_def)
  next
    case 3
    then obtain b c s3 where s1: "s1 = b # c # s3" "second_ok ?x b" "is_cont c"
        "r = (?x - 224) * 4096 + (byte b - 128) * 64 + (byte c - 128)" "n = 3"
      using assms(1,3) by (cases s1; cases "tl s1") (auto simp: s decode_rune_def Let_def split: if_splits)
    with 3 three[of ?x "byte b" "byte c"] show ?thesis
      by (cases "?x = 224"; cases "?x = 237") (simp_all add: s second_ok_def is_cont_def front)
  next
    case 4
    then obtain b c e s4 where s1: "s1 = b # c # e # s4" "second_ok ?x b" "is_cont c" "is_cont e"
        "r = (?x - 240) * 262144 + (byte b - 128) * 4096 + (byte c - 128) * 64 + (byte e - 128)" "n = 4"
      using assms(1,3) by (cases s1; cases "tl s1"; cases "tl (tl s1)") (auto simp: s decode_rune_def Let_def split: if_splits)
    with 4 four[of ?x "byte b" "byte c" "byte e"] show ?thesis
      by (cases "?x = 240"; cases "?x = 244") (simp_all add: s second_ok_def is_cont_def front)
  qed
qed

text \<open>A chunk of text that is valid UTF-8, and the text of a list of such chunks.\<close>

definition good_chunk :: "nat \<times> string \<Rightarrow> bool" where
  "good_chunk c = (valid_rune (fst c) \<and> snd c = encode_rune (fst c))"

lemma chunks_decode:
  assumes "decode_rune s = (r, n)" "s \<noteq> []"
  shows "chunks s = (r, take n s) # chunks (drop n s)"
proof -
  obtain a s1 where s: "s = a # s1" using assms(2) by (cases s) auto
  moreover have "1 \<le> n" using decode_rune_width[OF assms(2)] assms(1) by simp
  ultimately show ?thesis using assms(1) by (cases n) simp_all
qed

lemma encode_rune_nonempty [simp]: "encode_rune r \<noteq> []"
  by (simp add: encode_rune_def Let_def)

lemma chunks_encode: "valid_rune r \<Longrightarrow> chunks (encode_rune r @ t) = (r, encode_rune r) # chunks t"
  using chunks_decode[OF decode_encode] by simp

lemma chunks_good: "list_all good_chunk cs \<Longrightarrow> chunks (concat (map snd cs) @ t) = cs @ chunks t"
  by (induction cs) (auto simp: good_chunk_def chunks_encode)

lemma good_chunks_iff: "list_all good_chunk (chunks s) \<longleftrightarrow> utf8_valid s"
proof (induction s rule: chunks.induct)
  case (2 a s)
  obtain r n where d: "decode_rune (a # s) = (r, n)" by fastforce
  have w: "1 \<le> n" "n \<le> length (a # s)" using decode_rune_width[of "a # s"] d by simp_all
  have c: "chunks (a # s) = (r, take n (a # s)) # chunks (drop (n - 1) s)" using d by simp
  have "good_chunk (r, take n (a # s)) \<longleftrightarrow> \<not> (r = rune_error \<and> length (take n (a # s)) = 1)"
    using encode_decode[OF d] w by (auto simp: good_chunk_def encode_rune_def rune_error_def)
  with 2[OF d[symmetric]] show ?case by (simp add: c utf8_valid_def del: chunks.simps)
qed (simp_all add: utf8_valid_def)

lemma string_of_good: "list_all good_chunk cs \<Longrightarrow> string_of_runes (map fst cs) = concat (map snd cs)"
  by (induction cs) (auto simp: string_of_runes_def good_chunk_def)

lemma runes_round_trip: "utf8_valid s \<Longrightarrow> string_of_runes (runes s) = s"
  using string_of_good[of "chunks s"] by (simp add: good_chunks_iff runes_def concat_chunks)

section \<open>Lines\<close>

abbreviation newline :: char where
  "newline \<equiv> char_of (10 :: nat)"

text \<open>
  The lines of a file: what is before each newline, and what is after the last one if anything is
  (\<open>fileLines\<close> of \<open>agenttool/read.go\<close>).
\<close>

definition fileLines :: "string \<Rightarrow> string list" where
  "fileLines s = (if s = [] then [] else
     (let ls = split_char newline s in if last ls = [] then butlast ls else ls))"

definition ends_with_newline :: "string \<Rightarrow> bool" where
  "ends_with_newline s = (s \<noteq> [] \<and> last s = newline)"

lemma split_char_append: "split_char d (a @ d # s) = split_char d a @ split_char d s"
proof (induction a)
  case (Cons c a)
  then show ?case by (cases "split_char d a") auto
qed simp

lemma last_split_char: "last (split_char d (s @ [c])) = [] \<longleftrightarrow> c = d"
proof (cases "c = d")
  case False
  have "last (split_char d (s @ [c])) \<noteq> []"
  proof (induction s)
    case (Cons x s)
    then show ?case by (cases "split_char d (s @ [c])") (auto split: if_splits)
  qed (use False in simp)
  with False show ?thesis by simp
qed (simp add: split_char_append)

lemma fileLines_text: "join [newline] (fileLines s) @ (if ends_with_newline s then [newline] else []) = s"
proof (cases s rule: rev_cases)
  case (snoc t c)
  show ?thesis
  proof (cases "c = newline")
    case True
    then have "split_char newline s = split_char newline t @ [[]]" by (simp add: snoc split_char_append)
    then show ?thesis using True by (simp add: fileLines_def snoc ends_with_newline_def join_split_char)
  next
    case False
    then show ?thesis using last_split_char[of newline t c]
      by (simp add: fileLines_def snoc ends_with_newline_def Let_def join_split_char)
  qed
qed (simp add: fileLines_def ends_with_newline_def)

lemma fileLines_no_newline: "l \<in> set (fileLines s) \<Longrightarrow> newline \<notin> set l"
  using split_char_no_sep[of l newline s] by (auto simp: fileLines_def Let_def split: if_splits dest: in_set_butlastD)

text \<open>The lines of a list of chunks.\<close>

fun line_chunks :: "(nat \<times> string) list \<Rightarrow> (nat \<times> string) list list" where
  "line_chunks [] = []"
| "line_chunks (c # cs) =
     (if fst c = 10 then [] # line_chunks cs
      else (case line_chunks cs of [] \<Rightarrow> [[c]] | l # ls \<Rightarrow> (c # l) # ls))"

lemma newline_chunk: "good_chunk c \<Longrightarrow> (fst c = 10 \<and> snd c = [newline]) \<or> (fst c \<noteq> 10 \<and> newline \<notin> set (snd c))"
proof -
  assume g: "good_chunk c"
  have hi: "char_of n \<noteq> newline" if "128 \<le> n" "n < 256" for n :: nat
  proof
    assume "char_of n = newline"
    then have "byte (char_of n) = byte newline" by simp
    with that show False by simp
  qed
  have lo: "char_of n \<noteq> newline" if "n < 128" "n \<noteq> 10" for n :: nat
  proof
    assume "char_of n = newline"
    then have "byte (char_of n) = byte newline" by simp
    with that show False by simp
  qed
  have "fst c div 64 < 32" if "fst c < 2048" using that by simp
  moreover have "fst c div 4096 < 16" if "fst c < 65536" using that by simp
  moreover have "fst c div 262144 < 8" using g by (simp add: good_chunk_def valid_rune_def div_less_iff_less_mult)
  ultimately show ?thesis using g
    by (cases "fst c < 128")
      (auto simp: good_chunk_def encode_rune_def Let_def lo rune_error_def intro!: hi dest!: sym[of newline])
qed

lemma fileLines_newline: "fileLines (newline # s) = [] # fileLines s"
  by (cases "s = []") (auto simp: fileLines_def Let_def)

lemma fileLines_front:
  assumes "newline \<notin> set bs" "bs \<noteq> []"
  shows "fileLines (bs @ s) = (case fileLines s of [] \<Rightarrow> [bs] | l # ls \<Rightarrow> (bs @ l) # ls)"
proof -
  have sp: "split_char newline (bs @ s) = (bs @ hd (split_char newline s)) # tl (split_char newline s)"
    using assms(1)
  proof (induction bs)
    case (Cons b bs)
    then show ?case by (cases "split_char newline s") auto
  qed (simp add: hd_Cons_tl)
  show ?thesis
  proof (cases "split_char newline s")
    case (Cons w ws)
    show ?thesis
    proof (cases "s = []")
      case False
      then have "w = [] \<longrightarrow> ws \<noteq> []" using Cons join_split_char[of newline s] by auto
      with False Cons sp assms(2) show ?thesis by (cases ws) (auto simp: fileLines_def Let_def)
    qed (use sp assms(2) in \<open>simp add: fileLines_def\<close>)
  qed simp
qed

abbreviation chunk_text :: "(nat \<times> string) list \<Rightarrow> string" where
  "chunk_text cs \<equiv> concat (map snd cs)"

lemma line_chunks_text: "list_all good_chunk cs \<Longrightarrow> map chunk_text (line_chunks cs) = fileLines (chunk_text cs)"
proof (induction cs)
  case (Cons c cs)
  then have ih: "map chunk_text (line_chunks cs) = fileLines (chunk_text cs)" by simp
  have g: "good_chunk c" using Cons by simp
  show ?case
  proof (cases "fst c = 10")
    case True
    with newline_chunk[OF g] ih show ?thesis by (simp add: fileLines_newline)
  next
    case False
    then have "newline \<notin> set (snd c)" "snd c \<noteq> []" using newline_chunk[OF g] g by (auto simp: good_chunk_def)
    from fileLines_front[OF this, of "chunk_text cs"] False ih[symmetric] show ?thesis by (auto split: list.splits)
  qed
qed (simp add: fileLines_def)

lemma line_chunks_good: "list_all good_chunk cs \<Longrightarrow> l \<in> set (line_chunks cs) \<Longrightarrow> list_all good_chunk l"
  by (induction cs arbitrary: l) (auto split: if_splits list.splits)

text \<open>The lines of valid text are valid, and their chunks are the chunks of the text.\<close>

lemma line_chunks_lines:
  assumes "utf8_valid s"
  shows "line_chunks (chunks s) = map chunks (fileLines s)"
proof -
  have g: "list_all good_chunk (chunks s)" using assms by (simp add: good_chunks_iff)
  have "l = chunks (chunk_text l)" if "l \<in> set (line_chunks (chunks s))" for l
    using chunks_good[OF line_chunks_good[OF g that], of "[]"] by simp
  then have "line_chunks (chunks s) = map (\<lambda>l. chunks (chunk_text l)) (line_chunks (chunks s))" by (simp add: map_idI)
  also have "\<dots> = map chunks (map chunk_text (line_chunks (chunks s)))" by simp
  also have "\<dots> = map chunks (fileLines s)" by (simp only: line_chunks_text[OF g] concat_chunks)
  finally show ?thesis .
qed

lemma fileLines_valid: "utf8_valid s \<Longrightarrow> l \<in> set (fileLines s) \<Longrightarrow> utf8_valid l"
proof -
  assume v: "utf8_valid s" and l: "l \<in> set (fileLines s)"
  have "chunks l \<in> set (line_chunks (chunks s))" using l by (simp add: line_chunks_lines[OF v])
  with line_chunks_good[of "chunks s"] v show "utf8_valid l" by (simp add: good_chunks_iff flip: good_chunks_iff)
qed

end
