(* ===== verification/FileReads.thy ===== *)
theory FileReads
  imports FileText
begin

text \<open>
  Reading a text file page by page: \<open>ReadLines\<close> of \<open>toolboxfs/toolbox.go\<close>, which streams the runes
  of the file once, and the page it returns.  \<open>fill_page\<close> is its reference: the lines of the file
  in the range, cut and taken while they fit.
\<close>

section \<open>Files\<close>

text \<open>What a path leads to, if anything: a regular file, a directory, or a link, pipe or device.\<close>

datatype node =
    Regular string
  | Directory
  | Special

datatype file_err =
    FileMissing
  | FileIrregular
  | FileTooLarge
  | FileRange
  | FileBinary
  | FileChanged
  | FileExists
  | FileNoMatch
  | FileAmbiguous nat
  | FileArgument string
  | FilePath string
  | FileOther string

definition MaxFileBytes :: nat where
  "MaxFileBytes = 26214400"

definition openRegularFile :: "node option \<Rightarrow> file_err + string" where
  "openRegularFile x = (case x of None \<Rightarrow> Inl FileMissing | Some (Regular s) \<Rightarrow> Inr s | Some _ \<Rightarrow> Inl FileIrregular)"

definition readRegularFile :: "node option \<Rightarrow> file_err + string" where
  "readRegularFile x = bindr (openRegularFile x) (\<lambda>s. if MaxFileBytes < length s then Inl FileTooLarge else Inr s)"

section \<open>The scan of the runes\<close>

record file_line =
  flText :: string
  flOmitted :: nat

record file_page =
  fpLines :: "file_line list"
  fpStart :: nat
  fpTotal :: nat
  fpSHA :: string
  fpSize :: nat
  fpNewline :: bool

definition MaxCharactersInLine :: nat where
  "MaxCharactersInLine = 2000"

definition MaxReadLines :: nat where
  "MaxReadLines = 2000"

definition line_notice :: "nat \<Rightarrow> string" where
  "line_notice n = '' [line truncated: '' @ show_nat n @ '' characters omitted]''"

definition line_need :: "nat \<Rightarrow> nat \<Rightarrow> nat" where
  "line_need kept omitted = kept + 9 + (if 0 < omitted then length (line_notice omitted) else 0)"

record scan_state =
  scTotal :: nat
  scNumber :: nat
  scCharacters :: nat
  scKept :: nat
  scOmitted :: nat
  scPage :: nat
  scFull :: bool
  scLine :: string
  scLines :: "file_line list"

definition scan_start :: scan_state where
  "scan_start = \<lparr>scTotal = 0, scNumber = 1, scCharacters = 0, scKept = 0, scOmitted = 0, scPage = 0, scFull = False, scLine = [], scLines = []\<rparr>"

definition finishLine :: "nat \<Rightarrow> nat \<Rightarrow> scan_state \<Rightarrow> scan_state" where
  "finishLine offset limit st =
     (let n = line_need (scKept st) (scOmitted st);
          st1 = (if \<not> scFull st \<and> offset \<le> scNumber st \<and> scNumber st < offset + limit
                 then if scPage st + n \<le> 30000
                      then st\<lparr>scLines := scLines st @ [\<lparr>flText = scLine st, flOmitted = scOmitted st\<rparr>], scPage := scPage st + n\<rparr>
                      else st\<lparr>scFull := True\<rparr>
                 else st)
      in st1\<lparr>scTotal := scTotal st + 1, scNumber := scNumber st + 1, scCharacters := 0, scKept := 0, scOmitted := 0, scLine := []\<rparr>)"

definition note_rune :: "nat \<Rightarrow> nat \<Rightarrow> scan_state \<Rightarrow> nat \<Rightarrow> scan_state" where
  "note_rune offset limit st r =
     (let st1 = st\<lparr>scCharacters := scCharacters st + 1\<rparr> in
      if scNumber st < offset \<or> offset + limit \<le> scNumber st then st1
      else if scKept st < MaxCharactersInLine then st1\<lparr>scLine := scLine st @ encode_rune r, scKept := scKept st + 1\<rparr>
      else st1\<lparr>scOmitted := scOmitted st + 1\<rparr>)"

text \<open>The loop over \<open>ReadRune\<close>; \<open>None\<close>: binary data.\<close>

fun scan_runes :: "nat \<Rightarrow> nat \<Rightarrow> scan_state \<Rightarrow> (nat \<times> string) list \<Rightarrow> scan_state option" where
  "scan_runes offset limit st [] = Some (if 0 < scCharacters st then finishLine offset limit st else st)"
| "scan_runes offset limit st ((r, bs) # cs) =
     (if r = 0 \<or> r = rune_error \<and> length bs = 1 then None
      else if r = 10 then scan_runes offset limit (finishLine offset limit st) cs
      else scan_runes offset limit (note_rune offset limit st r) cs)"

definition ReadLines :: "int \<Rightarrow> int \<Rightarrow> node option \<Rightarrow> file_err + file_page" where
  "ReadLines offset limit x =
     (if offset < 1 \<or> limit < 1 \<or> int MaxReadLines < limit then Inl FileRange
      else bindr (openRegularFile x) (\<lambda>s.
        if MaxFileBytes < length s then Inl FileTooLarge
        else (case scan_runes (nat offset) (nat limit) scan_start (chunks s) of
            None \<Rightarrow> Inl FileBinary
          | Some st \<Rightarrow> Inr \<lparr>fpLines = scLines st, fpStart = nat offset, fpTotal = scTotal st, fpSHA = sha256_hex s, fpSize = length s,
              fpNewline = ends_with_newline s\<rparr>)))"

section \<open>The reference\<close>

definition valid_text :: "string \<Rightarrow> bool" where
  "valid_text s = (utf8_valid s \<and> 0 \<notin> set (runes s))"

definition cut_line :: "string \<Rightarrow> file_line" where
  "cut_line l = \<lparr>flText = chunk_text (take MaxCharactersInLine (chunks l)), flOmitted = rune_count l - MaxCharactersInLine\<rparr>"

definition cut_need :: "string \<Rightarrow> nat" where
  "cut_need l = line_need (min MaxCharactersInLine (rune_count l)) (rune_count l - MaxCharactersInLine)"

fun fill_page :: "nat \<Rightarrow> string list \<Rightarrow> file_line list" where
  "fill_page used [] = []"
| "fill_page used (l # ls) = (if used + cut_need l \<le> 30000 then cut_line l # fill_page (used + cut_need l) ls else [])"

definition page_of :: "nat \<Rightarrow> nat \<Rightarrow> string \<Rightarrow> file_page" where
  "page_of offset limit s = \<lparr>fpLines = fill_page 0 (take limit (drop (offset - 1) (fileLines s))), fpStart = offset,
     fpTotal = length (fileLines s), fpSHA = sha256_hex s, fpSize = length s, fpNewline = ends_with_newline s\<rparr>"

section \<open>The scan computes the reference\<close>

definition ok_chunk :: "nat \<times> string \<Rightarrow> bool" where
  "ok_chunk c = (fst c \<noteq> 0 \<and> \<not> (fst c = rune_error \<and> length (snd c) = 1))"

lemma valid_text_chunks: "valid_text s \<longleftrightarrow> list_all ok_chunk (chunks s)"
  by (force simp: valid_text_def utf8_valid_def runes_def ok_chunk_def list_all_iff)

lemma scan_None: "scan_runes offset limit st cs = None \<longleftrightarrow> \<not> list_all ok_chunk cs"
  by (induction offset limit st cs rule: scan_runes.induct) (auto simp: ok_chunk_def)

text \<open>Between lines the counters of the line are zero.\<close>

definition fresh_line :: "scan_state \<Rightarrow> bool" where
  "fresh_line st = (scCharacters st = 0 \<and> scKept st = 0 \<and> scOmitted st = 0 \<and> scLine st = [])"

definition noted :: "nat \<Rightarrow> nat \<Rightarrow> scan_state \<Rightarrow> (nat \<times> string) list \<Rightarrow> scan_state" where
  "noted offset limit st l =
     (if scNumber st < offset \<or> offset + limit \<le> scNumber st then st\<lparr>scCharacters := length l\<rparr>
      else st\<lparr>scCharacters := length l, scKept := min MaxCharactersInLine (length l), scOmitted := length l - MaxCharactersInLine,
        scLine := chunk_text (take MaxCharactersInLine l)\<rparr>)"

lemma noted_Nil: "fresh_line st \<Longrightarrow> noted offset limit st [] = st"
  by (simp add: noted_def fresh_line_def)

lemma noted_snoc: "good_chunk c \<Longrightarrow> note_rune offset limit (noted offset limit st l) (fst c) = noted offset limit st (l @ [c])"
  by (auto simp: note_rune_def noted_def Let_def good_chunk_def)

lemma scan_front:
  assumes "list_all ok_chunk l" "list_all good_chunk l" "\<forall>c \<in> set l. fst c \<noteq> 10"
  shows "scan_runes offset limit (noted offset limit st k) (l @ cs) = scan_runes offset limit (noted offset limit st (k @ l)) cs"
  using assms
proof (induction l arbitrary: k)
  case (Cons c l)
  then have "scan_runes offset limit (noted offset limit st k) ((c # l) @ cs)
      = scan_runes offset limit (noted offset limit st (k @ [c])) (l @ cs)"
    using noted_snoc[of c offset limit st k] by (cases c) (auto simp: ok_chunk_def)
  with Cons show ?case by simp
qed simp

definition add_line :: "nat \<Rightarrow> nat \<Rightarrow> scan_state \<Rightarrow> (nat \<times> string) list \<Rightarrow> scan_state" where
  "add_line offset limit st l = finishLine offset limit (noted offset limit st l)"

lemma add_line_fresh: "fresh_line (add_line offset limit st l)"
  by (simp add: add_line_def finishLine_def fresh_line_def Let_def)

lemma line_chunks_front:
  "\<forall>c \<in> set l. fst c \<noteq> 10 \<Longrightarrow> line_chunks (l @ (10, bs) # cs) = l # line_chunks cs"
  "\<forall>c \<in> set l. fst c \<noteq> 10 \<Longrightarrow> l \<noteq> [] \<Longrightarrow> line_chunks l = [l]"
proof (induction l)
  case (Cons c l)
  { case 1 with Cons show ?case by auto
  next case 2 with Cons show ?case by (cases "l = []") auto }
qed simp_all

lemma scan_lines:
  assumes "list_all ok_chunk cs" "list_all good_chunk cs" "fresh_line st"
  shows "scan_runes offset limit st cs = Some (foldl (add_line offset limit) st (line_chunks cs))"
  using assms
proof (induction "length cs" arbitrary: cs st rule: less_induct)
  case less
  let ?l = "takeWhile (\<lambda>c. fst c \<noteq> 10) cs" and ?r = "dropWhile (\<lambda>c. fst c \<noteq> 10) cs"
  have cs: "cs = ?l @ ?r" by simp
  have l: "list_all ok_chunk ?l" "list_all good_chunk ?l" "\<forall>c \<in> set ?l. fst c \<noteq> 10"
    using less(2,3) by (auto simp: list_all_iff dest: set_takeWhileD)
  have front: "scan_runes offset limit st cs = scan_runes offset limit (noted offset limit st ?l) ?r"
    using scan_front[OF l, of offset limit st "[]" ?r] noted_Nil[OF less(4)] by simp
  show ?case
  proof (cases ?r)
    case Nil
    then have only: "?l = cs" by (metis append_Nil2 takeWhile_dropWhile_id)
    show ?thesis
    proof (cases "cs = []")
      case True
      then show ?thesis using less(4) by (simp add: fresh_line_def)
    next
      case False
      then have "line_chunks cs = [cs]" using line_chunks_front(2)[of ?l] l(3) only by simp
      then show ?thesis using front Nil only False by (simp add: noted_def add_line_def)
    qed
  next
    case (Cons c r)
    then have ten: "fst c = 10" using hd_dropWhile[of "\<lambda>c. fst c \<noteq> 10" cs] by simp
    then obtain bs where c: "c = (10, bs)" by (cases c) auto
    have "length r < length cs" using arg_cong[OF cs, of length] Cons by simp
    moreover have "list_all ok_chunk r" "list_all good_chunk r" "ok_chunk c" using less(2,3) cs Cons
      by (metis list_all_append list.pred_inject(2))+
    ultimately have "scan_runes offset limit (add_line offset limit st ?l) r
        = Some (foldl (add_line offset limit) (add_line offset limit st ?l) (line_chunks r))"
      using less(1) add_line_fresh by blast
    moreover have "line_chunks cs = ?l # line_chunks r" using line_chunks_front(1)[OF l(3), of bs r] cs Cons c by simp
    moreover have "scan_runes offset limit (noted offset limit st ?l) ?r = scan_runes offset limit (add_line offset limit st ?l) r"
      using \<open>ok_chunk c\<close> by (simp add: Cons c ok_chunk_def add_line_def rune_error_def)
    ultimately show ?thesis using front by simp
  qed
qed

fun in_range :: "nat \<Rightarrow> nat \<Rightarrow> nat \<Rightarrow> 'a list \<Rightarrow> 'a list" where
  "in_range offset limit n [] = []"
| "in_range offset limit n (l # ls) = (if offset \<le> n \<and> n < offset + limit then l # in_range offset limit (n + 1) ls else in_range offset limit (n + 1) ls)"

lemma in_range_take: "in_range offset limit n ls = take (offset + limit - max n offset) (drop (offset - n) ls)"
proof (induction ls arbitrary: n)
  case (Cons l ls)
  show ?case
  proof (cases "offset \<le> n")
    case True
    moreover have "offset + limit - Suc n = offset + limit - n - 1" by simp
    ultimately show ?thesis using Cons[of "n + 1"] by (cases "offset + limit - n") auto
  next
    case False
    then obtain k where "offset - n = Suc k" by (cases "offset - n") auto
    moreover have "offset - Suc n = offset - n - 1" by simp
    ultimately show ?thesis using False Cons[of "n + 1"] by (auto simp: max_def split: if_splits)
  qed
qed simp

lemma added_lines:
  assumes "fresh_line st"
  shows "scTotal (foldl (add_line offset limit) st (map chunks ls)) = scTotal st + length ls \<and>
    scLines (foldl (add_line offset limit) st (map chunks ls))
      = scLines st @ (if scFull st then [] else fill_page (scPage st) (in_range offset limit (scNumber st) ls))"
  using assms
proof (induction ls arbitrary: st)
  case (Cons l ls)
  let ?st = "add_line offset limit st (chunks l)"
  have ih: "scTotal (foldl (add_line offset limit) ?st (map chunks ls)) = scTotal ?st + length ls"
      "scLines (foldl (add_line offset limit) ?st (map chunks ls))
        = scLines ?st @ (if scFull ?st then [] else fill_page (scPage ?st) (in_range offset limit (scNumber ?st) ls))"
    using Cons.IH[OF add_line_fresh] by simp_all
  have n: "scTotal ?st = scTotal st + 1" "scNumber ?st = scNumber st + 1"
    by (simp_all add: add_line_def finishLine_def noted_def Let_def)
  show ?case
  proof (cases "\<not> scFull st \<and> offset \<le> scNumber st \<and> scNumber st < offset + limit")
    case True
    then have st: "noted offset limit st (chunks l) = st\<lparr>scCharacters := rune_count l, scKept := min MaxCharactersInLine (rune_count l),
        scOmitted := rune_count l - MaxCharactersInLine, scLine := chunk_text (take MaxCharactersInLine (chunks l))\<rparr>"
      by (simp add: noted_def rune_count_def)
    show ?thesis
    proof (cases "scPage st + cut_need l \<le> 30000")
      case fits: True
      with True have "scFull ?st = False" "scPage ?st = scPage st + cut_need l" "scLines ?st = scLines st @ [cut_line l]"
        by (simp_all add: add_line_def finishLine_def st cut_need_def cut_line_def Let_def)
      with ih n True fits show ?thesis by simp
    next
      case False
      with True have "scFull ?st" "scLines ?st = scLines st"
        by (simp_all add: add_line_def finishLine_def st cut_need_def Let_def)
      with ih n True False show ?thesis by simp
    qed
  next
    case False
    then have "scFull ?st = scFull st" "scPage ?st = scPage st" "scLines ?st = scLines st"
      by (auto simp: add_line_def finishLine_def noted_def Let_def)
    with ih n False show ?thesis by (cases "scFull st") auto
  qed
qed simp

lemma ReadLines_page:
  assumes "1 \<le> offset" "1 \<le> limit" "limit \<le> int MaxReadLines" "length s \<le> MaxFileBytes"
  shows "ReadLines offset limit (Some (Regular s)) = (if valid_text s then Inr (page_of (nat offset) (nat limit) s) else Inl FileBinary)"
proof (cases "valid_text s")
  case True
  then have v: "utf8_valid s" "list_all ok_chunk (chunks s)" by (simp_all add: valid_text_def valid_text_chunks flip: valid_text_chunks)
  have fresh: "fresh_line scan_start" by (simp add: scan_start_def fresh_line_def)
  have "scan_runes (nat offset) (nat limit) scan_start (chunks s)
      = Some (foldl (add_line (nat offset) (nat limit)) scan_start (map chunks (fileLines s)))"
    using scan_lines[OF v(2) _ fresh] v(1) by (simp add: good_chunks_iff line_chunks_lines)
  with True added_lines[OF fresh, of "nat offset" "nat limit" "fileLines s"] assms show ?thesis
    by (simp add: ReadLines_def openRegularFile_def page_of_def scan_start_def in_range_take max_def)
next
  case False
  then have "scan_runes (nat offset) (nat limit) scan_start (chunks s) = None" by (simp add: valid_text_chunks scan_None)
  with assms False show ?thesis by (simp add: ReadLines_def openRegularFile_def)
qed

end
