(* ===== verification/FileViews.thy ===== *)
theory FileViews
  imports FileReads GoTime "HOL-Library.AList"
begin

text \<open>
  What the model has seen of the files: the page the \<open>read\<close> tool returns (\<open>agenttool/read.go\<close>) and
  the file state that is derived from such pages, from writes and from edits
  (\<open>agenttool/file_state.go\<close>).
\<close>

section \<open>Read results\<close>

record read_receipt =
  rcPath :: string
  rcSHA :: string
  rcStart :: nat
  rcCount :: nat
  rcTotal :: nat
  rcComplete :: bool
  rcNewline :: bool

record read_result =
  rrContent :: string
  rrStart :: nat
  rrCount :: nat
  rrTotal :: nat
  rrTruncated :: bool
  rrNext :: "nat option"
  rrLong :: "nat list"
  rrOmitted :: nat
  rrImages :: bool
  rrReceipt :: read_receipt

definition outputCharacterLimit :: nat where
  "outputCharacterLimit = 30000"

abbreviation tabulator :: char where
  "tabulator \<equiv> char_of (9 :: nat)"

text \<open>A line as it is shown, and the characters of it that are not.\<close>

definition shown_line :: "file_line \<Rightarrow> string \<times> nat" where
  "shown_line f =
     (let rs = runes (flText f); over = length rs - MaxCharactersInLine; omitted = flOmitted f + over in
      if MaxCharactersInLine < length rs then (string_of_runes (take MaxCharactersInLine rs) @ line_notice omitted, omitted)
      else if 0 < flOmitted f then (flText f @ line_notice omitted, omitted)
      else (flText f, 0))"

definition formatted :: "nat \<Rightarrow> string \<Rightarrow> string" where
  "formatted n line = pad_left 6 (show_nat n) @ tabulator # line"

record numbered_page =
  nbOutput :: string
  nbCount :: nat
  nbCharacters :: nat
  nbOmitted :: nat
  nbLong :: "nat list"

fun number_lines :: "nat \<Rightarrow> file_line list \<Rightarrow> numbered_page \<Rightarrow> numbered_page" where
  "number_lines n [] st = st"
| "number_lines n (f # fs) st =
     (let (line, omitted) = shown_line f; text = formatted n line; need = rune_count text + (if 0 < nbCount st then 1 else 0) in
      if outputCharacterLimit < nbCharacters st + need then st
      else number_lines (n + 1) fs
        \<lparr>nbOutput = nbOutput st @ (if 0 < nbCount st then [newline] else []) @ text, nbCount = nbCount st + 1,
          nbCharacters = nbCharacters st + need, nbOmitted = nbOmitted st + omitted,
          nbLong = (if 0 < omitted then nbLong st @ [n] else nbLong st)\<rparr>)"

definition number_start :: numbered_page where
  "number_start = \<lparr>nbOutput = [], nbCount = 0, nbCharacters = 0, nbOmitted = 0, nbLong = []\<rparr>"

text \<open>\<open>numberedLinesResult\<close> with the receipt of \<open>Read.Execute\<close>.\<close>

definition numberedLinesResult :: "string \<Rightarrow> file_page \<Rightarrow> read_result" where
  "numberedLinesResult path p =
     (let nb = number_lines (fpStart p) (fpLines p) number_start;
          more = (fpStart p - 1 + nbCount nb < fpTotal p);
          cut = (more \<or> nbLong nb \<noteq> [])
      in \<lparr>rrContent = nbOutput nb, rrStart = fpStart p, rrCount = nbCount nb, rrTotal = fpTotal p, rrTruncated = cut,
          rrNext = (if more then Some (fpStart p + nbCount nb) else None), rrLong = nbLong nb, rrOmitted = nbOmitted nb, rrImages = False,
          rrReceipt = \<lparr>rcPath = path, rcSHA = fpSHA p, rcStart = fpStart p, rcCount = nbCount nb, rcTotal = fpTotal p,
            rcComplete = (fpStart p = 1 \<and> nbCount nb = fpTotal p \<and> \<not> cut), rcNewline = fpNewline p\<rparr>\<rparr>)"

definition image_result :: "string \<Rightarrow> string \<Rightarrow> string \<Rightarrow> read_result" where
  "image_result path note data =
     \<lparr>rrContent = note, rrStart = 0, rrCount = 0, rrTotal = 0, rrTruncated = False, rrNext = None, rrLong = [], rrOmitted = 0, rrImages = True,
       rrReceipt = \<lparr>rcPath = path, rcSHA = sha256_hex data, rcStart = 0, rcCount = 0, rcTotal = 0, rcComplete = False, rcNewline = False\<rparr>\<rparr>"

definition maxImageBytes :: nat where
  "maxImageBytes = 8388608"

record read_input =
  riFile :: string
  riPath :: string
  riOffset :: int
  riLimit :: int

definition sha_char :: "char \<Rightarrow> bool" where
  "sha_char c = (c \<in> set ''0123456789abcdef'')"

definition validSHA :: "string \<Rightarrow> bool" where
  "validSHA s = (length s = 64 \<and> list_all sha_char s)"

definition required :: "string \<Rightarrow> string \<Rightarrow> file_err + string" where
  "required v name = (if trim_space v = [] then Inl (FileArgument name) else Inr v)"

text \<open>
  \<open>Read.Execute\<close>, where \<open>x\<close> is what the path leads to.  \<open>media\<close> is \<open>imageMediaType\<close>, which asks the
  system's table of media types, with the sentence that describes the image.
\<close>

definition read_path :: "read_input \<Rightarrow> string" where
  "read_path i = (if riFile i = [] then riPath i else riFile i)"

definition Read_Execute :: "(string \<Rightarrow> (string \<Rightarrow> string) option) \<Rightarrow> read_input \<Rightarrow> node option \<Rightarrow> file_err + read_result" where
  "Read_Execute media i x =
     bindr (required (read_path i) ''file_path'') (\<lambda>path.
     (let offset = (if riOffset i = 0 then 1 else riOffset i); limit = (if riLimit i = 0 then 2000 else riLimit i) in
      if offset < 1 \<or> limit < 1 \<or> 2000 < limit then Inl FileRange
      else (case media path of
          Some note \<Rightarrow> bindr (readRegularFile x) (\<lambda>data.
            if data = [] then Inl (FileOther ''image file is empty'')
            else if maxImageBytes < length data then Inl FileTooLarge
            else Inr (image_result path (note data) data))
        | None \<Rightarrow> bindr (ReadLines offset limit x) (\<lambda>p.
            if \<not> validSHA (fpSHA p) then Inl (FileOther ''file reader did not confirm a content digest'')
            else Inr (numberedLinesResult path p)))))"

section \<open>The file state\<close>

record file_view =
  obSha :: string
  obComplete :: bool
  obText :: string
  obLines :: "(nat \<times> string) list"
  obTotal :: nat
  obNewline :: bool

type_synonym file_state = "string \<Rightarrow> file_view option"

fun parse_lines :: "nat \<Rightarrow> string list \<Rightarrow> string list option" where
  "parse_lines n [] = Some []"
| "parse_lines n (l # ls) =
     (case cut_char tabulator l of
        None \<Rightarrow> None
      | Some (prefix, original) \<Rightarrow>
          if atoi (trim_space prefix) = Some (int n) then map_option ((#) original) (parse_lines (n + 1) ls) else None)"

text \<open>The lines a result shows, with their numbers; \<open>None\<close>: they do not agree with the receipt.\<close>

definition received_lines :: "read_result \<Rightarrow> (nat \<times> string) list option" where
  "received_lines r =
     (if rrImages r then Some []
      else (case (if rrContent r = [] then Some [] else parse_lines (rcStart (rrReceipt r)) (split_char newline (rrContent r))) of
          None \<Rightarrow> None
        | Some ls \<Rightarrow> if length ls \<noteq> rcCount (rrReceipt r) then None
            else Some (zip [rcStart (rrReceipt r)..<rcStart (rrReceipt r) + length ls] ls)))"

text \<open>The partial view: neighbouring lines are joined by newlines, others by NUL.\<close>

fun joined_lines :: "nat \<Rightarrow> (nat \<times> string) list \<Rightarrow> string" where
  "joined_lines before [] = []"
| "joined_lines before ((n, l) # ls) =
     (if before = 0 then [] else if n = before + 1 then [newline] else [char_of (0 :: nat)]) @ l @ joined_lines n ls"

definition merge_lines :: "bool \<Rightarrow> (nat \<times> string) list \<Rightarrow> file_view \<Rightarrow> file_view" where
  "merge_lines images seen o0 =
     (let lines = foldl (\<lambda>m (n, l). AList.update n l m) (obLines o0) seen;
          ordered = sort_key fst lines;
          total = obTotal o0;
          full = (\<not> images \<and> length ordered = total \<and> (total = 0 \<or> fst (hd ordered) = 1 \<and> fst (last ordered) = total))
      in o0\<lparr>obLines := lines, obText := joined_lines 0 ordered @ (if full \<and> obNewline o0 then [newline] else []), obComplete := full\<rparr>)"

definition fresh_observation :: "read_receipt \<Rightarrow> file_view" where
  "fresh_observation rc = \<lparr>obSha = rcSHA rc, obComplete = False, obText = [], obLines = [], obTotal = rcTotal rc, obNewline = rcNewline rc\<rparr>"

definition observe_in :: "read_result \<Rightarrow> (nat \<times> string) list \<Rightarrow> file_view option \<Rightarrow> file_view" where
  "observe_in r lines old =
     (let rc = rrReceipt r; o0 = (case old of Some x \<Rightarrow> x | None \<Rightarrow> fresh_observation rc) in
      if rcComplete rc \<and> rcStart rc = 1 \<and> rcCount rc = rcTotal rc \<and> \<not> rrTruncated r \<and> \<not> rrImages r
      then o0\<lparr>obComplete := True, obText := join [newline] (map snd lines) @ (if rcComplete rc \<and> rcNewline rc then [newline] else [])\<rparr>
      else merge_lines (rrImages r) (filter (\<lambda>(n, l). n \<notin> set (rrLong r)) lines) o0)"

definition ObserveRead :: "read_result \<Rightarrow> file_state \<Rightarrow> file_state" where
  "ObserveRead r st =
     (let rc = rrReceipt r; key = path_clean (rcPath rc) in
      if rcPath rc = [] \<or> \<not> validSHA (rcSHA rc) then st
      else (case received_lines r of
          None \<Rightarrow> st
        | Some lines \<Rightarrow>
            (case st key of
               Some old \<Rightarrow>
                 if obSha old = rcSHA rc \<and> obComplete old then st
                 else st(key \<mapsto> observe_in r lines (if obSha old = rcSHA rc \<and> obTotal old = rcTotal rc then Some old else None))
             | None \<Rightarrow> st(key \<mapsto> observe_in r lines None))))"

definition RecordWrite :: "string \<Rightarrow> string \<Rightarrow> string \<Rightarrow> file_state \<Rightarrow> file_state" where
  "RecordWrite path content sha st =
     (if \<not> validSHA sha then st
      else st(path_clean path \<mapsto> \<lparr>obSha = sha, obComplete = True, obText = content, obLines = [], obTotal = 0, obNewline = False\<rparr>))"

text \<open>\<open>strings.Replace\<close> with count 1 or all.\<close>

definition replace_n :: "bool \<Rightarrow> string \<Rightarrow> string \<Rightarrow> string \<Rightarrow> string" where
  "replace_n all old new s = (if all then replace_all old new s else replace_first old new s)"

definition RecordEdit :: "string \<Rightarrow> string \<Rightarrow> string \<Rightarrow> bool \<Rightarrow> string \<Rightarrow> file_state \<Rightarrow> file_state" where
  "RecordEdit path old new all sha st =
     (let key = path_clean path in
      case st key of
        Some x \<Rightarrow> if \<not> validSHA sha \<or> \<not> obComplete x then st(key := None)
          else st(key \<mapsto> x\<lparr>obText := replace_n all old new (obText x), obSha := sha\<rparr>)
      | None \<Rightarrow> st(key := None))"

text \<open>The version a write must replace and whether it must create the file.\<close>

definition ExpectedWrite :: "string \<Rightarrow> file_state \<Rightarrow> file_err + (string \<times> bool)" where
  "ExpectedWrite path st =
     (case st (path_clean path) of
        None \<Rightarrow> Inr ([], True)
      | Some x \<Rightarrow> if \<not> obComplete x then Inl (FileOther ''read the complete current file before overwriting it'') else Inr (obSha x, False))"

definition ExpectedEdit :: "string \<Rightarrow> string \<Rightarrow> bool \<Rightarrow> file_state \<Rightarrow> file_err + string" where
  "ExpectedEdit path old all st =
     (case st (path_clean path) of
        None \<Rightarrow> Inl (FileOther ''read the current file portion containing old_string before editing it'')
      | Some x \<Rightarrow>
          if \<not> contains (obText x) old then Inl (FileOther ''read the current file portion containing old_string before editing it'')
          else if contains_nul old then Inl (FileArgument ''old_string'')
          else if \<not> obComplete x \<and> all then Inl (FileOther ''read an untruncated complete file before replace_all'')
          else Inr (obSha x))"

text \<open>
  The state is rebuilt from the tool results that are visible in a model request: the loop of
  \<open>NewFileState\<close> over what its messages say.
\<close>

datatype file_event =
    ReadSeen read_result
  | WriteSeen string string string
  | EditSeen string string string bool string

fun see :: "file_event \<Rightarrow> file_state \<Rightarrow> file_state" where
  "see (ReadSeen r) st = ObserveRead r st"
| "see (WriteSeen path content sha) st = RecordWrite path content sha st"
| "see (EditSeen path old new all sha) st = RecordEdit path old new all sha st"

definition rebuild_state :: "file_event list \<Rightarrow> file_state" where
  "rebuild_state evs = foldl (\<lambda>st e. see e st) (\<lambda>_. None) evs"

section \<open>Pages\<close>

lemma take_chunks:
  assumes "utf8_valid l"
  shows "chunks (chunk_text (take n (chunks l))) = take n (chunks l)" "utf8_valid (chunk_text (take n (chunks l)))"
proof -
  have g: "list_all good_chunk (take n (chunks l))"
    using assms by (auto simp: list_all_iff simp flip: good_chunks_iff dest: in_set_takeD)
  show "chunks (chunk_text (take n (chunks l))) = take n (chunks l)" using chunks_good[OF g, of "[]"] by simp
  with g show "utf8_valid (chunk_text (take n (chunks l)))" by (simp flip: good_chunks_iff)
qed

definition shown :: "string \<Rightarrow> string" where
  "shown l = fst (shown_line (cut_line l))"

definition long_line :: "string \<Rightarrow> bool" where
  "long_line l = (MaxCharactersInLine < rune_count l)"

lemma shown_cut:
  assumes "utf8_valid l"
  shows "shown_line (cut_line l) = (shown l, rune_count l - MaxCharactersInLine)"
    "\<not> long_line l \<Longrightarrow> shown l = l"
    "long_line l \<Longrightarrow> shown l = chunk_text (take MaxCharactersInLine (chunks l)) @ line_notice (rune_count l - MaxCharactersInLine)"
proof -
  have n: "rune_count (chunk_text (take MaxCharactersInLine (chunks l))) = min MaxCharactersInLine (rune_count l)"
    by (simp add: rune_count_def take_chunks(1)[OF assms] min.commute)
  have all: "\<not> long_line l \<Longrightarrow> chunk_text (take MaxCharactersInLine (chunks l)) = l"
    using concat_chunks[of l] by (simp add: long_line_def rune_count_def)
  show "shown_line (cut_line l) = (shown l, rune_count l - MaxCharactersInLine)"
    using n by (auto simp: shown_def shown_line_def cut_line_def Let_def)
  show "\<not> long_line l \<Longrightarrow> shown l = l"
    using n all by (auto simp: shown_def shown_line_def cut_line_def Let_def long_line_def)
  show "long_line l \<Longrightarrow> shown l = chunk_text (take MaxCharactersInLine (chunks l)) @ line_notice (rune_count l - MaxCharactersInLine)"
    using n by (auto simp: shown_def shown_line_def cut_line_def Let_def long_line_def)
qed

lemma digits_plain: "c \<in> set (show_nat n) \<Longrightarrow> is_digit c"
  using show_nat_digits[of n] by (simp add: list_all_iff)

lemma control_iff: "newline = c \<longleftrightarrow> byte c = 10" "tabulator = c \<longleftrightarrow> byte c = 9"
proof -
  have "char_of n = c \<longleftrightarrow> byte c = n" if "n < 256" for n :: nat using that by auto
  then show "newline = c \<longleftrightarrow> byte c = 10" "tabulator = c \<longleftrightarrow> byte c = 9" by simp_all
qed

lemma zip_from: "zip [n..<n + length (l # ls)] (l # ls) = (n, l) # zip [n + 1..<n + 1 + length ls] ls"
  by (simp add: upt_conv_Cons del: upt_Suc)

lemma plain_not_control [simp]: "newline \<notin> set (show_nat n)" "tabulator \<notin> set (show_nat n)"
  using digits_plain[of newline n] digits_plain[of tabulator n] by (auto simp: is_digit_def)

lemma notice_plain [simp]: "newline \<notin> set (line_notice n)"
  by (simp add: line_notice_def control_iff)

lemma set_take_chunks: "set (chunk_text (take n (chunks l))) \<subseteq> set l"
proof -
  have "set (chunk_text (take n (chunks l))) \<subseteq> set (chunk_text (chunks l))" by (auto dest: in_set_takeD)
  then show ?thesis by (simp add: concat_chunks)
qed

lemma shown_no_newline: "utf8_valid l \<Longrightarrow> newline \<notin> set l \<Longrightarrow> newline \<notin> set (shown l)"
  using shown_cut(2,3)[of l] set_take_chunks[of MaxCharactersInLine l] by (cases "long_line l") auto

lemma formatted_no_newline: "newline \<notin> set l \<Longrightarrow> newline \<notin> set (formatted n l)"
  by (auto simp: formatted_def pad_left_def control_iff)

lemma trim_padded: "trim_space (pad_left w (show_nat n)) = show_nat n"
proof -
  let ?s = "pad_left w (show_nat n)"
  have d: "is_digit c" if "c \<in> set (show_nat n)" for c using that by (rule digits_plain)
  have a: "ascii ?s" by (auto simp: ascii_def pad_left_def list_all_iff dest!: d[unfolded is_digit_def])
  have sp: "\<not> is_space (byte c)" if "c \<in> set (show_nat n)" for c using d[OF that] by (simp add: is_space_def is_digit_def)
  have blank: "is_space (byte (CHR '' ''))" by (simp add: is_space_def)
  have "dropWhile (\<lambda>c. is_space (fst c)) (chunks ?s) = map (\<lambda>c. (byte c, [c])) (show_nat n)"
    unfolding chunks_ascii[OF a] unfolding pad_left_def map_append map_replicate
    using blank sp by (subst dropWhile_append2) (auto simp: dropWhile_eq_self_iff hd_map hd_in_set)
  moreover have "dropWhile (\<lambda>c. is_space (fst c)) (rev (map (\<lambda>c. (byte c, [c])) (show_nat n))) = rev (map (\<lambda>c. (byte c, [c])) (show_nat n))"
    using sp by (auto simp: dropWhile_eq_self_iff hd_rev last_map)
  ultimately show ?thesis by (simp add: trim_space_def Let_def comp_def)
qed

lemma atoi_show_nat: "n < 2 ^ 63 \<Longrightarrow> atoi (show_nat n) = Some (int n)"
proof -
  assume n: "n < 2 ^ 63"
  have ne: "show_nat n \<noteq> []" by (subst show_nat.simps) simp
  then obtain c r where s: "show_nat n = c # r" by (cases "show_nat n") auto
  have "is_digit c" using digits_plain[of c n] s by simp
  then have "c \<noteq> CHR ''-''" "c \<noteq> CHR ''+''" by (auto simp: is_digit_def)
  with s show_nat_digits[of n] nat_of_digits_show[of n] n show ?thesis by (simp add: atoi_def)
qed

lemma parse_formatted:
  assumes "n + length ls \<le> 2 ^ 63"
  shows "parse_lines n (map (\<lambda>(i, l). formatted i l) (zip [n..<n + length ls] ls)) = Some ls"
  using assms
proof (induction ls arbitrary: n)
  case (Cons l ls)
  have cut: "cut_char tabulator (formatted n l) = Some (pad_left 6 (show_nat n), l)"
  proof -
    have "cut_char d (a @ d # b) = Some (a, b)" if "d \<notin> set a" for d a b using that by (induction a) auto
    from this[of tabulator "pad_left 6 (show_nat n)"] show ?thesis by (simp add: formatted_def pad_left_def control_iff)
  qed
  have "n < 2 ^ 63" using Cons.prems by simp
  moreover have "parse_lines (n + 1) (map (\<lambda>(i, l). formatted i l) (zip [n + 1..<n + 1 + length ls] ls)) = Some ls"
    using Cons.prems by (intro Cons.IH) simp
  ultimately show ?case unfolding zip_from by (simp add: cut trim_padded atoi_show_nat)
qed simp

lemma split_join:
  "ts \<noteq> [] \<Longrightarrow> \<forall>t \<in> set ts. d \<notin> set t \<Longrightarrow> split_char d (join [d] ts) = ts"
proof (induction ts)
  case (Cons t ts)
  then show ?case by (cases "ts = []") (auto simp: join_Cons split_char_plain split_char_append_sep)
qed simp

lemma join_snoc: "join sep (xs @ [x]) = (if xs = [] then x else join sep xs @ sep @ x)"
  by (induction xs) (auto simp: join_Cons)

section \<open>What a result shows\<close>

definition texts_from :: "nat \<Rightarrow> string list \<Rightarrow> string list" where
  "texts_from n ls = map (\<lambda>(i, l). formatted i (shown l)) (zip [n..<n + length ls] ls)"

lemma texts_from_Cons: "texts_from n (l # ls) = formatted n (shown l) # texts_from (n + 1) ls"
  unfolding texts_from_def zip_from by simp

definition long_from :: "nat \<Rightarrow> string list \<Rightarrow> nat list" where
  "long_from n ls = map fst (filter (\<lambda>(i, l). long_line l) (zip [n..<n + length ls] ls))"

lemma long_from_Cons: "long_from n (l # ls) = (if long_line l then [n] else []) @ long_from (n + 1) ls"
  unfolding long_from_def zip_from by simp

lemma number_lines_shows:
  assumes "\<forall>l \<in> set ls. utf8_valid l" "nbOutput st = join [newline] ts" "nbCount st = length ts"
  obtains k where "k \<le> length ls" "nbOutput (number_lines n (map cut_line ls) st) = join [newline] (ts @ texts_from n (take k ls))"
    "nbCount (number_lines n (map cut_line ls) st) = length ts + k"
    "nbLong (number_lines n (map cut_line ls) st) = nbLong st @ long_from n (take k ls)"
    "ls \<noteq> [] \<longrightarrow> nbCharacters st + rune_count (formatted n (shown (hd ls))) + 1 \<le> outputCharacterLimit \<longrightarrow> 1 \<le> k"
proof -
  have "\<exists>k \<le> length ls. nbOutput (number_lines n (map cut_line ls) st) = join [newline] (ts @ texts_from n (take k ls)) \<and>
    nbCount (number_lines n (map cut_line ls) st) = length ts + k \<and>
    nbLong (number_lines n (map cut_line ls) st) = nbLong st @ long_from n (take k ls) \<and>
    (ls \<noteq> [] \<longrightarrow> nbCharacters st + rune_count (formatted n (shown (hd ls))) + 1 \<le> outputCharacterLimit \<longrightarrow> 1 \<le> k)"
    using assms
  proof (induction ls arbitrary: n st ts)
    case Nil
    then show ?case by (simp add: texts_from_def long_from_def)
  next
    case (Cons l ls)
    have v: "utf8_valid l" using Cons.prems by simp
    let ?text = "formatted n (shown l)" and ?omitted = "rune_count l - MaxCharactersInLine"
    let ?need = "rune_count ?text + (if 0 < nbCount st then 1 else 0)"
    show ?case
    proof (cases "outputCharacterLimit < nbCharacters st + ?need")
      case True
      then show ?thesis using Cons.prems(2,3)
        by (intro exI[of _ 0]) (auto simp: shown_cut(1)[OF v] Let_def texts_from_def long_from_def split: if_splits)
    next
      case False
      let ?st = "\<lparr>nbOutput = nbOutput st @ (if 0 < nbCount st then [newline] else []) @ ?text, nbCount = nbCount st + 1,
          nbCharacters = nbCharacters st + ?need, nbOmitted = nbOmitted st + ?omitted,
          nbLong = (if 0 < ?omitted then nbLong st @ [n] else nbLong st)\<rparr>"
      have step: "number_lines n (map cut_line (l # ls)) st = number_lines (n + 1) (map cut_line ls) ?st"
        using False by (simp add: shown_cut(1)[OF v] Let_def)
      have o: "nbOutput ?st = join [newline] (ts @ [?text])" "nbCount ?st = length (ts @ [?text])"
        using Cons.prems(2,3) by (auto simp: join_snoc)
      obtain k where "k \<le> length ls" and k:
        "nbOutput (number_lines (n + 1) (map cut_line ls) ?st) = join [newline] ((ts @ [?text]) @ texts_from (n + 1) (take k ls))"
        "nbCount (number_lines (n + 1) (map cut_line ls) ?st) = length (ts @ [?text]) + k"
        "nbLong (number_lines (n + 1) (map cut_line ls) ?st) = nbLong ?st @ long_from (n + 1) (take k ls)"
        using Cons.IH[OF _ o, of "n + 1"] Cons.prems(1) by auto
      then show ?thesis unfolding step
        by (intro exI[of _ "Suc k"]) (auto simp: texts_from_Cons long_from_Cons long_line_def)
    qed
  qed
  then show thesis using that by blast
qed

end
