(* ===== verification/FileSound.thy ===== *)
theory FileSound
  imports FileViews
begin

text \<open>
  What a page says of its file, and that the views in the file state are views of real versions.
\<close>

section \<open>Sizes\<close>

lemma length_split_char: "length (split_char d s) \<le> length s + 1"
  by (induction s) (auto split: list.splits)

lemma split_char_snoc: "c \<noteq> d \<Longrightarrow> length (split_char d (s @ [c])) = length (split_char d s)"
proof (induction s)
  case (Cons x s)
  then show ?case by (cases "split_char d s"; cases "split_char d (s @ [c])") auto
qed simp

lemma length_fileLines: "length (fileLines s) \<le> length s"
proof (cases s rule: rev_cases)
  case (snoc t c)
  show ?thesis
  proof (cases "c = newline")
    case True
    then show ?thesis using length_split_char[of newline t] by (simp add: fileLines_def snoc split_char_append)
  next
    case False
    then have "length (split_char newline s) = length (split_char newline t)" by (simp add: snoc split_char_snoc)
    then show ?thesis using length_split_char[of newline t] by (auto simp: fileLines_def snoc Let_def)
  qed
qed (simp add: fileLines_def)

lemma length_join: "w \<in> set ws \<Longrightarrow> length w \<le> length (join sep ws)"
proof (induction ws)
  case (Cons v vs)
  show ?case
  proof (cases "w = v")
    case True
    then show ?thesis by (cases "vs = []") (auto simp: join_Cons)
  next
    case False
    with Cons have "w \<in> set vs" "length w \<le> length (join sep vs)" by simp_all
    then show ?thesis by (cases "vs = []") (auto simp: join_Cons)
  qed
qed simp

lemma length_line: "l \<in> set (fileLines s) \<Longrightarrow> length l \<le> length s"
proof -
  assume "l \<in> set (fileLines s)"
  then have "length l \<le> length (join [newline] (fileLines s))" by (rule length_join)
  also have "\<dots> \<le> length s" using arg_cong[OF fileLines_text[of s], of length] by simp
  finally show ?thesis .
qed

lemma length_encode: "length (encode_rune r) \<le> 4"
  by (simp add: encode_rune_def Let_def)

lemma length_chunk_text: "list_all good_chunk cs \<Longrightarrow> length (chunk_text cs) \<le> 4 * length cs"
proof (induction cs)
  case (Cons c cs)
  then show ?case using length_encode[of "fst c"] by (simp add: good_chunk_def)
qed simp

definition readable :: "string \<Rightarrow> bool" where
  "readable s = (valid_text s \<and> length s \<le> MaxFileBytes)"

lemma readable_line: "readable s \<Longrightarrow> l \<in> set (fileLines s) \<Longrightarrow> utf8_valid l \<and> rune_count l \<le> MaxFileBytes"
  using length_line[of l s] rune_count_le[of l] by (auto simp: readable_def valid_text_def intro: fileLines_valid)

lemma length_notice: "n \<le> MaxFileBytes \<Longrightarrow> length (line_notice n) \<le> 46"
  using length_show_nat[of n 8] by (simp add: line_notice_def MaxFileBytes_def)

lemma cut_need_le: "rune_count l \<le> MaxFileBytes \<Longrightarrow> cut_need l \<le> 2055"
  using length_notice[of "rune_count l - MaxCharactersInLine"] by (simp add: cut_need_def line_need_def MaxCharactersInLine_def)

lemma length_shown: "utf8_valid l \<Longrightarrow> rune_count l \<le> MaxFileBytes \<Longrightarrow> length (shown l) \<le> 8046"
proof -
  assume v: "utf8_valid l" and n: "rune_count l \<le> MaxFileBytes"
  have g: "list_all good_chunk (take MaxCharactersInLine (chunks l))"
    using v by (auto simp: list_all_iff simp flip: good_chunks_iff dest: in_set_takeD)
  have cut: "length (chunk_text (take MaxCharactersInLine (chunks l))) \<le> 8000"
    using length_chunk_text[OF g] by (simp add: MaxCharactersInLine_def)
  show ?thesis
  proof (cases "long_line l")
    case True
    then show ?thesis using shown_cut(3)[OF v True] cut length_notice[OF le_trans[OF diff_le_self n], of MaxCharactersInLine] by simp
  next
    case False
    then have "chunk_text (take MaxCharactersInLine (chunks l)) = l" using concat_chunks[of l] by (simp add: long_line_def rune_count_def)
    then show ?thesis using shown_cut(2)[OF v False] cut by simp
  qed
qed

lemma formatted_small:
  assumes "readable s" "l \<in> set (fileLines s)" "n \<le> length (fileLines s)"
  shows "rune_count (formatted n (shown l)) \<le> 8055"
proof -
  have "n < 10 ^ 8" using assms(1,3) length_fileLines[of s] by (simp add: readable_def MaxFileBytes_def)
  then have "length (show_nat n) \<le> 8" by (rule length_show_nat) simp
  then have "length (formatted n (shown l)) \<le> 8055"
    using length_shown[of l] readable_line[OF assms(1,2)] by (simp add: formatted_def pad_left_def)
  with rune_count_le[of "formatted n (shown l)"] show ?thesis by linarith
qed

section \<open>The result of a page\<close>

lemma fill_page_prefix:
  obtains m where "m \<le> length ls" "fill_page used ls = map cut_line (take m ls)" "ls \<noteq> [] \<longrightarrow> used + cut_need (hd ls) \<le> 30000 \<longrightarrow> 1 \<le> m"
proof -
  have "\<exists>m \<le> length ls. fill_page used ls = map cut_line (take m ls) \<and> (ls \<noteq> [] \<longrightarrow> used + cut_need (hd ls) \<le> 30000 \<longrightarrow> 1 \<le> m)"
  proof (induction ls arbitrary: used)
    case (Cons l ls)
    show ?case
    proof (cases "used + cut_need l \<le> 30000")
      case True
      obtain m where "m \<le> length ls" "fill_page (used + cut_need l) ls = map cut_line (take m ls)"
        using Cons.IH[of "used + cut_need l"] by blast
      with True show ?thesis by (intro exI[of _ "Suc m"]) simp
    qed (intro exI[of _ 0], simp)
  qed simp
  then show thesis using that by blast
qed

lemma page_result:
  assumes "readable s" "1 \<le> offset" "1 \<le> limit"
  obtains k ls where "ls = take k (drop (offset - 1) (fileLines s))" "length ls = k" "k \<le> limit" "k \<le> length (fileLines s) - (offset - 1)"
    "offset \<le> length (fileLines s) \<longrightarrow> 1 \<le> k"
    "rrContent (numberedLinesResult path (page_of offset limit s)) = join [newline] (texts_from offset ls)"
    "rrCount (numberedLinesResult path (page_of offset limit s)) = k"
    "rrLong (numberedLinesResult path (page_of offset limit s)) = long_from offset ls"
proof -
  let ?all = "drop (offset - 1) (fileLines s)" let ?ls = "take limit ?all"
  have v: "utf8_valid l \<and> rune_count l \<le> MaxFileBytes" if "l \<in> set ?all" for l
    using readable_line[OF assms(1)] that by (auto dest: in_set_dropD)
  have hd: "hd ?ls \<in> set ?all" if "?ls \<noteq> []" using hd_in_set[OF that] by (auto dest: in_set_takeD)
  obtain m where m: "m \<le> length ?ls" "fill_page 0 ?ls = map cut_line (take m ?ls)" "?ls \<noteq> [] \<longrightarrow> 0 + cut_need (hd ?ls) \<le> 30000 \<longrightarrow> 1 \<le> m"
    by (rule fill_page_prefix[of ?ls 0])
  let ?shown = "take m ?ls"
  have vs: "\<forall>l \<in> set ?shown. utf8_valid l" using v by (auto dest: in_set_takeD)
  obtain k where k: "k \<le> length ?shown"
    "nbOutput (number_lines offset (map cut_line ?shown) number_start) = join [newline] ([] @ texts_from offset (take k ?shown))"
    "nbCount (number_lines offset (map cut_line ?shown) number_start) = length ([] :: string list) + k"
    "nbLong (number_lines offset (map cut_line ?shown) number_start) = nbLong number_start @ long_from offset (take k ?shown)"
    "?shown \<noteq> [] \<longrightarrow> nbCharacters number_start + rune_count (formatted offset (shown (hd ?shown))) + 1 \<le> outputCharacterLimit \<longrightarrow> 1 \<le> k"
    using number_lines_shows[where ls = ?shown and st = number_start and ts = "[]" and n = offset] vs by (simp add: number_start_def) blast
  have kl: "k \<le> m" "k \<le> limit" "k \<le> length ?all" using k(1) m(1) by simp_all
  then have tk: "take k ?shown = take k ?all" by (simp add: take_take min.absorb1)
  have "1 \<le> k" if o: "offset \<le> length (fileLines s)"
  proof -
    have ne: "?ls \<noteq> []" using o assms(2,3) by simp
    have "1 \<le> m" using m(3) ne cut_need_le v[OF hd[OF ne]] by fastforce
    then have sh: "?shown \<noteq> []" "hd ?shown = hd ?ls" using ne by (simp_all add: hd_take)
    have "hd ?ls \<in> set (fileLines s)" using hd[OF ne] by (auto dest: in_set_dropD)
    from formatted_small[OF assms(1) this o] show "1 \<le> k"
      using k(5) sh by (simp add: number_start_def outputCharacterLimit_def)
  qed
  then have o: "offset \<le> length (fileLines s) \<longrightarrow> 1 \<le> k" by blast
  have l: "length (take k ?all) = k" "k \<le> length (fileLines s) - (offset - 1)" using kl(3) by simp_all
  have p: "fpLines (page_of offset limit s) = map cut_line ?shown" "fpStart (page_of offset limit s) = offset"
    by (simp only: page_of_def file_page.simps m(2), simp add: page_of_def)
  have r: "rrContent (numberedLinesResult path (page_of offset limit s)) = join [newline] (texts_from offset (take k ?all))"
    "rrCount (numberedLinesResult path (page_of offset limit s)) = k"
    "rrLong (numberedLinesResult path (page_of offset limit s)) = long_from offset (take k ?all)"
    using k(2-4) unfolding tk by (simp_all add: numberedLinesResult_def p Let_def number_start_def)
  show thesis by (rule that[OF refl l(1) kl(2) l(2) o r])
qed

lemma result_receipt:
  fixes path offset limit s
  defines "r \<equiv> numberedLinesResult path (page_of offset limit s)"
  shows "rcPath (rrReceipt r) = path" "rcSHA (rrReceipt r) = sha256_hex s" "rcStart (rrReceipt r) = offset" "rcCount (rrReceipt r) = rrCount r"
    "rcTotal (rrReceipt r) = length (fileLines s)" "rcNewline (rrReceipt r) = ends_with_newline s" "rrImages r = False"
    "rrTruncated r \<longleftrightarrow> offset - 1 + rrCount r < length (fileLines s) \<or> rrLong r \<noteq> []"
    "rcComplete (rrReceipt r) \<longleftrightarrow> offset = 1 \<and> rrCount r = length (fileLines s) \<and> rrLong r = []"
    "rrNext r = (if offset - 1 + rrCount r < length (fileLines s) then Some (offset + rrCount r) else None)"
  by (auto simp: r_def numberedLinesResult_def page_of_def Let_def)

lemma received_page:
  assumes "readable s" "1 \<le> offset" "1 \<le> limit"
  obtains k ls where "ls = take k (drop (offset - 1) (fileLines s))" "length ls = k" "k \<le> limit" "offset \<le> length (fileLines s) \<longrightarrow> 1 \<le> k"
    "k \<le> length (fileLines s) - (offset - 1)"
    "rrCount (numberedLinesResult path (page_of offset limit s)) = k"
    "rrLong (numberedLinesResult path (page_of offset limit s)) = long_from offset ls"
    "received_lines (numberedLinesResult path (page_of offset limit s)) = Some (zip [offset..<offset + k] (map shown ls))"
proof -
  let ?r = "numberedLinesResult path (page_of offset limit s)"
  obtain k ls where k: "ls = take k (drop (offset - 1) (fileLines s))" "length ls = k" "k \<le> limit" "k \<le> length (fileLines s) - (offset - 1)"
    "offset \<le> length (fileLines s) \<longrightarrow> 1 \<le> k" "rrContent ?r = join [newline] (texts_from offset ls)" "rrCount ?r = k" "rrLong ?r = long_from offset ls"
    by (rule page_result[OF assms, of path])
  have l: "l \<in> set (fileLines s)" if "l \<in> set ls" for l using that by (auto simp: k(1) dest: in_set_takeD in_set_dropD)
  have nl: "newline \<notin> set (shown l)" if "l \<in> set ls" for l
    using shown_no_newline[of l] readable_line[OF assms(1) l[OF that]] fileLines_no_newline[OF l[OF that]] by blast
  have texts: "texts_from offset ls = map (\<lambda>(i, l). formatted i l) (zip [offset..<offset + length (map shown ls)] (map shown ls))"
    by (simp add: texts_from_def zip_map2 comp_def split_beta)
  have "received_lines ?r = Some (zip [offset..<offset + k] (map shown ls))"
  proof (cases "ls = []")
    case True
    with k(2,6,7) show ?thesis by (simp add: received_lines_def result_receipt texts_from_def)
  next
    case False
    have ne: "texts_from offset ls \<noteq> []" using False by (simp add: texts_from_def)
    have no: "\<forall>t \<in> set (texts_from offset ls). newline \<notin> set t"
      using nl by (auto simp: texts_from_def intro!: formatted_no_newline dest: set_zip_rightD)
    have content: "rrContent ?r \<noteq> []"
    proof
      assume "rrContent ?r = []"
      then have "split_char newline (join [newline] (texts_from offset ls)) = [[]]" by (simp add: k(6))
      with split_join[OF ne no] have "[] \<in> set (texts_from offset ls)" by (metis list.set_intros(1))
      then show False by (auto simp: texts_from_def formatted_def)
    qed
    have "offset + length (map shown ls) \<le> 2 ^ 63"
    proof -
      have "offset + k \<le> length s + 1"
        using k(2,4) False length_fileLines[of s] assms(2) by (cases k) auto
      then show ?thesis using assms(1) k(2) by (simp add: readable_def MaxFileBytes_def)
    qed
    from parse_formatted[OF this] have "parse_lines offset (texts_from offset ls) = Some (map shown ls)" by (simp only: texts)
    then have "parse_lines offset (split_char newline (rrContent ?r)) = Some (map shown ls)" by (simp only: k(6) split_join[OF ne no])
    with content k(2,7) show ?thesis by (simp add: received_lines_def result_receipt)
  qed
  with k show thesis using that[of ls k] by blast
qed

end
