(* ===== verification/FileSeen.thy ===== *)
theory FileSeen
  imports FileSound
begin

text \<open>
  The views in the file state are views of real versions: \<open>sees c ob\<close> says that the view
  \<open>ob\<close> is of the content \<open>c\<close>, and every event of a coherent history keeps it.
\<close>

section \<open>A view and its version\<close>

definition line_at :: "string \<Rightarrow> nat \<times> string \<Rightarrow> bool" where
  "line_at c p = (1 \<le> fst p \<and> fst p \<le> length (fileLines c) \<and> snd p = fileLines c ! (fst p - 1))"

definition part_view :: "string \<Rightarrow> file_view \<Rightarrow> bool" where
  "part_view c ob = (distinct (map fst (obLines ob)) \<and> list_all (line_at c) (obLines ob) \<and> obTotal ob = length (fileLines c) \<and>
     obNewline ob = ends_with_newline c)"

definition image_view :: "string \<Rightarrow> file_view \<Rightarrow> bool" where
  "image_view c ob = (c \<noteq> [] \<and> obLines ob = [] \<and> obTotal ob = 0 \<and> \<not> obNewline ob)"

definition sees :: "string \<Rightarrow> file_view \<Rightarrow> bool" where
  "sees c ob = (obSha ob = sha256_hex c \<and>
     (if obComplete ob then obText ob = c
      else obText ob = joined_lines 0 (sort_key fst (obLines ob)) \<and> (part_view c ob \<and> readable c \<or> image_view c ob)))"

text \<open>A result that a read of \<open>c\<close> returns.\<close>

definition genuine :: "string \<Rightarrow> read_result \<Rightarrow> bool" where
  "genuine c r = ((\<exists>path offset limit. readable c \<and> 1 \<le> offset \<and> 1 \<le> limit \<and> r = numberedLinesResult path (page_of offset limit c)) \<or>
     (\<exists>path note. c \<noteq> [] \<and> r = image_result path note c))"

lemma genuine_page: "readable c \<Longrightarrow> 1 \<le> offset \<Longrightarrow> 1 \<le> limit \<Longrightarrow> genuine c (numberedLinesResult path (page_of offset limit c))"
  unfolding genuine_def by blast

lemma genuine_image: "c \<noteq> [] \<Longrightarrow> genuine c (image_result path cap c)"
  unfolding genuine_def by blast

lemma hex_char_digit:
  assumes "n < 16"
  shows "sha_char (hex_char n)"
proof -
  have "list_all (\<lambda>n. sha_char (hex_char n)) [0..<16]" by code_simp
  then show ?thesis using assms by (simp only: list_all_iff atLeastLessThan_upt[symmetric]) auto
qed

lemma validSHA_sha256 [simp]: "validSHA (sha256_hex s)"
proof -
  have "sha_char (hex_char (byte c div 16)) \<and> sha_char (hex_char (byte c mod 16))" for c
    by (intro conjI hex_char_digit) (use nat_of_char_less_256[of c] in linarith, simp)
  then have "list_all sha_char (hex_encode t)" for t
    unfolding hex_encode_def by (induction t) simp_all
  then show ?thesis by (simp add: validSHA_def) (simp add: sha256_hex_def)
qed

lemma Read_Execute_genuine:
  assumes "Read_Execute media i x = Inr r"
  obtains c where "x = Some (Regular c)" "genuine c r" "rcPath (rrReceipt r) = read_path i" "trim_space (read_path i) \<noteq> []"
proof -
  let ?offset = "if riOffset i = 0 then 1 else riOffset i" and ?limit = "if riLimit i = 0 then 2000 else riLimit i"
  have p: "trim_space (read_path i) \<noteq> []" and range: "\<not> ?offset < 1" "\<not> ?limit < 1" "\<not> 2000 < ?limit"
    using assms by (auto simp: Read_Execute_def required_def Let_def split: if_splits)
  obtain c where c: "x = Some (Regular c)"
    using assms by (auto simp: Read_Execute_def required_def Let_def ReadLines_def readRegularFile_def openRegularFile_def
        split: if_splits option.splits node.splits sum.splits)
  have "genuine c r \<and> rcPath (rrReceipt r) = read_path i"
  proof (cases "media (read_path i)")
    case (Some cap)
    then show ?thesis using assms range
      by (auto simp: Read_Execute_def required_def Let_def c readRegularFile_def openRegularFile_def intro: genuine_image split: if_splits, auto simp: image_result_def)
  next
    case None
    have small: "length c \<le> MaxFileBytes"
      using assms range None by (auto simp: Read_Execute_def required_def Let_def c ReadLines_def openRegularFile_def MaxReadLines_def split: if_splits)
    have "ReadLines ?offset ?limit (Some (Regular c)) = (if valid_text c then Inr (page_of (nat ?offset) (nat ?limit) c) else Inl FileBinary)"
      using range small by (intro ReadLines_page) (auto simp: MaxReadLines_def)
    then have "valid_text c" "r = numberedLinesResult (read_path i) (page_of (nat ?offset) (nat ?limit) c)"
      using assms range None p by (auto simp: Read_Execute_def required_def Let_def c split: if_splits)
    moreover have "1 \<le> nat ?offset" "1 \<le> nat ?limit" using range by auto
    ultimately show ?thesis using small genuine_page[of c "nat ?offset" "nat ?limit"] by (simp add: readable_def result_receipt)
  qed
  with c p show thesis using that by blast
qed

section \<open>Partial views\<close>

lemma updated_lines:
  assumes "distinct (map fst m)" "list_all P m" "list_all P seen"
  shows "distinct (map fst (foldl (\<lambda>m (n, l). AList.update n l m) m seen)) \<and> list_all P (foldl (\<lambda>m (n, l). AList.update n l m) m seen)"
  using assms
proof (induction seen arbitrary: m)
  case (Cons p seen)
  have "list_all P (AList.update (fst p) (snd p) m)"
    using Cons.prems(2,3) by (induction m) (auto split: if_splits)
  moreover have "distinct (map fst (AList.update (fst p) (snd p) m))" using Cons.prems(1) by (rule distinct_update)
  ultimately show ?case using Cons.IH Cons.prems(3) by (simp add: split_beta)
qed simp

lemma joined_all:
  "joined_lines before (zip [before + 1..<before + 1 + length ls] ls) = (if before = 0 \<or> ls = [] then [] else [newline]) @ join [newline] ls"
proof (induction ls arbitrary: before)
  case (Cons l ls)
  have "zip [before + 1..<before + 1 + length (l # ls)] (l # ls) = (before + 1, l) # zip [before + 1 + 1..<before + 1 + 1 + length ls] ls"
    by (rule zip_from)
  then show ?case using Cons.IH[of "before + 1"] by (auto simp: join_Cons)
qed simp

lemma all_lines:
  assumes "distinct (map fst m)" "list_all (line_at c) m" "length m = length (fileLines c)"
  shows "sort_key fst m = zip [1..<1 + length (fileLines c)] (fileLines c)"
proof -
  let ?s = "sort_key fst m" and ?N = "length (fileLines c)"
  have mem: "line_at c p" if "p \<in> set ?s" for p using that assms(2) by (simp add: list_all_iff)
  have "set (map fst ?s) \<subseteq> {1..<1 + ?N}" using mem by (force simp: line_at_def less_Suc_eq_le)
  moreover have "distinct (map fst ?s)" using assms(1) by (simp add: distinct_map)
  then have "card (set (map fst ?s)) = ?N" using assms(3) by (simp only: distinct_card length_map length_sort)
  ultimately have "set (map fst ?s) = {1..<1 + ?N}" by (intro card_subset_eq) simp_all
  with \<open>distinct (map fst ?s)\<close> have f: "map fst ?s = [1..<1 + ?N]" by (intro sorted_distinct_set_unique) (simp_all del: upt_Suc)
  have "map snd ?s = map (\<lambda>n. fileLines c ! (n - 1)) (map fst ?s)" using mem by (auto simp: line_at_def)
  also have "\<dots> = fileLines c" unfolding f by (intro nth_equalityI) (simp_all del: upt_Suc)
  finally show ?thesis using f by (metis zip_map_fst_snd)
qed

lemma merge_sees:
  assumes "obSha o0 = sha256_hex c" "part_view c o0" "list_all (line_at c) seen" "readable c"
  shows "sees c (merge_lines False seen o0)"
proof -
  let ?m = "foldl (\<lambda>m (n, l). AList.update n l m) (obLines o0) seen"
  have m: "distinct (map fst ?m)" "list_all (line_at c) ?m"
    using updated_lines[OF _ _ assms(3)] assms(2) by (simp_all add: part_view_def)
  show ?thesis
  proof (cases "obComplete (merge_lines False seen o0)")
    case True
    then have "length ?m = length (fileLines c)" using assms(2) by (simp add: merge_lines_def Let_def part_view_def)
    from all_lines[OF m this] have "joined_lines 0 (sort_key fst ?m) = join [newline] (fileLines c)"
      using joined_all[of 0 "fileLines c"] by simp
    with True assms fileLines_text[of c] show ?thesis by (simp add: sees_def merge_lines_def Let_def part_view_def)
  next
    case False
    then show ?thesis using assms m by (auto simp: sees_def merge_lines_def Let_def part_view_def)
  qed
qed

section \<open>Reading keeps the views\<close>

lemma in_numbered: "(n, x) \<in> set (zip [start..<start + length ls] ls) \<longleftrightarrow> (\<exists>i < length ls. n = start + i \<and> x = ls ! i)"
  by (auto simp: in_set_zip) (metis nth_upt nat_add_left_cancel_less)

lemma long_from_set: "n \<in> set (long_from start ls) \<longleftrightarrow> (\<exists>i < length ls. n = start + i \<and> long_line (ls ! i))"
  by (auto simp: long_from_def image_iff in_numbered)

lemma no_lines: "fileLines c = [] \<Longrightarrow> c = []"
  using fileLines_text[of c] fileLines_newline[of "[]"] by (auto split: if_splits)

lemma page_lines:
  fixes path c offset limit
  assumes "readable c" "1 \<le> offset" "1 \<le> limit"
  defines "r \<equiv> numberedLinesResult path (page_of offset limit c)"
  obtains seen where "received_lines r = Some seen" "list_all (line_at c) (filter (\<lambda>(n, l). n \<notin> set (rrLong r)) seen)"
    "rcComplete (rrReceipt r) \<longrightarrow> map snd seen = fileLines c"
proof -
  obtain k ls where k: "ls = take k (drop (offset - 1) (fileLines c))" "length ls = k" "k \<le> limit" "offset \<le> length (fileLines c) \<longrightarrow> 1 \<le> k"
    "k \<le> length (fileLines c) - (offset - 1)" "rrCount r = k" "rrLong r = long_from offset ls"
    "received_lines r = Some (zip [offset..<offset + k] (map shown ls))"
    unfolding r_def by (rule received_page[OF assms(1-3), of path])
  have v: "utf8_valid l" if "l \<in> set ls" for l
    using that readable_line[OF assms(1), of l] by (auto simp: k(1) dest: in_set_takeD in_set_dropD)
  have "line_at c (n, x)" if "(n, x) \<in> set (zip [offset..<offset + k] (map shown ls))" "n \<notin> set (rrLong r)" for n x
  proof -
    have "(n, x) \<in> set (zip [offset..<offset + length (map shown ls)] (map shown ls))" using that(1) by (simp only: length_map k(2))
    then obtain i where i: "i < k" "n = offset + i" "x = shown (ls ! i)" unfolding in_numbered using k(2) by auto
    then have "\<not> long_line (ls ! i)" using that(2) k(2,7) by (auto simp: long_from_set)
    then have "x = ls ! i" using shown_cut(2)[OF v[of "ls ! i"]] i k(2) by simp
    moreover have "ls ! i = fileLines c ! (n - 1)" using i k(1,5) assms(2) by simp
    ultimately show ?thesis using i k(5) assms(2) by (simp add: line_at_def)
  qed
  then have "list_all (line_at c) (filter (\<lambda>(n, l). n \<notin> set (rrLong r)) (zip [offset..<offset + k] (map shown ls)))"
    by (auto simp: list_all_iff)
  moreover have "map snd (zip [offset..<offset + k] (map shown ls)) = fileLines c" if "rcComplete (rrReceipt r)"
  proof -
    have "offset = 1" "k = length (fileLines c)" "long_from offset ls = []" using that k(6,7) unfolding r_def result_receipt by (elim conjE; simp)+
    moreover then have "ls = fileLines c" using k(1) by simp
    ultimately have "map shown ls = ls" using v shown_cut(2) long_from_set[of _ offset ls] by (intro map_idI) (metis in_set_conv_nth empty_iff list.set(1))
    with \<open>ls = fileLines c\<close> k(2) show ?thesis by simp
  qed
  ultimately show thesis using that k(8) by blast
qed

lemma ObserveRead_sees:
  assumes "genuine c r" "rcPath (rrReceipt r) \<noteq> []"
    and old: "\<And>old. st (path_clean (rcPath (rrReceipt r))) = Some old \<Longrightarrow> \<exists>c'. sees c' old \<and> (sha256_hex c' = sha256_hex c \<longrightarrow> c' = c)"
  obtains ob where "ObserveRead r st = st(path_clean (rcPath (rrReceipt r)) \<mapsto> ob)" "sees c ob"
proof -
  let ?rc = "rrReceipt r" let ?key = "path_clean (rcPath ?rc)"
  have sha: "rcSHA ?rc = sha256_hex c" using assms(1) by (auto simp: genuine_def result_receipt image_result_def)
  have same: "sees c ob" if "st ?key = Some ob" "obSha ob = rcSHA ?rc" for ob
    using old[OF that(1)] that(2) sha by (auto simp: sees_def)
  define kept where "kept = (case st ?key of Some x \<Rightarrow> if obSha x = rcSHA ?rc \<and> obTotal x = rcTotal ?rc then Some x else None | None \<Rightarrow> None)"
  have kept: "sees c x" "obTotal x = rcTotal ?rc" "st ?key = Some x" if "kept = Some x" for x
    using that same by (auto simp: kept_def split: option.splits if_splits)
  obtain seen where seen: "received_lines r = Some seen"
    and new: "(\<And>x. kept = Some x \<Longrightarrow> \<not> obComplete x) \<Longrightarrow> sees c (observe_in r seen kept)"
  proof -
    consider (page) path offset limit where "readable c" "1 \<le> offset" "1 \<le> limit" "r = numberedLinesResult path (page_of offset limit c)"
      | (image) path cap where "c \<noteq> []" "r = image_result path cap c" using assms(1) by (auto simp: genuine_def)
    then show thesis
    proof cases
      case page
      obtain seen where s: "received_lines r = Some seen" "list_all (line_at c) (filter (\<lambda>(n, l). n \<notin> set (rrLong r)) seen)"
        "rcComplete (rrReceipt r) \<longrightarrow> map snd seen = fileLines c"
        unfolding page(4) by (rule page_lines[OF page(1-3), of path])
      have rc: "rcTotal ?rc = length (fileLines c)" "rcNewline ?rc = ends_with_newline c" "\<not> rrImages r" by (simp_all add: page(4) result_receipt)
      have "sees c (observe_in r seen kept)" if k: "\<And>x. kept = Some x \<Longrightarrow> \<not> obComplete x"
      proof -
        define o0 where "o0 = (case kept of Some x \<Rightarrow> x | None \<Rightarrow> fresh_observation ?rc)"
        have o0: "obSha o0 = sha256_hex c" "part_view c o0"
        proof -
          have "part_view c x" if "kept = Some x" for x
            using kept[OF that] k[OF that] no_lines[of c] by (auto simp: sees_def image_view_def rc)
          then show "part_view c o0" by (cases kept) (simp_all add: o0_def fresh_observation_def part_view_def rc)
          show "obSha o0 = sha256_hex c" using kept by (cases kept) (simp_all add: o0_def fresh_observation_def sha sees_def)
        qed
        show ?thesis
        proof (cases "rcComplete ?rc \<and> rcStart ?rc = 1 \<and> rcCount ?rc = rcTotal ?rc \<and> \<not> rrTruncated r \<and> \<not> rrImages r")
          case True
          with s(3) o0 fileLines_text[of c] show ?thesis by (simp add: observe_in_def Let_def sees_def rc flip: o0_def)
        next
          case False
          then have "observe_in r seen kept = merge_lines False (filter (\<lambda>(n, l). n \<notin> set (rrLong r)) seen) o0"
            using rc(3) by (auto simp: observe_in_def Let_def simp flip: o0_def)
          with merge_sees[OF o0 s(2) page(1)] show ?thesis by simp
        qed
      qed
      with s(1) that show thesis by blast
    next
      case image
      have "sees c (observe_in r [] kept)" if k: "\<And>x. kept = Some x \<Longrightarrow> \<not> obComplete x"
      proof (cases kept)
        case None
        then show ?thesis
          using image by (simp add: observe_in_def image_result_def merge_lines_def fresh_observation_def sees_def image_view_def Let_def)
      next
        case (Some x)
        have "image_view c x" using kept[OF Some] k[OF Some] no_lines[of c] image by (auto simp: sees_def part_view_def image_result_def)
        with kept[OF Some] k[OF Some] show ?thesis
          using image Some by (auto simp: observe_in_def image_result_def merge_lines_def sees_def image_view_def Let_def)
      qed
      moreover have "received_lines r = Some []" by (simp add: image(2) received_lines_def image_result_def)
      ultimately show thesis using that by blast
    qed
  qed
  show thesis
  proof (cases "\<exists>x. st ?key = Some x \<and> obSha x = rcSHA ?rc \<and> obComplete x")
    case True
    then obtain x where x: "st ?key = Some x" "obSha x = rcSHA ?rc" "obComplete x" by blast
    then have "ObserveRead r st = st(?key \<mapsto> x)" using assms(2) seen sha by (auto simp: ObserveRead_def Let_def)
    then show thesis using that same[OF x(1,2)] by blast
  next
    case False
    then have "ObserveRead r st = st(?key \<mapsto> observe_in r seen kept)"
      using assms(2) seen sha by (auto simp: ObserveRead_def Let_def kept_def split: option.splits)
    moreover have "\<not> obComplete x" if "kept = Some x" for x using kept[OF that] False sha by (auto simp: sees_def)
    ultimately show thesis using that new by blast
  qed
qed

end
