(* ===== verification/FileWrites.thy ===== *)
theory FileWrites
  imports FileSeen GoJson
begin

text \<open>
  Writing and editing a file: \<open>atomicWrite\<close>, \<open>WriteChecked\<close> and \<open>Edit\<close> of \<open>toolboxfs/toolbox.go\<close> on
  what the target path leads to.  \<open>atomicWrite\<close> is put together from the part that prepares the
  bytes and the part that runs under the lock of the path.
\<close>

section \<open>The atomic write\<close>

text \<open>\<open>strings.EqualFold\<close> of a digest.\<close>

definition equal_fold :: "string \<Rightarrow> string \<Rightarrow> bool" where
  "equal_fold s t = (fold_key s = fold_key t)"

text \<open>Before the lock: the target is looked at and the bytes are copied to the temporary file.\<close>

definition prepare_write :: "string \<Rightarrow> node option \<Rightarrow> file_err + string" where
  "prepare_write content x =
     (if x = Some Special \<or> x = Some Directory then Inl FileIrregular
      else if MaxFileBytes < length content then Inl FileTooLarge
      else Inr content)"

text \<open>Under the lock: the check of the current version, then the link or the rename.\<close>

definition check_version :: "string \<Rightarrow> node option \<Rightarrow> file_err + unit" where
  "check_version expected x =
     (if x = Some Special \<or> x = Some Directory then Inl FileIrregular
      else if expected = [] then Inr ()
      else (case readRegularFile x of
          Inl e \<Rightarrow> Inl FileChanged
        | Inr current \<Rightarrow> if equal_fold expected (sha256_hex current) then Inr () else Inl FileChanged))"

definition publish :: "bool \<Rightarrow> string \<Rightarrow> node option \<Rightarrow> file_err + node" where
  "publish createOnly temporary x =
     (if createOnly \<and> x \<noteq> None then Inl FileExists
      else if x = Some Directory then Inl (FileOther ''replace file atomically'')
      else Inr (Regular temporary))"

definition atomicWrite :: "string \<Rightarrow> string \<Rightarrow> bool \<Rightarrow> node option \<Rightarrow> file_err + node" where
  "atomicWrite content expected createOnly x =
     bindr (prepare_write content x) (\<lambda>temporary.
     bindr (check_version expected x) (\<lambda>_.
     publish createOnly temporary x))"

record write_done =
  wdBytes :: nat
  wdSHA :: string

text \<open>An operation's answer and what the path leads to afterwards.\<close>

definition written :: "string \<Rightarrow> node option \<Rightarrow> file_err + node \<Rightarrow> (file_err + write_done) \<times> node option" where
  "written content x r = (case r of Inl e \<Rightarrow> (Inl e, x) | Inr y \<Rightarrow> (Inr \<lparr>wdBytes = length content, wdSHA = sha256_hex content\<rparr>, Some y))"

definition digest_char :: "char \<Rightarrow> bool" where
  "digest_char c = (c \<in> set ''0123456789abcdefABCDEF'')"

definition validDigest :: "string \<Rightarrow> bool" where
  "validDigest v = (length v = 64 \<and> list_all digest_char v)"

definition WriteChecked :: "string \<Rightarrow> string \<Rightarrow> bool \<Rightarrow> node option \<Rightarrow> (file_err + write_done) \<times> node option" where
  "WriteChecked content expected createOnly x =
     (if createOnly = (expected \<noteq> []) then (Inl (FileArgument ''choose create_only or an expected_sha256''), x)
      else if expected \<noteq> [] \<and> \<not> validDigest expected then (Inl (FileArgument ''expected_sha256 must be a SHA256 digest''), x)
      else written content x (atomicWrite content expected createOnly x))"

section \<open>Edits\<close>

text \<open>\<open>strings.Count\<close>: the occurrences that do not overlap, from the left.\<close>

function count_of :: "string \<Rightarrow> string \<Rightarrow> nat" where
  "count_of old [] = 0"
| "count_of old (c # s) =
     (if old \<noteq> [] \<and> has_prefix (c # s) old then 1 + count_of old (drop (length old) (c # s)) else count_of old s)"
  by pat_completeness auto
termination
  by (relation "measure (\<lambda>(old, s). length s)") auto

record edit_request =
  erOld :: string
  erNew :: string
  erAll :: bool
  erExpected :: string

record edit_done =
  edReplacements :: nat
  edSHA :: string

text \<open>\<open>y\<close> is what the path leads to when the replacement is written.\<close>

definition Edit_file :: "edit_request \<Rightarrow> node option \<Rightarrow> node option \<Rightarrow> (file_err + edit_done) \<times> node option" where
  "Edit_file q x y =
     (if erOld q = [] then (Inl (FileArgument ''old_string''), y)
      else (case readRegularFile x of
          Inl e \<Rightarrow> (Inl e, y)
        | Inr s \<Rightarrow>
            let currentSum = sha256_hex s; matches = count_of (erOld q) s in
            if erExpected q \<noteq> [] \<and> \<not> equal_fold (erExpected q) currentSum then (Inl FileChanged, y)
            else if matches = 0 then (Inl FileNoMatch, y)
            else if 1 < matches \<and> \<not> erAll q then (Inl (FileAmbiguous matches), y)
            else
              let updated = (if erAll q then replace_all (erOld q) (erNew q) s else replace_first (erOld q) (erNew q) s) in
              (case written updated y (atomicWrite updated currentSum False y) of
                 (Inl e, y') \<Rightarrow> (Inl e, y')
               | (Inr d, y') \<Rightarrow> (Inr \<lparr>edReplacements = matches, edSHA = wdSHA d\<rparr>, y'))))"

section \<open>What they do\<close>

lemma sha_char_byte: "sha_char c \<Longrightarrow> byte c < 128 \<and> fold_rune (byte c) = byte c \<and> digest_char c"
  by (auto simp: sha_char_def fold_rune_def digest_char_def)

lemma fold_digest: "list_all sha_char v \<Longrightarrow> fold_key v = map byte v"
proof -
  assume v: "list_all sha_char v"
  then have "ascii v" using sha_char_byte by (auto simp: ascii_def list_all_iff)
  with v show ?thesis using sha_char_byte by (simp add: fold_key_def runes_ascii list_all_iff)
qed

lemma equal_fold_sha: "validSHA s \<Longrightarrow> equal_fold s (sha256_hex t) \<longleftrightarrow> s = sha256_hex t"
  using validSHA_sha256[of t] by (simp add: validSHA_def equal_fold_def fold_digest inj_map_eq_map inj_def)

lemma validSHA_digest: "validSHA s \<Longrightarrow> validDigest s"
  using sha_char_byte by (auto simp: validSHA_def validDigest_def list_all_iff)

lemma validSHA_nonempty [simp]: "validSHA s \<Longrightarrow> s \<noteq> []"
  by (auto simp: validSHA_def)

lemma sha256_nonempty [simp]: "sha256_hex s \<noteq> []"
  using validSHA_sha256[of s] by (rule validSHA_nonempty)

lemma WriteChecked_error: "WriteChecked content expected createOnly x = (Inl e, x') \<Longrightarrow> x' = x"
  by (auto simp: WriteChecked_def written_def split: if_splits sum.splits)

lemma atomicWrite_ok:
  assumes "atomicWrite content expected createOnly x = Inr y"
  shows "y = Regular content" "createOnly \<Longrightarrow> x = None" "length content \<le> MaxFileBytes"
    "expected \<noteq> [] \<Longrightarrow> \<exists>c. x = Some (Regular c) \<and> equal_fold expected (sha256_hex c)"
  using assms
  by (auto simp: atomicWrite_def prepare_write_def check_version_def publish_def readRegularFile_def openRegularFile_def
      split: if_splits option.splits node.splits)

lemma WriteChecked_ok:
  assumes "WriteChecked content expected createOnly x = (Inr d, x')"
  shows "x' = Some (Regular content)" "wdSHA d = sha256_hex content" "wdBytes d = length content"
    "createOnly \<Longrightarrow> x = None" "\<not> createOnly \<Longrightarrow> \<exists>c. x = Some (Regular c) \<and> equal_fold expected (sha256_hex c)"
proof -
  obtain y where y: "atomicWrite content expected createOnly x = Inr y" "x' = Some y" and e: "createOnly \<noteq> (expected \<noteq> [])"
    and d: "d = \<lparr>wdBytes = length content, wdSHA = sha256_hex content\<rparr>"
    using assms by (auto simp: WriteChecked_def written_def split: if_splits sum.splits)
  note ok = atomicWrite_ok[OF y(1)]
  show "x' = Some (Regular content)" "wdSHA d = sha256_hex content" "wdBytes d = length content" using y ok(1) d by simp_all
  show "createOnly \<Longrightarrow> x = None" by (rule ok(2))
  show "\<not> createOnly \<Longrightarrow> \<exists>c. x = Some (Regular c) \<and> equal_fold expected (sha256_hex c)" using ok(4) e by blast
qed

section \<open>What the tools rely on\<close>

text \<open>
  The promise of the file protocol to the \<open>write\<close> tool: a refused write changes nothing; one that is
  made has the new content and its digest, and was made on no file or on the expected version.
\<close>

locale versioned_writer =
  fixes put :: "string \<Rightarrow> string \<Rightarrow> bool \<Rightarrow> node option \<Rightarrow> (file_err + write_done) \<times> node option"
  assumes refused: "put content expected create x = (Inl e, x') \<Longrightarrow> x' = x"
    and stored: "put content expected create x = (Inr d, x') \<Longrightarrow> x' = Some (Regular content) \<and> wdSHA d = sha256_hex content"
    and created: "put content expected True x = (Inr d, x') \<Longrightarrow> x = None"
    and replaced: "put content expected False x = (Inr d, x') \<Longrightarrow> \<exists>c. x = Some (Regular c) \<and> equal_fold expected (sha256_hex c)"
begin

lemma version_held:
  assumes "put content (sha256_hex v) False x = (Inr d, x')"
  obtains c where "x = Some (Regular c)" "sha256_hex c = sha256_hex v"
  using replaced[OF assms] equal_fold_sha[OF validSHA_sha256] by auto

text \<open>Of two writes on the same version only the first is made, unless it has the same digest.\<close>

lemma no_lost_update:
  assumes "put a (sha256_hex v) False x = (Inr d, y)" "sha256_hex a \<noteq> sha256_hex v"
  obtains e where "put b (sha256_hex v) False y = (Inl e, y)"
proof (cases "put b (sha256_hex v) False y")
  case (Pair r z)
  show thesis
  proof (cases r)
    case (Inl e)
    with Pair refused[of b "sha256_hex v" False y e z] that show ?thesis by simp
  next
    case (Inr d')
    with Pair obtain c where "y = Some (Regular c)" "sha256_hex c = sha256_hex v" using version_held by blast
    with stored[OF assms(1)] assms(2) show ?thesis by simp
  qed
qed

end

interpretation vw: versioned_writer WriteChecked
proof
  fix content expected create x e x' d
  show "WriteChecked content expected create x = (Inl e, x') \<Longrightarrow> x' = x" by (rule WriteChecked_error)
  show "WriteChecked content expected create x = (Inr d, x') \<Longrightarrow> x' = Some (Regular content) \<and> wdSHA d = sha256_hex content"
    using WriteChecked_ok(1,2) by blast
  show "WriteChecked content expected True x = (Inr d, x') \<Longrightarrow> x = None" using WriteChecked_ok(4) by blast
  show "WriteChecked content expected False x = (Inr d, x') \<Longrightarrow> \<exists>c. x = Some (Regular c) \<and> equal_fold expected (sha256_hex c)"
    using WriteChecked_ok(5) by blast
qed

section \<open>Replacement\<close>

text \<open>The text between the occurrences.\<close>

function pieces :: "string \<Rightarrow> string \<Rightarrow> string list" where
  "pieces old [] = [[]]"
| "pieces old (c # s) =
     (if old \<noteq> [] \<and> has_prefix (c # s) old then [] # pieces old (drop (length old) (c # s))
      else (case pieces old s of [] \<Rightarrow> [] | p # ps \<Rightarrow> (c # p) # ps))"
  by pat_completeness auto
termination
  by (relation "measure (\<lambda>(old, s). length s)") auto

lemma pieces_nonempty [simp]: "pieces old s \<noteq> []"
  by (induction old s rule: pieces.induct) (auto split: list.splits)

lemma join_front: "join sep ((c # p) # ps) = c # join sep (p # ps)"
  by (cases ps) auto

lemma join_step: "ps \<noteq> [] \<Longrightarrow> join sep ([] # ps) = sep @ join sep ps"
  by (cases ps) auto

lemma pieces_join: "join old (pieces old s) = s"
proof (induction old s rule: pieces.induct)
  case (2 old c s)
  show ?case
  proof (cases "old \<noteq> [] \<and> has_prefix (c # s) old")
    case True
    then have "old @ drop (length old) (c # s) = c # s" by (metis append_take_drop_id has_prefix_def)
    with True 2(1) show ?thesis by (simp add: join_step)
  next
    case False
    then show ?thesis using 2(2) by (cases "pieces old s") (auto simp: join_front)
  qed
qed simp

lemma pieces_count: "length (pieces old s) = count_of old s + 1"
  by (induction old s rule: pieces.induct) (auto split: list.splits)

lemma pieces_replaced: "join new (pieces old s) = replace_nonempty old new s"
proof (induction old s rule: pieces.induct)
  case (2 old c s)
  then show ?case by (cases "pieces old s") (auto simp: join_step join_front)
qed simp

lemma has_prefix_longer: "has_prefix s p \<Longrightarrow> has_prefix (s @ t) p"
  by (auto simp: has_prefix_iff)

lemma contains_nonempty: "contains s p \<Longrightarrow> p \<noteq> [] \<Longrightarrow> s \<noteq> []"
  by auto

lemma pieces_plain: "old \<noteq> [] \<Longrightarrow> p \<in> set (pieces old s) \<Longrightarrow> \<not> contains p old"
proof (induction old s arbitrary: p rule: pieces.induct)
  case (2 old c s)
  show ?case
  proof (cases "has_prefix (c # s) old")
    case True
    then show ?thesis using 2 by auto
  next
    case False
    obtain q qs where q: "pieces old s = q # qs" by (cases "pieces old s") auto
    have ih: "\<not> contains w old" if "w \<in> set (q # qs)" for w using 2(2)[of w] 2(3) False that q by simp
    have "\<not> has_prefix (c # q) old"
    proof
      assume "has_prefix (c # q) old"
      moreover have "\<exists>t. s = q @ t" using pieces_join[of old s] q by (cases qs) auto
      then obtain t where "s = q @ t" by blast
      ultimately have "has_prefix (c # s) old" using has_prefix_longer[of "c # q" old t] by simp
      with False show False by simp
    qed
    with ih 2(3,4) False q show ?thesis by auto
  qed
qed simp

lemma count_zero: "old \<noteq> [] \<Longrightarrow> count_of old s = 0 \<longleftrightarrow> \<not> contains s old"
proof (induction old s rule: count_of.induct)
  case (2 old c s)
  then show ?case by (auto split: if_splits)
qed simp

lemma replace_once: "old \<noteq> [] \<Longrightarrow> count_of old s = 1 \<Longrightarrow> replace_first old new s = replace_nonempty old new s"
proof (induction s)
  case (Cons c s)
  show ?case
  proof (cases "has_prefix (c # s) old")
    case True
    then have "count_of old (drop (length old) (c # s)) = 0" using Cons.prems by simp
    moreover have "replace_nonempty old new v = v" if "count_of old v = 0" for v
      using that by (induction old new v rule: replace_nonempty.induct) (auto split: if_splits)
    ultimately show ?thesis using True Cons.prems by simp
  qed (use Cons in simp)
qed simp

lemma Edit_error: "Edit_file q x y = (Inl e, y') \<Longrightarrow> y' = y"
  by (auto simp: Edit_file_def written_def Let_def split: if_splits sum.splits)

lemma Edit_ok:
  assumes "Edit_file q x y = (Inr d, y')"
  obtains s c where "x = Some (Regular s)" "y = Some (Regular c)" "sha256_hex c = sha256_hex s" "erOld q \<noteq> []"
    "erExpected q \<noteq> [] \<longrightarrow> equal_fold (erExpected q) (sha256_hex s)"
    "edReplacements d = count_of (erOld q) s" "1 \<le> edReplacements d" "erAll q \<or> edReplacements d = 1"
    "y' = Some (Regular (replace_n (erAll q) (erOld q) (erNew q) s))" "edSHA d = sha256_hex (replace_n (erAll q) (erOld q) (erNew q) s)"
proof -
  obtain s where s: "readRegularFile x = Inr s" "erOld q \<noteq> []" using assms by (cases "readRegularFile x") (auto simp: Edit_file_def split: if_splits)
  then have x: "x = Some (Regular s)" by (auto simp: readRegularFile_def openRegularFile_def split: option.splits node.splits if_splits)
  let ?u = "replace_n (erAll q) (erOld q) (erNew q) s"
  have g: "erExpected q \<noteq> [] \<longrightarrow> equal_fold (erExpected q) (sha256_hex s)" "count_of (erOld q) s \<noteq> 0" "\<not> (1 < count_of (erOld q) s \<and> \<not> erAll q)"
    and w: "(case written ?u y (atomicWrite ?u (sha256_hex s) False y) of
        (Inl e, y') \<Rightarrow> (Inl e, y') | (Inr d, y') \<Rightarrow> (Inr \<lparr>edReplacements = count_of (erOld q) s, edSHA = wdSHA d\<rparr>, y')) = (Inr d, y')"
    using assms s by (auto simp: Edit_file_def Let_def replace_n_def split: if_splits)
  then obtain z where z: "atomicWrite ?u (sha256_hex s) False y = Inr z" "y' = Some z"
    "d = \<lparr>edReplacements = count_of (erOld q) s, edSHA = sha256_hex ?u\<rparr>"
    by (auto simp: written_def split: sum.splits)
  obtain c where "y = Some (Regular c)" "sha256_hex c = sha256_hex s"
    using atomicWrite_ok(4)[OF z(1)] equal_fold_sha[OF validSHA_sha256] by auto
  with x s(2) g z atomicWrite_ok(1)[OF z(1)] show thesis by (intro that[of s c]) auto
qed

end
