(* ===== verification/FileTools.thy ===== *)
theory FileTools
  imports FileWrites
begin

text \<open>
  The \<open>write\<close> and \<open>edit\<close> tools (\<open>agenttool/write.go\<close>, \<open>edit.go\<close>) with the review record of the change
  (\<open>file_change.go\<close>).  What the path leads to is an argument for each moment at which the tool looks at
  the file, so that other writers can come between them.
\<close>

section \<open>The review of a change\<close>

record file_change =
  fcPath :: string
  fcOperation :: string
  fcStatus :: string
  fcExists :: bool
  fcBeforeSHA :: string
  fcAfterSHA :: string
  fcBefore :: "string option"
  fcAfter :: "string option"
  fcReason :: string

definition MaxReviewFileBytes :: nat where
  "MaxReviewFileBytes = 524288"

definition reviewable :: "string \<Rightarrow> bool" where
  "reviewable data = (length data \<le> MaxReviewFileBytes \<and> utf8_valid data \<and> \<not> contains_nul data)"

definition capture_after :: "string \<Rightarrow> file_change \<Rightarrow> file_change" where
  "capture_after after change =
     (let c = change\<lparr>fcAfterSHA := sha256_hex after\<rparr> in
      if \<not> reviewable after then c\<lparr>fcBefore := None, fcReason := ''binary_or_large''\<rparr> else c\<lparr>fcAfter := Some after\<rparr>)"

definition captureFileChange ::
  "string \<Rightarrow> string \<Rightarrow> string \<Rightarrow> bool \<Rightarrow> string \<Rightarrow> string \<Rightarrow> bool \<Rightarrow> node option \<Rightarrow> file_change" where
  "captureFileChange path operation expected create content old all x =
     (let change = \<lparr>fcPath = path, fcOperation = operation, fcStatus = ''pending'', fcExists = (\<not> create), fcBeforeSHA = expected,
        fcAfterSHA = [], fcBefore = None, fcAfter = None, fcReason = []\<rparr>;
          after = (\<lambda>before. if operation = ''edit'' then replace_n all old content before else content)
      in if create then capture_after (after []) (change\<lparr>fcBefore := Some []\<rparr>)
         else (case readRegularFile x of
             Inl e \<Rightarrow> change\<lparr>fcReason := ''original_unavailable''\<rparr>
           | Inr before \<Rightarrow>
               if sha256_hex before \<noteq> expected then change\<lparr>fcReason := ''original_version_changed''\<rparr>
               else if \<not> reviewable before then change\<lparr>fcReason := ''binary_or_large''\<rparr>
               else capture_after (after before) (change\<lparr>fcBefore := Some before\<rparr>)))"

text \<open>
  How the conversation keeps the record: not at all, or with the outcome of saving it before and after
  the operation.  \<open>saved\<close> is what was saved.
\<close>

type_synonym review = "(bool \<times> bool) option"

definition begun_change :: "review \<Rightarrow> file_change \<Rightarrow> file_change list" where
  "begun_change review change = (case review of Some (True, _) \<Rightarrow> [change] | _ \<Rightarrow> [])"

definition finishFileChange :: "review \<Rightarrow> file_change \<Rightarrow> string \<Rightarrow> bool \<Rightarrow> bool \<times> file_change list" where
  "finishFileChange review change sha confirmed =
     (case review of
        None \<Rightarrow> (True, [])
      | Some (_, ok) \<Rightarrow> (ok, if ok then [if confirmed then change\<lparr>fcStatus := ''confirmed'', fcAfterSHA := sha\<rparr>
          else change\<lparr>fcStatus := ''unknown''\<rparr>] else []))"

section \<open>The tools\<close>

record write_input =
  wiFile :: string
  wiPath :: string
  wiContent :: string

record edit_input =
  eiFile :: string
  eiOld :: string
  eiNew :: string
  eiAll :: bool

record tool_done =
  tdSHA :: string
  tdReplacements :: nat
  tdSaved :: bool

record tool_end =
  teOutcome :: "file_err + tool_done"
  teState :: file_state
  teNode :: "node option"
  teChanges :: "file_change list"

definition stopped :: "file_err \<Rightarrow> file_state \<Rightarrow> node option \<Rightarrow> file_change list \<Rightarrow> tool_end" where
  "stopped e st y cs = \<lparr>teOutcome = Inl e, teState = st, teNode = y, teChanges = cs\<rparr>"

definition write_path :: "write_input \<Rightarrow> string" where
  "write_path i = (if wiFile i = [] then wiPath i else wiFile i)"

text \<open>
  \<open>x\<close> is what the path leads to at the capture and \<open>y\<close> at the write; \<open>answered\<close>: the sandbox's
  answer is received.
\<close>

definition Write_Execute :: "write_input \<Rightarrow> file_state \<Rightarrow> node option \<Rightarrow> node option \<Rightarrow> review \<Rightarrow> bool \<Rightarrow> tool_end" where
  "Write_Execute i st x y review answered =
     (case required (write_path i) ''file_path'' of
        Inl e \<Rightarrow> stopped e st y []
      | Inr path \<Rightarrow>
          (case ExpectedWrite path st of
             Inl e \<Rightarrow> stopped e st y []
           | Inr (expected, createOnly) \<Rightarrow>
               let change = captureFileChange path ''write'' expected createOnly (wiContent i) [] False x;
                   begun = begun_change review change;
                   unknown = snd (finishFileChange review change [] False) in
               if review \<noteq> None \<and> begun = [] then stopped (FileOther ''file review intent could not be saved; write was not started'') st y []
               else
                 let (r, y') = WriteChecked (wiContent i) expected createOnly y in
                 (case (if answered then r else Inl (FileOther ''no answer'')) of
                    Inl e \<Rightarrow> stopped e st y' (begun @ unknown)
                  | Inr d \<Rightarrow>
                      if \<not> validSHA (wdSHA d) \<or> wdSHA d \<noteq> sha256_hex (wiContent i)
                      then stopped (FileOther ''protected write did not confirm the resulting file version'') st y' (begun @ unknown)
                      else let (ok, confirmed) = finishFileChange review change (wdSHA d) True in
                        \<lparr>teOutcome = Inr \<lparr>tdSHA = wdSHA d, tdReplacements = 0, tdSaved = ok\<rparr>,
                          teState = RecordWrite path (wiContent i) (wdSHA d) st, teNode = y', teChanges = begun @ confirmed\<rparr>)))"

text \<open>\<open>z\<close> is what the path leads to when the edited text replaces it.\<close>

definition Edit_Execute ::
  "edit_input \<Rightarrow> file_state \<Rightarrow> node option \<Rightarrow> node option \<Rightarrow> node option \<Rightarrow> review \<Rightarrow> bool \<Rightarrow> tool_end" where
  "Edit_Execute i st x y z review answered =
     (case required (eiFile i) ''file_path'' of
        Inl e \<Rightarrow> stopped e st z []
      | Inr path \<Rightarrow>
          if eiOld i = [] then stopped (FileArgument ''old_string'') st z []
          else (case ExpectedEdit path (eiOld i) (eiAll i) st of
             Inl e \<Rightarrow> stopped e st z []
           | Inr expected \<Rightarrow>
               let change = captureFileChange path ''edit'' expected False (eiNew i) (eiOld i) (eiAll i) x;
                   begun = begun_change review change;
                   unknown = snd (finishFileChange review change [] False) in
               if review \<noteq> None \<and> begun = [] then stopped (FileOther ''file review intent could not be saved; edit was not started'') st z []
               else
                 let (r, z') = Edit_file \<lparr>erOld = eiOld i, erNew = eiNew i, erAll = eiAll i, erExpected = expected\<rparr> y z in
                 (case (if answered then r else Inl (FileOther ''no answer'')) of
                    Inl e \<Rightarrow> stopped e st z' (begun @ unknown)
                  | Inr d \<Rightarrow>
                      if \<not> validSHA (edSHA d) \<or> review \<noteq> None \<and> fcAfterSHA change \<noteq> [] \<and> fcAfterSHA change \<noteq> edSHA d
                      then stopped (FileOther ''edit did not confirm the resulting file version'') st z' (begun @ unknown)
                      else let (ok, confirmed) = finishFileChange review change (edSHA d) True in
                        \<lparr>teOutcome = Inr \<lparr>tdSHA = edSHA d, tdReplacements = edReplacements d, tdSaved = ok\<rparr>,
                          teState = RecordEdit path (eiOld i) (eiNew i) (eiAll i) (edSHA d) st, teNode = z',
                          teChanges = begun @ confirmed\<rparr>)))"

section \<open>What the tools do\<close>

lemma write_stopped:
  assumes "teOutcome (Write_Execute i st x y review answered) = Inl e"
  shows "teState (Write_Execute i st x y review answered) = st"
  using assms
  by (auto simp: Write_Execute_def stopped_def Let_def split_beta split: sum.splits if_splits)

lemma write_done:
  assumes "teOutcome (Write_Execute i st x y review answered) = Inr d"
  obtains expected create where "ExpectedWrite (write_path i) st = Inr (expected, create)"
    "WriteChecked (wiContent i) expected create y = (Inr \<lparr>wdBytes = length (wiContent i), wdSHA = sha256_hex (wiContent i)\<rparr>, Some (Regular (wiContent i)))"
    "teNode (Write_Execute i st x y review answered) = Some (Regular (wiContent i))" "tdSHA d = sha256_hex (wiContent i)"
    "teState (Write_Execute i st x y review answered) = RecordWrite (write_path i) (wiContent i) (sha256_hex (wiContent i)) st"
    "answered" "trim_space (write_path i) \<noteq> []"
    "teChanges (Write_Execute i st x y review answered) =
      begun_change review (captureFileChange (write_path i) ''write'' expected create (wiContent i) [] False x) @
      snd (finishFileChange review (captureFileChange (write_path i) ''write'' expected create (wiContent i) [] False x) (sha256_hex (wiContent i)) True)"
proof -
  have p: "trim_space (write_path i) \<noteq> []" using assms by (auto simp: Write_Execute_def required_def stopped_def split: if_splits)
  obtain expected create where e: "ExpectedWrite (write_path i) st = Inr (expected, create)"
    using assms p by (cases "ExpectedWrite (write_path i) st") (auto simp: Write_Execute_def required_def stopped_def)
  obtain r y' where w: "WriteChecked (wiContent i) expected create y = (r, y')" by (cases "WriteChecked (wiContent i) expected create y")
  have a: "answered" and "\<exists>v. r = Inr v"
    using assms p e w by (auto simp: Write_Execute_def required_def stopped_def Let_def split: if_splits sum.splits)
  then obtain v where r: "r = Inr v" by blast
  note ok = WriteChecked_ok[OF w[unfolded r]]
  have v: "v = \<lparr>wdBytes = length (wiContent i), wdSHA = sha256_hex (wiContent i)\<rparr>" using ok(2,3) by simp
  show thesis
    using assms p e w a r ok v by (intro that) (auto simp: Write_Execute_def required_def stopped_def Let_def split_beta split: if_splits)
qed

lemma edit_stopped:
  assumes "teOutcome (Edit_Execute i st x y z review answered) = Inl e"
  shows "teState (Edit_Execute i st x y z review answered) = st"
  using assms
  by (auto simp: Edit_Execute_def stopped_def Let_def split_beta split: sum.splits if_splits)

lemma edit_done:
  assumes "teOutcome (Edit_Execute i st x y z review answered) = Inr d"
  obtains expected s c where "ExpectedEdit (eiFile i) (eiOld i) (eiAll i) st = Inr expected" "eiOld i \<noteq> []" "trim_space (eiFile i) \<noteq> []"
    "y = Some (Regular s)" "z = Some (Regular c)" "sha256_hex c = sha256_hex s" "expected \<noteq> [] \<longrightarrow> equal_fold expected (sha256_hex s)"
    "tdReplacements d = count_of (eiOld i) s" "1 \<le> tdReplacements d" "eiAll i \<or> tdReplacements d = 1"
    "teNode (Edit_Execute i st x y z review answered) = Some (Regular (replace_n (eiAll i) (eiOld i) (eiNew i) s))"
    "tdSHA d = sha256_hex (replace_n (eiAll i) (eiOld i) (eiNew i) s)"
    "teState (Edit_Execute i st x y z review answered) =
      RecordEdit (eiFile i) (eiOld i) (eiNew i) (eiAll i) (sha256_hex (replace_n (eiAll i) (eiOld i) (eiNew i) s)) st"
    "teChanges (Edit_Execute i st x y z review answered) =
      begun_change review (captureFileChange (eiFile i) ''edit'' expected False (eiNew i) (eiOld i) (eiAll i) x) @
      snd (finishFileChange review (captureFileChange (eiFile i) ''edit'' expected False (eiNew i) (eiOld i) (eiAll i) x) (tdSHA d) True)"
    "review = None \<or> fcAfterSHA (captureFileChange (eiFile i) ''edit'' expected False (eiNew i) (eiOld i) (eiAll i) x) \<in> {[], tdSHA d}"
proof -
  have p: "trim_space (eiFile i) \<noteq> []" "eiOld i \<noteq> []" using assms by (auto simp: Edit_Execute_def required_def stopped_def split: if_splits)
  obtain expected where e: "ExpectedEdit (eiFile i) (eiOld i) (eiAll i) st = Inr expected"
    using assms p by (cases "ExpectedEdit (eiFile i) (eiOld i) (eiAll i) st") (auto simp: Edit_Execute_def required_def stopped_def)
  let ?q = "\<lparr>erOld = eiOld i, erNew = eiNew i, erAll = eiAll i, erExpected = expected\<rparr>"
  obtain r z' where w: "Edit_file ?q y z = (r, z')" by (cases "Edit_file ?q y z")
  have a: "answered" and "\<exists>v. r = Inr v"
    using assms p e w by (auto simp: Edit_Execute_def required_def stopped_def Let_def split: if_splits sum.splits)
  then obtain v where r: "r = Inr v" by blast
  obtain s c where ok: "y = Some (Regular s)" "z = Some (Regular c)" "sha256_hex c = sha256_hex s"
    "expected \<noteq> [] \<longrightarrow> equal_fold expected (sha256_hex s)" "edReplacements v = count_of (eiOld i) s" "1 \<le> edReplacements v"
    "eiAll i \<or> edReplacements v = 1" "z' = Some (Regular (replace_n (eiAll i) (eiOld i) (eiNew i) s))"
    "edSHA v = sha256_hex (replace_n (eiAll i) (eiOld i) (eiNew i) s)"
    using w[unfolded r] by (elim Edit_ok) simp
  show thesis
    using assms p e w a r
    by (intro that[OF e p(2,1) ok(1-4)])
       (use ok(5-9) in \<open>auto simp: Edit_Execute_def required_def stopped_def Let_def split_beta split: if_splits\<close>)
qed

end
