(* ===== verification/FileHistory.thy ===== *)
theory FileHistory
  imports FileTools
begin

text \<open>
  Histories of file events.  Each event is kept with the content the file had after it, which the code
  does not know; \<open>coherent\<close> is what the tools guarantee of their own history.
\<close>

section \<open>Coherent histories\<close>

type_synonym versions = "string \<Rightarrow> string option"

type_synonym file_log = "(file_event \<times> string) list"

fun event_key :: "file_event \<Rightarrow> string" where
  "event_key (ReadSeen r) = path_clean (rcPath (rrReceipt r))"
| "event_key (WriteSeen path content sha) = path_clean path"
| "event_key (EditSeen path old new all sha) = path_clean path"

fun event_ok :: "versions \<Rightarrow> file_event \<Rightarrow> string \<Rightarrow> bool" where
  "event_ok V (ReadSeen r) c = (genuine c r \<and> rcPath (rrReceipt r) \<noteq> [])"
| "event_ok V (WriteSeen path content sha) c = (c = content \<and> sha = sha256_hex c)"
| "event_ok V (EditSeen path old new all sha) c =
     (sha = sha256_hex c \<and> (case V (path_clean path) of None \<Rightarrow> True | Some b \<Rightarrow> c = replace_n all old new b))"

fun coherent :: "versions \<Rightarrow> file_log \<Rightarrow> bool" where
  "coherent V [] = True"
| "coherent V ((e, c) # log) = (event_ok V e c \<and> coherent (V(event_key e \<mapsto> c)) log)"

fun versions_after :: "versions \<Rightarrow> file_log \<Rightarrow> versions" where
  "versions_after V [] = V"
| "versions_after V ((e, c) # log) = versions_after (V(event_key e \<mapsto> c)) log"

definition sound :: "versions \<Rightarrow> file_state \<Rightarrow> bool" where
  "sound V st = (\<forall>k ob. st k = Some ob \<longrightarrow> (\<exists>c. V k = Some c \<and> sees c ob))"

lemma event_ok_less:
  assumes "event_ok V e c" "V' \<subseteq>\<^sub>m V"
  shows "event_ok V' e c"
proof (cases e)
  case (EditSeen path old new all sha)
  have "V' (path_clean path) = None \<or> V' (path_clean path) = V (path_clean path)" using assms(2) by (auto simp: map_le_def dom_def)
  with assms(1) EditSeen show ?thesis by auto
qed (use assms in simp_all)

lemma coherent_less: "coherent V log \<Longrightarrow> V' \<subseteq>\<^sub>m V \<Longrightarrow> coherent V' log"
proof (induction log arbitrary: V V')
  case (Cons p log)
  obtain e c where p: "p = (e, c)" by (cases p)
  have "coherent (V'(event_key e \<mapsto> c)) log" using Cons.prems(1) p
    by (intro Cons.IH[OF _ map_le_upd[OF Cons.prems(2)]]) (simp del: fun_upd_apply)
  moreover have "event_ok V' e c" using event_ok_less[OF _ Cons.prems(2)] Cons.prems(1) p by simp
  ultimately show ?case by (simp add: p)
qed simp

lemma versions_less: "V' \<subseteq>\<^sub>m V \<Longrightarrow> versions_after V' log \<subseteq>\<^sub>m versions_after V log"
proof (induction log arbitrary: V V')
  case (Cons p log)
  then show ?case by (cases p) (simp add: Cons.IH[OF map_le_upd[OF Cons.prems]])
qed simp

lemma coherent_append: "coherent V (log @ log') \<longleftrightarrow> coherent V log \<and> coherent (versions_after V log) log'"
  by (induction log arbitrary: V) auto

lemma versions_append: "versions_after V (log @ log') = versions_after (versions_after V log) log'"
  by (induction log arbitrary: V) auto

text \<open>A history that starts later is coherent too and knows less.\<close>

lemma later_history:
  assumes "coherent Map.empty log"
  shows "coherent Map.empty (drop k log)" "versions_after Map.empty (drop k log) \<subseteq>\<^sub>m versions_after Map.empty log"
proof -
  have log: "log = take k log @ drop k log" by simp
  have "coherent (versions_after Map.empty (take k log)) (drop k log)"
    using assms by (subst (asm) log) (simp only: coherent_append)
  then show "coherent Map.empty (drop k log)" by (rule coherent_less) simp
  have "versions_after Map.empty log = versions_after (versions_after Map.empty (take k log)) (drop k log)"
    using versions_append[of Map.empty "take k log" "drop k log"] by simp
  then show "versions_after Map.empty (drop k log) \<subseteq>\<^sub>m versions_after Map.empty log"
    using versions_less[of Map.empty "versions_after Map.empty (take k log)" "drop k log"] by simp
qed

section \<open>Views of a coherent history\<close>

lemma sound_update: "sound V st \<Longrightarrow> sees c ob \<Longrightarrow> sound (V(k \<mapsto> c)) (st(k \<mapsto> ob))"
  by (auto simp: sound_def)

lemma sound_forget: "sound V st \<Longrightarrow> sound (V(k \<mapsto> c)) (st(k := None))"
  by (auto simp: sound_def)

lemma sound_more: "sound V st \<Longrightarrow> V \<subseteq>\<^sub>m V' \<Longrightarrow> sound V' st"
  unfolding sound_def by (metis domI map_le_def)

lemma see_sound:
  assumes "sound V st" "event_ok V e c" "inj_on sha256_hex H" "ran V \<subseteq> H" "c \<in> H"
  shows "sound (V(event_key e \<mapsto> c)) (see e st)"
proof (cases e)
  case (ReadSeen r)
  let ?k = "path_clean (rcPath (rrReceipt r))"
  have r: "genuine c r" "rcPath (rrReceipt r) \<noteq> []" using assms(2) ReadSeen by simp_all
  have "\<exists>c'. sees c' old \<and> (sha256_hex c' = sha256_hex c \<longrightarrow> c' = c)" if old: "st ?k = Some old" for old
  proof -
    obtain c' where c': "V ?k = Some c'" "sees c' old" using assms(1) old unfolding sound_def by blast
    then have "c' \<in> H" using assms(4) by (auto simp: ran_def)
    then show ?thesis using c' assms(3,5) by (auto dest: inj_onD)
  qed
  with r obtain ob where "ObserveRead r st = st(?k \<mapsto> ob)" "sees c ob" by (rule ObserveRead_sees)
  with ReadSeen show ?thesis using sound_update[OF assms(1)] by simp
next
  case (WriteSeen path content sha)
  with assms(2) show ?thesis by (simp add: RecordWrite_def) (rule sound_update[OF assms(1)], simp add: sees_def)
next
  case (EditSeen path old new all sha)
  let ?k = "path_clean path"
  show ?thesis
  proof (cases "\<exists>ob. st ?k = Some ob \<and> obComplete ob")
    case True
    then obtain ob where ob: "st ?k = Some ob" "obComplete ob" by blast
    obtain b where b: "V ?k = Some b" "sees b ob" using assms(1) ob(1) by (auto simp: sound_def)
    have "c = replace_n all old new (obText ob)" "sha = sha256_hex c" using assms(2) EditSeen b ob(2) by (auto simp: sees_def)
    then have "sees c (ob\<lparr>obText := replace_n all old new (obText ob), obSha := sha\<rparr>)" using ob(2) by (simp add: sees_def)
    moreover have "see e st = st(?k \<mapsto> ob\<lparr>obText := replace_n all old new (obText ob), obSha := sha\<rparr>)"
      using EditSeen ob \<open>sha = sha256_hex c\<close> by (simp add: RecordEdit_def)
    ultimately show ?thesis using sound_update[OF assms(1)] EditSeen by simp
  next
    case False
    then have "see e st = st(?k := None)" using EditSeen by (auto simp: RecordEdit_def Let_def split: option.splits)
    then show ?thesis using sound_forget[OF assms(1)] EditSeen by simp
  qed
qed

lemma coherent_sound:
  assumes "coherent V log" "sound V st" "inj_on sha256_hex H" "ran V \<subseteq> H" "snd ` set log \<subseteq> H"
  shows "sound (versions_after V log) (foldl (\<lambda>st e. see e st) st (map fst log))"
  using assms
proof (induction log arbitrary: V st)
  case (Cons p log)
  obtain e c where p: "p = (e, c)" by (cases p)
  have "sound (V(event_key e \<mapsto> c)) (see e st)" using see_sound[OF Cons.prems(2) _ Cons.prems(3,4)] Cons.prems(1,5) p by simp
  moreover have "ran (V(event_key e \<mapsto> c)) \<subseteq> H" using Cons.prems(4,5) p by (auto simp: ran_def split: if_splits)
  ultimately have "sound (versions_after (V(event_key e \<mapsto> c)) log) (foldl (\<lambda>st e. see e st) (see e st) (map fst log))"
    using Cons.prems(1,3,5) p by (intro Cons.IH) (simp_all del: fun_upd_apply)
  then show ?case by (simp add: p)
qed simp

lemma rebuilt_sound:
  assumes "coherent Map.empty log" "inj_on sha256_hex H" "snd ` set log \<subseteq> H"
  shows "sound (versions_after Map.empty log) (rebuild_state (map fst (drop k log)))"
proof -
  have "snd ` set (drop k log) \<subseteq> H" using assms(3) by (auto dest: in_set_dropD)
  then have "sound (versions_after Map.empty (drop k log)) (rebuild_state (map fst (drop k log)))"
    unfolding rebuild_state_def using assms(2) later_history(1)[OF assms(1)]
    by (intro coherent_sound[where H = H]) (auto simp: sound_def)
  then show ?thesis using later_history(2)[OF assms(1)] by (rule sound_more)
qed

section \<open>What a partial view contains\<close>

lemma not_nul: "0 < n \<Longrightarrow> n < 256 \<Longrightarrow> char_of (n :: nat) \<noteq> char_of (0 :: nat)"
proof
  assume n: "0 < n" "n < 256" and e: "char_of n = (char_of (0 :: nat) :: char)"
  have "byte (char_of n) = byte (char_of (0 :: nat))" by (simp only: e)
  moreover have "byte (char_of n) = n" "byte (char_of (0 :: nat)) = 0" by (rule byte_char_of, simp add: n)+
  ultimately show False using n by simp
qed

lemma encode_nul: "valid_rune r \<Longrightarrow> char_of (0 :: nat) \<in> set (encode_rune r) \<Longrightarrow> r = 0"
proof -
  assume v: "valid_rune r" and z: "char_of (0 :: nat) \<in> set (encode_rune r)"
  have "r div 64 < 32" if "r < 2048" using that by simp
  moreover have "r div 4096 < 16" if "r < 65536" using that by simp
  moreover have "r div 262144 < 8" using v by (simp add: valid_rune_def div_less_iff_less_mult)
  ultimately show ?thesis using z v
    by (cases "r < 128")
      (auto simp: encode_rune_def valid_rune_def Let_def split: if_splits dest!: not_nul[THEN notE, rotated -1, OF sym])
qed

lemma nul_rune: "char_of (0 :: nat) \<in> set s \<Longrightarrow> contains_nul s"
proof (induction s rule: chunks.induct)
  case (2 a s)
  obtain r n where d: "decode_rune (a # s) = (r, n)" by fastforce
  have w: "1 \<le> n" "n \<le> length (a # s)" using decode_rune_width[of "a # s"] d by simp_all
  have c: "chunks (a # s) = (r, take n (a # s)) # chunks (drop (n - 1) s)" using d by simp
  have "a # s = take n (a # s) @ drop (n - 1) s" using w by (cases n) simp_all
  note ih = 2(1)[OF d[symmetric]]
  consider "char_of (0 :: nat) \<in> set (take n (a # s))" | "char_of (0 :: nat) \<in> set (drop (n - 1) s)"
    using 2(2) \<open>a # s = _\<close> by (metis Un_iff set_append)
  then show ?case
  proof cases
    case 1
    have "r = 0"
    proof (cases "r = rune_error \<and> n = 1")
      case True
      then have "a = char_of (0 :: nat)" using 1 by simp
      then show ?thesis using d by (simp add: decode_rune_def)
    next
      case False
      then have "encode_rune r = take n (a # s)" using encode_decode[OF d] by simp
      moreover have "valid_rune r" using encode_decode[OF d] False by simp
      ultimately show ?thesis using 1 encode_nul[of r] by simp
    qed
    then show ?thesis by (simp add: contains_nul_def runes_def c del: chunks.simps)
  next
    case 2
    with ih show ?thesis by (simp add: contains_nul_def runes_def c del: chunks.simps)
  qed
qed simp

lemma join_append: "ps \<noteq> [] \<Longrightarrow> qs \<noteq> [] \<Longrightarrow> join sep (ps @ qs) = join sep ps @ sep @ join sep qs"
proof (induction ps)
  case (Cons p ps)
  then show ?case by (cases "ps = []") (simp_all add: join_Cons)
qed simp

lemma front_lines: "\<exists>v. c = join [newline] (take n (fileLines c)) @ v"
proof (cases "take n (fileLines c) = [] \<or> drop n (fileLines c) = []")
  case True
  then consider "join [newline] (take n (fileLines c)) = []" | "take n (fileLines c) = fileLines c" by fastforce
  then show ?thesis
  proof cases
    case 2
    then show ?thesis using fileLines_text[of c] by (metis)
  qed auto
next
  case False
  then have "join [newline] (fileLines c) = join [newline] (take n (fileLines c)) @ [newline] @ join [newline] (drop n (fileLines c))"
    using join_append[of "take n (fileLines c)" "drop n (fileLines c)" "[newline]"] by simp
  then show ?thesis using fileLines_text[of c] by (metis append.assoc)
qed

lemma plain_around:
  assumes "d \<notin> set p" "contains (xs @ d # ys) p"
  shows "contains xs p \<or> contains ys p"
proof -
  obtain a b where ab: "xs @ d # ys = a @ p @ b" using assms(2) by (auto simp: contains_iff)
  show ?thesis
  proof (cases "length (a @ p) \<le> length xs")
    case True
    then have "xs = a @ p @ drop (length (a @ p)) xs" using ab
      by (metis append_assoc append_eq_append_conv_if append_take_drop_id)
    then show ?thesis unfolding contains_iff by blast
  next
    case False
    show ?thesis
    proof (cases "length xs < length a")
      case True
      then have "ys = drop (length xs + 1) a @ p @ b" using arg_cong[OF ab, of "drop (length xs + 1)"] by simp
      then show ?thesis unfolding contains_iff by blast
    next
      case in_p: False
      have "(a @ p @ b) ! length xs = d" using ab by (metis nth_append_length)
      then have "p ! (length xs - length a) = d" "length xs - length a < length p" using in_p False
        by (auto simp: nth_append split: if_splits)
      then show ?thesis using assms(1) nth_mem by blast
    qed
  qed
qed

lemma joined_contains:
  assumes "list_all (line_at c) ps" "char_of (0 :: nat) \<notin> set p" "\<exists>u. join [newline] (take before (fileLines c)) = u @ t"
    "contains (t @ joined_lines before ps) p"
  shows "contains c p"
  using assms
proof (induction ps arbitrary: before t)
  case Nil
  obtain u v where "c = u @ t @ v" using Nil(3) front_lines[of c before] by auto
  moreover obtain a b where "t = a @ p @ b" using Nil(4) by (auto simp: contains_iff)
  ultimately have "c = (u @ a) @ p @ (b @ v)" by simp
  then show ?case unfolding contains_iff by blast
next
  case (Cons q ps)
  obtain n l where q: "q = (n, l)" by (cases q)
  have l: "1 \<le> n" "n \<le> length (fileLines c)" "l = fileLines c ! (n - 1)" using Cons.prems(1) q by (simp_all add: line_at_def)
  have "take n (fileLines c) = take (n - 1) (fileLines c) @ [l]" using l take_Suc_conv_app_nth[of "n - 1" "fileLines c"] by simp
  then have n: "join [newline] (take n (fileLines c))
      = (if take (n - 1) (fileLines c) = [] then l else join [newline] (take (n - 1) (fileLines c)) @ [newline] @ l)"
    by (simp add: join_snoc)
  have ih: "contains c p" if "contains (w @ joined_lines n ps) p" "\<exists>u. join [newline] (take n (fileLines c)) = u @ w" for w
    using Cons.IH[of n w] Cons.prems(1,2) that by simp
  have ends: "\<exists>u. join [newline] (take n (fileLines c)) = u @ l" unfolding n by auto
  consider "before = 0" | "before \<noteq> 0" "n = before + 1" | "before \<noteq> 0" "n \<noteq> before + 1" by blast
  then show ?case
  proof cases
    case 1
    then have "t = []" using Cons.prems(3) by simp
    with 1 Cons.prems(4) have "contains (l @ joined_lines n ps) p" by (simp add: q)
    then show ?thesis using ends by (rule ih)
  next
    case 2
    have ne: "take before (fileLines c) \<noteq> []" using 2 l(2) by auto
    then have "\<exists>u. join [newline] (take n (fileLines c)) = u @ t @ [newline] @ l" using Cons.prems(3) n 2 by auto
    moreover have "contains ((t @ [newline] @ l) @ joined_lines n ps) p" using Cons.prems(4) 2 by (simp add: q)
    ultimately show ?thesis using ih by blast
  next
    case 3
    then have "contains (t @ char_of (0 :: nat) # (l @ joined_lines n ps)) p" using Cons.prems(4) by (simp add: q)
    from plain_around[OF Cons.prems(2) this] show ?thesis
    proof
      assume "contains t p"
      then obtain a b where "t = a @ p @ b" by (auto simp: contains_iff)
      moreover obtain u v where "c = u @ t @ v" using Cons.prems(3) front_lines[of c before] by auto
      ultimately have "c = (u @ a) @ p @ (b @ v)" by simp
      then show ?thesis unfolding contains_iff by blast
    next
      assume "contains (l @ joined_lines n ps) p"
      then show ?thesis using ends by (rule ih)
    qed
  qed
qed

lemma sees_contains:
  assumes "sees c ob" "contains (obText ob) p" "\<not> contains_nul p"
  shows "contains c p"
proof (cases "obComplete ob")
  case True
  with assms show ?thesis by (simp add: sees_def)
next
  case False
  then have t: "obText ob = joined_lines 0 (sort_key fst (obLines ob))" and "list_all (line_at c) (obLines ob) \<or> obLines ob = []"
    using assms(1) by (auto simp: sees_def part_view_def image_view_def)
  then have "list_all (line_at c) (sort_key fst (obLines ob))" by (auto simp: list_all_iff)
  moreover have "char_of (0 :: nat) \<notin> set p" using assms(3) nul_rune by blast
  ultimately show ?thesis using assms(2) t by (intro joined_contains[of c _ p 0 "[]"]) auto
qed

end
