(* ===== verification/FileWorld.thy ===== *)
theory FileWorld
  imports FileHistory
begin

text \<open>
  The file tools of one conversation among other writers of the same files: other conversations, commands
  and people, who change any file at any time.  \<open>loc\<close> is the file a path of the tools leads to,
  \<open>media\<close> the recognition of images; \<open>H\<close> is the set of contents that ever occur.
\<close>

record file_world =
  fwFiles :: "string \<Rightarrow> node option"
  fwState :: file_state
  fwLog :: file_log

definition contents_in :: "string set \<Rightarrow> (string \<Rightarrow> node option) \<Rightarrow> bool" where
  "contents_in H fs = (\<forall>k c. fs k = Some (Regular c) \<longrightarrow> c \<in> H)"

definition node_in :: "string set \<Rightarrow> node option \<Rightarrow> bool" where
  "node_in H x = (\<forall>c. x = Some (Regular c) \<longrightarrow> c \<in> H)"

definition write_event :: "write_input \<Rightarrow> tool_end \<Rightarrow> file_log" where
  "write_event i e = (case teOutcome e of Inl _ \<Rightarrow> [] | Inr d \<Rightarrow> [(WriteSeen (write_path i) (wiContent i) (tdSHA d), wiContent i)])"

definition edit_event :: "edit_input \<Rightarrow> tool_end \<Rightarrow> file_log" where
  "edit_event i e = (case teOutcome e of Inl _ \<Rightarrow> []
     | Inr d \<Rightarrow> (case teNode e of Some (Regular c) \<Rightarrow> [(EditSeen (eiFile i) (eiOld i) (eiNew i) (eiAll i) (tdSHA d), c)] | _ \<Rightarrow> []))"

text \<open>
  A read, a write or edit whose looks at the file before the replacement found \<open>x\<close> and \<open>y\<close>, a change by
  somebody else, and a new turn, which rebuilds the state from the history that is left.
\<close>

inductive file_step ::
  "string set \<Rightarrow> (string \<Rightarrow> string) \<Rightarrow> (string \<Rightarrow> (string \<Rightarrow> string) option) \<Rightarrow> file_world \<Rightarrow> file_world \<Rightarrow> bool"
  for H loc media where
  read_file:
    "Read_Execute media i (fwFiles w (loc (read_path i))) = Inr r \<Longrightarrow> fwFiles w (loc (read_path i)) = Some (Regular c) \<Longrightarrow>
     file_step H loc media w (w\<lparr>fwState := ObserveRead r (fwState w), fwLog := fwLog w @ [(ReadSeen r, c)]\<rparr>)"
| write_file:
    "e = Write_Execute i (fwState w) x (fwFiles w (loc (write_path i))) review answered \<Longrightarrow> node_in H (teNode e) \<Longrightarrow>
     file_step H loc media w (w\<lparr>fwFiles := (fwFiles w)(loc (write_path i) := teNode e), fwState := teState e,
       fwLog := fwLog w @ write_event i e\<rparr>)"
| edit_file:
    "e = Edit_Execute i (fwState w) x y (fwFiles w (loc (eiFile i))) review answered \<Longrightarrow> node_in H y \<Longrightarrow> node_in H (teNode e) \<Longrightarrow>
     file_step H loc media w (w\<lparr>fwFiles := (fwFiles w)(loc (eiFile i) := teNode e), fwState := teState e,
       fwLog := fwLog w @ edit_event i e\<rparr>)"
| somebody_else:
    "node_in H x \<Longrightarrow> file_step H loc media w (w\<lparr>fwFiles := (fwFiles w)(k := x)\<rparr>)"
| new_turn:
    "file_step H loc media w (w\<lparr>fwState := rebuild_state (map fst (drop n (fwLog w)))\<rparr>)"

definition file_start :: "string set \<Rightarrow> file_world \<Rightarrow> bool" where
  "file_start H w = (contents_in H (fwFiles w) \<and> fwState w = rebuild_state [] \<and> fwLog w = [])"

definition file_reachable ::
  "string set \<Rightarrow> (string \<Rightarrow> string) \<Rightarrow> (string \<Rightarrow> (string \<Rightarrow> string) option) \<Rightarrow> file_world \<Rightarrow> bool" where
  "file_reachable H loc media w = (\<exists>w0. file_start H w0 \<and> (file_step H loc media)\<^sup>*\<^sup>* w0 w)"

section \<open>The invariant\<close>

definition file_inv :: "string set \<Rightarrow> file_world \<Rightarrow> bool" where
  "file_inv H w = (contents_in H (fwFiles w) \<and> snd ` set (fwLog w) \<subseteq> H \<and> coherent Map.empty (fwLog w) \<and>
     sound (versions_after Map.empty (fwLog w)) (fwState w))"

lemma ran_versions: "ran V \<subseteq> H \<Longrightarrow> snd ` set log \<subseteq> H \<Longrightarrow> ran (versions_after V log) \<subseteq> H"
proof (induction log arbitrary: V)
  case (Cons p log)
  obtain e c where p: "p = (e, c)" by (cases p)
  have "ran (V(event_key e \<mapsto> c)) \<subseteq> H" using Cons.prems p by (auto simp: ran_def split: if_splits)
  with Cons p show ?case by simp
qed simp

text \<open>An event of the tools extends the history.\<close>

lemma inv_event:
  assumes "file_inv H w" "inj_on sha256_hex H" "event_ok (versions_after Map.empty (fwLog w)) e c" "c \<in> H" "contents_in H fs"
  shows "file_inv H (w\<lparr>fwFiles := fs, fwState := see e (fwState w), fwLog := fwLog w @ [(e, c)]\<rparr>)"
proof -
  let ?V = "versions_after Map.empty (fwLog w)"
  have i: "snd ` set (fwLog w) \<subseteq> H" "coherent Map.empty (fwLog w)" "sound ?V (fwState w)" using assms(1) by (simp_all add: file_inv_def)
  have "ran ?V \<subseteq> H" using ran_versions[of Map.empty H "fwLog w"] i(1) by simp
  then have "sound (?V(event_key e \<mapsto> c)) (see e (fwState w))" using see_sound[OF i(3) assms(3,2) _ assms(4)] by simp
  then show ?thesis using i assms by (simp add: file_inv_def coherent_append versions_append)
qed

lemma seen_version:
  assumes "file_inv H w" "fwState w k = Some ob"
  obtains c where "versions_after Map.empty (fwLog w) k = Some c" "sees c ob" "c \<in> H"
proof -
  obtain c where c: "versions_after Map.empty (fwLog w) k = Some c" "sees c ob"
    using assms unfolding file_inv_def sound_def by blast
  moreover have "c \<in> H" using ran_versions[of Map.empty H "fwLog w"] c(1) assms(1) by (auto simp: file_inv_def ran_def)
  ultimately show thesis using that by blast
qed

lemma expected_write:
  assumes "file_inv H w" "inj_on sha256_hex H" "ExpectedWrite path (fwState w) = Inr (expected, create)"
    "WriteChecked content expected create (fwFiles w k) = (Inr d, y)"
  shows "create \<and> fwFiles w k = None \<or>
    (\<exists>ob. fwState w (path_clean path) = Some ob \<and> obComplete ob \<and> fwFiles w k = Some (Regular (obText ob)))"
proof (cases create)
  case True
  then have "WriteChecked content expected True (fwFiles w k) = (Inr d, y)" using assms(4) by simp
  then have "fwFiles w k = None" by (rule vw.created)
  with True show ?thesis by simp
next
  case False
  then obtain ob where ob: "fwState w (path_clean path) = Some ob" "obComplete ob" "expected = obSha ob"
    using assms(3) by (auto simp: ExpectedWrite_def split: option.splits if_splits)
  obtain v where v: "sees v ob" "v \<in> H" using seen_version[OF assms(1) ob(1)] by blast
  have "WriteChecked content (sha256_hex v) False (fwFiles w k) = (Inr d, y)" using assms(4) False ob(3) v(1) by (simp add: sees_def)
  then obtain c where c: "fwFiles w k = Some (Regular c)" "sha256_hex c = sha256_hex v" by (rule vw.version_held)
  then have "sha256_hex v = sha256_hex c" by simp
  moreover have "c \<in> H" using assms(1) c(1) unfolding file_inv_def contents_in_def by blast
  ultimately have "c = v" using assms(2) v(2) by (simp add: inj_on_def)
  with ob v c(1) show ?thesis by (simp add: sees_def)
qed

lemma contents_update: "contents_in H fs \<Longrightarrow> node_in H x \<Longrightarrow> contents_in H (fs(k := x))"
  by (auto simp: contents_in_def node_in_def)

lemma edited_version:
  assumes "file_inv H w" "inj_on sha256_hex H" "node_in H y"
    "teOutcome (Edit_Execute i (fwState w) x y (fwFiles w k) review answered) = Inr d"
  obtains v ob where "fwState w (path_clean (eiFile i)) = Some ob" "sees v ob" "v \<in> H"
    "versions_after Map.empty (fwLog w) (path_clean (eiFile i)) = Some v" "fwFiles w k = Some (Regular v)" "contains v (eiOld i)"
    "tdReplacements d = count_of (eiOld i) v" "eiAll i \<or> tdReplacements d = 1" "eiAll i \<longrightarrow> obComplete ob" "eiOld i \<noteq> []"
    "teNode (Edit_Execute i (fwState w) x y (fwFiles w k) review answered) = Some (Regular (replace_n (eiAll i) (eiOld i) (eiNew i) v))"
    "tdSHA d = sha256_hex (replace_n (eiAll i) (eiOld i) (eiNew i) v)"
    "teState (Edit_Execute i (fwState w) x y (fwFiles w k) review answered)
      = RecordEdit (eiFile i) (eiOld i) (eiNew i) (eiAll i) (tdSHA d) (fwState w)"
proof -
  obtain expected s c where e: "ExpectedEdit (eiFile i) (eiOld i) (eiAll i) (fwState w) = Inr expected" "eiOld i \<noteq> []" "trim_space (eiFile i) \<noteq> []"
    "y = Some (Regular s)" "fwFiles w k = Some (Regular c)" "sha256_hex c = sha256_hex s"
    "expected \<noteq> [] \<longrightarrow> equal_fold expected (sha256_hex s)"
    "tdReplacements d = count_of (eiOld i) s" "1 \<le> tdReplacements d" "eiAll i \<or> tdReplacements d = 1"
    and u: "teNode (Edit_Execute i (fwState w) x y (fwFiles w k) review answered) = Some (Regular (replace_n (eiAll i) (eiOld i) (eiNew i) s))"
      "tdSHA d = sha256_hex (replace_n (eiAll i) (eiOld i) (eiNew i) s)"
      "teState (Edit_Execute i (fwState w) x y (fwFiles w k) review answered)
        = RecordEdit (eiFile i) (eiOld i) (eiNew i) (eiAll i) (sha256_hex (replace_n (eiAll i) (eiOld i) (eiNew i) s)) (fwState w)"
    by (rule edit_done[OF assms(4)])
  obtain ob where ob: "fwState w (path_clean (eiFile i)) = Some ob" "expected = obSha ob" "contains (obText ob) (eiOld i)" "\<not> contains_nul (eiOld i)"
    "eiAll i \<longrightarrow> obComplete ob"
    using e(1) by (auto simp: ExpectedEdit_def split: option.splits if_splits)
  obtain v where v: "versions_after Map.empty (fwLog w) (path_clean (eiFile i)) = Some v" "sees v ob" "v \<in> H"
    by (rule seen_version[OF assms(1) ob(1)])
  have "s \<in> H" using assms(3) e(4) by (simp add: node_in_def)
  moreover have "c \<in> H" using assms(1) e(5) unfolding file_inv_def contents_in_def by blast
  moreover have "sha256_hex v = sha256_hex s" using e(7) ob(2) v(2) equal_fold_sha[OF validSHA_sha256] by (simp add: sees_def)
  ultimately have "c = v" "s = v" using assms(2) e(6) v(3) by (simp_all add: inj_on_def)
  with u have w: "teNode (Edit_Execute i (fwState w) x y (fwFiles w k) review answered) = Some (Regular (replace_n (eiAll i) (eiOld i) (eiNew i) v))"
    "tdSHA d = sha256_hex (replace_n (eiAll i) (eiOld i) (eiNew i) v)"
    "teState (Edit_Execute i (fwState w) x y (fwFiles w k) review answered)
      = RecordEdit (eiFile i) (eiOld i) (eiNew i) (eiAll i) (tdSHA d) (fwState w)" by simp_all
  have "fwFiles w k = Some (Regular v)" "tdReplacements d = count_of (eiOld i) v" using e(5,8) \<open>c = v\<close> \<open>s = v\<close> by simp_all
  then show thesis using that[OF ob(1) v(2,3,1) _ sees_contains[OF v(2) ob(3,4)] _ e(10) ob(5) e(2) w] by blast
qed

lemma file_inv_step:
  assumes "file_step H loc media w w'" "file_inv H w" "inj_on sha256_hex H"
  shows "file_inv H w'"
  using assms(1)
proof cases
  case (read_file i r c)
  obtain c' where "fwFiles w (loc (read_path i)) = Some (Regular c')" "genuine c' r" "rcPath (rrReceipt r) = read_path i" "trim_space (read_path i) \<noteq> []"
    by (rule Read_Execute_genuine[OF read_file(2)])
  moreover then have "rcPath (rrReceipt r) \<noteq> []" by (auto simp: trim_space_def)
  ultimately have "event_ok (versions_after Map.empty (fwLog w)) (ReadSeen r) c" using read_file(3) by simp
  moreover have "c \<in> H" "contents_in H (fwFiles w)" using assms(2) read_file(3) unfolding file_inv_def contents_in_def by blast+
  ultimately have "file_inv H (w\<lparr>fwFiles := fwFiles w, fwState := see (ReadSeen r) (fwState w), fwLog := fwLog w @ [(ReadSeen r, c)]\<rparr>)"
    by (rule inv_event[OF assms(2,3)])
  then show ?thesis by (simp add: read_file(1))
next
  case (write_file e i x review answered)
  let ?fs = "(fwFiles w)(loc (write_path i) := teNode e)"
  have fs: "contents_in H ?fs" using assms(2) write_file(3) by (simp add: contents_update file_inv_def)
  show ?thesis
  proof (cases "teOutcome e")
    case (Inl err)
    then have "teState e = fwState w" unfolding write_file(2) by (rule write_stopped)
    then show ?thesis using assms(2) write_file(1) Inl fs by (simp add: file_inv_def write_event_def)
  next
    case (Inr d)
    note wd = write_done[OF Inr[unfolded write_file(2)], folded write_file(2)]
    have d: "teNode e = Some (Regular (wiContent i))" by (rule wd)
    have d2: "tdSHA d = sha256_hex (wiContent i)" by (rule wd)
    have d3: "teState e = RecordWrite (write_path i) (wiContent i) (tdSHA d) (fwState w)" unfolding d2 by (rule wd)
    have "wiContent i \<in> H" using write_file(3) d by (simp add: node_in_def)
    then have "file_inv H (w\<lparr>fwFiles := ?fs, fwState := see (WriteSeen (write_path i) (wiContent i) (tdSHA d)) (fwState w),
        fwLog := fwLog w @ [(WriteSeen (write_path i) (wiContent i) (tdSHA d), wiContent i)]\<rparr>)"
      using d2 fs by (intro inv_event[OF assms(2,3)]) simp_all
    then show ?thesis by (simp add: write_file(1) write_event_def Inr d3)
  qed
next
  case (edit_file e i x y review answered)
  let ?k = "loc (eiFile i)"
  let ?fs = "(fwFiles w)(?k := teNode e)"
  have fs: "contents_in H ?fs" using assms(2) edit_file(4) by (simp add: contents_update file_inv_def)
  show ?thesis
  proof (cases "teOutcome e")
    case (Inl err)
    then have "teState e = fwState w" unfolding edit_file(2) by (rule edit_stopped)
    then show ?thesis using assms(2) edit_file(1) Inl fs by (simp add: file_inv_def edit_event_def)
  next
    case (Inr d)
    obtain v where v: "versions_after Map.empty (fwLog w) (path_clean (eiFile i)) = Some v"
      and e: "teNode e = Some (Regular (replace_n (eiAll i) (eiOld i) (eiNew i) v))" "tdSHA d = sha256_hex (replace_n (eiAll i) (eiOld i) (eiNew i) v)"
      "teState e = RecordEdit (eiFile i) (eiOld i) (eiNew i) (eiAll i) (tdSHA d) (fwState w)"
      by (rule edited_version[OF assms(2,3) edit_file(3) Inr[unfolded edit_file(2)], folded edit_file(2)])
    let ?u = "replace_n (eiAll i) (eiOld i) (eiNew i) v" and ?ev = "EditSeen (eiFile i) (eiOld i) (eiNew i) (eiAll i) (tdSHA d)"
    have "?u \<in> H" using edit_file(4) e(1) by (simp add: node_in_def)
    then have "file_inv H (w\<lparr>fwFiles := ?fs, fwState := see ?ev (fwState w), fwLog := fwLog w @ [(?ev, ?u)]\<rparr>)"
      using v e(2) fs by (intro inv_event[OF assms(2,3)]) simp_all
    then show ?thesis by (simp add: edit_file(1) edit_event_def Inr e(1,3))
  qed
next
  case (somebody_else x k)
  then show ?thesis using assms(2) by (simp add: file_inv_def contents_update)
next
  case (new_turn n)
  then show ?thesis using assms(2,3) rebuilt_sound[of "fwLog w" H n] by (simp add: file_inv_def)
qed

lemma file_inv_reached:
  assumes "inj_on sha256_hex H" "file_start H w0" "(file_step H loc media)\<^sup>*\<^sup>* w0 w"
  shows "file_inv H w"
  using assms(3)
proof (induction rule: rtranclp_induct)
  case base
  then show ?case using assms(2) by (simp add: file_start_def file_inv_def sound_def rebuild_state_def)
next
  case (step w w')
  then show ?case using file_inv_step assms(1) by blast
qed

lemma reachable_inv: "inj_on sha256_hex H \<Longrightarrow> file_reachable H loc media w \<Longrightarrow> file_inv H w"
  unfolding file_reachable_def using file_inv_reached by blast

end
