(* ===== verification/FileLocks.thy ===== *)
theory FileLocks
  imports FileWrites
begin

text \<open>
  Writers of one path that run at the same time: the steps of \<open>atomicWrite\<close> with the lock of the path
  (\<open>lockFile\<close> of \<open>toolboxfs/lock_unix.go\<close>), which the system releases when its holder dies.  Programs that
  do not take the lock may change the file too.
\<close>

section \<open>The writers\<close>

datatype write_phase =
    Preparing
  | Waiting
  | Holding
  | Checked
  | Ended "file_err + write_done"

record write_job =
  wjContent :: string
  wjExpected :: string
  wjCreate :: bool
  wjPhase :: write_phase

text \<open>\<open>lwTouched\<close>: somebody without the lock has changed the file since it was taken.\<close>

record lock_world =
  lwFile :: "node option"
  lwHolder :: "nat option"
  lwTouched :: bool
  lwJobs :: "nat \<Rightarrow> write_job option"
  lwDone :: "write_job list"

definition put_job :: "nat \<Rightarrow> write_job \<Rightarrow> write_phase \<Rightarrow> lock_world \<Rightarrow> lock_world" where
  "put_job j v p w = w\<lparr>lwJobs := (lwJobs w)(j \<mapsto> v\<lparr>wjPhase := p\<rparr>)\<rparr>"

definition lock_start :: "node option \<Rightarrow> lock_world" where
  "lock_start x = \<lparr>lwFile = x, lwHolder = None, lwTouched = False, lwJobs = \<lambda>_. None, lwDone = []\<rparr>"

definition write_receipt :: "write_job \<Rightarrow> write_done" where
  "write_receipt v = \<lparr>wdBytes = length (wjContent v), wdSHA = sha256_hex (wjContent v)\<rparr>"

inductive lock_step :: "bool \<Rightarrow> lock_world \<Rightarrow> lock_world \<Rightarrow> bool" for intruders where
  begin_write:
    "lwJobs w j = None \<Longrightarrow> wjPhase v = Preparing \<Longrightarrow> lock_step intruders w (w\<lparr>lwJobs := (lwJobs w)(j \<mapsto> v)\<rparr>)"
| prepared:
    "lwJobs w j = Some v \<Longrightarrow> wjPhase v = Preparing \<Longrightarrow> prepare_write (wjContent v) (lwFile w) = Inr t \<Longrightarrow>
     lock_step intruders w (put_job j v Waiting w)"
| not_prepared:
    "lwJobs w j = Some v \<Longrightarrow> wjPhase v = Preparing \<Longrightarrow> prepare_write (wjContent v) (lwFile w) = Inl e \<Longrightarrow>
     lock_step intruders w (put_job j v (Ended (Inl e)) w)"
| lock_taken:
    "lwJobs w j = Some v \<Longrightarrow> wjPhase v = Waiting \<Longrightarrow> lwHolder w = None \<Longrightarrow>
     lock_step intruders w (put_job j v Holding (w\<lparr>lwHolder := Some j, lwTouched := False\<rparr>))"
| version_checked:
    "lwJobs w j = Some v \<Longrightarrow> wjPhase v = Holding \<Longrightarrow> check_version (wjExpected v) (lwFile w) = Inr () \<Longrightarrow>
     lock_step intruders w (put_job j v Checked (w\<lparr>lwTouched := False\<rparr>))"
| version_refused:
    "lwJobs w j = Some v \<Longrightarrow> wjPhase v = Holding \<Longrightarrow> check_version (wjExpected v) (lwFile w) = Inl e \<Longrightarrow>
     lock_step intruders w (put_job j v (Ended (Inl e)) (w\<lparr>lwHolder := None\<rparr>))"
| published:
    "lwJobs w j = Some v \<Longrightarrow> wjPhase v = Checked \<Longrightarrow> publish (wjCreate v) (wjContent v) (lwFile w) = Inr y \<Longrightarrow>
     lock_step intruders w (put_job j v (Ended (Inr (write_receipt v))) (w\<lparr>lwFile := Some y, lwHolder := None, lwDone := lwDone w @ [v]\<rparr>))"
| not_published:
    "lwJobs w j = Some v \<Longrightarrow> wjPhase v = Checked \<Longrightarrow> publish (wjCreate v) (wjContent v) (lwFile w) = Inl e \<Longrightarrow>
     lock_step intruders w (put_job j v (Ended (Inl e)) (w\<lparr>lwHolder := None\<rparr>))"
| writer_dies:
    "lwJobs w j = Some v \<Longrightarrow>
     lock_step intruders w (w\<lparr>lwJobs := (lwJobs w)(j := None), lwHolder := (if lwHolder w = Some j then None else lwHolder w)\<rparr>)"
| intrusion:
    "intruders \<Longrightarrow> lock_step intruders w (w\<lparr>lwFile := x, lwTouched := True\<rparr>)"

definition lock_reachable :: "bool \<Rightarrow> node option \<Rightarrow> lock_world \<Rightarrow> bool" where
  "lock_reachable intruders x w = (lock_step intruders)\<^sup>*\<^sup>* (lock_start x) w"

section \<open>The specification\<close>

text \<open>A file that is written by whole atomic writes only, in an order.\<close>

fun replay_writes :: "write_job list \<Rightarrow> node option \<Rightarrow> node option option" where
  "replay_writes [] x = Some x"
| "replay_writes (v # vs) x =
     (case atomicWrite (wjContent v) (wjExpected v) (wjCreate v) x of Inl e \<Rightarrow> None | Inr y \<Rightarrow> replay_writes vs (Some y))"

lemma replay_snoc:
  "replay_writes (vs @ [v]) x = (case replay_writes vs x of None \<Rightarrow> None
     | Some y \<Rightarrow> (case atomicWrite (wjContent v) (wjExpected v) (wjCreate v) y of Inl e \<Rightarrow> None | Inr z \<Rightarrow> Some (Some z)))"
  by (induction vs arbitrary: x) (auto split: sum.splits)

section \<open>The lock keeps it\<close>

definition job_ok :: "lock_world \<Rightarrow> nat \<Rightarrow> write_job \<Rightarrow> bool" where
  "job_ok w j v = (case wjPhase v of
       Preparing \<Rightarrow> lwHolder w \<noteq> Some j
     | Waiting \<Rightarrow> lwHolder w \<noteq> Some j \<and> length (wjContent v) \<le> MaxFileBytes
     | Holding \<Rightarrow> lwHolder w = Some j \<and> length (wjContent v) \<le> MaxFileBytes
     | Checked \<Rightarrow> lwHolder w = Some j \<and> length (wjContent v) \<le> MaxFileBytes \<and>
         (\<not> lwTouched w \<longrightarrow> check_version (wjExpected v) (lwFile w) = Inr ())
     | Ended r \<Rightarrow> lwHolder w \<noteq> Some j)"

definition file_lock_inv :: "lock_world \<Rightarrow> bool" where
  "file_lock_inv w = ((\<forall>j v. lwJobs w j = Some v \<longrightarrow> job_ok w j v) \<and> (\<forall>j. lwHolder w = Some j \<longrightarrow> lwJobs w j \<noteq> None))"

lemma prepare_small: "prepare_write content x = Inr t \<Longrightarrow> length content \<le> MaxFileBytes"
  by (simp add: prepare_write_def split: if_splits)

lemma lock_inv_put:
  assumes "file_lock_inv w" "lwJobs w' = (lwJobs w)(j := v)" "\<And>u. v = Some u \<Longrightarrow> job_ok w' j u"
    "lwHolder w' = lwHolder w \<or> lwHolder w \<in> {None, Some j} \<and> lwHolder w' \<in> {None, Some j}" "lwHolder w' = Some j \<Longrightarrow> v \<noteq> None"
    "\<And>i. lwHolder w = Some i \<Longrightarrow> i \<noteq> j \<Longrightarrow> lwFile w' = lwFile w \<and> lwTouched w' = lwTouched w"
  shows "file_lock_inv w'"
proof -
  have "job_ok w' i u" if "lwJobs w i = Some u" "i \<noteq> j" for i u
  proof -
    have "job_ok w i u" using assms(1) that(1) by (simp add: file_lock_inv_def)
    moreover have "(lwHolder w' = Some i) = (lwHolder w = Some i)" using assms(4) that(2) by auto
    ultimately show ?thesis using assms(6)[of i] that(2) by (auto simp: job_ok_def split: write_phase.splits)
  qed
  moreover have "lwJobs w i \<noteq> None" if "lwHolder w' = Some i" "i \<noteq> j" for i
    using that assms(1,4) by (auto simp: file_lock_inv_def)
  ultimately show ?thesis using assms(2,3,5) by (auto simp: file_lock_inv_def)
qed

lemma lock_inv_step:
  assumes "lock_step intruders w w'" "file_lock_inv w"
  shows "file_lock_inv w'"
proof -
  have ok: "job_ok w j v" if "lwJobs w j = Some v" for j v using assms(2) that by (simp add: file_lock_inv_def)
  have held: "lwJobs w j \<noteq> None" if "lwHolder w = Some j" for j using assms(2) that by (simp add: file_lock_inv_def)
  from assms(1) show ?thesis
  proof cases
    case (begin_write j v)
    with held show ?thesis by (intro lock_inv_put[OF assms(2), of _ j "Some v"]) (auto simp: job_ok_def)
  next
    case (writer_dies j v)
    then show ?thesis by (intro lock_inv_put[OF assms(2), of _ j None]) (auto split: if_splits)
  next
    case intrusion
    then show ?thesis using assms(2) by (auto simp: file_lock_inv_def job_ok_def split: write_phase.splits)
  next
    case (prepared j v t)
    with ok[of j v] show ?thesis
      by (intro lock_inv_put[OF assms(2), of _ j "Some (v\<lparr>wjPhase := Waiting\<rparr>)"]) (auto simp: put_job_def job_ok_def dest: prepare_small)
  next
    case (not_prepared j v e)
    with ok[of j v] show ?thesis
      by (intro lock_inv_put[OF assms(2), of _ j "Some (v\<lparr>wjPhase := Ended (Inl e)\<rparr>)"]) (auto simp: put_job_def job_ok_def)
  next
    case (lock_taken j v)
    with ok[of j v] show ?thesis
      by (intro lock_inv_put[OF assms(2), of _ j "Some (v\<lparr>wjPhase := Holding\<rparr>)"]) (auto simp: put_job_def job_ok_def)
  next
    case (version_checked j v)
    with ok[of j v] show ?thesis
      by (intro lock_inv_put[OF assms(2), of _ j "Some (v\<lparr>wjPhase := Checked\<rparr>)"]) (auto simp: put_job_def job_ok_def)
  next
    case (version_refused j v e)
    with ok[of j v] show ?thesis
      by (intro lock_inv_put[OF assms(2), of _ j "Some (v\<lparr>wjPhase := Ended (Inl e)\<rparr>)"]) (auto simp: put_job_def job_ok_def)
  next
    case (published j v y)
    with ok[of j v] show ?thesis
      by (intro lock_inv_put[OF assms(2), of _ j "Some (v\<lparr>wjPhase := Ended (Inr (write_receipt v))\<rparr>)"]) (auto simp: put_job_def job_ok_def)
  next
    case (not_published j v e)
    with ok[of j v] show ?thesis
      by (intro lock_inv_put[OF assms(2), of _ j "Some (v\<lparr>wjPhase := Ended (Inl e)\<rparr>)"]) (auto simp: put_job_def job_ok_def)
  qed
qed

lemma lock_inv_reachable: "lock_reachable intruders x w \<Longrightarrow> file_lock_inv w"
proof -
  assume "lock_reachable intruders x w"
  then have "(lock_step intruders)\<^sup>*\<^sup>* (lock_start x) w" by (simp add: lock_reachable_def)
  then show ?thesis
  proof (induction rule: rtranclp_induct)
    case base
    then show ?case by (simp add: lock_start_def file_lock_inv_def)
  qed (rule lock_inv_step)
qed

lemma publish_is_write:
  assumes "file_lock_inv w" "lwJobs w j = Some v" "wjPhase v = Checked" "publish (wjCreate v) (wjContent v) (lwFile w) = Inr y" "\<not> lwTouched w"
  shows "atomicWrite (wjContent v) (wjExpected v) (wjCreate v) (lwFile w) = Inr y"
proof -
  have ok: "length (wjContent v) \<le> MaxFileBytes" "check_version (wjExpected v) (lwFile w) = Inr ()"
    using assms(1-3,5) by (auto simp: file_lock_inv_def job_ok_def split: write_phase.splits)
  then have "prepare_write (wjContent v) (lwFile w) = Inr (wjContent v)" by (auto simp: prepare_write_def check_version_def split: if_splits)
  with ok assms(4) show ?thesis by (simp add: atomicWrite_def)
qed

lemma untouched: "lock_reachable False x w \<Longrightarrow> \<not> lwTouched w"
  unfolding lock_reachable_def
  by (induction rule: rtranclp_induct) (auto simp: lock_start_def put_job_def elim: lock_step.cases)

lemma writes_in_order: "lock_reachable False x w \<Longrightarrow> replay_writes (lwDone w) x = Some (lwFile w)"
proof -
  assume r: "lock_reachable False x w"
  have "(lock_step False)\<^sup>*\<^sup>* (lock_start x) w" using r by (simp add: lock_reachable_def)
  then show ?thesis
  proof (induction rule: rtranclp_induct)
    case (step w w')
    have inv: "file_lock_inv w" "\<not> lwTouched w" using step(1) lock_inv_reachable[of False x w] untouched[of x w] by (simp_all add: lock_reachable_def)
    from step(2) show ?case
    proof cases
      case (published j v y)
      with publish_is_write[OF inv(1) published(2-4) inv(2)] step(3) show ?thesis by (simp add: put_job_def replay_snoc)
    qed (use step(3) in \<open>simp_all add: put_job_def\<close>)
  qed (simp add: lock_start_def)
qed

text \<open>An answer of success belongs to a write that was made.\<close>

lemma answers_are_done:
  assumes "lock_reachable intruders x w" "lwJobs w j = Some v" "wjPhase v = Ended (Inr r)"
  shows "\<exists>u \<in> set (lwDone w). v = u\<lparr>wjPhase := wjPhase v\<rparr> \<and> r = write_receipt u"
proof -
  have "(lock_step intruders)\<^sup>*\<^sup>* (lock_start x) w" using assms(1) by (simp add: lock_reachable_def)
  then show ?thesis using assms(2,3)
  proof (induction arbitrary: j v r rule: rtranclp_induct)
    case (step w w')
    have old: "\<exists>u \<in> set (lwDone w). v = u\<lparr>wjPhase := wjPhase v\<rparr> \<and> r = write_receipt u"
      if "lwJobs w i = Some v" "wjPhase v = Ended (Inr r)" for i v r using step.IH that .
    from step.hyps(2) show ?case
      using step.prems old by cases (auto simp: put_job_def split: if_splits)
  qed (simp add: lock_start_def)
qed

end
