(* ===== verification/FilePaths.thy ===== *)
theory FilePaths
  imports FileWrites "HOL-Library.Sublist"
begin

text \<open>
  The paths of the file protocol: how a target is resolved under the workspace root
  (\<open>toolboxfs/toolbox.go\<close>), with the parts of \<open>path/filepath\<close> it uses on Unix.  What the file system says
  is a parameter: \<open>real\<close> is \<open>EvalSymlinks\<close>, \<open>look\<close> is \<open>Lstat\<close>, each at one moment.
\<close>

section \<open>Package filepath\<close>

definition path_parts :: "string \<Rightarrow> string list" where
  "path_parts p = (if p = [] then [] else if p = ''/'' then [[]] else split_char (CHR ''/'') p)"

fun strip_common :: "string list \<Rightarrow> string list \<Rightarrow> string list \<times> string list" where
  "strip_common (b # bs) (t # ts) = (if b = t then strip_common bs ts else (b # bs, t # ts))"
| "strip_common bs ts = (bs, ts)"

text \<open>\<open>filepath.Rel\<close>; \<open>None\<close> is its error.\<close>

definition rel_path :: "string \<Rightarrow> string \<Rightarrow> string option" where
  "rel_path basepath targpath =
     (let base = path_clean basepath; targ = path_clean targpath in
      if targ = base then Some ''.''
      else
        let base' = (if base = ''.'' then [] else base) in
        if is_abs base' \<noteq> is_abs targ then None
        else (case strip_common (path_parts base') (path_parts targ) of
            ([], ts) \<Rightarrow> Some (join ''/'' ts)
          | (b # bs, ts) \<Rightarrow> if b = ''..'' \<and> ts \<noteq> [] then None
              else Some (join ''/'' (replicate (length (b # bs)) ''..'' @ ts))))"

definition base_name :: "string \<Rightarrow> string" where
  "base_name p =
     (if p = [] then ''.''
      else let q = rev (dropWhile (\<lambda>c. c = CHR ''/'') (rev p)) in
        if q = [] then ''/'' else last (split_char (CHR ''/'') q))"

definition dir_name :: "string \<Rightarrow> string" where
  "dir_name p = path_clean (rev (dropWhile (\<lambda>c. c \<noteq> CHR ''/'') (rev p)))"

section \<open>The workspace root\<close>

definition within :: "string \<Rightarrow> string \<Rightarrow> bool" where
  "within root target =
     (case rel_path (path_clean root) (path_clean target) of
        None \<Rightarrow> False
      | Some r \<Rightarrow> \<not> is_abs r \<and> (r = ''.'' \<or> r \<noteq> ''..'' \<and> \<not> has_prefix r ''../''))"

definition lexicalTarget :: "string \<Rightarrow> string \<Rightarrow> file_err + string" where
  "lexicalTarget root target =
     (let v = trim_space target; v' = (if v = [] then ''.'' else v);
          candidate = path_clean (if is_abs v' then v' else path_join [root, v'])
      in if within root candidate then Inr candidate else Inl (FilePath ''path escapes workspace root''))"

text \<open>\<open>cwd\<close>: the working directory of the helper, which \<open>filepath.Abs\<close> puts in front of a relative path.\<close>

definition prepareRoot :: "string \<Rightarrow> (string \<Rightarrow> string option) \<Rightarrow> string \<Rightarrow> file_err + (string \<times> string)" where
  "prepareRoot cwd real root =
     (let cleaned = path_clean (trim_space root);
          rootPath = (if is_abs cleaned then cleaned else path_join [cwd, cleaned])
      in if trim_space root = [] then Inl (FilePath ''invalid workspace root'')
         else (case real rootPath of
             None \<Rightarrow> Inl (FilePath ''resolve workspace root'')
           | Some rootReal \<Rightarrow>
               if path_clean rootReal \<noteq> path_clean rootPath then Inl (FilePath ''workspace root must not contain symbolic links'')
               else Inr (rootPath, rootReal)))"

definition resolveExisting :: "string \<Rightarrow> (string \<Rightarrow> string option) \<Rightarrow> string \<Rightarrow> string \<Rightarrow> file_err + (string \<times> string)" where
  "resolveExisting cwd real root target =
     bindr (prepareRoot cwd real root) (\<lambda>(rootPath, rootReal).
     bindr (lexicalTarget rootPath target) (\<lambda>candidate.
     (case real candidate of
        None \<Rightarrow> Inl (FilePath ''resolve path'')
      | Some resolved \<Rightarrow>
          if within rootReal resolved then Inr (rootReal, resolved) else Inl (FilePath ''path escapes workspace root''))))"

text \<open>The nearest directory above the target that is there; the first argument bounds the steps up.\<close>

datatype looked = There | NotThere | LookFailed

fun find_probe :: "nat \<Rightarrow> (string \<Rightarrow> looked) \<Rightarrow> string \<Rightarrow> file_err + string" where
  "find_probe n look probe =
     (case look probe of
        There \<Rightarrow> Inr probe
      | LookFailed \<Rightarrow> Inl (FilePath ''inspect write parent'')
      | NotThere \<Rightarrow>
          if dir_name probe = probe then Inl (FilePath ''unable to resolve write parent'')
          else (case n of 0 \<Rightarrow> Inl (FilePath ''unable to resolve write parent'') | Suc m \<Rightarrow> find_probe m look (dir_name probe)))"

text \<open>
  \<open>real\<close> and \<open>look\<close> are the file system before the missing directories are created, \<open>real'\<close> after.
  The result: the root, the parent and the destination.
\<close>

definition write_parent ::
  "(string \<Rightarrow> string option) \<Rightarrow> (string \<Rightarrow> looked) \<Rightarrow> (string \<Rightarrow> string option) \<Rightarrow> string \<Rightarrow> string \<Rightarrow> file_err + string" where
  "write_parent real look real' rootReal parent =
     bindr (find_probe (length parent) look parent) (\<lambda>probe.
     (case real probe of
        None \<Rightarrow> Inl (FilePath ''resolve write parent'')
      | Some probeReal \<Rightarrow>
          if \<not> within rootReal probeReal then Inl (FilePath ''path escapes workspace root through a symbolic link'')
          else (case rel_path probe parent of
              None \<Rightarrow> Inl (FilePath ''resolve write parent suffix'')
            | Some below \<Rightarrow>
                (case real' (path_join [probeReal, below]) of
                   None \<Rightarrow> Inl (FilePath ''resolve created write parent'')
                 | Some parentReal \<Rightarrow>
                     if \<not> within rootReal parentReal then Inl (FilePath ''path escapes workspace root through a symbolic link'')
                     else Inr parentReal))))"

definition resolveWriteTarget ::
  "string \<Rightarrow> (string \<Rightarrow> string option) \<Rightarrow> (string \<Rightarrow> looked) \<Rightarrow> (string \<Rightarrow> string option) \<Rightarrow> string \<Rightarrow> string
    \<Rightarrow> file_err + (string \<times> string \<times> string)" where
  "resolveWriteTarget cwd real look real' root target =
     bindr (prepareRoot cwd real root) (\<lambda>(rootPath, rootReal).
     bindr (lexicalTarget rootPath target) (\<lambda>candidate.
     if path_clean candidate = path_clean rootPath then Inl (FilePath ''file path must not be the workspace root'')
     else bindr (write_parent real look real' rootReal (dir_name candidate)) (\<lambda>parentReal.
       Inr (rootReal, parentReal, path_join [parentReal, base_name candidate]))))"

section \<open>Listing a directory\<close>

record dir_item =
  diName :: string
  diDir :: bool
  diSize :: int
  diTime :: int

record dir_entry =
  deName :: string
  dePath :: string
  deDir :: bool
  deSize :: int
  deTime :: int

definition MaxDirectoryItems :: nat where
  "MaxDirectoryItems = 500"

text \<open>\<open>dirs\<close> is \<open>ReadDir\<close> with each item's information, \<open>None\<close> where that fails.\<close>

fun list_entries :: "string \<Rightarrow> string \<Rightarrow> (string \<times> dir_item option) list \<Rightarrow> file_err + dir_entry list" where
  "list_entries rootPath resolved [] = Inr []"
| "list_entries rootPath resolved ((name, info) # items) =
     (case info of
        None \<Rightarrow> Inl (FilePath (''stat '' @ name))
      | Some f \<Rightarrow>
          (case rel_path rootPath (path_join [resolved, name]) of
             None \<Rightarrow> Inl (FilePath ''resolve relative path'')
           | Some relative \<Rightarrow> bindr (list_entries rootPath resolved items) (\<lambda>es.
               Inr (\<lparr>deName = name, dePath = relative, deDir = diDir f, deSize = diSize f, deTime = diTime f\<rparr> # es))))"

definition List_dir ::
  "string \<Rightarrow> (string \<Rightarrow> string option) \<Rightarrow> (string \<Rightarrow> (string \<times> dir_item option) list option) \<Rightarrow> string \<Rightarrow> string
    \<Rightarrow> file_err + dir_entry list" where
  "List_dir cwd real dirs root target =
     bindr (resolveExisting cwd real root target) (\<lambda>(rootPath, resolved).
     (case dirs resolved of
        None \<Rightarrow> Inl (FilePath ''list directory'')
      | Some items \<Rightarrow>
          if MaxDirectoryItems < length items then Inl (FilePath ''directory contains too many entries'')
          else list_entries rootPath resolved items))"

lemma list_entries_names: "list_entries rootPath resolved items = Inr es \<Longrightarrow> map deName es = map fst items"
  by (induction items arbitrary: es) (auto simp: bindr_eq_Inr split: option.splits)

lemma List_dir_names:
  assumes "List_dir cwd real dirs root target = Inr es"
  obtains rootReal resolved items where "resolveExisting cwd real root target = Inr (rootReal, resolved)" "dirs resolved = Some items"
    "map deName es = map fst items" "length es \<le> MaxDirectoryItems"
proof -
  obtain rootReal resolved items where r: "resolveExisting cwd real root target = Inr (rootReal, resolved)" "dirs resolved = Some items"
    "length items \<le> MaxDirectoryItems" "list_entries rootReal resolved items = Inr es"
    using assms by (auto simp: List_dir_def bindr_eq_Inr split: option.splits if_splits)
  then have names: "map deName es = map fst items" by (intro list_entries_names)
  then have "length es = length items" by (metis length_map)
  with r names show thesis by (intro that) auto
qed

section \<open>The elements of a path\<close>

definition proper :: "string \<Rightarrow> bool" where
  "proper e = (e \<noteq> [] \<and> e \<noteq> ''.'' \<and> e \<noteq> ''..'' \<and> CHR ''/'' \<notin> set e)"

definition abs_path :: "string list \<Rightarrow> string" where
  "abs_path es = ''/'' @ join ''/'' es"

text \<open>The elements of an absolute path, cleaned.\<close>

definition path_elems :: "string \<Rightarrow> string list" where
  "path_elems p = clean_elems True [] (split_char (CHR ''/'') p)"

lemma split_slash_free: "e \<in> set (split_char d s) \<Longrightarrow> d \<notin> set e"
  by (induction s arbitrary: e) (auto split: if_splits list.splits)

lemma clean_elems_proper:
  "\<forall>e \<in> set es. CHR ''/'' \<notin> set e \<Longrightarrow> list_all proper acc \<Longrightarrow> list_all proper (clean_elems True acc es)"
proof (induction True acc es rule: clean_elems.induct)
  case (1 acc)
  then show ?case by (simp add: list_all_iff)
next
  case (2 acc e es)
  then show ?case by (cases acc) (auto simp: proper_def)
qed

lemma clean_elems_keep: "list_all proper es \<Longrightarrow> clean_elems r acc (es @ fs) = clean_elems r (rev es @ acc) fs"
  by (induction es arbitrary: acc) (auto simp: proper_def)

lemma clean_elems_last: "proper e \<Longrightarrow> clean_elems r acc (es @ [e]) = clean_elems r acc es @ [e]"
  by (induction r acc es rule: clean_elems.induct) (auto simp: proper_def split: list.splits)

lemma path_elems_proper: "list_all proper (path_elems p)"
  unfolding path_elems_def by (rule clean_elems_proper) (auto dest: split_slash_free)

lemma clean_abs: "is_abs p \<Longrightarrow> path_clean p = abs_path (path_elems p)"
  by (simp add: path_clean_def is_abs_def path_elems_def abs_path_def Let_def)

lemma split_abs: "list_all proper es \<Longrightarrow> split_char (CHR ''/'') (abs_path es) = [] # (if es = [] then [[]] else es)"
  using split_join[of es "CHR ''/''"] by (auto simp: abs_path_def proper_def list_all_iff)

lemma elems_abs [simp]: "list_all proper es \<Longrightarrow> path_elems (abs_path es) = es"
  using clean_elems_keep[of es True "[]" "[]"] by (auto simp: path_elems_def split_abs)

lemma is_abs_path [simp]: "is_abs (abs_path es)"
  by (simp add: is_abs_def abs_path_def has_prefix_def)

lemma clean_abs_path: "list_all proper es \<Longrightarrow> path_clean (abs_path es) = abs_path es"
  by (simp add: clean_abs)

section \<open>Containment\<close>

lemma parts_abs: "list_all proper es \<Longrightarrow> path_parts (abs_path es) = [] # es"
proof (cases "es = []")
  case False
  assume es: "list_all proper es"
  have "abs_path es \<noteq> ''/''" using False es by (cases es; cases "tl es") (auto simp: abs_path_def proper_def)
  moreover have "abs_path es \<noteq> []" by (simp add: abs_path_def)
  ultimately show ?thesis using split_abs[OF es] False by (simp add: path_parts_def)
qed (simp add: path_parts_def abs_path_def)

lemma strip_common_split:
  "strip_common bs ts = (b', t') \<Longrightarrow> \<exists>ks. bs = ks @ b' \<and> ts = ks @ t' \<and> (b' \<noteq> [] \<longrightarrow> t' \<noteq> [] \<longrightarrow> hd b' \<noteq> hd t')"
proof (induction bs ts rule: strip_common.induct)
  case (1 b bs t ts)
  show ?case
  proof (cases "b = t")
    case True
    with 1 obtain ks where "bs = ks @ b' \<and> ts = ks @ t' \<and> (b' \<noteq> [] \<longrightarrow> t' \<noteq> [] \<longrightarrow> hd b' \<noteq> hd t')" by auto
    with True show ?thesis by (intro exI[of _ "b # ks"]) simp
  qed (use 1 in auto)
qed auto

lemma join_not_dot: "join ''/'' (''..'' # ts) \<noteq> ''.''"
  by (cases ts) auto

lemma join_dots: "join ''/'' (''..'' # ts) = ''..'' \<or> has_prefix (join ''/'' (''..'' # ts)) ''../''"
  by (cases ts) (auto simp: has_prefix_def)

lemma join_proper:
  assumes "list_all proper (t # ts)"
  shows "\<not> is_abs (join ''/'' (t # ts))" "join ''/'' (t # ts) \<noteq> ''..''" "\<not> has_prefix (join ''/'' (t # ts)) ''../''"
proof -
  have s: "split_char (CHR ''/'') (join ''/'' (t # ts)) = t # ts"
    using assms by (intro split_join) (auto simp: proper_def list_all_iff)
  have t: "t \<noteq> []" "t \<noteq> ''..''" using assms by (auto simp: proper_def)
  show "\<not> is_abs (join ''/'' (t # ts))"
  proof
    assume "is_abs (join ''/'' (t # ts))"
    then obtain u where "join ''/'' (t # ts) = CHR ''/'' # u" by (auto simp: is_abs_def has_prefix_iff)
    with s t(1) show False by simp
  qed
  show "join ''/'' (t # ts) \<noteq> ''..''"
  proof
    assume "join ''/'' (t # ts) = ''..''"
    with s t(2) show False by simp
  qed
  show "\<not> has_prefix (join ''/'' (t # ts)) ''../''"
  proof
    assume "has_prefix (join ''/'' (t # ts)) ''../''"
    then obtain u where "join ''/'' (t # ts) = ''..'' @ CHR ''/'' # u" by (auto simp: has_prefix_iff)
    then have "split_char (CHR ''/'') (join ''/'' (t # ts)) = ''..'' # split_char (CHR ''/'') u"
      by (simp only: split_char_append_sep) simp
    with s t(2) show False by simp
  qed
qed

lemma within_elems:
  assumes "list_all proper bs" "list_all proper ts"
  shows "within (abs_path bs) (abs_path ts) \<longleftrightarrow> prefix bs ts"
proof -
  have c: "path_clean (abs_path bs) = abs_path bs" "path_clean (abs_path ts) = abs_path ts" using assms by (simp_all add: clean_abs_path)
  have w: "within (abs_path bs) (abs_path ts) = (case rel_path (abs_path bs) (abs_path ts) of None \<Rightarrow> False
      | Some r \<Rightarrow> \<not> is_abs r \<and> (r = ''.'' \<or> r \<noteq> ''..'' \<and> \<not> has_prefix r ''../''))" by (simp add: within_def c)
  have inj: "abs_path ts = abs_path bs \<longleftrightarrow> ts = bs" using elems_abs[OF assms(1)] elems_abs[OF assms(2)] by metis
  have nd: "abs_path bs \<noteq> ''.''" by (simp add: abs_path_def)
  have rel: "rel_path (abs_path bs) (abs_path ts) = (if ts = bs then Some ''.''
      else (case strip_common ([] # bs) ([] # ts) of
          ([], us) \<Rightarrow> Some (join ''/'' us)
        | (b # cs, us) \<Rightarrow> if b = ''..'' \<and> us \<noteq> [] then None else Some (join ''/'' (replicate (length (b # cs)) ''..'' @ us))))"
    by (simp add: rel_path_def c nd inj parts_abs assms Let_def)
  obtain b' t' where st: "strip_common ([] # bs) ([] # ts) = (b', t')" by (cases "strip_common ([] # bs) ([] # ts)")
  then obtain ks where ks: "bs = ks @ b'" "ts = ks @ t'" "b' \<noteq> [] \<longrightarrow> t' \<noteq> [] \<longrightarrow> hd b' \<noteq> hd t'"
    using strip_common_split[of bs ts b' t'] by auto
  show ?thesis
  proof (cases "ts = bs")
    case True
    then show ?thesis unfolding w rel by (simp add: is_abs_def has_prefix_def)
  next
    case False
    show ?thesis
    proof (cases b')
      case Nil
      with False ks obtain t u where "t' = t # u" by (cases t') auto
      moreover then have "list_all proper (t # u)" using assms(2) ks(2) by simp
      ultimately show ?thesis unfolding w rel using Nil ks st False join_proper[of t u] by simp
    next
      case (Cons b u)
      then have "b \<noteq> ''..''" using assms(1) ks(1) by (auto simp: proper_def)
      then have "\<not> within (abs_path bs) (abs_path ts)"
        unfolding w rel using st Cons False join_dots[of "replicate (length u) ''..'' @ t'"]
          join_not_dot[of "replicate (length u) ''..'' @ t'"] by auto
      moreover have "\<not> prefix bs ts" using ks Cons by (cases t') (auto simp: prefix_def)
      ultimately show ?thesis by simp
    qed
  qed
qed

definition named :: "string \<Rightarrow> bool" where
  "named e = (e \<noteq> [] \<and> CHR ''/'' \<notin> set e)"

lemma clean_elems_named:
  "\<forall>e \<in> set es. CHR ''/'' \<notin> set e \<Longrightarrow> list_all named acc \<Longrightarrow> list_all named (clean_elems r acc es)"
proof (induction r acc es rule: clean_elems.induct)
  case (1 r acc)
  then show ?case by (simp add: list_all_iff)
next
  case (2 r acc e es)
  then show ?case by (cases acc) (auto simp: named_def)
qed

lemma clean_is_abs: "is_abs (path_clean p) = is_abs p"
proof (cases "is_abs p")
  case True
  then show ?thesis by (simp add: clean_abs)
next
  case False
  let ?es = "clean_elems False [] (split_char (CHR ''/'') p)"
  have es: "list_all named ?es"
    by (rule clean_elems_named) (auto dest: split_slash_free)
  have "\<not> is_abs (join ''/'' ?es)"
  proof (cases ?es)
    case (Cons e fs)
    then obtain a b where "e = a # b" "a \<noteq> CHR ''/''" using es by (cases e) (auto simp: named_def)
    then show ?thesis by (cases fs) (simp_all add: Cons is_abs_def has_prefix_def)
  qed (simp add: is_abs_def has_prefix_def)
  with False show ?thesis by (auto simp: path_clean_def is_abs_def Let_def) (simp add: has_prefix_def)
qed

lemma within_prefix:
  assumes "is_abs root" "within root target"
  shows "is_abs target \<and> prefix (path_elems root) (path_elems target)"
proof -
  have r: "path_clean root = abs_path (path_elems root)" using assms(1) by (rule clean_abs)
  have abs: "is_abs target"
  proof (rule ccontr)
    assume n: "\<not> is_abs target"
    have c: "path_clean (abs_path (path_elems root)) = abs_path (path_elems root)" by (simp add: clean_abs_path path_elems_proper)
    have "\<not> is_abs (path_clean (path_clean target))" using n by (simp add: clean_is_abs)
    moreover have "abs_path (path_elems root) \<noteq> ''.''" by (simp add: abs_path_def)
    moreover have "path_clean (path_clean target) \<noteq> abs_path (path_elems root)" using n clean_is_abs is_abs_path by metis
    ultimately have "rel_path (path_clean root) (path_clean target) = None" by (simp add: rel_path_def r c Let_def)
    with assms(2) show False by (simp add: within_def)
  qed
  then have t: "path_clean target = abs_path (path_elems target)" by (rule clean_abs)
  have "within (abs_path (path_elems root)) (abs_path (path_elems target))"
    using assms(2) by (simp add: within_def r t clean_abs_path path_elems_proper)
  with abs show ?thesis by (simp add: within_elems path_elems_proper)
qed

section \<open>Resolved paths\<close>

lemma prepared_abs:
  assumes "prepareRoot cwd real root = Inr (rootPath, rootReal)" "is_abs cwd"
  shows "is_abs rootPath" "is_abs rootReal" "path_elems rootReal = path_elems rootPath"
proof -
  let ?c = "path_clean (trim_space root)"
  have p: "rootPath = (if is_abs ?c then ?c else path_join [cwd, ?c])" "path_clean rootReal = path_clean rootPath"
    using assms(1) by (auto simp: prepareRoot_def Let_def split: option.splits if_splits)
  have "is_abs (path_join [cwd, v])" for v
  proof -
    obtain t where "cwd = CHR ''/'' # t" using assms(2) by (auto simp: is_abs_def has_prefix_iff)
    then show ?thesis by (cases "v = []") (simp_all add: path_join_def clean_is_abs, simp_all add: is_abs_def has_prefix_def)
  qed
  then show "is_abs rootPath" using p(1) by auto
  then show r: "is_abs rootReal" using p(2) clean_is_abs by metis
  show "path_elems rootReal = path_elems rootPath"
    using p(2) clean_abs[OF r] clean_abs[OF \<open>is_abs rootPath\<close>] elems_abs path_elems_proper by metis
qed

lemma join_last: "is_abs d \<Longrightarrow> proper b \<Longrightarrow> is_abs (path_join [d, b]) \<and> path_elems (path_join [d, b]) = path_elems d @ [b]"
proof -
  assume d: "is_abs d" and b: "proper b"
  have ne: "d \<noteq> []" "b \<noteq> []" using d b by (auto simp: is_abs_def has_prefix_def proper_def)
  have split: "split_char (CHR ''/'') (x @ CHR ''/'' # b) = split_char (CHR ''/'') x @ [b]" for x
    using b by (simp add: split_char_append split_char_plain proper_def)
  have j: "path_join [d, b] = path_clean (d @ CHR ''/'' # b)" using ne by (simp add: path_join_def)
  have a: "is_abs (d @ CHR ''/'' # b)" using d by (auto simp: is_abs_def has_prefix_iff)
  have "path_elems (d @ CHR ''/'' # b) = path_elems d @ [b]" by (simp add: path_elems_def split clean_elems_last[OF b])
  moreover have "path_elems (path_join [d, b]) = path_elems (d @ CHR ''/'' # b)" unfolding j clean_abs[OF a] by (simp add: path_elems_proper)
  ultimately show ?thesis unfolding j by (simp add: clean_is_abs a)
qed

lemma base_abs: "list_all proper (es @ [e]) \<Longrightarrow> base_name (abs_path (es @ [e])) = e"
proof -
  assume p: "list_all proper (es @ [e])"
  have "abs_path (es @ [e]) = (if es = [] then ''/'' else abs_path es @ ''/'') @ e" by (simp add: abs_path_def join_snoc)
  moreover have "e \<noteq> []" "last e \<noteq> CHR ''/''" using p by (auto simp: proper_def) (metis last_in_set)
  ultimately have "dropWhile (\<lambda>c. c = CHR ''/'') (rev (abs_path (es @ [e]))) = rev (abs_path (es @ [e]))"
    by (subst dropWhile_eq_self_iff) (auto simp: hd_rev)
  then show ?thesis using split_abs[OF p] by (simp add: base_name_def Let_def) (simp add: abs_path_def)
qed

lemma resolved_inside:
  assumes "resolveExisting cwd real root target = Inr (rootReal, resolved)" "is_abs cwd"
  shows "is_abs resolved \<and> prefix (path_elems rootReal) (path_elems resolved)"
proof -
  obtain rootPath where p: "prepareRoot cwd real root = Inr (rootPath, rootReal)" and w: "within rootReal resolved"
    using assms(1) by (auto simp: resolveExisting_def bindr_eq_Inr split: option.splits if_splits)
  from within_prefix[OF prepared_abs(2)[OF p assms(2)] w] show ?thesis .
qed

lemma lexical_clean:
  assumes "lexicalTarget root target = Inr candidate" "is_abs root"
  shows "candidate = abs_path (path_elems candidate)" "prefix (path_elems root) (path_elems candidate)" "is_abs candidate"
proof -
  have w: "within root candidate" using assms(1) by (auto simp: lexicalTarget_def Let_def split: if_splits)
  note ok = within_prefix[OF assms(2) w]
  obtain v where v: "candidate = path_clean v" using assms(1) by (auto simp: lexicalTarget_def Let_def split: if_splits)
  then have "is_abs v" using ok clean_is_abs by metis
  then show "candidate = abs_path (path_elems candidate)" using v by (metis clean_abs elems_abs path_elems_proper)
  show "prefix (path_elems root) (path_elems candidate)" "is_abs candidate" using ok by simp_all
qed

lemma write_target_inside:
  assumes "resolveWriteTarget cwd real look real' root target = Inr (rootReal, parent, destination)" "is_abs cwd"
  shows "prefix (path_elems rootReal) (path_elems parent) \<and> (\<exists>e. proper e \<and> path_elems destination = path_elems parent @ [e])"
proof -
  obtain rootPath candidate where p: "prepareRoot cwd real root = Inr (rootPath, rootReal)" and l: "lexicalTarget rootPath target = Inr candidate"
    and n: "path_clean candidate \<noteq> path_clean rootPath" and wp: "write_parent real look real' rootReal (dir_name candidate) = Inr parent"
    and d: "destination = path_join [parent, base_name candidate]"
    using assms(1) by (auto simp: resolveWriteTarget_def bindr_eq_Inr split: if_splits)
  from wp have w: "within rootReal parent" by (auto simp: write_parent_def bindr_eq_Inr split: option.splits if_splits)
  note root = prepared_abs[OF p assms(2)]
  note lex = lexical_clean[OF l root(1)]
  have "path_elems candidate \<noteq> path_elems rootPath" using n clean_abs[OF lex(3)] clean_abs[OF root(1)] by auto
  then have "path_elems candidate \<noteq> []" using lex(2) by auto
  then obtain es e where es: "path_elems candidate = es @ [e]" by (cases "path_elems candidate" rule: rev_cases) auto
  have pr: "list_all proper (es @ [e])" using path_elems_proper[of candidate] es by simp
  have "base_name candidate = e" using base_abs[OF pr] lex(1) es by simp
  moreover have "proper e" using pr by simp
  moreover note within_prefix[OF root(2) w]
  ultimately show ?thesis using join_last[of parent e] d by auto
qed

end
