(* ===== verification/FileTrips.thy ===== *)
theory FileTrips
  imports FileHistory
begin

text \<open>
  Reading a file page by page, each read starting at the \<open>next_offset\<close> of the one before it.
\<close>

fun read_on :: "(string \<Rightarrow> (string \<Rightarrow> string) option) \<Rightarrow> nat \<Rightarrow> read_input \<Rightarrow> node option \<Rightarrow> read_result list" where
  "read_on media 0 i x = []"
| "read_on media (Suc n) i x =
     (case Read_Execute media i x of
        Inl e \<Rightarrow> []
      | Inr r \<Rightarrow> r # (case rrNext r of None \<Rightarrow> [] | Some k \<Rightarrow> read_on media n (i\<lparr>riOffset := int k\<rparr>) x))"

section \<open>One page more\<close>

lemma updated_keys: "fst ` set (foldl (\<lambda>m (n, l). AList.update n l m) m seen) = fst ` set m \<union> fst ` set seen"
proof (induction seen arbitrary: m)
  case (Cons p seen)
  have "fst ` set (AList.update (fst p) (snd p) m) = insert (fst p) (fst ` set m)" by (induction m) auto
  with Cons.IH show ?case by (auto simp: split_beta)
qed simp

text \<open>The view has the first \<open>m\<close> lines of \<open>c\<close> and not all.\<close>

definition covers :: "string \<Rightarrow> nat \<Rightarrow> file_view option \<Rightarrow> bool" where
  "covers c m old = (case old of
       None \<Rightarrow> m = 0
     | Some ob \<Rightarrow> obSha ob = sha256_hex c \<and> \<not> obComplete ob \<and> part_view c ob \<and> sees c ob \<and> fst ` set (obLines ob) = {1..m})"

lemma page_all:
  assumes "readable c" "\<forall>l \<in> set (fileLines c). \<not> long_line l" "1 \<le> offset" "offset - 1 \<le> length (fileLines c)" "1 \<le> limit"
  obtains k where "k \<le> length (fileLines c) - (offset - 1)" "offset \<le> length (fileLines c) \<longrightarrow> 1 \<le> k"
    "rrCount (numberedLinesResult path (page_of offset limit c)) = k"
    "rrLong (numberedLinesResult path (page_of offset limit c)) = []"
    "received_lines (numberedLinesResult path (page_of offset limit c)) = Some (zip [offset..<offset + k] (take k (drop (offset - 1) (fileLines c))))"
proof -
  let ?r = "numberedLinesResult path (page_of offset limit c)"
  obtain k ls where k: "ls = take k (drop (offset - 1) (fileLines c))" "length ls = k" "k \<le> limit" "offset \<le> length (fileLines c) \<longrightarrow> 1 \<le> k"
    "k \<le> length (fileLines c) - (offset - 1)" "rrCount ?r = k" "rrLong ?r = long_from offset ls"
    "received_lines ?r = Some (zip [offset..<offset + k] (map shown ls))"
    by (rule received_page[OF assms(1,3,5), of path])
  have l: "l \<in> set (fileLines c)" if "l \<in> set ls" for l using that by (auto simp: k(1) dest: in_set_takeD in_set_dropD)
  have short: "\<not> long_line l" if "l \<in> set ls" for l using l[OF that] assms(2) by blast
  have "map shown ls = ls" using l short shown_cut(2) readable_line[OF assms(1)] by (intro map_idI) blast
  moreover have "long_from offset ls = []"
  proof -
    have "x \<notin> set (long_from offset ls)" for x unfolding long_from_set using short nth_mem by blast
    then show ?thesis by (metis list.set_intros(1) neq_Nil_conv)
  qed
  ultimately show thesis using that[of k] k by simp
qed

lemma next_page:
  assumes "readable c" "\<forall>l \<in> set (fileLines c). \<not> long_line l" "covers c m (st (path_clean path))" "m < length (fileLines c) \<or> m = 0"
    "1 \<le> limit" "path \<noteq> []"
  obtains k ob where "rrNext (numberedLinesResult path (page_of (m + 1) limit c)) = (if m + k < length (fileLines c) then Some (m + k + 1) else None)"
    "m < length (fileLines c) \<longrightarrow> 1 \<le> k"
    "ObserveRead (numberedLinesResult path (page_of (m + 1) limit c)) st (path_clean path) = Some ob" "sees c ob"
    "if m + k < length (fileLines c) then covers c (m + k) (Some ob) else obComplete ob"
proof -
  let ?r = "numberedLinesResult path (page_of (m + 1) limit c)" and ?N = "length (fileLines c)" and ?key = "path_clean path"
  have mN: "m \<le> ?N" using assms(4) by auto
  have start: "1 \<le> m + 1" "m + 1 - 1 \<le> ?N" using mN by simp_all
  obtain k where k0: "k \<le> ?N - (m + 1 - 1)" "m + 1 \<le> ?N \<longrightarrow> 1 \<le> k" "rrCount ?r = k" "rrLong ?r = []"
    "received_lines ?r = Some (zip [m + 1..<m + 1 + k] (take k (drop (m + 1 - 1) (fileLines c))))"
    by (rule page_all[OF assms(1,2) start assms(5), of path])
  have k: "k \<le> ?N - m" "m < ?N \<longrightarrow> 1 \<le> k" "rrCount ?r = k" "rrLong ?r = []"
    "received_lines ?r = Some (zip [m + 1..<m + 1 + k] (take k (drop m (fileLines c))))"
    using k0 by (simp_all only: add_diff_cancel_right' Suc_le_eq Suc_eq_plus1[symmetric] diff_Suc_1)
  let ?seen = "zip [m + 1..<m + 1 + k] (take k (drop m (fileLines c)))"
  have g: "genuine c ?r" using genuine_page[OF assms(1) _ assms(5)] by simp
  have rc: "rcPath (rrReceipt ?r) = path" "rcSHA (rrReceipt ?r) = sha256_hex c" "rcTotal (rrReceipt ?r) = ?N"
    "rcNewline (rrReceipt ?r) = ends_with_newline c" "rcStart (rrReceipt ?r) = m + 1" "rcCount (rrReceipt ?r) = k" "\<not> rrImages ?r"
    "rcComplete (rrReceipt ?r) \<longleftrightarrow> m = 0 \<and> k = ?N" "rrTruncated ?r \<longleftrightarrow> m + k < ?N"
    "rrNext ?r = (if m + k < ?N then Some (m + k + 1) else None)"
    using k(3,4) by (simp_all add: result_receipt)
  have old: "\<exists>c'. sees c' ob \<and> (sha256_hex c' = sha256_hex c \<longrightarrow> c' = c)" if "st ?key = Some ob" for ob
    using assms(3) that by (auto simp: covers_def)
  obtain ob where ob: "ObserveRead ?r st = st(?key \<mapsto> ob)" "sees c ob"
    using ObserveRead_sees[OF g, of st] old assms(6) rc(1) by auto
  define kept where "kept = st ?key"
  have obs: "ob = observe_in ?r ?seen kept"
    using ob(1) assms(3,6) k(5) rc(1-3)
    by (auto simp: ObserveRead_def Let_def kept_def covers_def part_view_def split: option.splits dest: fun_cong[of _ _ ?key])
  define o0 where "o0 = (case kept of Some x \<Rightarrow> x | None \<Rightarrow> fresh_observation (rrReceipt ?r))"
  have o0: "part_view c o0" "fst ` set (obLines o0) = {1..m}" "obTotal o0 = ?N" "obSha o0 = sha256_hex c"
    using assms(3) rc(2-4) by (auto simp: o0_def kept_def covers_def part_view_def fresh_observation_def split: option.splits)
  have fin: "if m + k < ?N then covers c (m + k) (Some ob) else obComplete ob"
  proof (cases "m = 0 \<and> k = ?N")
    case True
    then show ?thesis using obs rc by (simp add: observe_in_def Let_def)
  next
    case False
    let ?lines = "foldl (\<lambda>m (n, l). AList.update n l m) (obLines o0) ?seen"
    have "filter (\<lambda>(n, l). n \<notin> set (rrLong ?r)) ?seen = ?seen" using k(4) by (simp add: split_beta)
    then have lines: "ob = merge_lines False ?seen o0" using rc(7,8) False unfolding obs observe_in_def Let_def o0_def[symmetric] by auto
    have ok: "list_all (line_at c) ?seen" using mN k(1) by (auto simp: list_all_iff line_at_def in_set_zip simp del: upt_Suc)
    have d: "distinct (map fst ?lines)" "list_all (line_at c) ?lines" using updated_lines[OF _ _ ok] o0(1) by (simp_all add: part_view_def)
    have keys: "fst ` set ?lines = {1..m + k}"
    proof -
      have "fst ` set ?seen = {m + 1..<m + 1 + k}" using mN k(1) by (simp flip: set_map del: upt_Suc)
      then show ?thesis unfolding updated_keys o0(2) by auto
    qed
    have len: "length ?lines = m + k" using distinct_card[OF d(1)] keys by simp
    have tot: "obTotal ob = ?N" "obLines ob = ?lines" "obSha ob = sha256_hex c" "part_view c ob"
      using lines o0 d by (simp_all add: merge_lines_def Let_def part_view_def)
    show ?thesis
    proof (cases "m + k < ?N")
      case True
      then have "\<not> obComplete ob" using lines len o0(3) by (simp add: merge_lines_def Let_def)
      with True tot keys ob(2) show ?thesis by (simp add: covers_def)
    next
      case all: False
      then have eq: "m + k = ?N" "?N \<noteq> 0" "1 \<le> ?N" using k(1) mN False by auto
      have s: "sort_key fst ?lines = zip [1..<1 + ?N] (fileLines c)" using all_lines[OF d] len eq by simp
      have "fst (hd (sort_key fst ?lines)) = 1 \<and> fst (last (sort_key fst ?lines)) = ?N"
        unfolding s using eq(2,3) by (simp add: hd_zip last_zip del: upt_Suc)
      moreover have "length ?lines = ?N" using len eq(1) by simp
      ultimately have "obComplete ob" unfolding lines merge_lines_def Let_def using o0(3) eq(3) by (simp del: upt_Suc)
      with eq show ?thesis by simp
    qed
  qed
  have "ObserveRead ?r st ?key = Some ob" unfolding ob(1) by simp
  from that[OF rc(10) k(2) this ob(2) fin] show thesis .
qed

section \<open>All pages\<close>

lemma Read_Execute_page:
  assumes "readable c" "1 \<le> riOffset i" "0 \<le> riLimit i" "riLimit i \<le> 2000" "media (read_path i) = None" "trim_space (read_path i) \<noteq> []"
  obtains limit where "1 \<le> limit" "Read_Execute media i (Some (Regular c)) = Inr (numberedLinesResult (read_path i) (page_of (nat (riOffset i)) limit c))"
proof -
  let ?limit = "if riLimit i = 0 then 2000 else riLimit i"
  have l: "1 \<le> ?limit" "?limit \<le> 2000" using assms(3,4) by auto
  have "ReadLines (riOffset i) ?limit (Some (Regular c)) = Inr (page_of (nat (riOffset i)) (nat ?limit) c)"
    using ReadLines_page[of "riOffset i" ?limit c] assms(1,2) l by (simp add: readable_def MaxReadLines_def)
  then have "Read_Execute media i (Some (Regular c)) = Inr (numberedLinesResult (read_path i) (page_of (nat (riOffset i)) (nat ?limit) c))"
    using assms(2,5,6) l by (simp add: Read_Execute_def required_def Let_def) (simp add: page_of_def)
  with l show thesis by (intro that[of "nat ?limit"]) auto
qed

lemma read_on_covers:
  assumes "readable c" "\<forall>l \<in> set (fileLines c). \<not> long_line l" "covers c m (st (path_clean (read_path i)))"
    "m < length (fileLines c) \<or> m = 0" "length (fileLines c) - m < n" "riOffset i = int (m + 1)" "0 \<le> riLimit i" "riLimit i \<le> 2000"
    "media (read_path i) = None" "trim_space (read_path i) \<noteq> []"
  shows "\<exists>ob. foldl (\<lambda>st e. see e st) st (map ReadSeen (read_on media n i (Some (Regular c)))) (path_clean (read_path i)) = Some ob \<and>
    obComplete ob \<and> sees c ob"
  using assms
proof (induction n arbitrary: m st i)
  case (Suc n)
  let ?N = "length (fileLines c)" and ?key = "path_clean (read_path i)" and ?x = "Some (Regular c)"
  have off: "1 \<le> riOffset i" "nat (riOffset i) = m + 1" using Suc.prems(6) by simp_all
  obtain limit where limit: "1 \<le> limit"
    and read: "Read_Execute media i ?x = Inr (numberedLinesResult (read_path i) (page_of (nat (riOffset i)) limit c))"
    by (rule Read_Execute_page[where media = media and i = i and c = c, OF Suc.prems(1) off(1) Suc.prems(7-10)])
  let ?r = "numberedLinesResult (read_path i) (page_of (m + 1) limit c)"
  have ne: "read_path i \<noteq> []" using Suc.prems(10) by (auto simp: trim_space_def)
  obtain k ob where k: "rrNext ?r = (if m + k < ?N then Some (m + k + 1) else None)" "m < ?N \<longrightarrow> 1 \<le> k"
    "ObserveRead ?r st ?key = Some ob" "sees c ob" "if m + k < ?N then covers c (m + k) (Some ob) else obComplete ob"
    by (rule next_page[where st = st and path = "read_path i", OF Suc.prems(1,2,3,4) limit ne])
  show ?case
  proof (cases "m + k < ?N")
    case True
    let ?i = "i\<lparr>riOffset := int (m + k + 1)\<rparr>" and ?st = "ObserveRead ?r st"
    have p: "read_path (i\<lparr>riOffset := v\<rparr>) = read_path i" for v by (simp add: read_path_def)
    have "\<exists>ob. foldl (\<lambda>st e. see e st) ?st (map ReadSeen (read_on media n ?i ?x)) (path_clean (read_path ?i)) = Some ob \<and> obComplete ob \<and> sees c ob"
    proof (rule Suc.IH[OF Suc.prems(1,2)])
      show "covers c (m + k) (?st (path_clean (read_path ?i)))" using k(3,5) True p by simp
      show "length (fileLines c) - (m + k) < n" using Suc.prems(5) k(2) True by linarith
    qed (use True Suc.prems(7-10) p in simp_all)
    then show ?thesis using read k(1) True off(2) by (simp add: p)
  next
    case False
    then show ?thesis using read k off(2) by simp
  qed
qed simp

end
