(* ===== verification/FileMessages.thy ===== *)
theory FileMessages
  imports FileViews ModelRuntime
begin

text \<open>
  The file events in the messages of a model request (\<open>NewFileState\<close> of \<open>agenttool/file_state.go\<close>): which
  tool results count, and how a result and the arguments of its call are read.  The line numbers of a
  receipt are natural numbers, as the \<open>read\<close> tool writes them; a receipt with a negative one is not taken.
\<close>

definition map_text :: "gomap \<Rightarrow> string \<Rightarrow> string" where
  "map_text m k = (case mget m k of Some (JStr s) \<Rightarrow> s | _ \<Rightarrow> [])"

definition map_true :: "gomap \<Rightarrow> string \<Rightarrow> bool" where
  "map_true m k = (mget m k = Some (JBool True))"

definition map_nil :: "gomap \<Rightarrow> string \<Rightarrow> bool" where
  "map_nil m k = (case mget m k of None \<Rightarrow> True | Some v \<Rightarrow> v = JNull)"

text \<open>Decoding a list of numbers, whose error is ignored: an element that is none becomes 0.\<close>

definition number_list :: "json option \<Rightarrow> nat list" where
  "number_list v =
     (case v of
        Some (JArr vs) \<Rightarrow> map (\<lambda>x. case x of JNum n \<Rightarrow> (case atoi n of Some i \<Rightarrow> nat i | None \<Rightarrow> 0) | _ \<Rightarrow> 0) vs
      | _ \<Rightarrow> [])"

definition receipt_of :: "gomap \<Rightarrow> read_receipt option" where
  "receipt_of result =
     (case struct_pairs (case mget result ''read_receipt'' of Some v \<Rightarrow> v | None \<Rightarrow> JNull) of
        None \<Rightarrow> None
      | Some kvs \<Rightarrow>
          (case (str_field ''path'' kvs, str_field ''sha256'' kvs, int_field ''start_line'' kvs, int_field ''line_count'' kvs,
              int_field ''total_lines'' kvs, bool_field ''complete'' kvs, bool_field ''ends_with_newline'' kvs) of
             (Some p, Some s, Some a, Some n, Some t, Some c, Some e) \<Rightarrow>
               if 0 \<le> a \<and> 0 \<le> n \<and> 0 \<le> t
               then Some \<lparr>rcPath = p, rcSHA = s, rcStart = nat a, rcCount = nat n, rcTotal = nat t, rcComplete = c, rcNewline = e\<rparr>
               else None
           | _ \<Rightarrow> None))"

text \<open>What \<open>ObserveRead\<close> looks at in a result; the other fields play no part.\<close>

definition seen_result :: "gomap \<Rightarrow> read_result option" where
  "seen_result result = map_option (\<lambda>rc.
     \<lparr>rrContent = map_text result ''content'', rrStart = rcStart rc, rrCount = rcCount rc, rrTotal = rcTotal rc,
       rrTruncated = map_true result ''truncated'', rrNext = None, rrLong = number_list (mget result ''truncated_lines''), rrOmitted = 0,
       rrImages = (\<not> map_nil result ''images''), rrReceipt = rc\<rparr>) (receipt_of result)"

definition go_object :: "string \<Rightarrow> gomap option" where
  "go_object s = (case json_unmarshal s of None \<Rightarrow> None | Some v \<Rightarrow> map_option (\<lambda>m. case m of None \<Rightarrow> [] | Some kvs \<Rightarrow> kvs) (as_map v))"

definition result_event :: "string \<Rightarrow> gomap \<Rightarrow> gomap \<Rightarrow> file_event option" where
  "result_event name args result =
     (if name \<in> {''read'', ''computer_read_file''} then map_option ReadSeen (seen_result result)
      else if name \<in> {''write'', ''computer_write_file''} then
        (let p = map_text args ''file_path''; path = (if p = [] then map_text args ''path'' else p) in
         if map_true result ''ok'' \<and> (case mget args ''content'' of Some (JStr _) \<Rightarrow> True | _ \<Rightarrow> False)
         then Some (WriteSeen path (map_text args ''content'') (map_text result ''sha256'')) else None)
      else if name = ''edit'' \<and> map_true result ''ok''
      then Some (EditSeen (map_text args ''file_path'') (map_text args ''old_string'') (map_text args ''new_string'')
        (map_true args ''replace_all'') (map_text result ''sha256''))
      else None)"

definition tool_event_of :: "tool_call \<Rightarrow> message \<Rightarrow> file_event option" where
  "tool_event_of call m =
     (case go_object (content m) of
        None \<Rightarrow> None
      | Some result \<Rightarrow>
          if \<not> map_nil result ''error'' then None
          else (case go_object (arguments call) of None \<Rightarrow> None | Some args \<Rightarrow> result_event (callName call) args result))"

fun message_events :: "(string \<Rightarrow> tool_call option) \<Rightarrow> message list \<Rightarrow> file_event list" where
  "message_events known [] = []"
| "message_events known (m # ms) =
     (let known' = (if role m = ''assistant'' then foldl (\<lambda>f c. f(callID c \<mapsto> c)) known (toolCalls m) else known) in
      (if role m \<noteq> ''tool'' then []
       else (case known' (toolCallID m) of None \<Rightarrow> []
         | Some call \<Rightarrow> (case tool_event_of call m of None \<Rightarrow> [] | Some e \<Rightarrow> [e])))
      @ message_events known' ms)"

definition NewFileState :: "message list \<Rightarrow> file_state" where
  "NewFileState history = rebuild_state (message_events (\<lambda>_. None) history)"

end
