(* ===== verification/FileClaims.thy ===== *)
theory FileClaims
  imports FileWorld FileLocks FilePaths FileTrips FileMessages
begin

text \<open>
  The properties of the file tools and of the file protocol, and the history in which a view is not what
  the file holds.
\<close>

section \<open>Views of any history\<close>

definition view_ok :: "file_view \<Rightarrow> bool" where
  "view_ok ob = (validSHA (obSha ob) \<and> distinct (map fst (obLines ob)) \<and>
     (obComplete ob \<or> obText ob = joined_lines 0 (sort_key fst (obLines ob))))"

definition state_ok :: "file_state \<Rightarrow> bool" where
  "state_ok st = (\<forall>k ob. st k = Some ob \<longrightarrow> view_ok ob \<and> (\<exists>path. k = path_clean path))"

lemma merge_ok:
  assumes "validSHA (obSha o0)" "distinct (map fst (obLines o0))"
  shows "view_ok (merge_lines images seen o0)"
proof -
  have "distinct (map fst (foldl (\<lambda>m (n, l). AList.update n l m) (obLines o0) seen))"
    using updated_lines[of "obLines o0" "\<lambda>_. True" seen] assms(2) by (simp add: list_all_iff)
  with assms(1) show ?thesis by (auto simp: view_ok_def merge_lines_def Let_def)
qed

lemma observe_in_ok:
  assumes "validSHA (rcSHA (rrReceipt r))" "\<And>x. old = Some x \<Longrightarrow> view_ok x"
  shows "view_ok (observe_in r seen old)"
proof -
  define o0 where "o0 = (case old of Some x \<Rightarrow> x | None \<Rightarrow> fresh_observation (rrReceipt r))"
  have o0: "validSHA (obSha o0)" "distinct (map fst (obLines o0))"
    using assms by (auto simp: o0_def fresh_observation_def view_ok_def split: option.splits)
  then have "view_ok (o0\<lparr>obComplete := True, obText := t\<rparr>)" for t by (simp add: view_ok_def)
  with merge_ok[OF o0] show ?thesis unfolding observe_in_def Let_def o0_def[symmetric] by simp
qed

lemma state_ok_update: "state_ok st \<Longrightarrow> view_ok ob \<Longrightarrow> state_ok (st(path_clean path \<mapsto> ob))"
  by (auto simp: state_ok_def)

lemma see_ok: "state_ok st \<Longrightarrow> state_ok (see e st)"
proof (cases e)
  case (ReadSeen r)
  assume st: "state_ok st"
  let ?key = "path_clean (rcPath (rrReceipt r))"
  have k: "view_ok x" if "st ?key = Some x" for x using st that by (auto simp: state_ok_def)
  show ?thesis
  proof (cases "rcPath (rrReceipt r) = [] \<or> \<not> validSHA (rcSHA (rrReceipt r)) \<or> received_lines r = None")
    case True
    then have "ObserveRead r st = st" by (auto simp: ObserveRead_def Let_def)
    with st ReadSeen show ?thesis by simp
  next
    case False
    then obtain seen where seen: "received_lines r = Some seen" and v: "validSHA (rcSHA (rrReceipt r))" by auto
    have "view_ok (observe_in r seen old)" if "old = None \<or> old = st ?key" for old
      using observe_in_ok[OF v, of old seen] that k by auto
    then have new: "state_ok (st(?key \<mapsto> observe_in r seen old))" if "old = None \<or> old = st ?key" for old
      using state_ok_update[OF st] that by blast
    show ?thesis
    proof (cases "st ?key")
      case None
      then show ?thesis using new[of None] False seen ReadSeen by (simp add: ObserveRead_def Let_def)
    next
      case (Some x)
      then show ?thesis using new[of None] new[of "Some x"] st False seen ReadSeen by (simp add: ObserveRead_def Let_def)
    qed
  qed
next
  case (WriteSeen path t sha)
  assume "state_ok st"
  then show ?thesis using WriteSeen state_ok_update[of st] by (auto simp: RecordWrite_def view_ok_def)
next
  case (EditSeen path old new all sha)
  assume st: "state_ok st"
  then have gone: "state_ok (st(path_clean path := None))" by (auto simp: state_ok_def)
  show ?thesis
  proof (cases "st (path_clean path)")
    case None
    then show ?thesis using EditSeen gone by (simp add: RecordEdit_def Let_def)
  next
    case (Some x)
    have "view_ok x" using st Some by (auto simp: state_ok_def)
    then have "view_ok (x\<lparr>obText := t, obSha := sha\<rparr>)" if "validSHA sha" "obComplete x" for t
      using that by (simp add: view_ok_def)
    then show ?thesis using EditSeen gone Some state_ok_update[OF st] by (simp add: RecordEdit_def Let_def)
  qed
qed

lemma rebuilt_ok: "state_ok st \<Longrightarrow> state_ok (foldl (\<lambda>st e. see e st) st evs)"
proof (induction evs arbitrary: st)
  case (Cons e evs)
  show ?case using Cons.IH[OF see_ok[OF Cons.prems, of e]] by simp
qed simp

lemma start_ok: "state_ok (\<lambda>_. None)"
  by (simp add: state_ok_def)

section \<open>Confirmed reviews\<close>

text \<open>A confirmed record with contents shows what the file was and what it became.\<close>

definition review_exact :: "file_change \<Rightarrow> node option \<Rightarrow> node option \<Rightarrow> bool" where
  "review_exact ch y y' =
     (if fcStatus ch = ''confirmed'' \<and> fcReason ch = []
      then (case fcBefore ch of None \<Rightarrow> False | Some b \<Rightarrow> y = (if fcExists ch then Some (Regular b) else None)) \<and>
        (case fcAfter ch of None \<Rightarrow> False | Some a \<Rightarrow> y' = Some (Regular a) \<and> fcAfterSHA ch = sha256_hex a)
      else True)"

lemma captured:
  assumes "fcReason (captureFileChange path operation expected create new_text old all x) = []"
  obtains before where "fcBefore (captureFileChange path operation expected create new_text old all x) = Some before"
    "fcAfter (captureFileChange path operation expected create new_text old all x)
      = Some (if operation = ''edit'' then replace_n all old new_text before else new_text)"
    "create \<longrightarrow> before = []" "create \<or> x = Some (Regular before) \<and> sha256_hex before = expected"
proof -
  have a: "fcReason (capture_after after c) = [] \<Longrightarrow> capture_after after c = c\<lparr>fcAfterSHA := sha256_hex after, fcAfter := Some after\<rparr>" for after c
    by (auto simp: capture_after_def Let_def split: if_splits)
  show thesis
  proof (cases create)
    case True
    with assms show ?thesis by (intro that[of "[]"]) (auto simp: captureFileChange_def Let_def dest!: a)
  next
    case False
    then obtain before where b: "readRegularFile x = Inr before" "sha256_hex before = expected"
      using assms by (auto simp: captureFileChange_def Let_def split: sum.splits if_splits)
    then have "x = Some (Regular before)" by (auto simp: readRegularFile_def openRegularFile_def split: option.splits node.splits if_splits)
    with False b assms show ?thesis
      by (intro that[of before]) (auto simp: captureFileChange_def Let_def split: if_splits dest!: a)
  qed
qed

lemma captured_fields:
  "fcStatus (captureFileChange path operation expected create new_text old all x) = ''pending''"
  "fcExists (captureFileChange path operation expected create new_text old all x) = (\<not> create)"
  by (auto simp: captureFileChange_def capture_after_def Let_def split: sum.split)

lemma stopped_changes:
  "teOutcome (Write_Execute i st x y review answered) = Inl e \<Longrightarrow> ch \<in> set (teChanges (Write_Execute i st x y review answered)) \<Longrightarrow>
    fcStatus ch \<noteq> ''confirmed''"
  "teOutcome (Edit_Execute j st x y z review answered) = Inl e \<Longrightarrow> ch \<in> set (teChanges (Edit_Execute j st x y z review answered)) \<Longrightarrow>
    fcStatus ch \<noteq> ''confirmed''"
  by (auto simp: Write_Execute_def stopped_def begun_change_def finishFileChange_def captured_fields Let_def split_beta
      split: sum.splits if_splits option.splits bool.splits)
    (auto simp: Edit_Execute_def stopped_def begun_change_def finishFileChange_def captured_fields Let_def split_beta
      split: sum.splits if_splits option.splits bool.splits)

lemma same_content: "inj_on sha256_hex H \<Longrightarrow> node_in H x \<Longrightarrow> node_in H y \<Longrightarrow> x = Some (Regular a) \<Longrightarrow> y = Some (Regular b) \<Longrightarrow>
    sha256_hex a = sha256_hex b \<Longrightarrow> a = b"
  by (simp add: node_in_def inj_on_def)

lemma confirmed_change:
  assumes "ch \<in> set (begun_change review c @ snd (finishFileChange review c sha True))" "fcStatus c = ''pending''"
    "fcStatus ch = ''confirmed''"
  shows "ch = c\<lparr>fcStatus := ''confirmed'', fcAfterSHA := sha\<rparr>"
  using assms by (auto simp: begun_change_def finishFileChange_def split: option.splits bool.splits if_splits)

lemma write_review:
  assumes "inj_on sha256_hex H" "node_in H x" "node_in H y" "ch \<in> set (teChanges (Write_Execute i st x y review answered))"
  shows "review_exact ch y (teNode (Write_Execute i st x y review answered))"
proof (cases "fcStatus ch = ''confirmed'' \<and> fcReason ch = []")
  case True
  then obtain d where d: "teOutcome (Write_Execute i st x y review answered) = Inr d"
    using stopped_changes(1)[OF _ assms(4)] by (cases "teOutcome (Write_Execute i st x y review answered)") auto
  obtain expected create where w: "WriteChecked (wiContent i) expected create y =
      (Inr \<lparr>wdBytes = length (wiContent i), wdSHA = sha256_hex (wiContent i)\<rparr>, Some (Regular (wiContent i)))"
    and n: "teNode (Write_Execute i st x y review answered) = Some (Regular (wiContent i))"
    and cs: "teChanges (Write_Execute i st x y review answered) =
      begun_change review (captureFileChange (write_path i) ''write'' expected create (wiContent i) [] False x) @
      snd (finishFileChange review (captureFileChange (write_path i) ''write'' expected create (wiContent i) [] False x) (sha256_hex (wiContent i)) True)"
    by (rule write_done[OF d])
  let ?c = "captureFileChange (write_path i) ''write'' expected create (wiContent i) [] False x"
  have ch: "ch = ?c\<lparr>fcStatus := ''confirmed'', fcAfterSHA := sha256_hex (wiContent i)\<rparr>"
    using confirmed_change[OF assms(4)[unfolded cs]] captured_fields(1) True by blast
  then have reason: "fcReason ?c = []" using True by simp
  obtain before where bc: "fcBefore ?c = Some before"
    "fcAfter ?c = Some (if ''write'' = ''edit'' then replace_n False [] (wiContent i) before else wiContent i)"
    "create \<longrightarrow> before = []" "create \<or> x = Some (Regular before) \<and> sha256_hex before = expected"
    by (rule captured[OF reason])
  then have b: "fcBefore ?c = Some before" "fcAfter ?c = Some (wiContent i)"
    "create \<or> x = Some (Regular before) \<and> sha256_hex before = expected" by simp_all
  have "y = (if create then None else Some (Regular before))"
  proof (cases create)
    case True
    then show ?thesis using WriteChecked_ok(4)[OF w] by simp
  next
    case False
    obtain c where c: "y = Some (Regular c)" "equal_fold expected (sha256_hex c)" using WriteChecked_ok(5)[OF w False] by blast
    with b(3) False have "sha256_hex before = sha256_hex c" using equal_fold_sha[OF validSHA_sha256] by auto
    with same_content[OF assms(1-3) _ c(1)] b(3) False c(1) show ?thesis by simp
  qed
  then show ?thesis using b n by (simp add: review_exact_def ch captured_fields)
qed (auto simp: review_exact_def)

lemma edit_review:
  assumes "inj_on sha256_hex H" "node_in H x" "node_in H y" "node_in H z"
    "ch \<in> set (teChanges (Edit_Execute i st x y z review answered))"
  shows "review_exact ch z (teNode (Edit_Execute i st x y z review answered))"
proof (cases "fcStatus ch = ''confirmed'' \<and> fcReason ch = []")
  case True
  then obtain d where d: "teOutcome (Edit_Execute i st x y z review answered) = Inr d"
    using stopped_changes(2)[OF _ assms(5)] by (cases "teOutcome (Edit_Execute i st x y z review answered)") auto
  obtain expected s c where yz: "y = Some (Regular s)" "z = Some (Regular c)" "sha256_hex c = sha256_hex s"
      "expected \<noteq> [] \<longrightarrow> equal_fold expected (sha256_hex s)"
    and n: "teNode (Edit_Execute i st x y z review answered) = Some (Regular (replace_n (eiAll i) (eiOld i) (eiNew i) s))"
      "tdSHA d = sha256_hex (replace_n (eiAll i) (eiOld i) (eiNew i) s)"
    and cs: "teChanges (Edit_Execute i st x y z review answered) =
      begun_change review (captureFileChange (eiFile i) ''edit'' expected False (eiNew i) (eiOld i) (eiAll i) x) @
      snd (finishFileChange review (captureFileChange (eiFile i) ''edit'' expected False (eiNew i) (eiOld i) (eiAll i) x) (tdSHA d) True)"
    by (rule edit_done[OF d])
  let ?c = "captureFileChange (eiFile i) ''edit'' expected False (eiNew i) (eiOld i) (eiAll i) x"
  have ch: "ch = ?c\<lparr>fcStatus := ''confirmed'', fcAfterSHA := tdSHA d\<rparr>"
    using confirmed_change[OF assms(5)[unfolded cs]] captured_fields(1) True by blast
  then have reason: "fcReason ?c = []" using True by simp
  obtain before where bc: "fcBefore ?c = Some before"
    "fcAfter ?c = Some (if ''edit'' = ''edit'' then replace_n (eiAll i) (eiOld i) (eiNew i) before else eiNew i)"
    "False \<longrightarrow> before = []" "False \<or> x = Some (Regular before) \<and> sha256_hex before = expected"
    by (rule captured[OF reason])
  then have b: "fcBefore ?c = Some before" "fcAfter ?c = Some (replace_n (eiAll i) (eiOld i) (eiNew i) before)"
    "x = Some (Regular before)" "sha256_hex before = expected" by simp_all
  have "sha256_hex before = sha256_hex s" using yz(4) b(4) equal_fold_sha[OF validSHA_sha256] by auto
  then have "before = s" "c = s" using same_content[OF assms(1) _ _ b(3) yz(1)] same_content[OF assms(1) _ _ yz(2,1)] assms(2-4) yz(3) by simp_all
  then show ?thesis using b n yz by (simp add: review_exact_def ch captured_fields)
qed (auto simp: review_exact_def)

text \<open>Nothing is written before the record of it is saved, where records are kept.\<close>

lemma begun_first:
  "review \<noteq> None \<Longrightarrow> teChanges (Write_Execute i st x y review answered) = [] \<Longrightarrow> teNode (Write_Execute i st x y review answered) = y"
  "review \<noteq> None \<Longrightarrow> teChanges (Edit_Execute j st x y z review answered) = [] \<Longrightarrow> teNode (Edit_Execute j st x y z review answered) = z"
  by (auto simp: Write_Execute_def stopped_def Let_def split_beta split: sum.splits if_splits)
    (auto simp: Edit_Execute_def stopped_def Let_def split_beta split: sum.splits if_splits)

section \<open>A small file\<close>

lemma plain_readable: "list_all (\<lambda>c. 0 < byte c \<and> byte c < 128) s \<Longrightarrow> length s \<le> MaxFileBytes \<Longrightarrow> readable s"
proof -
  assume s: "list_all (\<lambda>c. 0 < byte c \<and> byte c < 128) s" "length s \<le> MaxFileBytes"
  then have "ascii s" by (auto simp: ascii_def list_all_iff)
  with s show "readable s"
    by (auto simp: readable_def valid_text_chunks chunks_ascii ok_chunk_def list_all_iff rune_error_def)
qed

lemma small_readable: "readable ''a''" "readable ''a b''"
  by (rule plain_readable; simp add: MaxFileBytes_def)+

lemma rune_count_plain: "ascii s \<Longrightarrow> rune_count s = length s"
  by (simp add: rune_count_def chunks_ascii)

lemma newline_iff: "c = newline \<longleftrightarrow> byte c = 10"
  using control_iff(1)[of c] by metis

lemma small_lines: "fileLines ''a'' = [''a'']" "fileLines ''a b'' = [''a b'']" "\<not> long_line ''a''" "\<not> long_line ''a b''"
  by (simp_all add: fileLines_def long_line_def rune_count_plain ascii_def MaxCharactersInLine_def newline_iff)

text \<open>A view of a file of one line after its first page.\<close>

lemma one_page:
  assumes "readable c" "fileLines c = [l]" "\<not> long_line l" "path \<noteq> []" "1 \<le> limit" "st (path_clean path) = None"
  obtains ob where "ObserveRead (numberedLinesResult path (page_of 1 limit c)) st (path_clean path) = Some ob" "sees c ob" "obComplete ob"
proof -
  have "\<forall>l \<in> set (fileLines c). \<not> long_line l" "covers c 0 (st (path_clean path))" using assms by (simp_all add: covers_def)
  then obtain k ob where k: "0 < length (fileLines c) \<longrightarrow> 1 \<le> k"
    "ObserveRead (numberedLinesResult path (page_of (0 + 1) limit c)) st (path_clean path) = Some ob" "sees c ob"
    "if 0 + k < length (fileLines c) then covers c (0 + k) (Some ob) else obComplete ob"
    using next_page[where c = c and m = 0 and st = st and path = path and limit = limit, OF assms(1) _ _ _ assms(5,4)] by blast
  then have "obComplete ob" using assms(2) by (cases k) auto
  with k that show thesis by simp
qed

lemma trim_letter: "trim_space ''f'' = ''f''"
  by code_simp





section \<open>Properties\<close>

text \<open>C30. Reading lines: for every range and every file, \<open>ReadLines\<close>, which streams the runes of the file
  once, returns exactly the page of the reference (the lines of the file in the range, cut to 2000
  characters each and taken while they fit in 30000), the number of lines, the size and the digest; it
  refuses a range that is not one, a file over the limit, and a file that is not text.\<close>

theorem read_lines_gives_the_page:
  "ReadLines offset limit (Some (Regular s)) =
    (if offset < 1 \<or> limit < 1 \<or> int MaxReadLines < limit then Inl FileRange
     else if MaxFileBytes < length s then Inl FileTooLarge
     else if valid_text s then Inr (page_of (nat offset) (nat limit) s)
     else Inl FileBinary)"
  using ReadLines_page[of offset limit s] by (simp add: ReadLines_def openRegularFile_def)

text \<open>C29. Reading a whole file: reading page after page from the first line, each read starting at the
  \<open>next_offset\<close> of the one before, ends after at most as many reads as there are lines, and the view it
  leaves is complete and holds the file byte for byte, if no line is over 2000 characters.\<close>

theorem pages_give_the_file:
  assumes "readable c" "\<forall>l \<in> set (fileLines c). \<not> long_line l" "length (fileLines c) < n" "0 \<le> limit" "limit \<le> 2000"
    "media path = None" "trim_space path \<noteq> []"
  shows "\<exists>ob. rebuild_state (map ReadSeen (read_on media n \<lparr>riFile = path, riPath = [], riOffset = 1, riLimit = limit\<rparr> (Some (Regular c))))
      (path_clean path) = Some ob \<and> obComplete ob \<and> obText ob = c \<and> obSha ob = sha256_hex c"
proof -
  let ?i = "\<lparr>riFile = path, riPath = [], riOffset = 1, riLimit = limit\<rparr>"
  have p: "read_path ?i = path" using assms(7) by (auto simp: read_path_def trim_space_def)
  have "\<exists>ob. foldl (\<lambda>st e. see e st) (\<lambda>_. None) (map ReadSeen (read_on media n ?i (Some (Regular c)))) (path_clean (read_path ?i)) = Some ob \<and>
      obComplete ob \<and> sees c ob"
    by (rule read_on_covers[OF assms(1,2), of 0]) (use assms p in \<open>simp_all add: covers_def\<close>)
  then show ?thesis unfolding p rebuild_state_def by (auto simp: sees_def)
qed

theorem pages_give_the_file_witness:
  "\<exists>ob. rebuild_state (map ReadSeen (read_on (\<lambda>_. None) 3 \<lparr>riFile = ''f'', riPath = [], riOffset = 1, riLimit = 1\<rparr>
      (Some (Regular (''a'' @ newline # ''b''))))) (path_clean ''f'') = Some ob \<and>
    obComplete ob \<and> obText ob = ''a'' @ newline # ''b'' \<and> obSha ob = sha256_hex (''a'' @ newline # ''b'')"
proof (rule pages_give_the_file)
  show "readable (''a'' @ newline # ''b'')" by (rule plain_readable) (simp_all add: MaxFileBytes_def)
  have l: "fileLines (''a'' @ newline # ''b'') = [''a'', ''b'']" by (simp add: fileLines_def newline_iff)
  show "\<forall>l \<in> set (fileLines (''a'' @ newline # ''b'')). \<not> long_line l" unfolding l
    by (simp add: long_line_def rune_count_plain ascii_def MaxCharactersInLine_def)
  show "length (fileLines (''a'' @ newline # ''b'')) < 3" unfolding l by simp
qed (simp_all add: trim_letter)

text \<open>C34. Well-formed views: whatever messages the history holds, every view in the file state that is
  rebuilt from it has a digest of 64 hexadecimal characters and each line number at most once, its text is
  that of its lines in order unless the view is complete, and it is kept under a cleaned path.\<close>

theorem file_views_well_formed:
  "case NewFileState history k of None \<Rightarrow> True | Some ob \<Rightarrow> view_ok ob \<and> (\<exists>path. k = path_clean path)"
  using rebuilt_ok[OF start_ok, of "message_events (\<lambda>_. None) history"]
  by (auto simp: state_ok_def NewFileState_def rebuild_state_def split: option.splits)








text \<open>C32. Reviews: a record of a change that is confirmed and holds contents shows exactly what the file was
  when the write or edit replaced it, or that it was not there, and what it is afterwards, although it was
  captured earlier; and where records are kept, nothing is changed unless one was saved before.\<close>

theorem reviews_show_the_change:
  assumes "inj_on sha256_hex H" "node_in H x" "node_in H y" "node_in H z"
  shows "let ew = Write_Execute i st x z review answered; ee = Edit_Execute j st x y z review answered in
    list_all (\<lambda>ch. review_exact ch z (teNode ew)) (teChanges ew) \<and> list_all (\<lambda>ch. review_exact ch z (teNode ee)) (teChanges ee) \<and>
    (if review = None then True else (teChanges ew = [] \<longrightarrow> teNode ew = z) \<and> (teChanges ee = [] \<longrightarrow> teNode ee = z))"
  using write_review[OF assms(1,2,4)] edit_review[OF assms] begun_first
  by (auto simp: list_all_iff Let_def)

theorem reviews_show_the_change_witness:
  "length (teChanges (Write_Execute \<lparr>wiFile = ''f'', wiPath = [], wiContent = ''b''\<rparr> (\<lambda>_. None) None None (Some (True, True)) True)) = 2 \<and>
    list_all (\<lambda>ch. review_exact ch None (Some (Regular ''b'')))
      (teChanges (Write_Execute \<lparr>wiFile = ''f'', wiPath = [], wiContent = ''b''\<rparr> (\<lambda>_. None) None None (Some (True, True)) True))"
proof -
  let ?i = "\<lparr>wiFile = ''f'', wiPath = [], wiContent = ''b''\<rparr>"
  let ?e = "Write_Execute ?i (\<lambda>_. None) None None (Some (True, True)) True"
  have p: "write_path ?i = ''f''" by (simp add: write_path_def)
  have w: "WriteChecked ''b'' [] True None = (Inr \<lparr>wdBytes = 1, wdSHA = sha256_hex ''b''\<rparr>, Some (Regular ''b''))"
    by (simp add: WriteChecked_def written_def atomicWrite_def prepare_write_def check_version_def publish_def MaxFileBytes_def)
  have e: "teNode ?e = Some (Regular ''b'')" "length (teChanges ?e) = 2"
    by (simp_all add: Write_Execute_def p required_def trim_letter ExpectedWrite_def w Let_def begun_change_def finishFileChange_def)
  have n: "node_in {} None" by (simp add: node_in_def)
  have "list_all (\<lambda>ch. review_exact ch None (teNode ?e)) (teChanges ?e)"
    using reviews_show_the_change[OF _ n n n, where i = ?i and st = "\<lambda>_. None" and review = "Some (True, True)" and answered = True] by (simp add: Let_def)
  with e show ?thesis by simp
qed

text \<open>C31. The file lock: whatever writers of a path run at the same time, in whatever order their steps
  interleave and wherever one of them dies, the file is as if the writes that were published had been
  made one after the other, each as a whole, each on the version it asked for or on no file where it had
  to create it; and every answer of success belongs to one of them.\<close>

theorem checked_writes_are_atomic:
  assumes "lock_reachable False x w"
  shows "replay_writes (lwDone w) x = Some (lwFile w) \<and>
    (\<forall>j v r. lwJobs w j = Some v \<longrightarrow> wjPhase v = Ended (Inr r) \<longrightarrow>
      (\<exists>u \<in> set (lwDone w). v = u\<lparr>wjPhase := wjPhase v\<rparr> \<and> r = write_receipt u))"
  using writes_in_order[OF assms] answers_are_done[OF assms] by blast

theorem checked_writes_are_atomic_witness:
  "\<exists>w. lock_reachable False None w \<and> lwFile w = Some (Regular ''a'') \<and> length (lwDone w) = 1 \<and>
    replay_writes (lwDone w) None = Some (lwFile w)"
proof -
  let ?v = "\<lparr>wjContent = ''a'', wjExpected = [], wjCreate = True, wjPhase = Preparing\<rparr>"
  let ?J = "\<lambda>p. (\<lambda>_. None)(0 \<mapsto> ?v\<lparr>wjPhase := p\<rparr>) :: nat \<Rightarrow> write_job option"
  let ?w = "\<lambda>x h p ds. \<lparr>lwFile = x, lwHolder = h, lwTouched = False, lwJobs = ?J p, lwDone = ds\<rparr>"
  let ?d = "?w (Some (Regular ''a'')) None (Ended (Inr (write_receipt ?v))) [?v\<lparr>wjPhase := Checked\<rparr>]"
  have 1: "lock_step False (lock_start None) (?w None None Preparing [])"
    using lock_step.begin_write[of "lock_start None" 0 ?v False] by (simp add: lock_start_def)
  have 2: "lock_step False (?w None None Preparing []) (?w None None Waiting [])"
    using lock_step.prepared[of "?w None None Preparing []" 0 ?v "''a''" False] by (simp add: prepare_write_def MaxFileBytes_def put_job_def)
  have 3: "lock_step False (?w None None Waiting []) (?w None (Some 0) Holding [])"
    using lock_step.lock_taken[of "?w None None Waiting []" 0 "?v\<lparr>wjPhase := Waiting\<rparr>" False] by (simp add: put_job_def)
  have 4: "lock_step False (?w None (Some 0) Holding []) (?w None (Some 0) Checked [])"
    using lock_step.version_checked[of "?w None (Some 0) Holding []" 0 "?v\<lparr>wjPhase := Holding\<rparr>" False]
    by (simp add: put_job_def check_version_def)
  have 5: "lock_step False (?w None (Some 0) Checked []) ?d"
    using lock_step.published[of "?w None (Some 0) Checked []" 0 "?v\<lparr>wjPhase := Checked\<rparr>" "Regular ''a''" False]
    by (simp add: put_job_def publish_def write_receipt_def)
  note step = converse_rtranclp_into_rtranclp[where r = "lock_step False"]
  have r: "lock_reachable False None ?d" unfolding lock_reachable_def
    by (intro step[OF 1] step[OF 2] step[OF 3] step[OF 4] r_into_rtranclp[where r = "lock_step False", OF 5])
  have "replay_writes (lwDone ?d) None = Some (lwFile ?d)" by (rule checked_writes_are_atomic[OF r, THEN conjunct1])
  moreover have "lwFile ?d = Some (Regular ''a'')" "length (lwDone ?d) = 1" by simp_all
  ultimately show ?thesis using r by blast
qed

text \<open>C33. No file operation leaves the workspace: a path that is resolved for reading lies under the root of
  the workspace, and so does the parent of a path that is resolved for writing, whose last element is a
  plain name; whatever the target is and whatever its symbolic links lead to.\<close>

theorem file_paths_stay_inside:
  assumes "is_abs cwd"
  shows "(case resolveExisting cwd real root target of
      Inl e \<Rightarrow> True
    | Inr (rootReal, resolved) \<Rightarrow> is_abs resolved \<and> prefix (path_elems rootReal) (path_elems resolved)) \<and>
    (case resolveWriteTarget cwd real look real' root target of
      Inl e \<Rightarrow> True
    | Inr (rootReal, parent, destination) \<Rightarrow> prefix (path_elems rootReal) (path_elems parent) \<and>
        (\<exists>e. proper e \<and> path_elems destination = path_elems parent @ [e]))"
  using resolved_inside[OF _ assms] write_target_inside[OF _ assms] by (auto split: sum.split)

lemma demo_clean: "path_clean ''/w'' = ''/w''" "path_clean ''/w/b'' = ''/w/b''"
  using clean_abs_path[of "[''w'']"] clean_abs_path[of "[''w'', ''b'']"] by (simp_all add: abs_path_def proper_def)

lemma demo_join: "path_join [''/w'', ''a/../b''] = ''/w/b''"
  by code_simp

lemma demo_trim: "trim_space ''/w'' = ''/w''"
  by code_simp

lemma demo_trim_target: "trim_space ''a/../b'' = ''a/../b''"
  by code_simp

lemma demo_within: "within ''/w'' ''/w/b''"
  using within_elems[of "[''w'']" "[''w'', ''b'']"] by (simp add: abs_path_def proper_def)

lemma demo_abs: "is_abs ''/w''" "\<not> is_abs ''a/../b''"
  by (simp_all add: is_abs_def has_prefix_def)

theorem file_paths_stay_inside_witness:
  "resolveExisting ''/'' Some ''/w'' ''a/../b'' = Inr (''/w'', ''/w/b'') \<and> prefix (path_elems ''/w'') (path_elems ''/w/b'')"
proof -
  have r: "resolveExisting ''/'' Some ''/w'' ''a/../b'' = Inr (''/w'', ''/w/b'')"
    by (simp add: resolveExisting_def prepareRoot_def lexicalTarget_def demo_clean demo_join demo_trim demo_trim_target demo_within demo_abs Let_def)
  have "is_abs ''/''" by (simp add: is_abs_def has_prefix_def)
  from file_paths_stay_inside[OF this, of Some "''/w''" "''a/../b''"] r show ?thesis by simp
qed

section \<open>A history with a gap\<close>

text \<open>
  \<open>RecordEdit\<close> does not check that the view it changes is of the version that was edited.  If an earlier
  edit is missing from the messages that the state is rebuilt from, the view is complete and has the
  digest of the current file, but not its text, and it authorises a write over the whole file.
\<close>

lemma missing_edit_goes_unnoticed:
  fixes r log st
  defines "r \<equiv> numberedLinesResult ''f'' (page_of 1 2000 ''a b'')"
  defines "log \<equiv> [(ReadSeen r, ''a b''), (EditSeen ''f'' ''a'' ''x'' False (sha256_hex ''x b''), ''x b''),
      (EditSeen ''f'' ''b'' ''y'' False (sha256_hex ''x y''), ''x y'')]"
  defines "st \<equiv> rebuild_state [fst (log ! 0), fst (log ! 2)]"
  shows "coherent Map.empty log \<and>
    (\<exists>ob. st (path_clean ''f'') = Some ob \<and> obComplete ob \<and> obText ob = ''a y'' \<and> obSha ob = sha256_hex ''x y'') \<and>
    ExpectedWrite ''f'' st = Inr (sha256_hex ''x y'', False)"
proof -
  have g: "genuine ''a b'' r" unfolding r_def by (rule genuine_page[OF small_readable(2)]) simp_all
  have p: "rcPath (rrReceipt r) = ''f''" by (simp add: r_def result_receipt)
  have c: "coherent Map.empty log" using g by (simp add: log_def p replace_n_def has_prefix_def)
  obtain ob where ob: "ObserveRead r (\<lambda>_. None) (path_clean ''f'') = Some ob" "sees ''a b'' ob" "obComplete ob"
    unfolding r_def by (rule one_page[OF small_readable(2) small_lines(2,4), of "''f''" 2000 "\<lambda>_. None"]) simp_all
  have "obText ob = ''a b''" using ob(2,3) by (simp add: sees_def)
  then have st: "st (path_clean ''f'') = Some (ob\<lparr>obText := ''a y'', obSha := sha256_hex ''x y''\<rparr>)"
    using ob(1,3) by (simp add: st_def log_def rebuild_state_def RecordEdit_def Let_def replace_n_def has_prefix_def)
  with c ob(3) show ?thesis by (simp add: ExpectedWrite_def)
qed

end
